(* ===== verification/Prelude.thy ===== *)
theory Prelude
  imports Main "HOL-Library.Word"
begin

text \<open>
  Shared vocabulary of the development.

  A goroutine is named by a natural number, a waiter object by its address. The scheduler of
  the Go runtime is an arbitrary interleaving: a machine is a function \<open>exec\<close> that performs one
  atomic action of one goroutine (an atomic load, store, add or compare-and-swap, a channel
  operation, a queue operation at its linearization point), and returns \<open>None\<close> where the
  goroutine is blocked or the call is not allowed. Everything the code reads from outside (the
  clock, the choice a \<^verbatim>\<open>select\<close> makes between two ready channels, the object \<^verbatim>\<open>sync.Pool.Get\<close>
  hands out) is in the record \<open>inp\<close> that comes with the action, so a theorem about all runs
  covers every clock, every choice and every schedule.

  The locales hold what every machine of the library shares: invariants of reachable states and
  simulations of a detailed machine by an abstract one.
\<close>

named_theorems machine_simps \<open>unfolding rules of the step functions\<close>
named_theorems store_simps \<open>how the waiter store and the queues react to their operations\<close>

type_synonym tid = nat
type_synonym wid = nat
type_synonym int32 = "32 word"
type_synonym int64 = "64 word"

record inp =
  now :: int
  ctxArm :: bool
  pick :: nat

text \<open>\<^verbatim>\<open>time.Since(start).Nanoseconds()\<close>, an \<^verbatim>\<open>int64\<close>.\<close>

definition elapsed :: "inp \<Rightarrow> int \<Rightarrow> int64" where
  "elapsed i b = word_of_int (now i - b)"

datatype 'op event = Invoke tid inp 'op | Go tid inp

fun event_inp :: "'op event \<Rightarrow> inp" where
  "event_inp (Invoke t i op) = i"
| "event_inp (Go t i) = i"

fun event_tid :: "'op event \<Rightarrow> tid" where
  "event_tid (Invoke t i op) = t"
| "event_tid (Go t i) = t"

text \<open>The runs in which no context is ever done and no timer fires.\<close>

definition uncancelled ::
    "('op event \<Rightarrow> 's \<Rightarrow> 's option) \<Rightarrow> 'op event \<Rightarrow> 's \<Rightarrow> 's option" where
  "uncancelled exec e s = (if ctxArm (event_inp e) then None else exec e s)"

definition inp0 :: inp where
  "inp0 = \<lparr>now = 0, ctxArm = False, pick = 0\<rparr>"

definition inpDone :: inp where
  "inpDone = \<lparr>now = 0, ctxArm = True, pick = 0\<rparr>"

fun run :: "('e \<Rightarrow> 's \<Rightarrow> 's option) \<Rightarrow> 'e list \<Rightarrow> 's \<Rightarrow> 's option" where
  "run exec [] s = Some s"
| "run exec (e # es) s = (case exec e s of None \<Rightarrow> None | Some s' \<Rightarrow> run exec es s')"

inductive reachable :: "('e \<Rightarrow> 's \<Rightarrow> 's option) \<Rightarrow> 's \<Rightarrow> 's \<Rightarrow> bool"
  for exec :: "'e \<Rightarrow> 's \<Rightarrow> 's option" and init :: 's where
  reachable_init: "reachable exec init init"
| reachable_step: "reachable exec init s \<Longrightarrow> exec e s = Some s' \<Longrightarrow> reachable exec init s'"

lemma run_append:
  "run exec (es @ fs) s = (case run exec es s of None \<Rightarrow> None | Some s' \<Rightarrow> run exec fs s')"
  by (induction es arbitrary: s) (auto split: option.splits)

lemma reachable_run_from:
  "reachable exec init s \<Longrightarrow> run exec es s = Some s' \<Longrightarrow> reachable exec init s'"
  by (induction es arbitrary: s) (auto split: option.splits intro: reachable_step)

lemma run_reachable: "run exec es init = Some s \<Longrightarrow> reachable exec init s"
  by (rule reachable_run_from [OF reachable_init])

lemma uncancelled_Some:
  "uncancelled exec e s = Some s' \<longleftrightarrow> \<not> ctxArm (event_inp e) \<and> exec e s = Some s'"
  by (simp add: uncancelled_def)

lemma reachable_imp_run: "reachable exec init s \<Longrightarrow> \<exists>es. run exec es init = Some s"
proof (induction rule: reachable.induct)
  case reachable_init
  show ?case by (rule exI [of _ "[]"]) simp
next
  case (reachable_step s e s')
  then obtain es where "run exec es init = Some s" by blast
  with reachable_step.hyps(2) have "run exec (es @ [e]) init = Some s'"
    by (simp add: run_append)
  then show ?case by blast
qed

text \<open>Fewer actions reach fewer states.\<close>

lemma reachable_mono:
  "reachable exec' init s \<Longrightarrow> (\<And>e s s'. exec' e s = Some s' \<Longrightarrow> exec e s = Some s') \<Longrightarrow>
     reachable exec init s"
  by (induction rule: reachable.induct) (auto intro: reachable.intros)

text \<open>The invariant rule: what holds at the start and is kept by every action holds in every
  reachable state.\<close>

locale invariant_machine =
  fixes exec :: "'e \<Rightarrow> 's \<Rightarrow> 's option"
    and init :: 's
    and inv :: "'s \<Rightarrow> bool"
  assumes inv_init: "inv init"
    and inv_exec: "inv s \<Longrightarrow> exec e s = Some s' \<Longrightarrow> inv s'"
begin

lemma reachable_inv: "reachable exec init s \<Longrightarrow> inv s"
  by (induction rule: reachable.induct) (auto intro: inv_init inv_exec)

lemma run_inv: "inv s \<Longrightarrow> run exec es s = Some s' \<Longrightarrow> inv s'"
  by (induction es arbitrary: s) (auto split: option.splits dest: inv_exec)

end

text \<open>A simulation: every action of the detailed machine is a sequence of steps (possibly none)
  of the abstract one, related by \<open>R\<close>.\<close>

locale simulation =
  fixes exec :: "'e \<Rightarrow> 'c \<Rightarrow> 'c option"
    and init :: 'c
    and astep :: "'a \<Rightarrow> 'a \<Rightarrow> bool"
    and ainit :: 'a
    and R :: "'c \<Rightarrow> 'a \<Rightarrow> bool"
  assumes sim_init: "R init ainit"
    and sim_step: "R c a \<Longrightarrow> exec e c = Some c' \<Longrightarrow> \<exists>a'. R c' a' \<and> astep\<^sup>*\<^sup>* a a'"
begin

lemma reachable_sim: "reachable exec init c \<Longrightarrow> \<exists>a. R c a \<and> astep\<^sup>*\<^sup>* ainit a"
proof (induction rule: reachable.induct)
  case reachable_init
  show ?case using sim_init by blast
next
  case (reachable_step s e s')
  then show ?case by (meson sim_step rtranclp_trans)
qed

end

text \<open>A functional simulation carries an invariant of the abstract machine over.\<close>

locale abstraction =
  fixes exec :: "'e \<Rightarrow> 'c \<Rightarrow> 'c option"
    and init :: 'c
    and astep :: "'a \<Rightarrow> 'a \<Rightarrow> bool"
    and abs :: "'c \<Rightarrow> 'a"
    and ainv :: "'a \<Rightarrow> bool"
  assumes abs_step: "exec e c = Some c' \<Longrightarrow> astep\<^sup>*\<^sup>* (abs c) (abs c')"
    and ainv_init: "ainv (abs init)"
    and ainv_step: "ainv a \<Longrightarrow> astep a a' \<Longrightarrow> ainv a'"
begin

lemma ainv_steps: "astep\<^sup>*\<^sup>* a a' \<Longrightarrow> ainv a \<Longrightarrow> ainv a'"
  by (induction rule: rtranclp_induct) (auto intro: ainv_step)

lemma reachable_ainv: "reachable exec init c \<Longrightarrow> ainv (abs c)"
  by (induction rule: reachable.induct) (auto intro: ainv_init ainv_steps [OF abs_step])

end

sublocale abstraction \<subseteq> simulation exec init astep "abs init" "\<lambda>c a. a = abs c"
  by unfold_locales (auto dest: abs_step)

text \<open>Schedules with repeated actions unfold by simplification.\<close>

lemma replicate_numeral_Cons [simp]: "replicate (numeral k) x = x # replicate (pred_numeral k) x"
  by (simp add: numeral_eq_Suc)

text \<open>A machine whose operations have one step function each tries them in turn.\<close>

fun orelse :: "'a option \<Rightarrow> 'a option \<Rightarrow> 'a option" where
  "orelse None y = y"
| "orelse (Some x) y = Some x"

lemma orelse_same: "orelse x x = x"
  by (cases x) simp_all

lemmas orelse_simps = orelse.simps orelse_same

subsection \<open>Sums over goroutines\<close>

text \<open>\<open>sums_to f x\<close>: only finitely many goroutines have a share \<open>f t\<close> other than 0, and the shares
  add up to \<open>x\<close>.\<close>

definition sums_to :: "(tid \<Rightarrow> int) \<Rightarrow> int \<Rightarrow> bool" where
  "sums_to f x \<longleftrightarrow> (\<exists>A. finite A \<and> (\<forall>t. t \<notin> A \<longrightarrow> f t = 0) \<and> x = (\<Sum>t\<in>A. f t))"

lemma sums_to_0: "sums_to (\<lambda>_. 0) 0"
  by (auto simp: sums_to_def)

lemma sums_to_upd:
  assumes "sums_to f x" "g = f(t := y)" "z = x - f t + y"
  shows "sums_to g z"
proof -
  obtain A where A: "finite A" "\<forall>t. t \<notin> A \<longrightarrow> f t = 0" "x = (\<Sum>t\<in>A. f t)"
    using assms(1) by (auto simp: sums_to_def)
  let ?A = "insert t A"
  have "x = (\<Sum>t\<in>?A. f t)" using A by (cases "t \<in> A") (simp_all add: insert_absorb)
  then have "x = f t + (\<Sum>u\<in>?A - {t}. f u)" using A(1) by (simp add: sum.remove [of ?A t])
  moreover have "(\<Sum>u\<in>?A. g u) = y + (\<Sum>u\<in>?A - {t}. f u)"
    using A(1) assms(2) by (simp add: sum.remove [of ?A t])
  ultimately have "z = (\<Sum>u\<in>?A. g u)" using assms(3) by simp
  moreover have "\<forall>u. u \<notin> ?A \<longrightarrow> g u = 0" using A(2) assms(2) by simp
  ultimately show ?thesis using A(1) unfolding sums_to_def by blast
qed

lemma sums_to_part:
  assumes "sums_to f x" "\<And>t. 0 \<le> f t" "finite B"
  shows "(\<Sum>t\<in>B. f t) \<le> x"
proof -
  obtain A where A: "finite A" "\<forall>t. t \<notin> A \<longrightarrow> f t = 0" "x = (\<Sum>t\<in>A. f t)"
    using assms(1) by (auto simp: sums_to_def)
  have "(\<Sum>t\<in>B. f t) \<le> (\<Sum>t\<in>A \<union> B. f t)"
    using A(1) assms(2,3) by (intro sum_mono2) auto
  also have "\<dots> = (\<Sum>t\<in>A. f t)"
    using A assms(3) by (intro sum.mono_neutral_right) auto
  finally show ?thesis using A(3) by simp
qed

lemma sums_to_elem: "sums_to f x \<Longrightarrow> (\<And>t. 0 \<le> f t) \<Longrightarrow> f t \<le> x"
  using sums_to_part [of f x "{t}"] by simp

lemma sums_to_pos_ex: "sums_to f x \<Longrightarrow> 0 < x \<Longrightarrow> \<exists>t. 0 < f t"
  unfolding sums_to_def by (metis linorder_not_less sum_nonpos)

lemma sums_to_unique:
  assumes "sums_to f x" "sums_to f y"
  shows "x = y"
proof -
  obtain A B where A: "finite A" "\<forall>t. t \<notin> A \<longrightarrow> f t = 0" "x = (\<Sum>t\<in>A. f t)"
    and B: "finite B" "\<forall>t. t \<notin> B \<longrightarrow> f t = 0" "y = (\<Sum>t\<in>B. f t)"
    using assms unfolding sums_to_def by metis
  have "(\<Sum>t\<in>A \<union> B. f t) = (\<Sum>t\<in>A. f t)" using A(1,2) B(1) by (intro sum.mono_neutral_right) auto
  moreover have "(\<Sum>t\<in>A \<union> B. f t) = (\<Sum>t\<in>B. f t)" using B(1,2) A(1) by (intro sum.mono_neutral_right) auto
  ultimately show ?thesis using A(3) B(3) by simp
qed

subsection \<open>Signed 32-bit arithmetic\<close>

lemma sint32_range: "- (2 ^ 31) \<le> sint (x :: int32)" "sint (x :: int32) < 2 ^ 31"
  using sint_ge [of x] sint_lt [of x] by simp_all

lemma sint32_add: "- (2 ^ 31) \<le> sint x + sint y \<Longrightarrow> sint x + sint y < 2 ^ 31 \<Longrightarrow>
    sint (x + y :: int32) = sint x + sint y"
  by (simp add: sint_word_ariths(1) signed_take_bit_int_eq_self)

lemma sint32_sub: "- (2 ^ 31) \<le> sint x - sint y \<Longrightarrow> sint x - sint y < 2 ^ 31 \<Longrightarrow>
    sint (x - y :: int32) = sint x - sint y"
  by (simp add: sint_word_ariths(2) signed_take_bit_int_eq_self)

end
