(* ===== verification/GoLib.thy ===== *)
theory GoLib
  imports Prelude "HOL-Library.AList"
begin

text \<open>
  The parts of Go and of its standard library that the sequential components use: decimal
  printing of integers (\<^verbatim>\<open>strconv.Itoa\<close>, the verb \<^verbatim>\<open>%d\<close>), \<^verbatim>\<open>strings.Split\<close> with a one-byte separator,
  truncating division, maps that are iterated over (association lists with distinct keys, read with
  \<open>map_of\<close>), and channels with a buffer as lists with a bound.
\<close>

subsection \<open>Decimal numbers\<close>

definition digit :: "nat \<Rightarrow> char" where
  "digit d = char_of (48 + d)"

fun decimal :: "nat \<Rightarrow> string" where
  "decimal n = (if n < 10 then [digit n] else decimal (n div 10) @ [digit (n mod 10)])"

declare decimal.simps [simp del]

definition itoa :: "int \<Rightarrow> string" where
  "itoa i = (if i < 0 then CHR ''-'' # decimal (nat (- i)) else decimal (nat i))"

definition undecimal :: "string \<Rightarrow> nat" where
  "undecimal cs = foldl (\<lambda>n c. 10 * n + (of_char c - 48)) 0 cs"

lemma of_char_digit: "d < 10 \<Longrightarrow> (of_char (digit d) :: nat) = 48 + d"
  by (simp add: digit_def of_char_of)

lemma undecimal_snoc: "undecimal (cs @ [c]) = 10 * undecimal cs + (of_char c - 48)"
  by (simp add: undecimal_def)

lemma undecimal_decimal: "undecimal (decimal n) = n"
proof (induction n rule: decimal.induct)
  case (1 n)
  show ?case
  proof (cases "n < 10")
    case True
    then show ?thesis by (subst decimal.simps) (simp add: undecimal_def of_char_digit)
  next
    case False
    then show ?thesis using 1 by (subst decimal.simps) (simp add: undecimal_snoc of_char_digit)
  qed
qed

lemma decimal_inject [simp]: "decimal m = decimal n \<longleftrightarrow> m = n"
  by (metis undecimal_decimal)

lemma decimal_digits: "c \<in> set (decimal n) \<Longrightarrow> 48 \<le> (of_char c :: nat) \<and> (of_char c :: nat) \<le> 57"
proof (induction n rule: decimal.induct)
  case (1 n)
  show ?case
  proof (cases "n < 10")
    case True
    then show ?thesis using 1 by (subst (asm) (2) decimal.simps) (simp add: of_char_digit)
  next
    case False
    then show ?thesis using 1 by (subst (asm) (2) decimal.simps) (auto simp: of_char_digit)
  qed
qed

lemma decimal_not_Nil [simp]: "decimal n \<noteq> []"
  by (subst decimal.simps) simp

text \<open>A name in single quotes, as the messages have it.\<close>

definition quoted :: "string \<Rightarrow> string" where
  "quoted name = CHR 0x27 # name @ [CHR 0x27]"

subsection \<open>Splitting\<close>

fun split_on :: "char \<Rightarrow> string \<Rightarrow> string list" where
  "split_on c [] = [[]]"
| "split_on c (x # xs) =
     (if x = c then [] # split_on c xs
      else case split_on c xs of [] \<Rightarrow> [[x]] | p # ps \<Rightarrow> (x # p) # ps)"

lemma split_on_not_Nil [simp]: "split_on c xs \<noteq> []"
  by (induction xs) (auto split: list.splits)

lemma split_on_none: "c \<notin> set xs \<Longrightarrow> split_on c xs = [xs]"
  by (induction xs) auto

lemma split_on_append: "c \<notin> set xs \<Longrightarrow> split_on c (xs @ c # ys) = xs # split_on c ys"
  by (induction xs) auto

lemma split_on_pieces: "p \<in> set (split_on c xs) \<Longrightarrow> c \<notin> set p"
proof (induction xs arbitrary: p)
  case (Cons x xs)
  then show ?case by (cases "split_on c xs") (auto split: if_splits)
qed simp

text \<open>\<^verbatim>\<open>strings.Join\<close> undoes \<^verbatim>\<open>strings.Split\<close>.\<close>

fun join_with :: "char \<Rightarrow> string list \<Rightarrow> string" where
  "join_with c [] = []"
| "join_with c [p] = p"
| "join_with c (p # q # ps) = p @ c # join_with c (q # ps)"

lemma join_with_Cons: "join_with c ((x # p) # ps) = x # join_with c (p # ps)"
  by (cases ps) simp_all

lemma join_split: "join_with c (split_on c xs) = xs"
proof (induction xs)
  case (Cons x xs)
  obtain p ps where s: "split_on c xs = p # ps" by (cases "split_on c xs") simp_all
  then show ?case using Cons by (auto simp: join_with_Cons)
qed simp

subsection \<open>Integers\<close>

text \<open>Go's integer division truncates towards zero. The quotient of the smallest number by -1 wraps.\<close>

definition go_div :: "int \<Rightarrow> int \<Rightarrow> int" where
  "go_div a b = (if (a < 0) = (b < 0) then \<bar>a\<bar> div \<bar>b\<bar> else - (\<bar>a\<bar> div \<bar>b\<bar>))"

definition sdiv64 :: "int64 \<Rightarrow> int64 \<Rightarrow> int64" where
  "sdiv64 a b = word_of_int (go_div (sint a) (sint b))"

lemma go_div_nonneg: "0 \<le> a \<Longrightarrow> 0 < b \<Longrightarrow> go_div a b = a div b"
  by (simp add: go_div_def)

subsection \<open>Channels with a buffer\<close>

text \<open>The non-blocking send of a \<^verbatim>\<open>select\<close> with a \<^verbatim>\<open>default\<close> branch: \<open>None\<close> is the default branch.\<close>

definition try_send :: "nat \<Rightarrow> 'a \<Rightarrow> 'a list \<Rightarrow> 'a list option" where
  "try_send cap x buf = (if length buf < cap then Some (buf @ [x]) else None)"

subsection \<open>Maps\<close>

type_synonym ('k, 'v) gomap = "('k \<times> 'v) list"

definition gomap_ok :: "('k, 'v) gomap \<Rightarrow> bool" where
  "gomap_ok m \<longleftrightarrow> distinct (map fst m)"

lemma gomap_ok_simps [simp]:
  "gomap_ok []" "gomap_ok m \<Longrightarrow> gomap_ok (AList.update k v m)" "gomap_ok m \<Longrightarrow> gomap_ok (AList.delete k m)"
  by (simp_all add: gomap_ok_def distinct_update AList.distinct_delete)

lemma map_of_put [simp]: "map_of (AList.update k v m) = (map_of m)(k \<mapsto> v)"
  by (simp add: update_conv')

lemma map_of_del [simp]: "map_of (AList.delete k m) = (map_of m)(k := None)"
  by (simp add: delete_conv')

lemma length_update:
  "length (AList.update k v m) = (if map_of m k = None then Suc (length m) else length m)"
  by (induction m) auto

lemma length_delete:
  "gomap_ok m \<Longrightarrow> length (AList.delete k m) = (if map_of m k = None then length m else length m - 1)"
proof (induction m)
  case (Cons p m)
  obtain a b where p: "p = (a, b)" by (cases p)
  have "map_of m a = None" using Cons.prems p by (simp add: gomap_ok_def map_of_eq_None_iff)
  then have "AList.delete a m = m" by (simp add: delete_id map_of_eq_None_iff)
  moreover have "map_of m k \<noteq> None \<Longrightarrow> 0 < length m" by (cases m) auto
  ultimately show ?case using Cons p by (auto simp: gomap_ok_def)
qed simp

text \<open>How many entries of a map satisfy a condition.\<close>

definition gocount :: "('v \<Rightarrow> bool) \<Rightarrow> ('k, 'v) gomap \<Rightarrow> nat" where
  "gocount P m = length (filter (P \<circ> snd) m)"

lemma gocount_simps [simp]:
  "gocount P [] = 0" "gocount P (x # m) = (if P (snd x) then Suc (gocount P m) else gocount P m)"
  by (simp_all add: gocount_def)

lemma gocount_update_new: "map_of m k = None \<Longrightarrow>
    gocount P (AList.update k v m) = gocount P m + (if P v then 1 else 0)"
  by (induction m) (auto split: if_splits)

lemma gocount_update_old: "map_of m k = Some u \<Longrightarrow>
    gocount P (AList.update k v m) + (if P u then 1 else 0) = gocount P m + (if P v then 1 else 0)"
  by (induction m) (auto split: if_splits)

lemma gocount_delete:
  assumes "gomap_ok m"
  shows "gocount P (AList.delete k m) +
    (case map_of m k of None \<Rightarrow> 0 | Some u \<Rightarrow> if P u then 1 else 0) = gocount P m"
  using assms
proof (induction m)
  case (Cons p m)
  obtain a b where p: "p = (a, b)" by (cases p)
  have "map_of m a = None" using Cons.prems p by (simp add: gomap_ok_def map_of_eq_None_iff)
  then have "AList.delete a m = m" by (simp add: delete_id map_of_eq_None_iff)
  then show ?case using Cons p by (auto simp: gomap_ok_def)
qed simp

subsection \<open>Durations\<close>

text \<open>\<^verbatim>\<open>Duration.String\<close>: below a second in the largest of ns, micro- and milliseconds that fits, from
  a second on in hours, minutes and seconds; fractions without trailing zeros.\<close>

primrec digits_n :: "nat \<Rightarrow> nat \<Rightarrow> string" where
  "digits_n 0 v = []"
| "digits_n (Suc n) v = digits_n n (v div 10) @ [digit (v mod 10)]"

definition fmtFrac :: "nat \<Rightarrow> nat \<Rightarrow> string" where
  "fmtFrac v prec =
     (let ds = rev (dropWhile (\<lambda>c. c = CHR ''0'') (rev (digits_n prec v)))
      in if ds = [] then [] else CHR ''.'' # ds)"

definition fmt_unit :: "nat \<Rightarrow> nat \<Rightarrow> string \<Rightarrow> string" where
  "fmt_unit u prec unit = decimal (u div 10 ^ prec) @ fmtFrac u prec @ unit"

definition duration_abs :: "nat \<Rightarrow> string" where
  "duration_abs u =
     (if u = 0 then ''0s''
      else if u < 1000 then fmt_unit u 0 ''ns''
      else if u < 1000000 then fmt_unit u 3 [CHR 0xC2, CHR 0xB5, CHR ''s'']
      else if u < 1000000000 then fmt_unit u 6 ''ms''
      else let s = u div 1000000000; m = s div 60; h = m div 60;
               sec = decimal (s mod 60) @ fmtFrac u 9 @ ''s''
           in if m = 0 then sec
              else if h = 0 then decimal m @ ''m'' @ sec
              else decimal h @ ''h'' @ decimal (m mod 60) @ ''m'' @ sec)"

definition Duration_String :: "int64 \<Rightarrow> string" where
  "Duration_String d =
     (if sint d < 0 then CHR ''-'' # duration_abs (nat (- sint d)) else duration_abs (nat (sint d)))"

subsection \<open>Registries\<close>

text \<open>The scheduler and the metrics collector both keep a table of the primitives that exist; so does
  the server for each connection. \<open>registry\<close> is what they promise about it.\<close>

datatype ('k, 'a) reg_op = RPut 'k 'a | RDel 'k

fun reg_apply :: "('k \<Rightarrow> 'a \<Rightarrow> 's \<Rightarrow> 's) \<Rightarrow> ('k \<Rightarrow> 's \<Rightarrow> 's) \<Rightarrow> ('k, 'a) reg_op \<Rightarrow> 's \<Rightarrow> 's" where
  "reg_apply put del (RPut k a) s = put k a s"
| "reg_apply put del (RDel k) s = del k s"

fun registered :: "('k, 'a) reg_op list \<Rightarrow> 'k \<Rightarrow> bool \<Rightarrow> bool" where
  "registered [] k b = b"
| "registered (RPut k' a # ops) k b = registered ops k (k' = k \<or> b)"
| "registered (RDel k' # ops) k b = registered ops k (k' \<noteq> k \<and> b)"

fun rename_op :: "('a \<Rightarrow> 'b) \<Rightarrow> ('k, 'a) reg_op \<Rightarrow> ('k, 'b) reg_op" where
  "rename_op f (RPut k a) = RPut k (f a)"
| "rename_op f (RDel k) = RDel k"

lemma registered_rename: "registered (map (rename_op f) ops) k b = registered ops k b"
proof (induction ops arbitrary: b)
  case (Cons x xs)
  then show ?case by (cases x) simp_all
qed simp

locale registry =
  fixes put :: "'k \<Rightarrow> 'a \<Rightarrow> 's \<Rightarrow> 's"
    and del :: "'k \<Rightarrow> 's \<Rightarrow> 's"
    and has :: "'s \<Rightarrow> 'k \<Rightarrow> bool"
  assumes has_put: "has (put k a s) k' \<longleftrightarrow> k = k' \<or> has s k'"
    and has_del: "has (del k s) k' \<longleftrightarrow> k \<noteq> k' \<and> has s k'"
begin

lemma has_fold: "has (fold (reg_apply put del) ops s) k = registered ops k (has s k)"
proof (induction ops arbitrary: s)
  case (Cons x xs)
  then show ?case by (cases x) (simp_all add: has_put has_del)
qed simp

end

text \<open>Two registries that see the same calls agree on what exists, whatever else they store.\<close>

locale registry_pair = l: registry put1 del1 has1 + r: registry put2 del2 has2
  for put1 :: "'k \<Rightarrow> 'a \<Rightarrow> 's \<Rightarrow> 's" and del1 has1
    and put2 :: "'k \<Rightarrow> 'b \<Rightarrow> 't \<Rightarrow> 't" and del2 has2
begin

lemma agree:
  "(\<And>k. has1 s k = has2 t k) \<Longrightarrow>
     has1 (fold (reg_apply put1 del1) ops s) k =
     has2 (fold (reg_apply put2 del2) (map (rename_op f) ops) t) k"
  by (simp add: l.has_fold r.has_fold registered_rename)

end

end
