(* ===== verification/Scheduler.thy ===== *)
theory Scheduler
  imports GoLib
begin

text \<open>
  \<^verbatim>\<open>internal/scheduler/scheduler.go\<close>: the registry of primitives and goroutines, its counters, the
  event log and the two background goroutines.

  Every method of the registry runs under \<^verbatim>\<open>mu\<close> from its first to its last line, so it is one
  function on the state; the event log belongs to the event writer and is fed through a channel
  with room for 256 events. \<open>sched_exec\<close> interleaves the calls with the steps of the background
  goroutines. The type variable stands for the type-specific statistics that are only stored and
  handed on.
\<close>

type_synonym PrimitiveType = string

definition TypeRWLock :: PrimitiveType where "TypeRWLock = ''RWLock''"
definition TypeFairRWLock :: PrimitiveType where "TypeFairRWLock = ''FairRWLock''"
definition TypeSemaphore :: PrimitiveType where "TypeSemaphore = ''Semaphore''"
definition TypeMutex :: PrimitiveType where "TypeMutex = ''Mutex''"
definition TypeCondVar :: PrimitiveType where "TypeCondVar = ''CondVar''"
definition TypeBarrier :: PrimitiveType where "TypeBarrier = ''Barrier''"
definition TypeWaitGroup :: PrimitiveType where "TypeWaitGroup = ''WaitGroup''"
definition TypeOnce :: PrimitiveType where "TypeOnce = ''Once''"
definition TypeSingleflight :: PrimitiveType where "TypeSingleflight = ''Singleflight''"

datatype GoroutineState = StateRunning | StateBlocked | StateWaiting | StateFinished

definition maxGoroutines :: nat where
  "maxGoroutines = 10000"

record 'st PrimitiveInfo =
  pID :: string
  pType :: PrimitiveType
  pName :: string
  pCreatedAt :: int
  BlockedCount :: int32
  pStats :: 'st

record GoroutineInfo =
  gID :: "64 word"
  gName :: string
  gState :: GoroutineState
  StartedAt :: int
  FinishedAt :: int
  BlockedOn :: string
  gWaitTime :: int64

record Event =
  Timestamp :: int
  eType :: string
  GoroutineID :: "64 word"
  PrimitiveID :: string
  Message :: string

record SchedulerMetrics =
  sm_TotalPrimitives :: int64
  sm_TotalGoroutines :: int64
  sm_ActiveGoroutines :: nat
  sm_BlockedGoroutines :: nat
  sm_TotalBlocks :: int64
  sm_AvgWaitTime :: int64
  sm_Uptime :: int

record 'st SchedulerUpdate =
  uPrimitives :: "(string, 'st PrimitiveInfo) gomap"
  uGoroutines :: "(64 word, GoroutineInfo) gomap"
  uEvents :: "Event list"
  uMetrics :: SchedulerMetrics

text \<open>The background goroutines that \<^verbatim>\<open>Start\<close> launches: the event writer is in its main loop, in the
  loop that drains the channel after \<^verbatim>\<open>done\<close> was closed, or has returned; the broadcaster is at the
  top of its loop, about to send an update, or has returned.\<close>

datatype wphase = WLoop | WDrain | WReturned
datatype 'st bphase = BLoop | BSend "'st SchedulerUpdate" | BReturned

record 'st Scheduler =
  primitives :: "(string, 'st PrimitiveInfo) gomap"
  goroutines :: "(64 word, GoroutineInfo) gomap"
  totalPrimitives :: int64
  totalGoroutines :: int64
  totalBlocks :: int64
  schTotalWaitTime :: int64
  startTime :: int
  events :: "Event list"
  eventCh :: "Event list"
  maxEvents :: nat
  updateChan :: "'st SchedulerUpdate list"
  sdone :: bool
  running :: bool
  writers :: "wphase list"
  broadcasters :: "'st bphase list"

definition NewScheduler :: "int \<Rightarrow> 'st Scheduler" where
  "NewScheduler t = \<lparr>primitives = [], goroutines = [], totalPrimitives = 0, totalGoroutines = 0,
     totalBlocks = 0, schTotalWaitTime = 0, startTime = t, events = [], eventCh = [], maxEvents = 1000,
     updateChan = [], sdone = False, running = False, writers = [], broadcasters = []\<rparr>"

definition Start :: "'st Scheduler \<Rightarrow> 'st Scheduler" where
  "Start s = s\<lparr>running := True, writers := writers s @ [WLoop], broadcasters := broadcasters s @ [BLoop]\<rparr>"

text \<open>\<^verbatim>\<open>close\<close> of a closed channel panics.\<close>

definition Stop :: "'st Scheduler \<Rightarrow> string + 'st Scheduler" where
  "Stop s = (if running s
      then if sdone s then Inl ''close of closed channel'' else Inr (s\<lparr>running := False, sdone := True\<rparr>)
      else Inr s)"

definition emit :: "Event \<Rightarrow> 'st Scheduler \<Rightarrow> 'st Scheduler" where
  "emit e s = (case try_send 256 e (eventCh s) of None \<Rightarrow> s | Some ch \<Rightarrow> s\<lparr>eventCh := ch\<rparr>)"

definition RegisterPrimitive ::
    "int \<Rightarrow> string \<Rightarrow> PrimitiveType \<Rightarrow> string \<Rightarrow> 'st \<Rightarrow> 'st Scheduler \<Rightarrow> 'st Scheduler" where
  "RegisterPrimitive t pid ptype name stats s =
     (let info = \<lparr>pID = pid, pType = ptype, pName = name, pCreatedAt = t, BlockedCount = 0, pStats = stats\<rparr>
      in emit \<lparr>Timestamp = t, eType = ''PrimitiveCreated'', GoroutineID = 0, PrimitiveID = pid,
               Message = ptype @ '' '' @ quoted name @ '' created''\<rparr>
           (s\<lparr>primitives := AList.update pid info (primitives s),
              totalPrimitives := totalPrimitives s + 1\<rparr>))"

definition UnregisterPrimitive :: "int \<Rightarrow> string \<Rightarrow> 'st Scheduler \<Rightarrow> 'st Scheduler" where
  "UnregisterPrimitive t pid s = (case map_of (primitives s) pid of
      None \<Rightarrow> s
    | Some info \<Rightarrow>
        emit \<lparr>Timestamp = t, eType = ''PrimitiveDestroyed'', GoroutineID = 0, PrimitiveID = pid,
              Message = pType info @ '' '' @ quoted (pName info) @ '' destroyed''\<rparr>
          (s\<lparr>primitives := AList.delete pid (primitives s), totalPrimitives := totalPrimitives s - 1\<rparr>))"

definition UpdatePrimitiveStats :: "string \<Rightarrow> 'st \<Rightarrow> 'st Scheduler \<Rightarrow> 'st Scheduler" where
  "UpdatePrimitiveStats pid stats s = (case map_of (primitives s) pid of
      None \<Rightarrow> s
    | Some info \<Rightarrow> s\<lparr>primitives := AList.update pid (info\<lparr>pStats := stats\<rparr>) (primitives s)\<rparr>)"

definition RegisterGoroutine :: "int \<Rightarrow> 64 word \<Rightarrow> string \<Rightarrow> 'st Scheduler \<Rightarrow> 'st Scheduler" where
  "RegisterGoroutine t gid name s =
     (if maxGoroutines \<le> length (goroutines s) then s
      else let info = \<lparr>gID = gid, gName = name, gState = StateRunning, StartedAt = t, FinishedAt = 0,
                       BlockedOn = [], gWaitTime = 0\<rparr>
           in emit \<lparr>Timestamp = t, eType = ''GoroutineStarted'', GoroutineID = gid, PrimitiveID = [],
                    Message = ''Goroutine '' @ quoted name @ '' started''\<rparr>
                (s\<lparr>goroutines := AList.update gid info (goroutines s),
                   totalGoroutines := totalGoroutines s + 1\<rparr>))"

definition UnregisterGoroutine :: "int \<Rightarrow> 64 word \<Rightarrow> 'st Scheduler \<Rightarrow> 'st Scheduler" where
  "UnregisterGoroutine t gid s = (case map_of (goroutines s) gid of
      None \<Rightarrow> s
    | Some info \<Rightarrow>
        (let s1 = emit \<lparr>Timestamp = t, eType = ''GoroutineFinished'', GoroutineID = gid, PrimitiveID = [],
                        Message = ''Goroutine '' @ quoted (gName info) @ '' finished''\<rparr> s
         in s1\<lparr>goroutines := AList.delete gid (goroutines s1)\<rparr>))"

text \<open>\<^verbatim>\<open>pinfo.BlockedCount++\<close> and \<^verbatim>\<open>--\<close>, if the primitive is registered.\<close>

definition addBlocked :: "int32 \<Rightarrow> string \<Rightarrow> (string, 'st PrimitiveInfo) gomap \<Rightarrow> (string, 'st PrimitiveInfo) gomap" where
  "addBlocked d pid m = (case map_of m pid of
      None \<Rightarrow> m
    | Some pinfo \<Rightarrow> AList.update pid (pinfo\<lparr>BlockedCount := BlockedCount pinfo + d\<rparr>) m)"

definition BlockGoroutine :: "int \<Rightarrow> 64 word \<Rightarrow> string \<Rightarrow> 'st Scheduler \<Rightarrow> 'st Scheduler" where
  "BlockGoroutine t gid pid s = (case map_of (goroutines s) gid of
      None \<Rightarrow> s
    | Some ginfo \<Rightarrow>
        emit \<lparr>Timestamp = t, eType = ''GoroutineBlocked'', GoroutineID = gid, PrimitiveID = pid,
              Message = ''Goroutine '' @ quoted (gName ginfo) @ '' blocked on '' @ quoted pid\<rparr>
          (s\<lparr>goroutines := AList.update gid (ginfo\<lparr>gState := StateBlocked, BlockedOn := pid\<rparr>) (goroutines s),
             primitives := addBlocked 1 pid (primitives s), totalBlocks := totalBlocks s + 1\<rparr>))"

definition UnblockGoroutine :: "int \<Rightarrow> 64 word \<Rightarrow> int64 \<Rightarrow> 'st Scheduler \<Rightarrow> 'st Scheduler" where
  "UnblockGoroutine t gid waitTime s = (case map_of (goroutines s) gid of
      None \<Rightarrow> s
    | Some ginfo \<Rightarrow>
        (let pid = BlockedOn ginfo
         in emit \<lparr>Timestamp = t, eType = ''GoroutineUnblocked'', GoroutineID = gid, PrimitiveID = pid,
                  Message = ''Goroutine '' @ quoted (gName ginfo) @ '' unblocked (waited '' @
                            Duration_String waitTime @ '')''\<rparr>
              (s\<lparr>goroutines := AList.update gid
                   (ginfo\<lparr>gState := StateRunning, BlockedOn := [], gWaitTime := gWaitTime ginfo + waitTime\<rparr>)
                   (goroutines s),
                 primitives := addBlocked (- 1) pid (primitives s),
                 schTotalWaitTime := schTotalWaitTime s + waitTime\<rparr>)))"

definition GetPrimitives :: "'st Scheduler \<Rightarrow> (string, 'st PrimitiveInfo) gomap" where
  "GetPrimitives s = primitives s"

definition GetGoroutines :: "'st Scheduler \<Rightarrow> (64 word, GoroutineInfo) gomap" where
  "GetGoroutines s = goroutines s"

definition GetEvents :: "int \<Rightarrow> 'st Scheduler \<Rightarrow> Event list" where
  "GetEvents limit s =
     (let n = int (length (events s));
          l = (if limit \<le> 0 \<or> n < limit then n else limit)
      in drop (nat (n - l)) (events s))"

definition Scheduler_GetMetrics :: "int \<Rightarrow> 'st Scheduler \<Rightarrow> SchedulerMetrics" where
  "Scheduler_GetMetrics t s =
     \<lparr>sm_TotalPrimitives = totalPrimitives s, sm_TotalGoroutines = totalGoroutines s,
      sm_ActiveGoroutines = gocount (\<lambda>g. gState g = StateRunning \<or> gState g = StateBlocked) (goroutines s),
      sm_BlockedGoroutines = gocount (\<lambda>g. gState g = StateBlocked) (goroutines s),
      sm_TotalBlocks = totalBlocks s,
      sm_AvgWaitTime = (if 0 < sint (totalBlocks s) then sdiv64 (schTotalWaitTime s) (totalBlocks s) else 0),
      sm_Uptime = t - startTime s\<rparr>"

definition appendEvent :: "Event \<Rightarrow> 'st Scheduler \<Rightarrow> 'st Scheduler" where
  "appendEvent e s =
     (let es = events s @ [e]
      in s\<lparr>events := (if maxEvents s < length es then drop (length es - maxEvents s) es else es)\<rparr>)"

text \<open>One round of the event writer. Both arms of its \<^verbatim>\<open>select\<close> may be ready; \<open>ctxArm\<close> says that it
  takes the one of \<^verbatim>\<open>done\<close>. It blocks (\<open>None\<close>) while the channel is empty and \<^verbatim>\<open>done\<close> is open.\<close>

definition eventWriter_step :: "inp \<Rightarrow> nat \<Rightarrow> 'st Scheduler \<Rightarrow> 'st Scheduler option" where
  "eventWriter_step i k s =
     (if k < length (writers s) then
        (case writers s ! k of
           WLoop \<Rightarrow>
             if ctxArm i \<and> sdone s then Some (s\<lparr>writers := (writers s)[k := WDrain]\<rparr>)
             else (case eventCh s of
                     [] \<Rightarrow> None
                   | e # es \<Rightarrow> Some (appendEvent e (s\<lparr>eventCh := es\<rparr>)))
         | WDrain \<Rightarrow>
             (case eventCh s of
                [] \<Rightarrow> Some (s\<lparr>writers := (writers s)[k := WReturned]\<rparr>)
              | e # es \<Rightarrow> Some (appendEvent e (s\<lparr>eventCh := es\<rparr>)))
         | WReturned \<Rightarrow> None)
      else None)"

text \<open>One round of the broadcaster: a tick, at which it collects an update, then the non-blocking
  send, which takes the arm of \<^verbatim>\<open>done\<close> where \<open>ctxArm\<close> says so and skips the update where the channel
  is full.\<close>

definition broadcastUpdates_step :: "inp \<Rightarrow> nat \<Rightarrow> 'st Scheduler \<Rightarrow> 'st Scheduler option" where
  "broadcastUpdates_step i k s =
     (if k < length (broadcasters s) then
        (case broadcasters s ! k of
           BLoop \<Rightarrow>
             if ctxArm i then
               (if sdone s then Some (s\<lparr>broadcasters := (broadcasters s)[k := BReturned]\<rparr>) else None)
             else Some (s\<lparr>broadcasters := (broadcasters s)[k := BSend
                    \<lparr>uPrimitives = GetPrimitives s, uGoroutines = GetGoroutines s,
                     uEvents = GetEvents 100 s, uMetrics = Scheduler_GetMetrics (now i) s\<rparr>]\<rparr>)
         | BSend u \<Rightarrow>
             if ctxArm i \<and> sdone s then Some (s\<lparr>broadcasters := (broadcasters s)[k := BReturned]\<rparr>)
             else (case try_send 100 u (updateChan s) of
                     None \<Rightarrow> if sdone s then None else Some (s\<lparr>broadcasters := (broadcasters s)[k := BLoop]\<rparr>)
                   | Some ch \<Rightarrow> Some (s\<lparr>broadcasters := (broadcasters s)[k := BLoop], updateChan := ch\<rparr>))
         | BReturned \<Rightarrow> None)
      else None)"

text \<open>The calls, and the receive of a consumer of \<^verbatim>\<open>GetUpdateChannel\<close>.\<close>

datatype 'st sched_op =
    SStart | SStop
  | SRegisterPrimitive string PrimitiveType string 'st
  | SUnregisterPrimitive string
  | SUpdatePrimitiveStats string 'st
  | SRegisterGoroutine "64 word" string
  | SUnregisterGoroutine "64 word"
  | SBlock "64 word" string
  | SUnblock "64 word" int64
  | SWriter nat
  | SBroadcast nat
  | SConsume

type_synonym 'st sched_event = "inp \<times> 'st sched_op"

fun sched_exec :: "'st sched_event \<Rightarrow> 'st Scheduler \<Rightarrow> 'st Scheduler option" where
  "sched_exec (i, SStart) s = Some (Start s)"
| "sched_exec (i, SStop) s = (case Stop s of Inl _ \<Rightarrow> None | Inr s' \<Rightarrow> Some s')"
| "sched_exec (i, SRegisterPrimitive pid ty nm st) s = Some (RegisterPrimitive (now i) pid ty nm st s)"
| "sched_exec (i, SUnregisterPrimitive pid) s = Some (UnregisterPrimitive (now i) pid s)"
| "sched_exec (i, SUpdatePrimitiveStats pid st) s = Some (UpdatePrimitiveStats pid st s)"
| "sched_exec (i, SRegisterGoroutine g nm) s = Some (RegisterGoroutine (now i) g nm s)"
| "sched_exec (i, SUnregisterGoroutine g) s = Some (UnregisterGoroutine (now i) g s)"
| "sched_exec (i, SBlock g p) s = Some (BlockGoroutine (now i) g p s)"
| "sched_exec (i, SUnblock g w) s = Some (UnblockGoroutine (now i) g w s)"
| "sched_exec (i, SWriter k) s = eventWriter_step i k s"
| "sched_exec (i, SBroadcast k) s = broadcastUpdates_step i k s"
| "sched_exec (i, SConsume) s =
     (case updateChan s of [] \<Rightarrow> None | u # us \<Rightarrow> Some (s\<lparr>updateChan := us\<rparr>))"

subsection \<open>What the parts leave alone\<close>

lemma emit_simps [simp]:
  "primitives (emit e s) = primitives s" "goroutines (emit e s) = goroutines s"
  "totalPrimitives (emit e s) = totalPrimitives s" "events (emit e s) = events s"
  "maxEvents (emit e s) = maxEvents s" "updateChan (emit e s) = updateChan s"
  "writers (emit e s) = writers s" "sdone (emit e s) = sdone s"
  by (simp_all add: emit_def split: option.splits)

lemma appendEvent_simps [simp]:
  "primitives (appendEvent e s) = primitives s" "goroutines (appendEvent e s) = goroutines s"
  "totalPrimitives (appendEvent e s) = totalPrimitives s" "eventCh (appendEvent e s) = eventCh s"
  "maxEvents (appendEvent e s) = maxEvents s" "updateChan (appendEvent e s) = updateChan s"
  "writers (appendEvent e s) = writers s" "sdone (appendEvent e s) = sdone s"
  by (simp_all add: appendEvent_def Let_def)

lemma emit_room: "length (eventCh s) \<le> 256 \<Longrightarrow> length (eventCh (emit e s)) \<le> 256"
  by (simp add: emit_def try_send_def split: option.splits)

lemma appendEvent_events:
  "events (appendEvent e s) = drop (length (events s) + 1 - maxEvents s) (events s @ [e])"
  by (simp add: appendEvent_def Let_def)

lemma addBlocked_ok [simp]: "gomap_ok m \<Longrightarrow> gomap_ok (addBlocked d pid m)"
  by (simp add: addBlocked_def split: option.splits)

lemma addBlocked_get:
  "map_of (addBlocked d pid m) q =
     (if q = pid then map_option (\<lambda>p. p\<lparr>BlockedCount := BlockedCount p + d\<rparr>) (map_of m q) else map_of m q)"
  by (auto simp: addBlocked_def split: option.splits)

lemmas registry_defs = RegisterPrimitive_def UnregisterPrimitive_def UpdatePrimitiveStats_def
  RegisterGoroutine_def UnregisterGoroutine_def BlockGoroutine_def UnblockGoroutine_def Let_def

text \<open>The background goroutines and the consumer never touch the registry.\<close>

lemma writer_registry:
  assumes "eventWriter_step i k s = Some s'"
  shows "primitives s' = primitives s" "goroutines s' = goroutines s"
    "totalPrimitives s' = totalPrimitives s"
  using assms by (auto simp: eventWriter_step_def split: if_splits wphase.splits list.splits)

lemma broadcast_registry:
  assumes "broadcastUpdates_step i k s = Some s'"
  shows "primitives s' = primitives s" "goroutines s' = goroutines s"
    "totalPrimitives s' = totalPrimitives s"
  using assms
  by (auto simp: broadcastUpdates_step_def split: if_splits bphase.splits option.splits)

lemma start_stop_registry:
  "primitives (Start s) = primitives s" "goroutines (Start s) = goroutines s"
  "totalPrimitives (Start s) = totalPrimitives s"
  "Stop s = Inr s' \<Longrightarrow> primitives s' = primitives s" "Stop s = Inr s' \<Longrightarrow> goroutines s' = goroutines s"
  "Stop s = Inr s' \<Longrightarrow> totalPrimitives s' = totalPrimitives s"
  by (auto simp: Start_def Stop_def split: if_splits)

lemmas background_registry = writer_registry broadcast_registry start_stop_registry

text \<open>The table of primitives is a registry, whatever happens to the event that is emitted.\<close>

lemma RegisterPrimitive_primitives [simp]:
  "primitives (RegisterPrimitive t pid ty nm st s) =
     AList.update pid \<lparr>pID = pid, pType = ty, pName = nm, pCreatedAt = t, BlockedCount = 0, pStats = st\<rparr> (primitives s)"
  by (simp add: RegisterPrimitive_def Let_def)

lemma UnregisterPrimitive_primitives [simp]:
  "primitives (UnregisterPrimitive t pid s) = AList.delete pid (primitives s)"
  by (auto simp: UnregisterPrimitive_def delete_id map_of_eq_None_iff split: option.splits)

interpretation sched_reg: registry
  "\<lambda>pid (t, ty, nm, st). RegisterPrimitive t pid ty nm st" "\<lambda>pid. UnregisterPrimitive t pid"
  "\<lambda>s pid. map_of (primitives s) pid \<noteq> None"
  by unfold_locales (auto split: prod.splits)

subsection \<open>Bounds\<close>

definition sched_ok :: "'st Scheduler \<Rightarrow> bool" where
  "sched_ok s \<longleftrightarrow> gomap_ok (primitives s) \<and> gomap_ok (goroutines s) \<and>
     length (goroutines s) \<le> maxGoroutines \<and> length (eventCh s) \<le> 256 \<and>
     maxEvents s = 1000 \<and> length (events s) \<le> 1000 \<and> length (updateChan s) \<le> 100"

lemma sched_ok_parts:
  assumes "sched_ok s"
  shows "gomap_ok (primitives s)" "gomap_ok (goroutines s)" "length (goroutines s) \<le> maxGoroutines"
    "length (eventCh s) \<le> 256" "maxEvents s = 1000" "length (events s) \<le> 1000" "length (updateChan s) \<le> 100"
  using assms by (simp_all add: sched_ok_def)

lemma eventWriter_ok: "sched_ok s \<Longrightarrow> eventWriter_step i k s = Some s' \<Longrightarrow> sched_ok s'"
  by (auto simp: sched_ok_def eventWriter_step_def appendEvent_events
      split: if_splits wphase.splits list.splits)

lemma broadcast_ok: "sched_ok s \<Longrightarrow> broadcastUpdates_step i k s = Some s' \<Longrightarrow> sched_ok s'"
  by (auto simp: sched_ok_def broadcastUpdates_step_def try_send_def
      split: if_splits bphase.splits option.splits)

lemma delete_length: "gomap_ok m \<Longrightarrow> length (AList.delete k m) \<le> length m"
  by (simp add: length_delete)

lemma update_length_known:
  "map_of m k = Some v \<Longrightarrow> length (AList.update k w m) = length m"
  by (simp add: length_update)

lemma sched_ok_step:
  assumes ok: "sched_ok s" and x: "sched_exec e s = Some s'"
  shows "sched_ok s'"
proof -
  obtain i op where e: "e = (i, op)" by (cases e)
  note parts = sched_ok_parts [OF ok]
  show ?thesis
  proof (cases op)
    case (SWriter k)
    then show ?thesis using e x eventWriter_ok [OF ok] by simp
  next
    case (SBroadcast k)
    then show ?thesis using e x broadcast_ok [OF ok] by simp
  next
    case (SRegisterGoroutine g nm)
    then show ?thesis using e x parts
      by (auto simp: sched_ok_def registry_defs emit_room length_update)
  next
    case (SUnregisterGoroutine g)
    then show ?thesis using e x parts delete_length [OF parts(2), of g]
      by (auto simp: sched_ok_def registry_defs emit_room split: option.splits)
  qed (use e x parts in \<open>auto simp: sched_ok_def registry_defs emit_room update_length_known
         Start_def Stop_def split: option.splits if_splits sum.splits list.splits\<close>)
qed

interpretation sched_inv: invariant_machine sched_exec "NewScheduler t" sched_ok
proof
  show "sched_ok (NewScheduler t :: 'a Scheduler)" by (simp add: sched_ok_def NewScheduler_def)
qed (rule sched_ok_step)

subsection \<open>Blocked goroutines\<close>

definition blockedOn :: "string \<Rightarrow> GoroutineInfo \<Rightarrow> bool" where
  "blockedOn pid g \<longleftrightarrow> gState g = StateBlocked \<and> BlockedOn g = pid"

text \<open>The discipline the counters need: a goroutine is registered under a new number, blocks only while
  it runs, unblocks only while it is blocked and leaves only while it is not; a primitive is registered
  under a free name, and only while nobody is blocked on that name. The server keeps to the rules on
  goroutines; the one on primitives it breaks when a primitive is deleted and created again while
  operations wait on it, see \<open>recreate_run\<close> below.\<close>

fun sched_may_call :: "'st sched_op \<Rightarrow> 'st Scheduler \<Rightarrow> bool" where
  "sched_may_call (SRegisterPrimitive pid ty nm st) s =
     (map_of (primitives s) pid = None \<and> gocount (blockedOn pid) (goroutines s) = 0)"
| "sched_may_call (SRegisterGoroutine g nm) s = (map_of (goroutines s) g = None)"
| "sched_may_call (SUnregisterGoroutine g) s =
     (case map_of (goroutines s) g of None \<Rightarrow> True | Some i \<Rightarrow> gState i \<noteq> StateBlocked)"
| "sched_may_call (SBlock g p) s =
     (case map_of (goroutines s) g of None \<Rightarrow> True | Some i \<Rightarrow> gState i = StateRunning)"
| "sched_may_call (SUnblock g w) s =
     (case map_of (goroutines s) g of None \<Rightarrow> True | Some i \<Rightarrow> gState i = StateBlocked)"
| "sched_may_call _ s = True"

definition sched_disciplined :: "'st sched_event \<Rightarrow> 'st Scheduler \<Rightarrow> 'st Scheduler option" where
  "sched_disciplined e s = (if sched_may_call (snd e) s then sched_exec e s else None)"

definition sched_counts :: "'st Scheduler \<Rightarrow> bool" where
  "sched_counts s \<longleftrightarrow> sched_ok s \<and> totalPrimitives s = of_nat (length (primitives s)) \<and>
     (\<forall>pid info. map_of (primitives s) pid = Some info \<longrightarrow>
        BlockedCount info = of_nat (gocount (blockedOn pid) (goroutines s)))"

lemma sched_counts_parts:
  assumes "sched_counts s"
  shows "sched_ok s" "totalPrimitives s = of_nat (length (primitives s))"
    "map_of (primitives s) pid = Some info \<Longrightarrow> BlockedCount info = of_nat (gocount (blockedOn pid) (goroutines s))"
  using assms by (simp_all add: sched_counts_def)

lemma sched_countsI:
  assumes "sched_ok s" "totalPrimitives s = of_nat (length (primitives s))"
    "\<And>pid info. map_of (primitives s) pid = Some info \<Longrightarrow>
       BlockedCount info = of_nat (gocount (blockedOn pid) (goroutines s))"
  shows "sched_counts s"
  using assms by (simp add: sched_counts_def)

lemma addBlocked_length [simp]: "length (addBlocked d pid m) = length m"
  by (simp add: addBlocked_def length_update split: option.splits)

lemma gocount_block:
  assumes "map_of m g = Some u" "gState u = StateRunning"
  shows "gocount (blockedOn q) (AList.update g (u\<lparr>gState := StateBlocked, BlockedOn := p\<rparr>) m) =
    gocount (blockedOn q) m + (if q = p then 1 else 0)"
  using gocount_update_old [OF assms(1), of "blockedOn q"] assms(2) by (auto simp: blockedOn_def)

lemma gocount_unblock:
  assumes "map_of m g = Some u" "gState u = StateBlocked"
  shows "gocount (blockedOn q) (AList.update g (u\<lparr>gState := StateRunning, BlockedOn := [], gWaitTime := w\<rparr>) m) +
    (if q = BlockedOn u then 1 else 0) = gocount (blockedOn q) m"
  using gocount_update_old [OF assms(1), of "blockedOn q"] assms(2) by (auto simp: blockedOn_def)

lemma gocount_unblock_word:
  assumes "map_of m g = Some u" "gState u = StateBlocked"
  shows "(of_nat (gocount (blockedOn q) (AList.update g
      (u\<lparr>gState := StateRunning, BlockedOn := [], gWaitTime := w\<rparr>) m)) :: int32) =
    of_nat (gocount (blockedOn q) m) - (if q = BlockedOn u then 1 else 0)"
proof -
  have "(of_nat (gocount (blockedOn q) m) :: int32) = of_nat (gocount (blockedOn q) (AList.update g
      (u\<lparr>gState := StateRunning, BlockedOn := [], gWaitTime := w\<rparr>) m) + (if q = BlockedOn u then 1 else 0))"
    by (simp only: gocount_unblock [OF assms, of q w])
  then show ?thesis by simp
qed

lemma sched_counts_step:
  assumes c: "sched_counts s" and x: "sched_disciplined e s = Some s'"
  shows "sched_counts s'"
proof -
  obtain i op where e: "e = (i, op)" by (cases e)
  have m: "sched_may_call op s" and x': "sched_exec (i, op) s = Some s'"
    using x e by (auto simp: sched_disciplined_def split: if_splits)
  note parts = sched_counts_parts [OF c]
  have ok: "sched_ok s'" by (rule sched_ok_step [OF parts(1) x'])
  note k = sched_ok_parts [OF parts(1)]
  show ?thesis
  proof (rule sched_countsI [OF ok])
    have pos: "(of_nat (length (primitives s)) :: int64) - 1 = of_nat (length (primitives s) - Suc 0)"
      if "map_of (primitives s) q = Some y" for q y
      using that by (cases "primitives s") auto
    show "totalPrimitives s' = of_nat (length (primitives s'))"
    proof (cases op)
      case (SUnregisterPrimitive pid)
      then show ?thesis using x' parts(2) pos [of pid]
        by (auto simp: registry_defs length_delete [OF k(1)] split: option.splits)
    qed (use x' m parts(2) in \<open>auto simp: registry_defs length_update background_registry
           split: option.splits sum.splits list.splits if_splits\<close>)
  next
    fix q info assume q: "map_of (primitives s') q = Some info"
    show "BlockedCount info = of_nat (gocount (blockedOn q) (goroutines s'))"
    proof (cases op)
      case (SBlock g p)
      then show ?thesis using x' m q parts(3) [of q]
        by (auto simp: registry_defs addBlocked_get gocount_block split: option.splits if_splits)
    next
      case (SUnblock g w)
      then show ?thesis using x' m q parts(3) [of q]
        by (auto simp: registry_defs addBlocked_get gocount_unblock_word split: option.splits if_splits)
    next
      case (SRegisterGoroutine g nm)
      then show ?thesis using x' m q parts(3) [of q]
        by (auto simp: registry_defs gocount_update_new blockedOn_def split: if_splits)
    next
      case (SUnregisterGoroutine g)
      then show ?thesis using x' m q parts(3) [of q] gocount_delete [OF k(2), of "blockedOn q" g]
        by (auto simp: registry_defs blockedOn_def split: option.splits)
    qed (use x' m q parts(3) [of q] in \<open>auto simp: registry_defs background_registry
           split: option.splits sum.splits list.splits if_splits\<close>)
  qed
qed

interpretation sched_count: invariant_machine sched_disciplined "NewScheduler t" sched_counts
proof
  show "sched_counts (NewScheduler t :: 'a Scheduler)"
    by (simp add: sched_counts_def sched_ok_def NewScheduler_def)
qed (rule sched_counts_step)

subsection \<open>The event writer\<close>

text \<open>The log keeps the newest events: appending one after the other keeps the last \<^verbatim>\<open>maxEvents\<close>.\<close>

lemma fold_appendEvent:
  assumes "length (events s) \<le> maxEvents s"
  shows "events (fold appendEvent es s) =
     drop (length (events s) + length es - maxEvents s) (events s @ es)"
  using assms
proof (induction es arbitrary: s)
  case (Cons e es)
  let ?s = "appendEvent e s"
  have l: "length (events ?s) \<le> maxEvents ?s" by (simp add: appendEvent_events)
  have "events ?s @ es = drop (length (events s) + 1 - maxEvents s) (events s @ e # es)"
    using Cons.prems by (cases "maxEvents s") (simp_all add: appendEvent_events)
  then have "events (fold appendEvent es ?s) = drop (length (events ?s) + length es - maxEvents s)
      (drop (length (events s) + 1 - maxEvents s) (events s @ e # es))"
    using Cons.IH [OF l] by simp
  moreover have "length (events ?s) + length es - maxEvents s + (length (events s) + 1 - maxEvents s) =
      length (events s) + length (e # es) - maxEvents s"
    using Cons.prems by (simp only: appendEvent_events length_drop length_append list.size)
  ultimately show ?case by (simp only: drop_drop fold_simps)
qed simp

lemma fold_appendEvent_frame [simp]:
  "eventCh (fold appendEvent es s) = eventCh s" "writers (fold appendEvent es s) = writers s"
  "primitives (fold appendEvent es s) = primitives s" "maxEvents (fold appendEvent es s) = maxEvents s"
  by (induction es arbitrary: s) simp_all

lemma appendEvent_ch: "appendEvent e (s\<lparr>eventCh := c\<rparr>) = (appendEvent e s)\<lparr>eventCh := c\<rparr>"
  by (simp add: appendEvent_def Let_def)

lemma drain_run:
  assumes "k < length (writers s)" "writers s ! k = WDrain"
  shows "run sched_exec (replicate (Suc (length (eventCh s))) (i, SWriter k)) s =
    Some ((fold appendEvent (eventCh s) s)\<lparr>eventCh := [], writers := (writers s)[k := WReturned]\<rparr>)"
  using assms
proof (induction "eventCh s" arbitrary: s)
  case Nil
  then show ?case by (simp add: eventWriter_step_def)
next
  case (Cons e es)
  let ?s = "appendEvent e (s\<lparr>eventCh := es\<rparr>)"
  have ch: "eventCh s = e # es" using Cons.hyps(2) by simp
  have "sched_exec (i, SWriter k) s = Some ?s" using Cons.prems ch by (simp add: eventWriter_step_def)
  moreover have "run sched_exec (replicate (Suc (length es)) (i, SWriter k)) ?s =
      Some ((fold appendEvent es ?s)\<lparr>eventCh := [], writers := (writers s)[k := WReturned]\<rparr>)"
    using Cons.hyps(1) [of ?s] Cons.prems by simp
  moreover have "(fold appendEvent es ?s)\<lparr>eventCh := []\<rparr> = (fold appendEvent (e # es) s)\<lparr>eventCh := []\<rparr>"
  proof -
    have "(fold appendEvent es (u\<lparr>eventCh := c\<rparr>))\<lparr>eventCh := []\<rparr> = (fold appendEvent es u)\<lparr>eventCh := []\<rparr>"
      for u :: "'a Scheduler" and c
      by (induction es arbitrary: u) (simp_all add: appendEvent_ch)
    then show ?thesis by (simp add: appendEvent_ch)
  qed
  ultimately show ?case using ch by simp
qed

subsection \<open>Properties\<close>

text \<open>Nothing the scheduler stores grows without bound: in every reachable state at most 10000
  goroutines are registered, the event log holds at most 1000 events, the event channel 256 and the
  update channel 100, and no key occurs twice in the maps.\<close>

lemma scheduler_bounds:
  assumes "reachable sched_exec (NewScheduler t) s"
  shows "length (goroutines s) \<le> 10000 \<and> length (events s) \<le> 1000 \<and> length (eventCh s) \<le> 256 \<and>
    length (updateChan s) \<le> 100 \<and> distinct (map fst (primitives s)) \<and> distinct (map fst (goroutines s))"
  using sched_ok_parts [OF sched_inv.reachable_inv [OF assms]]
  by (simp add: gomap_ok_def maxGoroutines_def)

lemma scheduler_bounds_witness:
  "\<exists>s. run sched_exec [(inp0, SRegisterGoroutine 7 ''op'')] (NewScheduler 0 :: unit Scheduler) = Some s \<and>
     length (goroutines s) = 1 \<and> length (events s) \<le> 1000"
proof -
  obtain s where r: "run sched_exec [(inp0, SRegisterGoroutine 7 ''op'')] (NewScheduler 0 :: unit Scheduler) = Some s"
    and l: "length (goroutines s) = 1"
    by (simp add: NewScheduler_def registry_defs maxGoroutines_def)
  show ?thesis using r l scheduler_bounds [OF run_reachable [OF r]] by blast
qed

text \<open>C24. The counters are right as long as the callers keep to \<open>sched_may_call\<close>: they pair their calls for
  each goroutine, and they register a primitive only under a free name on which nobody is blocked.
  Then \<^verbatim>\<open>BlockedCount\<close> of a registered primitive is, as a signed number, how many goroutines are blocked on it, and
  \<^verbatim>\<open>totalPrimitives\<close> is the number of registered primitives.\<close>

theorem scheduler_blocked_counts:
  assumes "reachable sched_disciplined (NewScheduler t) s"
  shows "(\<forall>pid info. map_of (primitives s) pid = Some info \<longrightarrow>
      sint (BlockedCount info) = int (gocount (blockedOn pid) (goroutines s))) \<and>
    totalPrimitives s = of_nat (length (primitives s))"
proof -
  have c: "sched_counts s" by (rule sched_count.reachable_inv [OF assms])
  have "length (goroutines s) \<le> 10000"
    using sched_ok_parts(3) [OF sched_counts_parts(1) [OF c]] by (simp add: maxGoroutines_def)
  then have "gocount P (goroutines s) < 2 ^ 31" for P
    using length_filter_le [of "P \<circ> snd" "goroutines s"] unfolding gocount_def
    by (elim order_le_less_trans order_trans [rotated]) simp
  then have "sint (of_nat (gocount P (goroutines s)) :: int32) = int (gocount P (goroutines s))" for P
    by (subst signed_of_nat) (simp add: signed_take_bit_int_eq_self)
  then show ?thesis using sched_counts_parts(2,3) [OF c] by simp
qed

theorem scheduler_blocked_counts_witness:
  "\<exists>s info. run sched_disciplined [(inp0, SRegisterPrimitive ''m'' TypeMutex ''m'' ()),
       (inp0, SRegisterGoroutine 1 ''g''), (inp0, SBlock 1 ''m'')] (NewScheduler 0) = Some s \<and>
     map_of (primitives s) ''m'' = Some info \<and> gocount (blockedOn ''m'') (goroutines s) = 1 \<and>
     sint (BlockedCount info) = 1"
proof -
  obtain s info where r: "run sched_disciplined [(inp0, SRegisterPrimitive ''m'' TypeMutex ''m'' ()),
       (inp0, SRegisterGoroutine 1 ''g''), (inp0, SBlock 1 ''m'')] (NewScheduler 0) = Some s"
    and i: "map_of (primitives s) ''m'' = Some info" "gocount (blockedOn ''m'') (goroutines s) = 1"
    by (simp add: sched_disciplined_def NewScheduler_def registry_defs maxGoroutines_def emit_def
        try_send_def addBlocked_def blockedOn_def)
  show ?thesis using r i scheduler_blocked_counts [OF run_reachable [OF r]] by auto
qed

text \<open>\<^verbatim>\<open>eventWriter\<close> does not lose what it was sent: once it has seen that \<^verbatim>\<open>done\<close> is closed, it
  returns after one round per queued event and one more, the channel is empty, and the log is the
  newest 1000 of the logged and the queued events, in order.\<close>

lemma event_writer_drains:
  assumes "reachable sched_exec (NewScheduler t) s" "k < length (writers s)" "writers s ! k = WDrain"
  shows "\<exists>s'. run sched_exec (replicate (Suc (length (eventCh s))) (i, SWriter k)) s = Some s' \<and>
    writers s' ! k = WReturned \<and> eventCh s' = [] \<and>
    events s' = drop (length (events s) + length (eventCh s) - 1000) (events s @ eventCh s)"
proof -
  note ok = sched_ok_parts [OF sched_inv.reachable_inv [OF assms(1)]]
  show ?thesis using ok(5,6) assms(2)
    by (subst drain_run [OF assms(2,3)]) (simp add: fold_appendEvent)
qed

definition drain_demo :: "unit sched_event list" where
  "drain_demo = [(inp0, SStart), (inp0, SRegisterGoroutine 1 ''g''), (inp0, SStop), (inpDone, SWriter 0)]"

lemma event_writer_drains_witness:
  "\<exists>s s'. run sched_exec drain_demo (NewScheduler 0) = Some s \<and> length (eventCh s) = 1 \<and>
     run sched_exec (replicate 2 (inp0, SWriter 0)) s = Some s' \<and> eventCh s' = [] \<and> length (events s') = 1"
proof -
  obtain s where r: "run sched_exec drain_demo (NewScheduler 0) = Some s"
    and s: "length (eventCh s) = 1" "events s = []" "0 < length (writers s)" "writers s ! 0 = WDrain"
    by (simp add: drain_demo_def NewScheduler_def Start_def Stop_def registry_defs maxGoroutines_def
        emit_def try_send_def eventWriter_step_def inpDone_def)
  from event_writer_drains [OF run_reachable [OF r] s(3,4), of inp0] s
  obtain s' where "run sched_exec (replicate 2 (inp0, SWriter 0)) s = Some s'" "eventCh s' = []"
      "length (events s') = 1" by (auto simp: numeral_2_eq_2)
  with r s show ?thesis by blast
qed

text \<open>A primitive that is deleted and created again under the same name while a goroutine is
  still blocked on it ends with a negative \<^verbatim>\<open>BlockedCount\<close>: the goroutine's \<^verbatim>\<open>UnblockGoroutine\<close> is
  counted against the new entry.\<close>

definition recreate_run :: "unit sched_event list" where
  "recreate_run = [(inp0, SRegisterPrimitive ''m'' TypeMutex ''m'' ()), (inp0, SRegisterGoroutine 1 ''g''),
     (inp0, SBlock 1 ''m''), (inp0, SUnregisterPrimitive ''m''),
     (inp0, SRegisterPrimitive ''m'' TypeMutex ''m'' ()), (inp0, SUnblock 1 5), (inp0, SUnregisterGoroutine 1)]"

lemma scheduler_recreate_negative_count:
  "\<exists>s info. run sched_exec recreate_run (NewScheduler 0) = Some s \<and> goroutines s = [] \<and>
     map_of (primitives s) ''m'' = Some info \<and> sint (BlockedCount info) = - 1"
  by (simp add: recreate_run_def NewScheduler_def registry_defs maxGoroutines_def emit_def
      try_send_def addBlocked_def)

text \<open>\<^verbatim>\<open>GetEvents\<close> returns the newest events: all of them for a limit of 0 or less.\<close>

lemma GetEvents_last:
  "0 < limit \<Longrightarrow> GetEvents limit s = drop (length (events s) - nat limit) (events s)"
  "limit \<le> 0 \<Longrightarrow> GetEvents limit s = events s"
proof -
  show "GetEvents limit s = events s" if "limit \<le> 0" using that by (simp add: GetEvents_def Let_def)
  show "GetEvents limit s = drop (length (events s) - nat limit) (events s)" if "0 < limit"
  proof (cases "int (length (events s)) < limit")
    case False
    then have "nat (int (length (events s)) - limit) = length (events s) - nat limit"
      using that by linarith
    then show ?thesis using False that by (simp add: GetEvents_def Let_def)
  qed (simp add: GetEvents_def Let_def)
qed

end
