(* ===== verification/Metrics.thy ===== *)
theory Metrics
  imports GoLib
begin

text \<open>
  \<^verbatim>\<open>internal/metrics/metrics.go\<close>: the metrics collector. The table of primitives is guarded by \<^verbatim>\<open>mu\<close>;
  the fields of an entry are separate atomic variables. A recording method is one function here:
  its updates of different fields are independent of each other, and each compare-and-swap loop
  ends with the value it has when nobody interferes.

  The bounds of the buckets are kept in nanoseconds; \<^verbatim>\<open>float64(bound) / 1e9\<close> is the constructor
  \<open>LeSeconds\<close>.
\<close>

definition defaultHistBoundaries :: "int64 list" where
  "defaultHistBoundaries = [100000, 500000, 1000000, 5000000, 10000000, 50000000, 100000000,
     500000000, 1000000000]"

datatype le_bound = LeSeconds int64 | LeInf

record HistogramBucket =
  Le :: le_bound
  Count :: int64

record PrimitiveMetrics =
  mType :: string
  mName :: string
  Acquires :: int64
  Releases :: int64
  Waits :: int64
  Timeouts :: int64
  TotalWaitTime :: int64
  MinWaitTime :: int64
  MaxWaitTime :: int64
  HistBuckets :: "int64 list"
  HistCounts :: "int64 list"
  HistInf :: int64
  CurrentHolders :: int32
  CurrentWaiters :: int32
  ContentionEvents :: int64
  MaxContentionSeen :: int32
  mCreatedAt :: int

record MetricsCollector =
  mstartTime :: int
  lockContentions :: int64
  primitiveMetrics :: "(string, PrimitiveMetrics) gomap"
  histBoundaries :: "int64 list"

record PrimitiveMetricsSnapshot =
  ps_Type :: string
  ps_Name :: string
  ps_Acquires :: int64
  ps_Releases :: int64
  ps_Waits :: int64
  ps_Timeouts :: int64
  ps_TotalWaitTime :: int64
  ps_MinWaitTime :: int64
  ps_MaxWaitTime :: int64
  ps_AvgWaitTime :: int64
  ps_CurrentHolders :: int32
  ps_CurrentWaiters :: int32
  ps_ContentionEvents :: int64
  ps_MaxContentionSeen :: int32
  ps_Age :: int
  ps_Histogram :: "HistogramBucket list"

record GlobalMetrics =
  gm_TotalPrimitives :: nat
  gm_TotalAcquires :: int64
  gm_TotalReleases :: int64
  gm_TotalWaits :: int64
  gm_TotalTimeouts :: int64
  gm_TotalContentions :: int64
  gm_AvgWaitTime :: int64
  gm_Uptime :: int

definition NewMetricsCollectorWithBuckets :: "int \<Rightarrow> int64 list \<Rightarrow> MetricsCollector" where
  "NewMetricsCollectorWithBuckets t buckets =
     \<lparr>mstartTime = t, lockContentions = 0, primitiveMetrics = [],
      histBoundaries = (if buckets = [] then defaultHistBoundaries else buckets)\<rparr>"

definition NewMetricsCollector :: "int \<Rightarrow> MetricsCollector" where
  "NewMetricsCollector t = NewMetricsCollectorWithBuckets t []"

definition Metrics_RegisterPrimitive :: "int \<Rightarrow> string \<Rightarrow> string \<Rightarrow> string \<Rightarrow> MetricsCollector \<Rightarrow> MetricsCollector" where
  "Metrics_RegisterPrimitive t pid ptype name mc =
     (let pm = \<lparr>mType = ptype, mName = name, Acquires = 0, Releases = 0, Waits = 0, Timeouts = 0,
                TotalWaitTime = 0, MinWaitTime = 0, MaxWaitTime = 0, HistBuckets = histBoundaries mc,
                HistCounts = replicate (length (histBoundaries mc)) 0, HistInf = 0,
                CurrentHolders = 0, CurrentWaiters = 0, ContentionEvents = 0, MaxContentionSeen = 0,
                mCreatedAt = t\<rparr>
      in mc\<lparr>primitiveMetrics := AList.update pid pm (primitiveMetrics mc)\<rparr>)"

definition GetHistogramBoundaries :: "MetricsCollector \<Rightarrow> int64 list" where
  "GetHistogramBoundaries mc = histBoundaries mc"

definition Metrics_UnregisterPrimitive :: "string \<Rightarrow> MetricsCollector \<Rightarrow> MetricsCollector" where
  "Metrics_UnregisterPrimitive pid mc = mc\<lparr>primitiveMetrics := AList.delete pid (primitiveMetrics mc)\<rparr>"

text \<open>The recording methods look the entry up and do nothing if there is none.\<close>

definition withMetrics ::
    "string \<Rightarrow> (PrimitiveMetrics \<Rightarrow> PrimitiveMetrics) \<Rightarrow> MetricsCollector \<Rightarrow> MetricsCollector" where
  "withMetrics pid f mc = (case map_of (primitiveMetrics mc) pid of
      None \<Rightarrow> mc | Some pm \<Rightarrow> mc\<lparr>primitiveMetrics := AList.update pid (f pm) (primitiveMetrics mc)\<rparr>)"

definition RecordAcquire :: "string \<Rightarrow> int32 \<Rightarrow> MetricsCollector \<Rightarrow> MetricsCollector" where
  "RecordAcquire pid holders =
     withMetrics pid (\<lambda>pm. pm\<lparr>Acquires := Acquires pm + 1, CurrentHolders := holders\<rparr>)"

definition RecordRelease :: "string \<Rightarrow> int32 \<Rightarrow> MetricsCollector \<Rightarrow> MetricsCollector" where
  "RecordRelease pid holders =
     withMetrics pid (\<lambda>pm. pm\<lparr>Releases := Releases pm + 1, CurrentHolders := holders\<rparr>)"

definition RecordTimeout :: "string \<Rightarrow> MetricsCollector \<Rightarrow> MetricsCollector" where
  "RecordTimeout pid = withMetrics pid (\<lambda>pm. pm\<lparr>Timeouts := Timeouts pm + 1\<rparr>)"

text \<open>The loop over the buckets stops at the first bound that is not smaller.\<close>

fun bucketIndex :: "int64 \<Rightarrow> int64 list \<Rightarrow> nat option" where
  "bucketIndex w [] = None"
| "bucketIndex w (b # bs) = (if sint w \<le> sint b then Some 0 else map_option Suc (bucketIndex w bs))"

definition recordBucket :: "int64 \<Rightarrow> PrimitiveMetrics \<Rightarrow> PrimitiveMetrics" where
  "recordBucket w pm = (case bucketIndex w (HistBuckets pm) of
      Some i \<Rightarrow> pm\<lparr>HistCounts := (HistCounts pm)[i := HistCounts pm ! i + 1]\<rparr>
    | None \<Rightarrow> pm\<lparr>HistInf := HistInf pm + 1\<rparr>)"

definition updateMin :: "int64 \<Rightarrow> PrimitiveMetrics \<Rightarrow> PrimitiveMetrics" where
  "updateMin w pm =
     (if MinWaitTime pm = 0 \<or> sint w < sint (MinWaitTime pm) then pm\<lparr>MinWaitTime := w\<rparr> else pm)"

definition updateMax :: "int64 \<Rightarrow> PrimitiveMetrics \<Rightarrow> PrimitiveMetrics" where
  "updateMax w pm = (if sint (MaxWaitTime pm) < sint w then pm\<lparr>MaxWaitTime := w\<rparr> else pm)"

definition recordContention :: "int32 \<Rightarrow> PrimitiveMetrics \<Rightarrow> PrimitiveMetrics" where
  "recordContention waiters pm =
     (let pm1 = pm\<lparr>ContentionEvents := ContentionEvents pm + 1\<rparr>
      in if sint (MaxContentionSeen pm1) < sint waiters then pm1\<lparr>MaxContentionSeen := waiters\<rparr> else pm1)"

definition recordWaitEntry :: "int64 \<Rightarrow> int32 \<Rightarrow> PrimitiveMetrics \<Rightarrow> PrimitiveMetrics" where
  "recordWaitEntry w waiters pm =
     (let pm1 = pm\<lparr>Waits := Waits pm + 1, TotalWaitTime := TotalWaitTime pm + w, CurrentWaiters := waiters\<rparr>;
          pm2 = updateMax w (updateMin w (recordBucket w pm1))
      in if 1 < sint waiters then recordContention waiters pm2 else pm2)"

definition RecordWait :: "string \<Rightarrow> int64 \<Rightarrow> int32 \<Rightarrow> MetricsCollector \<Rightarrow> MetricsCollector" where
  "RecordWait pid w waiters mc = (case map_of (primitiveMetrics mc) pid of
      None \<Rightarrow> mc
    | Some pm \<Rightarrow>
        withMetrics pid (recordWaitEntry w waiters)
          (if 1 < sint waiters then mc\<lparr>lockContentions := lockContentions mc + 1\<rparr> else mc))"

definition histogram :: "PrimitiveMetrics \<Rightarrow> HistogramBucket list" where
  "histogram pm =
     map2 (\<lambda>b c. \<lparr>Le = LeSeconds b, Count = c\<rparr>) (HistBuckets pm) (HistCounts pm) @
     [\<lparr>Le = LeInf, Count = HistInf pm\<rparr>]"

definition GetHistogram :: "string \<Rightarrow> MetricsCollector \<Rightarrow> HistogramBucket list option" where
  "GetHistogram pid mc = map_option histogram (map_of (primitiveMetrics mc) pid)"

definition calculateAvgWaitTime :: "PrimitiveMetrics \<Rightarrow> int64" where
  "calculateAvgWaitTime pm = (if Waits pm = 0 then 0 else sdiv64 (TotalWaitTime pm) (Waits pm))"

definition snapshotOf :: "int \<Rightarrow> PrimitiveMetrics \<Rightarrow> PrimitiveMetricsSnapshot" where
  "snapshotOf t pm =
     \<lparr>ps_Type = mType pm, ps_Name = mName pm, ps_Acquires = Acquires pm, ps_Releases = Releases pm,
      ps_Waits = Waits pm, ps_Timeouts = Timeouts pm, ps_TotalWaitTime = TotalWaitTime pm,
      ps_MinWaitTime = MinWaitTime pm, ps_MaxWaitTime = MaxWaitTime pm,
      ps_AvgWaitTime = calculateAvgWaitTime pm, ps_CurrentHolders = CurrentHolders pm,
      ps_CurrentWaiters = CurrentWaiters pm, ps_ContentionEvents = ContentionEvents pm,
      ps_MaxContentionSeen = MaxContentionSeen pm, ps_Age = t - mCreatedAt pm,
      ps_Histogram = histogram pm\<rparr>"

definition GetPrimitiveMetrics :: "int \<Rightarrow> string \<Rightarrow> MetricsCollector \<Rightarrow> PrimitiveMetricsSnapshot option" where
  "GetPrimitiveMetrics t pid mc = map_option (snapshotOf t) (map_of (primitiveMetrics mc) pid)"

definition GetAllMetrics :: "int \<Rightarrow> MetricsCollector \<Rightarrow> (string, PrimitiveMetricsSnapshot) gomap" where
  "GetAllMetrics t mc =
     fold (\<lambda>pid result. case GetPrimitiveMetrics t pid mc of
             None \<Rightarrow> result | Some snap \<Rightarrow> AList.update pid snap result)
       (map fst (primitiveMetrics mc)) []"

text \<open>The sums run over the entries of the table; the order does not matter.\<close>

definition total :: "(PrimitiveMetrics \<Rightarrow> int64) \<Rightarrow> MetricsCollector \<Rightarrow> int64" where
  "total f mc = fold (\<lambda>(k, pm) n. n + f pm) (primitiveMetrics mc) 0"

definition GetGlobalMetrics :: "int \<Rightarrow> MetricsCollector \<Rightarrow> GlobalMetrics" where
  "GetGlobalMetrics t mc =
     (let totalWaits = total Waits mc; totalWaitTime = total TotalWaitTime mc
      in \<lparr>gm_TotalPrimitives = length (primitiveMetrics mc), gm_TotalAcquires = total Acquires mc,
          gm_TotalReleases = total Releases mc, gm_TotalWaits = totalWaits,
          gm_TotalTimeouts = total Timeouts mc, gm_TotalContentions = total ContentionEvents mc,
          gm_AvgWaitTime = (if 0 < sint totalWaits then sdiv64 totalWaitTime totalWaits else 0),
          gm_Uptime = t - mstartTime mc\<rparr>)"

text \<open>The calls, as a machine.\<close>

datatype metrics_op =
    MRegister string string string
  | MUnregister string
  | MAcquire string int32
  | MRelease string int32
  | MWait string int64 int32
  | MTimeout string

fun metrics_exec :: "inp \<times> metrics_op \<Rightarrow> MetricsCollector \<Rightarrow> MetricsCollector option" where
  "metrics_exec (i, MRegister pid ty nm) mc = Some (Metrics_RegisterPrimitive (now i) pid ty nm mc)"
| "metrics_exec (i, MUnregister pid) mc = Some (Metrics_UnregisterPrimitive pid mc)"
| "metrics_exec (i, MAcquire pid h) mc = Some (RecordAcquire pid h mc)"
| "metrics_exec (i, MRelease pid h) mc = Some (RecordRelease pid h mc)"
| "metrics_exec (i, MWait pid w n) mc = Some (RecordWait pid w n mc)"
| "metrics_exec (i, MTimeout pid) mc = Some (RecordTimeout pid mc)"

subsection \<open>The table\<close>

lemma withMetrics_get:
  "map_of (primitiveMetrics (withMetrics pid f mc)) q =
     (if q = pid then map_option f (map_of (primitiveMetrics mc) q) else map_of (primitiveMetrics mc) q)"
  by (auto simp: withMetrics_def split: option.splits)

lemma withMetrics_frame [simp]:
  "histBoundaries (withMetrics pid f mc) = histBoundaries mc"
  "gomap_ok (primitiveMetrics mc) \<Longrightarrow> gomap_ok (primitiveMetrics (withMetrics pid f mc))"
  by (simp_all add: withMetrics_def split: option.splits)

lemma RecordWait_get:
  "map_of (primitiveMetrics (RecordWait pid w n mc)) q =
     (if q = pid then map_option (recordWaitEntry w n) (map_of (primitiveMetrics mc) q)
      else map_of (primitiveMetrics mc) q)"
  by (auto simp: RecordWait_def withMetrics_get split: option.splits)

lemma RecordWait_frame [simp]:
  "histBoundaries (RecordWait pid w n mc) = histBoundaries mc"
  "gomap_ok (primitiveMetrics mc) \<Longrightarrow> gomap_ok (primitiveMetrics (RecordWait pid w n mc))"
  by (simp_all add: RecordWait_def split: option.splits)

lemma Register_get:
  "map_of (primitiveMetrics (Metrics_RegisterPrimitive t pid ty nm mc)) q =
     (if q = pid then Some \<lparr>mType = ty, mName = nm, Acquires = 0, Releases = 0, Waits = 0, Timeouts = 0,
        TotalWaitTime = 0, MinWaitTime = 0, MaxWaitTime = 0, HistBuckets = histBoundaries mc,
        HistCounts = replicate (length (histBoundaries mc)) 0, HistInf = 0, CurrentHolders = 0,
        CurrentWaiters = 0, ContentionEvents = 0, MaxContentionSeen = 0, mCreatedAt = t\<rparr>
      else map_of (primitiveMetrics mc) q)"
  by (simp add: Metrics_RegisterPrimitive_def Let_def)

interpretation metrics_reg: registry
  "\<lambda>pid (t, ty, nm). Metrics_RegisterPrimitive t pid ty nm" Metrics_UnregisterPrimitive
  "\<lambda>mc pid. map_of (primitiveMetrics mc) pid \<noteq> None"
  by unfold_locales
     (auto simp: Metrics_RegisterPrimitive_def Metrics_UnregisterPrimitive_def Let_def split: prod.splits)

subsection \<open>One entry\<close>

lemma recordBucket_frame [simp]:
  "Waits (recordBucket w pm) = Waits pm" "TotalWaitTime (recordBucket w pm) = TotalWaitTime pm"
  "HistBuckets (recordBucket w pm) = HistBuckets pm" "MinWaitTime (recordBucket w pm) = MinWaitTime pm"
  "MaxWaitTime (recordBucket w pm) = MaxWaitTime pm"
  "length (HistCounts (recordBucket w pm)) = length (HistCounts pm)"
  by (simp_all add: recordBucket_def split: option.splits)

lemma recordWaitEntry_fields [simp]:
  "Waits (recordWaitEntry w n pm) = Waits pm + 1"
  "TotalWaitTime (recordWaitEntry w n pm) = TotalWaitTime pm + w"
  "HistBuckets (recordWaitEntry w n pm) = HistBuckets pm"
  "HistCounts (recordWaitEntry w n pm) = HistCounts (recordBucket w pm)"
  "HistInf (recordWaitEntry w n pm) = HistInf (recordBucket w pm)"
  "MinWaitTime (recordWaitEntry w n pm) = MinWaitTime (updateMin w pm)"
  "MaxWaitTime (recordWaitEntry w n pm) = MaxWaitTime (updateMax w pm)"
  by (simp_all add: recordWaitEntry_def recordContention_def updateMin_def updateMax_def
      recordBucket_def Let_def split: option.splits)

lemma bucketIndex_less: "bucketIndex w bs = Some i \<Longrightarrow> i < length bs"
  by (induction bs arbitrary: i) (auto split: if_splits)

lemma sum_list_bump: "i < length xs \<Longrightarrow> sum_list (xs[i := xs ! i + 1]) = sum_list xs + (1 :: int64)"
proof (induction xs arbitrary: i)
  case (Cons x xs)
  then show ?case by (cases i) (simp_all add: algebra_simps)
qed simp

definition entry_ok :: "int64 list \<Rightarrow> PrimitiveMetrics \<Rightarrow> bool" where
  "entry_ok bs pm \<longleftrightarrow> HistBuckets pm = bs \<and> length (HistCounts pm) = length bs \<and>
     sum_list (HistCounts pm) + HistInf pm = Waits pm"

lemma entry_ok_wait:
  assumes "entry_ok bs pm"
  shows "entry_ok bs (recordWaitEntry w n pm)"
proof (cases "bucketIndex w bs")
  case None
  then show ?thesis using assms by (auto simp: entry_ok_def recordBucket_def)
next
  case (Some i)
  then have "i < length (HistCounts pm)" using bucketIndex_less [of w bs i] assms by (simp add: entry_ok_def)
  then show ?thesis using Some assms by (auto simp: entry_ok_def recordBucket_def sum_list_bump)
qed

lemma entry_ok_new:
  "entry_ok bs \<lparr>mType = ty, mName = nm, Acquires = 0, Releases = 0, Waits = 0, Timeouts = 0,
     TotalWaitTime = 0, MinWaitTime = 0, MaxWaitTime = 0, HistBuckets = bs,
     HistCounts = replicate (length bs) 0, HistInf = 0, CurrentHolders = 0, CurrentWaiters = 0,
     ContentionEvents = 0, MaxContentionSeen = 0, mCreatedAt = t\<rparr>"
  by (simp add: entry_ok_def sum_list_replicate)

definition metrics_ok :: "MetricsCollector \<Rightarrow> bool" where
  "metrics_ok mc \<longleftrightarrow> gomap_ok (primitiveMetrics mc) \<and>
     (\<forall>pid pm. map_of (primitiveMetrics mc) pid = Some pm \<longrightarrow> entry_ok (histBoundaries mc) pm)"

lemma metrics_ok_step:
  assumes ok: "metrics_ok mc" and x: "metrics_exec e mc = Some mc'"
  shows "metrics_ok mc'"
proof -
  obtain i op where e: "e = (i, op)" by (cases e)
  have k: "gomap_ok (primitiveMetrics mc)"
    and en: "\<And>pid pm. map_of (primitiveMetrics mc) pid = Some pm \<Longrightarrow> entry_ok (histBoundaries mc) pm"
    using ok by (auto simp: metrics_ok_def)
  show ?thesis
  proof (cases op)
    case (MRegister pid ty nm)
    then show ?thesis using e x k en
      by (auto simp: metrics_ok_def Metrics_RegisterPrimitive_def Let_def entry_ok_new split: if_splits)
  next
    case (MUnregister pid)
    then show ?thesis using e x k en 
      by (auto simp: metrics_ok_def Metrics_UnregisterPrimitive_def split: if_splits)
  next
    case (MWait pid w n)
    then show ?thesis using e x k en
      by (auto simp: metrics_ok_def RecordWait_get intro: entry_ok_wait [OF en] en split: if_splits)
  qed (use e x k en in \<open>auto simp: metrics_ok_def RecordAcquire_def RecordRelease_def RecordTimeout_def
         withMetrics_get entry_ok_def split: if_splits\<close>)
qed

interpretation metrics_inv: invariant_machine metrics_exec "NewMetricsCollectorWithBuckets t bs" metrics_ok
proof
  show "metrics_ok (NewMetricsCollectorWithBuckets t bs)"
    by (simp add: metrics_ok_def NewMetricsCollectorWithBuckets_def)
qed (rule metrics_ok_step)

subsection \<open>Many waits\<close>

definition recordWaits :: "string \<Rightarrow> (int64 \<times> int32) list \<Rightarrow> MetricsCollector \<Rightarrow> MetricsCollector" where
  "recordWaits pid ws mc = fold (\<lambda>(w, n). RecordWait pid w n) ws mc"

definition entryWaits :: "(int64 \<times> int32) list \<Rightarrow> PrimitiveMetrics \<Rightarrow> PrimitiveMetrics" where
  "entryWaits ws pm = fold (\<lambda>(w, n). recordWaitEntry w n) ws pm"

lemma entryWaits_simps [simp]:
  "entryWaits [] pm = pm" "entryWaits ((w, n) # ws) pm = entryWaits ws (recordWaitEntry w n pm)"
  by (simp_all add: entryWaits_def)

lemma recordWaits_get:
  "map_of (primitiveMetrics mc) pid = Some pm \<Longrightarrow>
     map_of (primitiveMetrics (recordWaits pid ws mc)) pid = Some (entryWaits ws pm)"
  by (induction ws arbitrary: mc pm) (auto simp: recordWaits_def RecordWait_get)

lemma entryWaits_counts:
  "Waits (entryWaits ws pm) = Waits pm + of_nat (length ws)"
  "TotalWaitTime (entryWaits ws pm) = TotalWaitTime pm + sum_list (map fst ws)"
  "HistBuckets (entryWaits ws pm) = HistBuckets pm"
  "HistInf (entryWaits ws pm) =
     HistInf pm + of_nat (length (filter (\<lambda>(w, n). bucketIndex w (HistBuckets pm) = None) ws))"
  by (induction ws arbitrary: pm) (auto simp: recordBucket_def split: option.splits)

lemma entryWaits_bucket:
  assumes "length (HistCounts pm) = length (HistBuckets pm)" "i < length (HistBuckets pm)"
  shows "HistCounts (entryWaits ws pm) ! i = HistCounts pm ! i +
     of_nat (length (filter (\<lambda>(w, n). bucketIndex w (HistBuckets pm) = Some i) ws))"
  using assms
proof (induction ws arbitrary: pm)
  case (Cons x ws)
  obtain w n where x: "x = (w, n)" by (cases x)
  have "HistCounts (recordWaitEntry w n pm) ! i =
      HistCounts pm ! i + (if bucketIndex w (HistBuckets pm) = Some i then 1 else 0)"
    using Cons.prems by (auto simp: recordBucket_def nth_list_update split: option.splits)
  moreover have "length (HistCounts (recordWaitEntry w n pm)) = length (HistBuckets pm)"
    using Cons.prems by simp
  ultimately show ?case using Cons.IH [of "recordWaitEntry w n pm"] Cons.prems x by simp
qed simp

text \<open>Strictly increasing bounds, which the server checks before it starts: bucket \<open>i\<close> is the
  half-open interval between two neighbouring bounds.\<close>

lemma bucketIndex_interval:
  assumes "sorted_wrt (\<lambda>a b. sint a < sint b) bs" "i < length bs"
  shows "bucketIndex w bs = Some i \<longleftrightarrow> sint w \<le> sint (bs ! i) \<and> (i = 0 \<or> sint (bs ! (i - 1)) < sint w)"
  using assms
proof (induction bs arbitrary: i)
  case (Cons b bs)
  show ?case
  proof (cases i)
    case (Suc j)
    then have j: "j < length bs" using Cons.prems by simp
    have b: "sint b < sint (bs ! k)" if "k < length bs" for k using Cons.prems that by simp
    show ?thesis
    proof (cases j)
      case 0
      then show ?thesis using Cons.IH [OF _ j] Cons.prems Suc b [of 0] by auto
    next
      case (Suc l)
      then have "\<not> sint w \<le> sint b" if "sint (bs ! l) < sint w" using b [of l] j that by linarith
      then show ?thesis using Cons.IH [OF _ j] Cons.prems \<open>i = Suc j\<close> j Suc by auto
    qed
  qed auto
qed simp

lemma bucketIndex_None:
  "bucketIndex w bs = None \<longleftrightarrow> (\<forall>b\<in>set bs. sint b < sint w)"
  by (induction bs) auto

lemma entryWaits_max:
  "sint (MaxWaitTime (entryWaits ws pm)) = Max (insert (sint (MaxWaitTime pm)) ((sint \<circ> fst) ` set ws))"
proof (induction ws arbitrary: pm)
  case (Cons x ws)
  obtain w n where x: "x = (w, n)" by (cases x)
  have "sint (MaxWaitTime (updateMax w pm)) = max (sint (MaxWaitTime pm)) (sint w)"
    by (simp add: updateMax_def)
  then show ?case using Cons.IH [of "recordWaitEntry w n pm"] x
    by (cases "ws = []") (simp_all add: Max_insert max.assoc insert_commute)
qed simp

lemma entryWaits_min:
  assumes "0 < sint (MinWaitTime pm)" "\<And>w n. (w, n) \<in> set ws \<Longrightarrow> 0 < sint w"
  shows "sint (MinWaitTime (entryWaits ws pm)) = Min (insert (sint (MinWaitTime pm)) ((sint \<circ> fst) ` set ws))"
  using assms
proof (induction ws arbitrary: pm)
  case (Cons x ws)
  obtain w n where x: "x = (w, n)" by (cases x)
  have "MinWaitTime pm \<noteq> 0" using Cons.prems(1) by auto
  then have m: "sint (MinWaitTime (updateMin w pm)) = min (sint (MinWaitTime pm)) (sint w)"
    by (simp add: updateMin_def)
  have "0 < sint w" using Cons.prems(2) x by auto
  then have "sint (MinWaitTime (entryWaits ws (recordWaitEntry w n pm))) =
      Min (insert (min (sint (MinWaitTime pm)) (sint w)) ((sint \<circ> fst) ` set ws))"
    using Cons.IH [of "recordWaitEntry w n pm"] Cons.prems m by auto
  then show ?case using x
    by (cases "ws = []") (simp_all add: Min_insert min.assoc insert_commute)
qed simp

subsection \<open>Properties\<close>

lemmas metrics_eval = NewMetricsCollectorWithBuckets_def Metrics_RegisterPrimitive_def RecordWait_def
  withMetrics_def recordWaitEntry_def recordBucket_def updateMin_def updateMax_def
  recordContention_def Let_def

text \<open>C32. The histogram classifies: for a primitive registered with strictly increasing bounds, after
  any sequence of waits, bucket \<open>i\<close> counts exactly the waits above the previous bound and not above
  its own, the overflow bucket those above every bound, \<^verbatim>\<open>Waits\<close> their number, and their
  sum is \<^verbatim>\<open>TotalWaitTime\<close> modulo \<open>2 ^ 64\<close>. The counts are per bucket, not cumulative as the comment
  on \<^verbatim>\<open>HistCounts\<close> says (entry \<open>i\<close> counts the observations up to bound \<open>i\<close>).\<close>

theorem metrics_histogram_counts:
  assumes "sorted_wrt (\<lambda>a b. sint a < sint b) (histBoundaries mc)" "i < length (histBoundaries mc)"
    and "mc' = recordWaits pid ws (Metrics_RegisterPrimitive t pid ty nm mc)"
  shows "\<exists>pm. map_of (primitiveMetrics mc') pid = Some pm \<and>
    HistCounts pm ! i = of_nat (length (filter (\<lambda>(w, n). sint w \<le> sint (histBoundaries mc ! i) \<and>
      (i = 0 \<or> sint (histBoundaries mc ! (i - 1)) < sint w)) ws)) \<and>
    HistInf pm = of_nat (length (filter (\<lambda>(w, n). \<forall>b\<in>set (histBoundaries mc). sint b < sint w) ws)) \<and>
    Waits pm = of_nat (length ws) \<and> TotalWaitTime pm = sum_list (map fst ws)"
  unfolding assms(3)
  by (subst recordWaits_get [OF Register_get [THEN trans, OF if_P [OF refl]]])
     (use assms(1,2) in \<open>simp add: entryWaits_bucket entryWaits_counts bucketIndex_None
        bucketIndex_interval [OF assms(1,2)]\<close>)

theorem metrics_histogram_counts_witness:
  "\<exists>pm. map_of (primitiveMetrics (recordWaits ''m'' [(5, 0), (15, 0), (25, 0), (12, 0)]
      (Metrics_RegisterPrimitive 0 ''m'' ''Mutex'' ''m'' (NewMetricsCollectorWithBuckets 0 [10, 20])))) ''m'' =
      Some pm \<and> HistCounts pm ! 1 = 2 \<and> HistInf pm = 1"
  using metrics_histogram_counts [of "NewMetricsCollectorWithBuckets 0 [10, 20]" 1, OF _ _ refl,
    of "''m''" "[(5, 0), (15, 0), (25, 0), (12, 0)]" 0 "''Mutex''" "''m''"]
  by (auto simp: NewMetricsCollectorWithBuckets_def)

text \<open>No observation is lost or counted twice: in every reachable state of the collector the
  bucket counts and the overflow count of an entry add up to its number of waits, and there is one
  count per bound.\<close>

lemma metrics_histogram_total:
  assumes "reachable metrics_exec (NewMetricsCollectorWithBuckets t bs) mc"
    and "map_of (primitiveMetrics mc) pid = Some pm"
  shows "sum_list (HistCounts pm) + HistInf pm = Waits pm \<and>
    length (HistCounts pm) = length (HistBuckets pm) \<and> length (histogram pm) = length (HistBuckets pm) + 1"
  using metrics_inv.reachable_inv [OF assms(1)] assms(2)
  by (auto simp: metrics_ok_def entry_ok_def histogram_def)

lemma metrics_histogram_total_witness:
  "\<exists>mc pm. run metrics_exec [(inp0, MRegister ''m'' ''Mutex'' ''m''), (inp0, MWait ''m'' 7 2)]
       (NewMetricsCollectorWithBuckets 0 [10, 20]) = Some mc \<and>
     map_of (primitiveMetrics mc) ''m'' = Some pm \<and> Waits pm = 1 \<and> sum_list (HistCounts pm) + HistInf pm = 1"
proof -
  obtain mc pm where r: "run metrics_exec [(inp0, MRegister ''m'' ''Mutex'' ''m''), (inp0, MWait ''m'' 7 2)]
       (NewMetricsCollectorWithBuckets 0 [10, 20]) = Some mc"
    and m: "map_of (primitiveMetrics mc) ''m'' = Some pm" "Waits pm = 1"
    by (simp add: metrics_eval)
  show ?thesis using metrics_histogram_total [OF run_reachable [OF r] m(1)] r m by auto
qed

text \<open>For positive durations \<^verbatim>\<open>MinWaitTime\<close> and \<^verbatim>\<open>MaxWaitTime\<close> are the extremes of the recorded
  waits.\<close>

lemma metrics_min_max:
  assumes "ws \<noteq> []" "\<And>w n. (w, n) \<in> set ws \<Longrightarrow> 0 < sint w"
    and "mc' = recordWaits pid ws (Metrics_RegisterPrimitive t pid ty nm mc)"
  shows "\<exists>pm. map_of (primitiveMetrics mc') pid = Some pm \<and>
    sint (MinWaitTime pm) = Min ((sint \<circ> fst) ` set ws) \<and> sint (MaxWaitTime pm) = Max ((sint \<circ> fst) ` set ws)"
proof -
  obtain w n ws' where ws: "ws = (w, n) # ws'" using assms(1) by (cases ws) auto
  have w: "0 < sint w" using assms(2) ws by auto
  define pm0 where "pm0 = recordWaitEntry w n \<lparr>mType = ty, mName = nm, Acquires = 0, Releases = 0,
    Waits = 0, Timeouts = 0, TotalWaitTime = 0, MinWaitTime = 0, MaxWaitTime = 0,
    HistBuckets = histBoundaries mc, HistCounts = replicate (length (histBoundaries mc)) 0,
    HistInf = 0, CurrentHolders = 0, CurrentWaiters = 0, ContentionEvents = 0,
    MaxContentionSeen = 0, mCreatedAt = t\<rparr>"
  have pm0: "MinWaitTime pm0 = w" "MaxWaitTime pm0 = w"
    using w by (simp_all add: pm0_def updateMin_def updateMax_def)
  have "map_of (primitiveMetrics mc') pid = Some (entryWaits ws' pm0)"
    unfolding assms(3) using recordWaits_get [OF Register_get [THEN trans, OF if_P [OF refl]]] ws pm0_def by simp
  moreover have "sint (MinWaitTime (entryWaits ws' pm0)) = Min (insert (sint w) ((sint \<circ> fst) ` set ws'))"
    using entryWaits_min [of pm0 ws'] pm0 w assms(2) ws by auto
  ultimately show ?thesis using entryWaits_max [of ws' pm0] pm0 ws by simp
qed

lemma metrics_min_max_witness:
  "\<exists>pm. map_of (primitiveMetrics (recordWaits ''m'' [(5, 0), (15, 0), (3, 0)]
      (Metrics_RegisterPrimitive 0 ''m'' ''Mutex'' ''m'' (NewMetricsCollector 0)))) ''m'' = Some pm \<and>
     sint (MinWaitTime pm) = 3 \<and> sint (MaxWaitTime pm) = 15"
proof -
  have "\<exists>pm. map_of (primitiveMetrics (recordWaits ''m'' [(5, 0), (15, 0), (3, 0)]
      (Metrics_RegisterPrimitive 0 ''m'' ''Mutex'' ''m'' (NewMetricsCollector 0)))) ''m'' = Some pm \<and>
     sint (MinWaitTime pm) = Min ((sint \<circ> fst) ` set [(5, 0), (15, 0), (3 :: int64, 0 :: int32)]) \<and>
     sint (MaxWaitTime pm) = Max ((sint \<circ> fst) ` set [(5, 0), (15, 0), (3 :: int64, 0 :: int32)])"
    by (rule metrics_min_max [OF _ _ refl]) auto
  then show ?thesis by simp
qed

text \<open>The counts are not cumulative: a wait below both bounds is counted in the first bucket only. And
  a wait of 0 is forgotten as a minimum, because 0 also means that there is none yet.\<close>

lemma histogram_not_cumulative:
  "\<exists>pm. map_of (primitiveMetrics (recordWaits ''m'' [(5, 0)] (Metrics_RegisterPrimitive 0 ''m'' ''Mutex'' ''m''
      (NewMetricsCollectorWithBuckets 0 [10, 20])))) ''m'' = Some pm \<and> HistCounts pm = [1, 0]"
  by (simp add: recordWaits_def metrics_eval)

lemma zero_wait_forgotten:
  "\<exists>pm. map_of (primitiveMetrics (recordWaits ''m'' [(0, 0), (9, 0)] (Metrics_RegisterPrimitive 0 ''m'' ''Mutex'' ''m''
      (NewMetricsCollectorWithBuckets 0 [10, 20])))) ''m'' = Some pm \<and> MinWaitTime pm = 9"
  by (simp add: recordWaits_def metrics_eval)

end
