(* ===== verification/ServerRules.thy ===== *)
theory ServerRules
  imports Scheduler Metrics
begin

text \<open>
  The stateless rules of \<^verbatim>\<open>web/server.go\<close>: validation and clamping of what clients send, roles and
  what they permit, namespaces and the qualified names built from them, the filters that cut the
  scheduler's and the collector's tables down to one namespace, and the sliding-window rate limit.

  Strings are byte strings; \<open>TrimSpace\<close> trims the ASCII white space.
\<close>

subsection \<open>Validation and clamping\<close>

definition maxIDLen :: nat where "maxIDLen = 256"
definition maxNameLen :: nat where "maxNameLen = 256"
definition holdMsMax :: int where "holdMsMax = 3600000"
definition holdMsDefault :: int where "holdMsDefault = 100"

text \<open>An empty result means that the name is acceptable.\<close>

definition validatePrimID :: "string \<Rightarrow> string" where
  "validatePrimID pid =
     (if pid = [] then ''id must not be empty''
      else if maxIDLen < length pid
      then ''id must not exceed '' @ decimal maxIDLen @ '' characters'' else [])"

definition validatePrimName :: "string \<Rightarrow> string" where
  "validatePrimName name =
     (if maxNameLen < length name
      then ''name must not exceed '' @ decimal maxNameLen @ '' characters'' else [])"

text \<open>The duration in nanoseconds, an \<^verbatim>\<open>int64\<close>.\<close>

definition clampHoldMs :: "int \<Rightarrow> int64 \<times> string" where
  "clampHoldMs ms =
     (let ms1 = (if ms \<le> 0 then holdMsDefault else ms);
          ms2 = (if holdMsMax < ms1 then holdMsMax else ms1)
      in if holdMsMax < ms
         then (word_of_int ms2 * 1000000, ''holdMs clamped from '' @ itoa ms @ '' to '' @ itoa ms2)
         else (word_of_int ms2 * 1000000, []))"

definition clampWaiterCount :: "int64 \<Rightarrow> int32" where
  "clampWaiterCount v =
     (if sint v < 0 then 0 else if 2147483647 < sint v then 2147483647 else ucast v)"

text \<open>The panic of \<^verbatim>\<open>validateHistogramBuckets\<close> is a \<open>Some\<close> with its message.\<close>

fun checkBuckets :: "nat \<Rightarrow> int64 option \<Rightarrow> int64 list \<Rightarrow> string option" where
  "checkBuckets i prev [] = None"
| "checkBuckets i prev (b # bs) =
     (if sint b \<le> 0
      then Some (''invalid HistogramBuckets: bucket['' @ decimal i @ '']='' @ Duration_String b @
                 '' must be positive'')
      else case prev of
             None \<Rightarrow> checkBuckets (Suc i) (Some b) bs
           | Some p \<Rightarrow>
               if sint b \<le> sint p
               then Some (''invalid HistogramBuckets: bucket['' @ decimal i @ '']='' @ Duration_String b @
                          '' must be strictly greater than bucket['' @ decimal (i - 1) @ '']='' @ Duration_String p)
               else checkBuckets (Suc i) (Some b) bs)"

definition validateHistogramBuckets :: "int64 list \<Rightarrow> string option" where
  "validateHistogramBuckets buckets = checkBuckets 0 None buckets"

subsection \<open>Roles\<close>

definition RoleAdmin :: string where "RoleAdmin = ''admin''"
definition RoleOperator :: string where "RoleOperator = ''operator''"
definition RoleViewer :: string where "RoleViewer = ''viewer''"

definition normalizeRole :: "string \<Rightarrow> bool \<Rightarrow> string" where
  "normalizeRole role authenticated =
     (if \<not> authenticated then RoleAdmin
      else if role = RoleAdmin \<or> role = RoleOperator \<or> role = RoleViewer then role
      else RoleViewer)"

text \<open>\<^verbatim>\<open>roleForConn\<close>, given the role stored for the connection, if the connection is known.\<close>

definition roleFor :: "string option \<Rightarrow> string" where
  "roleFor r = (case r of
      None \<Rightarrow> RoleAdmin
    | Some role \<Rightarrow>
        if role = RoleAdmin \<or> role = RoleOperator \<or> role = RoleViewer then role
        else if role = [] then RoleAdmin else RoleViewer)"

definition createTypes :: "string list" where
  "createTypes = [''createRWLock'', ''createFairRWLock'', ''createSemaphore'', ''createMutex'',
     ''createCondVar'', ''createBarrier'', ''createWaitGroup'', ''createOnce'', ''createSingleflight'']"

definition authorizeRole :: "string \<Rightarrow> string \<Rightarrow> string option" where
  "authorizeRole role msgType =
     (if msgType \<in> set createTypes then
        (if role \<noteq> RoleAdmin then Some ''forbidden: create operations require admin role'' else None)
      else if msgType = ''deletePrimitive'' then
        (if role \<noteq> RoleAdmin then Some ''forbidden: delete operations require admin role'' else None)
      else if msgType = ''primitiveOp'' then
        (if role = RoleViewer then Some ''forbidden: operations not permitted for viewer role'' else None)
      else None)"

subsection \<open>Namespaces\<close>

definition isSpace :: "char \<Rightarrow> bool" where
  "isSpace c \<longleftrightarrow> c \<in> {CHR 0x09, CHR 0x0A, CHR 0x0B, CHR 0x0C, CHR 0x0D, CHR '' ''}"

definition TrimSpace :: "string \<Rightarrow> string" where
  "TrimSpace s = rev (dropWhile isSpace (rev (dropWhile isSpace s)))"

definition defaultNamespace :: "string \<Rightarrow> string" where
  "defaultNamespace cfgDefault = (if TrimSpace cfgDefault \<noteq> [] then TrimSpace cfgDefault else ''default'')"

definition validateNamespaceName :: "string \<Rightarrow> string" where
  "validateNamespaceName ns =
     (let n = TrimSpace ns
      in if n = [] then []
         else if maxIDLen < length n then ''namespace must not exceed '' @ decimal maxIDLen @ '' characters''
         else if CHR ''/'' \<in> set n then ''namespace must not contain '' @ quoted ''/''
         else [])"

text \<open>The namespace comes from the token where there is one, from the query only where no tokens are
  required, and is the default otherwise. \<open>Inl\<close> is the error of a bad name.\<close>

definition extractNamespace ::
    "string \<Rightarrow> string \<Rightarrow> string \<Rightarrow> string option \<Rightarrow> string + string" where
  "extractNamespace cfgDefault jwtSecret queryNs claimsNs =
     (let ns = (case claimsNs of
                  Some c \<Rightarrow> if TrimSpace c \<noteq> [] then TrimSpace c
                            else if jwtSecret = [] then TrimSpace queryNs else []
                | None \<Rightarrow> if jwtSecret = [] then TrimSpace queryNs else []);
          ns' = (if ns = [] then defaultNamespace cfgDefault else ns);
          e = validateNamespaceName ns'
      in if e \<noteq> [] then Inl e else Inr ns')"

definition qualifiedPrimID :: "string \<Rightarrow> string \<Rightarrow> string" where
  "qualifiedPrimID namespace pid = namespace @ CHR ''/'' # pid"

text \<open>\<^verbatim>\<open>strings.SplitN(id, "/", 2)\<close>: at the first slash, if there is one.\<close>

definition splitQualifiedPrimID :: "string \<Rightarrow> string \<times> string" where
  "splitQualifiedPrimID q =
     (case dropWhile (\<lambda>c. c \<noteq> CHR ''/'') q of
        [] \<Rightarrow> ([], q)
      | c # rest \<Rightarrow> (takeWhile (\<lambda>c. c \<noteq> CHR ''/'') q, rest))"

text \<open>The loop the filters of maps share: the entries of one namespace, under their raw names.\<close>

fun forNamespace :: "string \<Rightarrow> (string \<Rightarrow> 'a \<Rightarrow> 'b) \<Rightarrow> (string, 'a) gomap \<Rightarrow> (string, 'b) gomap \<Rightarrow> (string, 'b) gomap" where
  "forNamespace namespace f [] filtered = filtered"
| "forNamespace namespace f ((q, v) # m) filtered =
     (case splitQualifiedPrimID q of (ns, rawID) \<Rightarrow>
        forNamespace namespace f m
          (if ns \<noteq> namespace then filtered else AList.update rawID (f rawID v) filtered))"

definition filterPrimitivesForNamespace ::
    "(string, 'st PrimitiveInfo) gomap \<Rightarrow> string \<Rightarrow> (string, 'st PrimitiveInfo) gomap" where
  "filterPrimitivesForNamespace prims namespace =
     forNamespace namespace (\<lambda>rawID prim. prim\<lparr>pID := rawID\<rparr>) prims []"

definition filterEventsForNamespace :: "Event list \<Rightarrow> string \<Rightarrow> Event list" where
  "filterEventsForNamespace es namespace =
     map (\<lambda>e. e\<lparr>PrimitiveID := snd (splitQualifiedPrimID (PrimitiveID e))\<rparr>)
       (filter (\<lambda>e. PrimitiveID e \<noteq> [] \<and> fst (splitQualifiedPrimID (PrimitiveID e)) = namespace) es)"

definition filterGoroutinesForNamespace ::
    "(64 word, GoroutineInfo) gomap \<Rightarrow> string \<Rightarrow> (64 word, GoroutineInfo) gomap" where
  "filterGoroutinesForNamespace gs namespace =
     fold (\<lambda>(g, info) filtered.
             if BlockedOn info = [] then filtered
             else case splitQualifiedPrimID (BlockedOn info) of
               (ns, rawID) \<Rightarrow> if ns \<noteq> namespace then filtered
                             else AList.update g (info\<lparr>BlockedOn := rawID\<rparr>) filtered) gs []"

definition filterMetricSnapshotsForNamespace ::
    "(string, PrimitiveMetricsSnapshot) gomap \<Rightarrow> string \<Rightarrow> (string, PrimitiveMetricsSnapshot) gomap" where
  "filterMetricSnapshotsForNamespace snaps namespace = forNamespace namespace (\<lambda>rawID snap. snap) snaps []"

subsection \<open>Rate limits\<close>

text \<open>\<^verbatim>\<open>checkRateLimit\<close> and \<^verbatim>\<open>checkOpRateLimit\<close> on the list of times they keep: drop what is a second
  old, add the present, compare with the limit. Times are in nanoseconds.\<close>

definition rateWindow :: "nat \<Rightarrow> int \<Rightarrow> int list \<Rightarrow> bool \<times> int list" where
  "rateWindow limit t ts =
     (let ts' = filter (\<lambda>u. t - 1000000000 < u) ts @ [t]
      in (length ts' \<le> limit, ts'))"

subsection \<open>Qualified names\<close>

lemma takeWhile_none: "c \<notin> set ns \<Longrightarrow> takeWhile (\<lambda>x. x \<noteq> c) (ns @ c # pid) = ns"
  by (induction ns) auto

lemma dropWhile_none: "c \<notin> set ns \<Longrightarrow> dropWhile (\<lambda>x. x \<noteq> c) (ns @ c # pid) = c # pid"
  by (induction ns) auto

lemma split_qualified [simp]:
  "CHR ''/'' \<notin> set ns \<Longrightarrow> splitQualifiedPrimID (qualifiedPrimID ns pid) = (ns, pid)"
  by (simp add: splitQualifiedPrimID_def qualifiedPrimID_def takeWhile_none dropWhile_none)

lemma split_is_qualified:
  assumes "CHR ''/'' \<in> set q"
  shows "qualifiedPrimID (fst (splitQualifiedPrimID q)) (snd (splitQualifiedPrimID q)) = q"
proof -
  obtain c rest where d: "dropWhile (\<lambda>c. c \<noteq> CHR ''/'') q = c # rest"
    using assms by (cases "dropWhile (\<lambda>c. c \<noteq> CHR ''/'') q") auto
  then have "c = CHR ''/''" using hd_dropWhile [of "\<lambda>c. c \<noteq> CHR ''/''" q] by simp
  then show ?thesis using d takeWhile_dropWhile_id [of "\<lambda>c. c \<noteq> CHR ''/''" q]
    by (simp add: splitQualifiedPrimID_def qualifiedPrimID_def)
qed

lemma qualified_inject:
  assumes "CHR ''/'' \<notin> set ns" "CHR ''/'' \<notin> set ns'"
  shows "qualifiedPrimID ns pid = qualifiedPrimID ns' pid' \<longleftrightarrow> ns = ns' \<and> pid = pid'"
  using split_qualified [OF assms(1), of pid] split_qualified [OF assms(2), of pid'] by (metis Pair_inject)

lemma split_qualified_iff:
  assumes "CHR ''/'' \<in> set q"
  shows "splitQualifiedPrimID q = (ns, pid) \<longleftrightarrow> CHR ''/'' \<notin> set ns \<and> q = qualifiedPrimID ns pid"
proof
  assume s: "splitQualifiedPrimID q = (ns, pid)"
  then have "ns = takeWhile (\<lambda>c. c \<noteq> CHR ''/'') q"
    using assms by (cases "dropWhile (\<lambda>c. c \<noteq> CHR ''/'') q") (auto simp: splitQualifiedPrimID_def)
  then have "CHR ''/'' \<notin> set ns" by (metis (mono_tags, lifting) set_takeWhileD)
  then show "CHR ''/'' \<notin> set ns \<and> q = qualifiedPrimID ns pid" using split_is_qualified [OF assms] s by simp
qed simp

lemma forNamespace_get:
  assumes "gomap_ok m" "CHR ''/'' \<notin> set ns" "\<forall>q\<in>fst ` set m. CHR ''/'' \<in> set q"
  shows "map_of (forNamespace ns f m acc) pid =
     (case map_of m (qualifiedPrimID ns pid) of Some v \<Rightarrow> Some (f pid v) | None \<Rightarrow> map_of acc pid)"
  using assms
proof (induction m arbitrary: acc)
  case (Cons x m)
  obtain q v where x: "x = (q, v)" by (cases x)
  obtain n r where s: "splitQualifiedPrimID q = (n, r)" by (cases "splitQualifiedPrimID q")
  have q: "CHR ''/'' \<notin> set n" "q = qualifiedPrimID n r"
    using split_qualified_iff [of q n r] Cons.prems(3) x s by auto
  have ok: "gomap_ok m" "map_of m q = None"
    using Cons.prems(1) x by (simp_all add: gomap_ok_def map_of_eq_None_iff)
  have qid: "q = qualifiedPrimID ns pid \<longleftrightarrow> n = ns \<and> r = pid"
    using q qualified_inject [OF q(1) Cons.prems(2)] by simp
  have IH: "map_of (forNamespace ns f m a) pid =
      (case map_of m (qualifiedPrimID ns pid) of Some v \<Rightarrow> Some (f pid v) | None \<Rightarrow> map_of a pid)" for a
    using Cons.IH [OF ok(1) Cons.prems(2)] Cons.prems(3) by simp
  show ?case
  proof (cases "q = qualifiedPrimID ns pid")
    case True
    then show ?thesis using IH x s ok(2) qid by simp
  next
    case False
    then show ?thesis using IH x s qid by (auto split: option.splits)
  qed
qed simp

subsection \<open>Clamping\<close>

lemma clampHoldMs_range:
  "1000000 \<le> sint (fst (clampHoldMs ms))" "sint (fst (clampHoldMs ms)) \<le> 3600000 * 1000000"
  "snd (clampHoldMs ms) \<noteq> [] \<longleftrightarrow> 3600000 < ms"
proof -
  define m where "m = (if ms \<le> 0 then 100 else if 3600000 < ms then 3600000 else ms)"
  have m: "1 \<le> m" "m \<le> 3600000" by (simp_all add: m_def)
  have "fst (clampHoldMs ms) = word_of_int (m * 1000000)"
    by (simp add: clampHoldMs_def Let_def m_def holdMsMax_def holdMsDefault_def)
  moreover have "sint (word_of_int (m * 1000000) :: int64) = m * 1000000"
    using m unfolding sint_sbintrunc' by (intro signed_take_bit_int_eq_self) simp_all
  ultimately show "1000000 \<le> sint (fst (clampHoldMs ms))" "sint (fst (clampHoldMs ms)) \<le> 3600000 * 1000000"
    using m by simp_all
  show "snd (clampHoldMs ms) \<noteq> [] \<longleftrightarrow> 3600000 < ms"
    by (simp add: clampHoldMs_def Let_def holdMsMax_def)
qed

lemma clampWaiterCount_value: "sint (clampWaiterCount v) = max 0 (min 2147483647 (sint v))"
proof (cases "0 \<le> sint v \<and> sint v \<le> 2147483647")
  case True
  then have "uint v = sint v" unfolding uint_sint by (simp add: take_bit_int_eq_self)
  then have "ucast v = (word_of_int (sint v) :: int32)" by (metis ucast_eq)
  moreover have "sint (word_of_int (sint v) :: int32) = sint v"
    using True unfolding sint_sbintrunc' by (intro signed_take_bit_int_eq_self) simp_all
  ultimately have "sint (ucast v :: int32) = sint v" by simp
  then show ?thesis using True by (simp add: clampWaiterCount_def)
qed (auto simp: clampWaiterCount_def)

lemma checkBuckets_ok:
  "checkBuckets i prev bs = None \<longleftrightarrow> (\<forall>b\<in>set bs. 0 < sint b) \<and>
     sorted_wrt (\<lambda>a b. sint a < sint b) (case prev of None \<Rightarrow> bs | Some p \<Rightarrow> p # bs)"
proof (induction bs arbitrary: i prev)
  case (Cons b bs)
  show ?case
  proof (cases prev)
    case None
    then show ?thesis using Cons.IH [of "Suc i" "Some b"] by auto
  next
    case (Some p)
    then show ?thesis using Cons.IH [of "Suc i" "Some b"] by force
  qed
qed (simp split: option.split)

text \<open>The check the server makes at start is what the histogram theorems assume.\<close>

lemma validateHistogramBuckets_ok:
  "validateHistogramBuckets bs = None \<longleftrightarrow>
     (\<forall>b\<in>set bs. 0 < sint b) \<and> sorted_wrt (\<lambda>a b. sint a < sint b) bs"
  by (simp add: validateHistogramBuckets_def checkBuckets_ok)

subsection \<open>The sliding window\<close>

fun rateRun :: "nat \<Rightarrow> int list \<Rightarrow> int list \<Rightarrow> bool list" where
  "rateRun limit ts [] = []"
| "rateRun limit ts (u # us) = (case rateWindow limit u ts of (ok, ts') \<Rightarrow> ok # rateRun limit ts' us)"

definition rateTimes :: "nat \<Rightarrow> int list \<Rightarrow> int list \<Rightarrow> int list" where
  "rateTimes limit ts us = fold (\<lambda>u ts. snd (rateWindow limit u ts)) us ts"

lemma rateRun_snoc:
  "rateRun limit ts (us @ [u]) =
     rateRun limit ts us @ [fst (rateWindow limit u (rateTimes limit ts us))]"
  by (induction us arbitrary: ts) (auto simp: rateTimes_def split: prod.splits)

lemma length_rateRun [simp]: "length (rateRun limit ts us) = length us"
  by (induction us arbitrary: ts) (auto split: prod.splits)

lemma rateTimes_snoc:
  "rateTimes limit ts (us @ [u]) = filter (\<lambda>v. u - 1000000000 < v) (rateTimes limit ts us) @ [u]"
  by (simp add: rateTimes_def rateWindow_def Let_def)

text \<open>What is kept is exactly what arrived within the last second.\<close>

lemma rateTimes_window:
  "sorted (us @ [u]) \<Longrightarrow>
     filter (\<lambda>v. u - 1000000000 < v) (rateTimes limit [] us) = filter (\<lambda>v. u - 1000000000 < v) us"
proof (induction us arbitrary: u rule: rev_induct)
  case (snoc x us)
  have "sorted (us @ [x])" "x \<le> u" using snoc.prems by (auto simp: sorted_append)
  then have "filter (\<lambda>v. u - 1000000000 < v) (filter (\<lambda>v. x - 1000000000 < v) (rateTimes limit [] us)) =
      filter (\<lambda>v. u - 1000000000 < v) (filter (\<lambda>v. x - 1000000000 < v) us)"
    using snoc.IH [of x] by simp
  moreover have "(x - 1000000000 < v \<and> u - 1000000000 < v) = (u - 1000000000 < v)" for v
    using \<open>x \<le> u\<close> by auto
  ultimately show ?case by (simp add: rateTimes_snoc conj_commute)
qed (simp add: rateTimes_def)

definition accepted :: "nat \<Rightarrow> int list \<Rightarrow> int \<Rightarrow> (int \<times> bool) list" where
  "accepted limit us a =
     filter (\<lambda>(u, ok). ok \<and> a \<le> u \<and> u < a + 1000000000) (zip us (rateRun limit [] us))"

lemma accepted_le: "length (accepted limit us a) \<le> length (filter (\<lambda>u. a \<le> u \<and> u < a + 1000000000) us)"
proof -
  have "length (filter (\<lambda>(u, ok). ok \<and> P u) (zip us bs)) \<le> length (filter P us)" for P :: "int \<Rightarrow> bool" and bs
  proof (induction us arbitrary: bs)
    case (Cons u us)
    then show ?case by (cases bs) (auto intro: le_SucI)
  qed simp
  then show ?thesis unfolding accepted_def .
qed

lemma filter_mono_length:
  "(\<And>x. x \<in> set xs \<Longrightarrow> P x \<Longrightarrow> Q x) \<Longrightarrow> length (filter P xs) \<le> length (filter Q xs)"
  by (induction xs) (auto intro: le_SucI)

lemma accepted_bound: "sorted us \<Longrightarrow> length (accepted limit us a) \<le> limit"
proof (induction us rule: rev_induct)
  case (snoc u us)
  let ?ok = "fst (rateWindow limit u (rateTimes limit [] us))"
  have s: "sorted us" using snoc.prems by (simp add: sorted_append)
  have acc: "accepted limit (us @ [u]) a = accepted limit us a @
      (if ?ok \<and> a \<le> u \<and> u < a + 1000000000 then [(u, ?ok)] else [])"
    by (simp add: accepted_def rateRun_snoc)
  show ?case
  proof (cases "?ok \<and> a \<le> u \<and> u < a + 1000000000")
    case True
    then have "length (filter (\<lambda>v. u - 1000000000 < v) us) + 1 \<le> limit"
      using rateTimes_window [OF snoc.prems, of limit] by (simp add: rateWindow_def Let_def)
    moreover have "length (accepted limit us a) \<le> length (filter (\<lambda>v. u - 1000000000 < v) us)"
      using accepted_le [of limit us a]
        filter_mono_length [of us "\<lambda>v. a \<le> v \<and> v < a + 1000000000" "\<lambda>v. u - 1000000000 < v"] True
      by force
    ultimately show ?thesis using True acc by simp
  next
    case False
    then show ?thesis using acc snoc.IH [OF s] by auto
  qed
qed (simp add: accepted_def)

subsection \<open>Properties\<close>

text \<open>C36. The rate limit holds: whenever messages arrive, at most \<open>limit\<close> of those that arrive within
  any second are accepted (200 messages and 50 operations in the code).\<close>

theorem rate_limit_window:
  assumes "sorted us"
  shows "length (filter (\<lambda>(u, ok). ok \<and> a \<le> u \<and> u < a + 1000000000) (zip us (rateRun limit [] us))) \<le> limit"
  using accepted_bound [OF assms] by (simp add: accepted_def)

theorem rate_limit_window_witness:
  "rateRun 2 [] [0, 10, 20, 30] = [True, True, False, False] \<and>
   length (filter (\<lambda>(u :: int, ok). ok \<and> 0 \<le> u \<and> u < 0 + 1000000000)
     (zip [0, 10, 20, 30] (rateRun 2 [] [0, 10, 20, 30]))) \<le> 2"
proof
  show "rateRun 2 [] [0, 10, 20, 30] = [True, True, False, False]" by (simp add: rateWindow_def)
qed (rule rate_limit_window, simp)

text \<open>Namespaces do not mix: for a namespace without a slash and a table whose keys are qualified,
  the filtered table has exactly the entries of the namespace, under their own names; and splitting
  a qualified name gives back its parts.\<close>

lemma namespace_filter_exact:
  assumes "gomap_ok prims" "CHR ''/'' \<notin> set ns" "\<forall>q\<in>fst ` set prims. CHR ''/'' \<in> set q"
  shows "map_of (filterPrimitivesForNamespace prims ns) pid =
      map_option (\<lambda>prim. prim\<lparr>pID := pid\<rparr>) (map_of prims (qualifiedPrimID ns pid)) \<and>
    splitQualifiedPrimID (qualifiedPrimID ns pid) = (ns, pid)"
  using assms(2)
  by (simp add: filterPrimitivesForNamespace_def forNamespace_get [OF assms] split: option.splits)

lemma namespace_filter_exact_witness:
  "map_of (filterPrimitivesForNamespace [(''a/x'', \<lparr>pID = ''a/x'', pType = TypeMutex, pName = ''x'',
      pCreatedAt = 0, BlockedCount = 0, pStats = ()\<rparr>)] ''b'') ''x'' = None"
  using namespace_filter_exact [of "[(''a/x'', \<lparr>pID = ''a/x'', pType = TypeMutex, pName = ''x'',
      pCreatedAt = 0, BlockedCount = 0, pStats = ()\<rparr>)]" "''b''" "''x''"]
  by (simp add: gomap_ok_def qualifiedPrimID_def)

end
