(* ===== verification/JsonVal.thy ===== *)
theory JsonVal
  imports GoLib
begin

text \<open>
  JSON as the program uses it (\<^verbatim>\<open>encoding/json\<close>), at the level of values: what a text means, not how it
  is written. A number literal is an integer or (\<open>JFrac\<close>) has a fraction or an exponent.

  Decoding into a struct goes through the members of an object in order: a member whose name matches
  a field (case is ignored; only ASCII letters are folded here) sets it, \<^verbatim>\<open>null\<close> leaves it alone, a
  value of another type or an integer out of range is an error, other members are skipped. Fields
  without a member keep the zero value.
\<close>

datatype json =
    JNull
  | JBool bool
  | JNum int
  | JFrac string
  | JStr string
  | JArr "json list"
  | JObj "(string \<times> json) list"

subsection \<open>Decoding into structs\<close>

definition lower :: "char \<Rightarrow> char" where
  "lower c = (let n = of_char c :: nat in if 65 \<le> n \<and> n \<le> 90 then char_of (n + 32) else c)"

definition ToLower :: "string \<Rightarrow> string" where
  "ToLower s = map lower s"

definition fieldMatches :: "string \<Rightarrow> string \<Rightarrow> bool" where
  "fieldMatches field k \<longleftrightarrow> ToLower field = ToLower k"

text \<open>The members of what is decoded: an absent payload is no JSON at all, \<^verbatim>\<open>null\<close> changes nothing.\<close>

definition structMembers :: "json option \<Rightarrow> (string \<times> json) list option" where
  "structMembers j = (case j of Some JNull \<Rightarrow> Some [] | Some (JObj kvs) \<Rightarrow> Some kvs | _ \<Rightarrow> None)"

fun getField :: "(json \<Rightarrow> 'a option) \<Rightarrow> string \<Rightarrow> (string \<times> json) list \<Rightarrow> 'a \<Rightarrow> 'a option" where
  "getField dec field [] v = Some v"
| "getField dec field ((k, j) # kvs) v =
     (if fieldMatches field k \<and> j \<noteq> JNull
      then (case dec j of None \<Rightarrow> None | Some v' \<Rightarrow> getField dec field kvs v')
      else getField dec field kvs v)"

definition asString :: "json \<Rightarrow> string option" where
  "asString j = (case j of JStr s \<Rightarrow> Some s | _ \<Rightarrow> None)"

definition asIntIn :: "int \<Rightarrow> int \<Rightarrow> json \<Rightarrow> int option" where
  "asIntIn lo hi j = (case j of JNum i \<Rightarrow> if lo \<le> i \<and> i \<le> hi then Some i else None | _ \<Rightarrow> None)"

definition asInt :: "json \<Rightarrow> int option" where
  "asInt = asIntIn (- (2 ^ 63)) (2 ^ 63 - 1)"

definition asInt32 :: "json \<Rightarrow> int32 option" where
  "asInt32 j = map_option word_of_int (asIntIn (- (2 ^ 31)) (2 ^ 31 - 1) j)"

definition fieldString :: "string \<Rightarrow> (string \<times> json) list \<Rightarrow> string option" where
  "fieldString field kvs = getField asString field kvs []"

definition fieldInt :: "string \<Rightarrow> (string \<times> json) list \<Rightarrow> int option" where
  "fieldInt field kvs = getField asInt field kvs 0"

definition fieldInt32 :: "string \<Rightarrow> (string \<times> json) list \<Rightarrow> int32 option" where
  "fieldInt32 field kvs = getField asInt32 field kvs 0"

subsection \<open>Numbers in untyped values\<close>

text \<open>A number decoded into an \<^verbatim>\<open>interface{}\<close> becomes a \<^verbatim>\<open>float64\<close>: an integer is rounded to 53
  significant bits, halves to even.\<close>

fun bitCount :: "nat \<Rightarrow> nat" where
  "bitCount a = (if a = 0 then 0 else Suc (bitCount (a div 2)))"

declare bitCount.simps [simp del]

definition roundMag :: "nat \<Rightarrow> nat" where
  "roundMag a =
     (let e = bitCount a - 53; q = a div 2 ^ e; r = a mod 2 ^ e
      in if e = 0 then a
         else if 2 ^ e < 2 * r \<or> 2 * r = 2 ^ e \<and> odd q then (q + 1) * 2 ^ e
         else q * 2 ^ e)"

definition float64 :: "int \<Rightarrow> int" where
  "float64 i = (if i < 0 then - int (roundMag (nat (- i))) else int (roundMag (nat i)))"

fun untyped :: "json \<Rightarrow> json" where
  "untyped (JNum i) = JNum (float64 i)"
| "untyped (JArr js) = JArr (map untyped js)"
| "untyped (JObj kvs) = JObj (map (\<lambda>kj. (fst kj, untyped (snd kj))) kvs)"
| "untyped j = j"

text \<open>\<^verbatim>\<open>m[k]\<close> and \<^verbatim>\<open>delete(m, k)\<close> on a decoded object.\<close>

definition member :: "string \<Rightarrow> json \<Rightarrow> json option" where
  "member k j = (case j of JObj kvs \<Rightarrow> map_of kvs k | _ \<Rightarrow> None)"

definition dropMember :: "string \<Rightarrow> json \<Rightarrow> json" where
  "dropMember k j = (case j of JObj kvs \<Rightarrow> JObj (filter (\<lambda>kj. fst kj \<noteq> k) kvs) | _ \<Rightarrow> j)"

definition onMember :: "string \<Rightarrow> (json \<Rightarrow> json) \<Rightarrow> json \<Rightarrow> json" where
  "onMember k f j = (case j of JObj kvs \<Rightarrow> JObj (map (\<lambda>kj. if fst kj = k then (k, f (snd kj)) else kj) kvs) | _ \<Rightarrow> j)"

subsection \<open>Lemmas\<close>

lemma bitCount_le: "a < 2 ^ k \<Longrightarrow> bitCount a \<le> k"
proof (induction a arbitrary: k rule: bitCount.induct)
  case (1 a)
  show ?case
  proof (cases "a = 0")
    case True
    then show ?thesis by (subst bitCount.simps) simp
  next
    case False
    then obtain k' where k: "k = Suc k'" using 1(2) by (cases k) auto
    then have "a div 2 < 2 ^ k'" using 1(2) by (simp add: less_mult_imp_div_less mult.commute)
    then show ?thesis using 1(1) [OF False] False k by (subst bitCount.simps) simp
  qed
qed

lemma roundMag_small: "a < 2 ^ 53 \<Longrightarrow> roundMag a = a"
  using bitCount_le [of a 53] by (simp add: roundMag_def Let_def)

text \<open>Below \<open>2 ^ 53\<close> nothing is lost.\<close>

lemma float64_exact: "\<bar>i\<bar> < 2 ^ 53 \<Longrightarrow> float64 i = i"
  by (auto simp: float64_def roundMag_small)

text \<open>Above it something is.\<close>

lemma float64_merges: "float64 9007199254740993 = float64 9007199254740992"
  by (simp add: float64_def roundMag_def bitCount.simps)

text \<open>A field that is not named in the object keeps its zero value; the first member of a list decides
  where no later one has the name.\<close>

lemma getField_none:
  "\<forall>k\<in>fst ` set kvs. \<not> fieldMatches field k \<Longrightarrow> getField dec field kvs v = Some v"
  by (induction kvs) auto

end
