(* ===== verification/AuditLog.thy ===== *)
theory AuditLog
  imports GoLib
begin

text \<open>
  \<^verbatim>\<open>internal/audit/audit.go\<close>: the audit logger with its buffered channel, its writer goroutine and
  the rotation of the log files.

  The file system is a map from names to contents, passed along explicitly. An operating-system
  call can fail: \<open>fails\<close> of the record \<open>osfault\<close> says which calls do, and \<open>partial\<close> how many bytes a
  failing write still appends. \<^verbatim>\<open>json.Marshal\<close> of an entry is the argument \<open>marshal\<close>.
\<close>

record Entry =
  eTimestamp :: int
  eEvent :: string
  ConnID :: string
  eUser :: string
  ePrimitiveID :: string
  ePrimitiveType :: string
  eOp :: string
  HoldMs :: int
  eResult :: string
  DurationNs :: int64
  eError :: string

definition defaultBufferSize :: nat where
  "defaultBufferSize = 4096"

type_synonym files = "string \<Rightarrow> string option"

datatype oscall = OSMkdir | OSOpen | OSFstat | OSWrite | OSClose | OSStat string
  | OSRemove string | OSRename string string

record osfault =
  fails :: "oscall \<Rightarrow> bool"
  partial :: nat

definition no_faults :: osfault where
  "no_faults = \<lparr>fails = (\<lambda>_. False), partial = 0\<rparr>"

text \<open>A field of type \<^verbatim>\<open>*os.File\<close> is nil (\<open>None\<close>), open, or closed but not nil.\<close>

datatype fhandle = FileOpen | FileClosed

datatype lphase = LLoop | LDrain | LReturned

record Logger =
  lpath :: string
  maxBytes :: int64
  keepFiles :: nat
  ch :: "Entry list"
  ldone :: bool
  lfile :: "fhandle option"
  currentBytes :: int64
  dropped :: int64
  loopPhase :: lphase

datatype audit_error = PathRequired | MkdirError | OpenError | StatError

text \<open>\<^verbatim>\<open>OpenFile\<close> with \<^verbatim>\<open>O_CREATE|O_APPEND\<close> keeps what is there; with \<^verbatim>\<open>O_TRUNC\<close> it empties the file.\<close>

definition open_append :: "string \<Rightarrow> files \<Rightarrow> files" where
  "open_append p fs = (case fs p of None \<Rightarrow> fs(p \<mapsto> []) | Some c \<Rightarrow> fs)"

definition Audit_New :: "osfault \<Rightarrow> string \<Rightarrow> int64 \<Rightarrow> int \<Rightarrow> files \<Rightarrow> audit_error + (Logger \<times> files)" where
  "Audit_New f path mx keep fs =
     (if path = [] then Inl PathRequired
      else let keep' = (if keep < 0 then 0 else keep)
      in if fails f OSMkdir then Inl MkdirError
      else if fails f OSOpen then Inl OpenError
      else let fs' = open_append path fs
      in if fails f OSFstat then Inl StatError
      else Inr (\<lparr>lpath = path, maxBytes = mx, keepFiles = nat keep', ch = [], ldone = False,
                 lfile = Some FileOpen, currentBytes = of_nat (length (the (fs' path))), dropped = 0,
                 loopPhase = LLoop\<rparr>, fs'))"

definition Log :: "Entry \<Rightarrow> Logger \<Rightarrow> Logger" where
  "Log e l = (case try_send defaultBufferSize e (ch l) of
      Some c \<Rightarrow> l\<lparr>ch := c\<rparr> | None \<Rightarrow> l\<lparr>dropped := dropped l + 1\<rparr>)"

definition Dropped :: "Logger \<Rightarrow> int64" where
  "Dropped l = dropped l"

text \<open>\<^verbatim>\<open>fmt.Sprintf("%s.%d", l.path, i)\<close>.\<close>

definition numbered :: "string \<Rightarrow> nat \<Rightarrow> string" where
  "numbered p i = p @ CHR ''.'' # decimal i"

text \<open>\<^verbatim>\<open>os.Remove\<close> and \<^verbatim>\<open>os.Rename\<close>, with the two kinds of error the code tells apart.\<close>

datatype oserr = NotExist | OtherErr

definition os_Remove :: "osfault \<Rightarrow> string \<Rightarrow> files \<Rightarrow> oserr option \<times> files" where
  "os_Remove f p fs = (if fails f (OSRemove p) then (Some OtherErr, fs)
     else if fs p = None then (Some NotExist, fs) else (None, fs(p := None)))"

definition os_Rename :: "osfault \<Rightarrow> string \<Rightarrow> string \<Rightarrow> files \<Rightarrow> oserr option \<times> files" where
  "os_Rename f src dst fs = (if fails f (OSRename src dst) then (Some OtherErr, fs)
     else case fs src of None \<Rightarrow> (Some NotExist, fs) | Some c \<Rightarrow> (None, fs(src := None, dst \<mapsto> c)))"

text \<open>The loop \<^verbatim>\<open>for i := l.keepFiles - 1; i >= 1; i--\<close>; \<open>False\<close> is the early return of an error.\<close>

fun shiftFiles :: "osfault \<Rightarrow> string \<Rightarrow> nat \<Rightarrow> files \<Rightarrow> bool \<times> files" where
  "shiftFiles f p 0 fs = (True, fs)"
| "shiftFiles f p (Suc i) fs =
     (let src = numbered p (Suc i); dst = numbered p (Suc (Suc i))
      in if fs src \<noteq> None \<and> \<not> fails f (OSStat src)
         then case os_Rename f src dst fs of
                (None, fs') \<Rightarrow> shiftFiles f p i fs'
              | (Some e, fs') \<Rightarrow> (False, fs')
         else shiftFiles f p i fs)"

text \<open>The part of \<^verbatim>\<open>rotateLocked\<close> between closing the old file and opening the new one.\<close>

definition moveAway :: "osfault \<Rightarrow> string \<Rightarrow> nat \<Rightarrow> files \<Rightarrow> bool \<times> files" where
  "moveAway f p keep fs =
     (if 0 < keep then
        (let fs1 = snd (os_Remove f (numbered p keep) fs)
         in case shiftFiles f p (keep - 1) fs1 of
              (False, fs2) \<Rightarrow> (False, fs2)
            | (True, fs2) \<Rightarrow>
                (case os_Rename f p (numbered p 1) fs2 of
                   (Some OtherErr, fs3) \<Rightarrow> (False, fs3) | (_, fs3) \<Rightarrow> (True, fs3)))
      else (case os_Remove f p fs of (Some OtherErr, fs1) \<Rightarrow> (False, fs1) | (_, fs1) \<Rightarrow> (True, fs1)))"

definition rotateLocked :: "osfault \<Rightarrow> Logger \<times> files \<Rightarrow> bool \<times> Logger \<times> files" where
  "rotateLocked f lf = (case lf of (l, fs) \<Rightarrow>
     (case lfile l of
        None \<Rightarrow> (True, l, fs)
      | Some h \<Rightarrow>
          if fails f OSClose \<or> h = FileClosed then (False, l, fs)
          else (let l1 = l\<lparr>lfile := Some FileClosed\<rparr>
                in case moveAway f (lpath l) (keepFiles l) fs of
                     (False, fs') \<Rightarrow> (False, l1, fs')
                   | (True, fs') \<Rightarrow>
                       if fails f OSOpen then (False, l1, fs')
                       else (True, l1\<lparr>lfile := Some FileOpen, currentBytes := 0\<rparr>,
                             fs'(lpath l \<mapsto> [])))))"

definition writeEntry :: "(Entry \<Rightarrow> string option) \<Rightarrow> osfault \<Rightarrow> Entry \<Rightarrow> Logger \<times> files \<Rightarrow> Logger \<times> files" where
  "writeEntry marshal f e lf = (case lf of (l, fs) \<Rightarrow>
     (case marshal e of
        None \<Rightarrow> (l, fs)
      | Some json \<Rightarrow>
          (let data = json @ [CHR 0x0A]
           in case lfile l of
                None \<Rightarrow> (l, fs)
              | Some FileClosed \<Rightarrow> (l, fs)
              | Some FileOpen \<Rightarrow>
                  if fails f OSWrite
                  then (l, fs(lpath l := map_option (\<lambda>c. c @ take (partial f) data) (fs (lpath l))))
                  else (let l1 = l\<lparr>currentBytes := currentBytes l + of_nat (length data)\<rparr>;
                            fs1 = fs(lpath l := map_option (\<lambda>c. c @ data) (fs (lpath l)))
                        in if 0 < sint (maxBytes l1) \<and> sint (maxBytes l1) \<le> sint (currentBytes l1)
                           then snd (rotateLocked f (l1, fs1)) else (l1, fs1)))))"

text \<open>One round of \<^verbatim>\<open>loop\<close>; \<open>ctxArm\<close> says that the \<^verbatim>\<open>select\<close> takes the arm of \<^verbatim>\<open>done\<close>.\<close>

definition loop_step ::
    "(Entry \<Rightarrow> string option) \<Rightarrow> inp \<Rightarrow> osfault \<Rightarrow> Logger \<times> files \<Rightarrow> (Logger \<times> files) option" where
  "loop_step marshal i f lf = (case lf of (l, fs) \<Rightarrow>
     (case loopPhase l of
        LLoop \<Rightarrow>
          if ctxArm i \<and> ldone l then Some (l\<lparr>loopPhase := LDrain\<rparr>, fs)
          else (case ch l of
                  [] \<Rightarrow> None | e # es \<Rightarrow> Some (writeEntry marshal f e (l\<lparr>ch := es\<rparr>, fs)))
      | LDrain \<Rightarrow>
          (case ch l of
             [] \<Rightarrow> Some (l\<lparr>loopPhase := LReturned\<rparr>, fs)
           | e # es \<Rightarrow> Some (writeEntry marshal f e (l\<lparr>ch := es\<rparr>, fs)))
      | LReturned \<Rightarrow> None))"

text \<open>\<^verbatim>\<open>Close\<close>: closing \<^verbatim>\<open>done\<close> (a second time panics), and, once the loop has returned, closing the file.\<close>

definition Close_done :: "Logger \<Rightarrow> string + Logger" where
  "Close_done l = (if ldone l then Inl ''close of closed channel'' else Inr (l\<lparr>ldone := True\<rparr>))"

definition Close_file :: "osfault \<Rightarrow> Logger \<Rightarrow> (bool \<times> Logger) option" where
  "Close_file f l = (if loopPhase l \<noteq> LReturned then None
     else case lfile l of
            None \<Rightarrow> Some (True, l)
          | Some h \<Rightarrow> Some (\<not> (fails f OSClose \<or> h = FileClosed), l\<lparr>lfile := None\<rparr>))"

subsection \<open>Rotation\<close>

lemma numbered_inject [simp]: "numbered p i = numbered p j \<longleftrightarrow> i = j"
  by (simp add: numbered_def)

lemma numbered_neq [simp]: "numbered p i \<noteq> p" "p \<noteq> numbered p i"
  by (simp_all add: numbered_def)

lemma no_faults_simps [simp]: "fails no_faults c = False"
  by (simp add: no_faults_def)

text \<open>What rotation should do to the files: \<open>path.i\<close> becomes \<open>path.(i+1)\<close>, the log itself \<open>path.1\<close>, the
  oldest disappears.\<close>

lemma shiftFiles_Suc:
  assumes "fs (numbered p (Suc (Suc n))) = None"
  shows "shiftFiles no_faults p (Suc n) fs = shiftFiles no_faults p n
    (fs(numbered p (Suc n) := None, numbered p (Suc (Suc n)) := fs (numbered p (Suc n))))"
proof (cases "fs (numbered p (Suc n))")
  case None
  then have "fs(numbered p (Suc n) := None, numbered p (Suc (Suc n)) := fs (numbered p (Suc n))) = fs"
    using assms by (simp add: fun_upd_idem)
  then show ?thesis using None by (simp add: Let_def)
qed (simp add: Let_def os_Rename_def)

lemma shiftFiles_ok:
  assumes "fs (numbered p (Suc n)) = None"
  shows "fst (shiftFiles no_faults p n fs) \<and>
    (\<forall>i. 1 \<le> i \<and> i \<le> n \<longrightarrow> snd (shiftFiles no_faults p n fs) (numbered p (Suc i)) = fs (numbered p i)) \<and>
    snd (shiftFiles no_faults p n fs) (numbered p 1) = None \<and>
    (\<forall>q. (\<forall>i. 1 \<le> i \<and> i \<le> Suc n \<longrightarrow> q \<noteq> numbered p i) \<longrightarrow> snd (shiftFiles no_faults p n fs) q = fs q)"
  using assms
proof (induction n arbitrary: fs)
  case (Suc n)
  define g where "g = fs(numbered p (Suc n) := None, numbered p (Suc (Suc n)) := fs (numbered p (Suc n)))"
  have g: "g (numbered p (Suc n)) = None" "g (numbered p (Suc (Suc n))) = fs (numbered p (Suc n))"
    "\<And>q. q \<noteq> numbered p (Suc n) \<Longrightarrow> q \<noteq> numbered p (Suc (Suc n)) \<Longrightarrow> g q = fs q"
    by (simp_all add: g_def)
  have step: "shiftFiles no_faults p (Suc n) fs = shiftFiles no_faults p n g"
    unfolding g_def by (rule shiftFiles_Suc) (rule Suc.prems)
  note IH = Suc.IH [of g, OF g(1)]
  have top: "snd (shiftFiles no_faults p n g) (numbered p (Suc (Suc n))) = fs (numbered p (Suc n))"
    using IH g(2) by simp
  have below: "snd (shiftFiles no_faults p n g) (numbered p (Suc i)) = fs (numbered p i)"
    if "1 \<le> i" "i \<le> n" for i using IH that g(3) by simp
  have rest: "snd (shiftFiles no_faults p n g) q = fs q"
    if "\<forall>i. 1 \<le> i \<and> i \<le> Suc (Suc n) \<longrightarrow> q \<noteq> numbered p i" for q
  proof -
    have "snd (shiftFiles no_faults p n g) q = g q" using IH that by simp
    then show ?thesis using that g(3) by simp
  qed
  show ?case unfolding step using IH top below rest by (auto simp: le_Suc_eq)
qed simp

lemma moveAway_ok:
  assumes "0 < n"
  shows "fst (moveAway no_faults p n fs) \<and> snd (moveAway no_faults p n fs) p = None \<and>
    snd (moveAway no_faults p n fs) (numbered p 1) = fs p \<and>
    (\<forall>i. 1 \<le> i \<and> i < n \<longrightarrow> snd (moveAway no_faults p n fs) (numbered p (Suc i)) = fs (numbered p i)) \<and>
    (\<forall>q. q \<noteq> p \<and> (\<forall>i. 1 \<le> i \<and> i \<le> n \<longrightarrow> q \<noteq> numbered p i) \<longrightarrow> snd (moveAway no_faults p n fs) q = fs q)"
proof -
  obtain m where n: "n = Suc m" using assms by (cases n) auto
  let ?fs1 = "fs(numbered p n := None)"
  have rm: "snd (os_Remove no_faults (numbered p n) fs) = ?fs1" by (auto simp: os_Remove_def)
  have "?fs1 (numbered p (Suc m)) = None" by (simp add: n)
  note sh = shiftFiles_ok [of ?fs1 p m, OF this]
  define fs2 where "fs2 = snd (shiftFiles no_faults p m ?fs1)"
  have s2: "shiftFiles no_faults p m ?fs1 = (True, fs2)" using sh by (simp add: fs2_def prod_eq_iff)
  have p2: "fs2 p = fs p" using sh by (simp add: fs2_def)
  have one: "fs2 (numbered p 1) = None" using sh by (simp add: fs2_def)
  have mv: "moveAway no_faults p n fs = (True, fs2(p := None, numbered p 1 := fs p))"
  proof (cases "fs p")
    case None
    then have "fs2(p := None, numbered p 1 := fs p) = fs2" using p2 one by (simp add: fun_upd_idem)
    then show ?thesis using None p2 s2 rm n by (simp add: moveAway_def os_Rename_def)
  next
    case (Some c)
    then show ?thesis using p2 s2 rm n by (simp add: moveAway_def os_Rename_def)
  qed
  have up: "fs2 (numbered p (Suc i)) = fs (numbered p i)" if "1 \<le> i" "i < n" for i
    using sh that n by (simp add: fs2_def)
  have rest: "fs2 q = fs q" if "\<forall>i. 1 \<le> i \<and> i \<le> n \<longrightarrow> q \<noteq> numbered p i" for q
    using sh that n assms by (auto simp: fs2_def)
  have "1 \<le> n" using assms by simp
  then show ?thesis unfolding mv using up rest by auto
qed

text \<open>The text that the files hold, from the oldest to the newest.\<close>

definition content :: "string \<Rightarrow> files \<Rightarrow> string" where
  "content q fs = (case fs q of None \<Rightarrow> [] | Some c \<Rightarrow> c)"

primrec archive :: "string \<Rightarrow> nat \<Rightarrow> files \<Rightarrow> string" where
  "archive p 0 fs = []"
| "archive p (Suc i) fs = content (numbered p (Suc i)) fs @ archive p i fs"

definition logtext :: "string \<Rightarrow> nat \<Rightarrow> files \<Rightarrow> string" where
  "logtext p n fs = archive p n fs @ content p fs"

lemma archive_cong: "(\<And>i. 1 \<le> i \<Longrightarrow> i \<le> n \<Longrightarrow> fs (numbered p i) = gs (numbered p i)) \<Longrightarrow> archive p n fs = archive p n gs"
  by (induction n) (simp_all add: content_def)

lemma archive_shift:
  "(\<And>i. 1 \<le> i \<Longrightarrow> i \<le> n \<Longrightarrow> gs (numbered p (Suc i)) = fs (numbered p i)) \<Longrightarrow>
     archive p (Suc n) gs = archive p n fs @ content (numbered p 1) gs"
  by (induction n) (simp_all add: content_def)

lemma rotate_ok:
  assumes "lfile l = Some FileOpen" "0 < keepFiles l"
  shows "\<exists>fs'. rotateLocked no_faults (l, fs) =
      (True, l\<lparr>lfile := Some FileOpen, currentBytes := 0\<rparr>, fs') \<and> fs' (lpath l) = Some [] \<and>
    fs' (numbered (lpath l) 1) = fs (lpath l) \<and>
    (\<forall>i. 1 \<le> i \<and> i < keepFiles l \<longrightarrow> fs' (numbered (lpath l) (Suc i)) = fs (numbered (lpath l) i)) \<and>
    (\<forall>q. q \<noteq> lpath l \<and> (\<forall>i. 1 \<le> i \<and> i \<le> keepFiles l \<longrightarrow> q \<noteq> numbered (lpath l) i) \<longrightarrow> fs' q = fs q)"
proof -
  obtain fs1 where mv: "moveAway no_faults (lpath l) (keepFiles l) fs = (True, fs1)"
    using moveAway_ok [OF assms(2), of "lpath l" fs] by (cases "moveAway no_faults (lpath l) (keepFiles l) fs") auto
  show ?thesis
    using moveAway_ok [OF assms(2), of "lpath l" fs] assms(1) unfolding mv
    by (auto simp: rotateLocked_def mv)
qed

lemma rotate_drops_oldest:
  assumes "lfile l = Some FileOpen" "0 < keepFiles l"
    "rotateLocked no_faults (l, fs) = (ok, l', fs')"
  shows "logtext (lpath l) (keepFiles l) fs =
    content (numbered (lpath l) (keepFiles l)) fs @ logtext (lpath l) (keepFiles l) fs'"
proof -
  obtain m where n: "keepFiles l = Suc m" using assms(2) by (cases "keepFiles l") auto
  from rotate_ok [OF assms(1,2), of fs] assms(3) n
  have r: "fs' (lpath l) = Some []" "fs' (numbered (lpath l) 1) = fs (lpath l)"
    "\<And>i. 1 \<le> i \<Longrightarrow> i \<le> m \<Longrightarrow> fs' (numbered (lpath l) (Suc i)) = fs (numbered (lpath l) i)"
    by auto
  have "archive (lpath l) (Suc m) fs' = archive (lpath l) m fs @ content (lpath l) fs"
    using archive_shift [of m fs' "lpath l" fs] r by (simp add: content_def)
  then show ?thesis using r(1) n by (simp add: logtext_def content_def)
qed

subsection \<open>What rotation may drop\<close>

text \<open>Of the bytes \<open>T\<close> that the log held at the start or that were written since, nothing is gone as
  long as fewer than \<open>n\<close> rotations happened; the \<open>r\<close> newest numbered files each hold at least \<open>mx\<close>
  bytes.\<close>

definition log_kept :: "string \<Rightarrow> nat \<Rightarrow> int \<Rightarrow> string \<Rightarrow> files \<Rightarrow> bool" where
  "log_kept p n mx T fs \<longleftrightarrow> (\<exists>r\<le>n.
     (\<forall>i. 1 \<le> i \<and> i \<le> r \<longrightarrow> mx \<le> int (length (content (numbered p i) fs))) \<and>
     (archive p r fs @ content p fs = T \<or> r = n \<and> 0 < mx))"

lemma log_keptI:
  "r \<le> n \<Longrightarrow> (\<And>i. 1 \<le> i \<Longrightarrow> i \<le> r \<Longrightarrow> mx \<le> int (length (content (numbered p i) fs))) \<Longrightarrow>
     archive p r fs @ content p fs = T \<or> r = n \<and> 0 < mx \<Longrightarrow> log_kept p n mx T fs"
  unfolding log_kept_def by blast

lemma log_kept_append:
  assumes "log_kept p n mx T fs" "fs p = Some c"
  shows "log_kept p n mx (T @ d) (fs(p \<mapsto> c @ d))"
proof -
  obtain r where r: "r \<le> n" "\<And>i. 1 \<le> i \<Longrightarrow> i \<le> r \<Longrightarrow> mx \<le> int (length (content (numbered p i) fs))"
    "archive p r fs @ content p fs = T \<or> r = n \<and> 0 < mx"
    using assms(1) unfolding log_kept_def by blast
  have "content (numbered p i) (fs(p \<mapsto> c @ d)) = content (numbered p i) fs" for i
    by (simp add: content_def)
  moreover have "archive p r (fs(p \<mapsto> c @ d)) = archive p r fs" by (rule archive_cong) simp
  ultimately show ?thesis
    using r assms(2) by (intro log_keptI [of r]) (auto simp: content_def)
qed

lemma log_kept_rotate:
  assumes k: "log_kept p n mx T fs" and big: "mx \<le> int (length (content p fs))" "0 < mx" "0 < n"
    and gs: "gs p = Some []" "gs (numbered p 1) = fs p"
      "\<And>i. 1 \<le> i \<Longrightarrow> i < n \<Longrightarrow> gs (numbered p (Suc i)) = fs (numbered p i)"
  shows "log_kept p n mx T gs"
proof -
  obtain r where r: "r \<le> n" "\<And>i. 1 \<le> i \<Longrightarrow> i \<le> r \<Longrightarrow> mx \<le> int (length (content (numbered p i) fs))"
    "archive p r fs @ content p fs = T \<or> r = n \<and> 0 < mx"
    using k unfolding log_kept_def by blast
  have big': "mx \<le> int (length (content (numbered p i) gs))" if "1 \<le> i" "i \<le> Suc r" "i \<le> n" for i
  proof (cases "i = 1")
    case False
    then have "gs (numbered p i) = fs (numbered p (i - 1))" using that gs(3) [of "i - 1"] by simp
    then show ?thesis using r(2) [of "i - 1"] that False by (simp add: content_def)
  qed (use big(1) gs(2) in \<open>simp add: content_def\<close>)
  show ?thesis
  proof (cases "r = n")
    case True
    then show ?thesis using big' big(2) by (intro log_keptI [of n]) auto
  next
    case False
    have "archive p (Suc r) gs = archive p r fs @ content (numbered p 1) gs"
      using r(1) False gs(3) by (intro archive_shift) auto
    then have "archive p (Suc r) gs @ content p gs = T"
      using r(3) False gs(1,2) by (simp add: content_def)
    then show ?thesis using r(1) False big' by (intro log_keptI [of "Suc r"]) auto
  qed
qed

lemma sint_of_nat_le: "sint (of_nat n :: int64) \<le> int n"
proof -
  have "sint (of_nat n :: int64) = signed_take_bit 63 (int n)"
    using sint_sbintrunc' [of "int n", where 'a = 64] by simp
  also have "\<dots> \<le> int n" by (simp add: signed_take_bit_int_less_eq_self_iff)
  finally show ?thesis .
qed

lemma archive_length:
  "(\<And>i. 1 \<le> i \<Longrightarrow> i \<le> n \<Longrightarrow> mx \<le> int (length (content (numbered p i) fs))) \<Longrightarrow>
     int n * mx \<le> int (length (archive p n fs))"
proof (induction n)
  case (Suc n)
  have "int n * mx \<le> int (length (archive p n fs))" using Suc by simp
  moreover have "mx \<le> int (length (content (numbered p (Suc n)) fs))" using Suc.prems [of "Suc n"] by simp
  ultimately show ?case by (simp add: distrib_right)
qed simp

lemma archive_le: "r \<le> n \<Longrightarrow> \<exists>pre. archive p n fs = pre @ archive p r fs"
  by (induction n) (auto simp: le_Suc_eq)

lemma log_keptD:
  assumes "log_kept p n mx T fs"
  shows "(\<exists>pre. logtext p n fs = pre @ T) \<or> 0 < mx \<and> int n * mx \<le> int (length (archive p n fs))"
proof -
  obtain r where r: "r \<le> n" "\<And>i. 1 \<le> i \<Longrightarrow> i \<le> r \<Longrightarrow> mx \<le> int (length (content (numbered p i) fs))"
    "archive p r fs @ content p fs = T \<or> r = n \<and> 0 < mx"
    using assms unfolding log_kept_def by blast
  from r(3) show ?thesis
  proof
    assume "archive p r fs @ content p fs = T"
    then show ?thesis using archive_le [OF r(1), of p fs] by (auto simp: logtext_def)
  qed (use r(2) archive_length [of n mx p fs] in blast)
qed

subsection \<open>Writing\<close>

text \<open>The logger as it is between two entries: an open handle on an existing log, the byte counter
  equal to its size and, with a limit, below it.\<close>

definition log_ok :: "Logger \<times> files \<Rightarrow> bool" where
  "log_ok lf = (case lf of (l, fs) \<Rightarrow> lfile l = Some FileOpen \<and>
     (\<exists>c. fs (lpath l) = Some c \<and> currentBytes l = of_nat (length c)) \<and>
     (0 < sint (maxBytes l) \<longrightarrow> sint (currentBytes l) < sint (maxBytes l)))"

definition line :: "(Entry \<Rightarrow> string option) \<Rightarrow> Entry \<Rightarrow> string" where
  "line marshal e = (case marshal e of None \<Rightarrow> [] | Some json \<Rightarrow> json @ [CHR 0x0A])"

lemma writeEntry_frame:
  assumes "writeEntry marshal f e (l, fs) = (l', fs')"
  shows "lpath l' = lpath l" "keepFiles l' = keepFiles l" "maxBytes l' = maxBytes l" "ch l' = ch l"
    "loopPhase l' = loopPhase l" "ldone l' = ldone l" "dropped l' = dropped l"
  using assms
  by (auto simp: writeEntry_def rotateLocked_def Let_def
      split: option.splits fhandle.splits if_splits prod.splits bool.splits)

text \<open>The three ways \<^verbatim>\<open>writeEntry\<close> ends when nothing fails.\<close>

lemma writeEntry_cases [consumes 2, case_names skip app rot]:
  assumes ok: "log_ok (l, fs)" and w: "writeEntry marshal no_faults e (l, fs) = (l', fs')"
  obtains "l' = l" "fs' = fs" "line marshal e = []"
  | c where "fs (lpath l) = Some c" "fs' = fs(lpath l \<mapsto> c @ line marshal e)"
      "l' = l\<lparr>currentBytes := of_nat (length (c @ line marshal e))\<rparr>"
      "0 < sint (maxBytes l) \<longrightarrow> sint (currentBytes l') < sint (maxBytes l)"
  | c r where "fs (lpath l) = Some c" "0 < sint (maxBytes l)"
      "sint (maxBytes l) \<le> sint (of_nat (length (c @ line marshal e)) :: int64)"
      "rotateLocked no_faults (l\<lparr>currentBytes := of_nat (length (c @ line marshal e))\<rparr>,
         fs(lpath l \<mapsto> c @ line marshal e)) = (r, l', fs')"
proof (cases "marshal e")
  case None
  then show ?thesis using w that(1) by (simp add: writeEntry_def line_def)
next
  case (Some json)
  then have line: "line marshal e = json @ [CHR 0x0A]" by (simp add: line_def)
  obtain c where c: "fs (lpath l) = Some c" "currentBytes l = of_nat (length c)"
    and h: "lfile l = Some FileOpen" using ok by (auto simp: log_ok_def)
  let ?n = "of_nat (length (c @ line marshal e)) :: int64"
  have out: "(if 0 < sint (maxBytes l) \<and> sint (maxBytes l) \<le> sint ?n
      then snd (rotateLocked no_faults (l\<lparr>currentBytes := ?n\<rparr>, fs(lpath l \<mapsto> c @ line marshal e)))
      else (l\<lparr>currentBytes := ?n\<rparr>, fs(lpath l \<mapsto> c @ line marshal e))) = (l', fs')"
    using w by (simp add: writeEntry_def Let_def Some c h line ac_simps cong: if_cong split del: if_split)
  show ?thesis
  proof (cases "0 < sint (maxBytes l) \<and> sint (maxBytes l) \<le> sint ?n")
    case True
    then have "rotateLocked no_faults (l\<lparr>currentBytes := ?n\<rparr>, fs(lpath l \<mapsto> c @ line marshal e)) =
        (fst (rotateLocked no_faults (l\<lparr>currentBytes := ?n\<rparr>, fs(lpath l \<mapsto> c @ line marshal e))), l', fs')"
      using out by (simp add: prod_eq_iff)
    then show ?thesis using True c(1) that(3) by blast
  next
    case False
    then show ?thesis using out c(1) that(2) by auto
  qed
qed

lemma writeEntry_ok:
  assumes ok: "log_ok (l, fs)" and keep: "0 < keepFiles l"
    and w: "writeEntry marshal no_faults e (l, fs) = (l', fs')"
  shows "log_ok (l', fs') \<and> (\<exists>old. logtext (lpath l) (keepFiles l) fs @ line marshal e =
    old @ logtext (lpath l) (keepFiles l) fs')"
proof -
  have text': "logtext (lpath l) (keepFiles l) (fs(lpath l \<mapsto> c @ line marshal e)) =
      logtext (lpath l) (keepFiles l) fs @ line marshal e" if "fs (lpath l) = Some c" for c
    using that archive_cong [of "keepFiles l" "fs(lpath l \<mapsto> c @ line marshal e)" "lpath l" fs]
    by (simp add: logtext_def content_def)
  from ok w show ?thesis
  proof (cases rule: writeEntry_cases)
    case skip
    then show ?thesis using ok by simp
  next
    case (app c)
    then have "log_ok (l', fs')" using ok by (auto simp: log_ok_def)
    then show ?thesis using text' [OF app(1)] app(2) by auto
  next
    case (rot c r)
    let ?l = "l\<lparr>currentBytes := of_nat (length (c @ line marshal e))\<rparr>"
    let ?fs = "fs(lpath l \<mapsto> c @ line marshal e)"
    have l: "lfile ?l = Some FileOpen" "0 < keepFiles ?l" using ok keep by (simp_all add: log_ok_def)
    have "log_ok (l', fs')" using rotate_ok [OF l, of ?fs] rot by (auto simp: log_ok_def)
    then show ?thesis using rotate_drops_oldest [OF l rot(4)] text' [OF rot(1)] by auto
  qed
qed

lemma writeEntry_kept:
  assumes ok: "log_ok (l, fs)" and keep: "0 < keepFiles l"
    and w: "writeEntry marshal no_faults e (l, fs) = (l', fs')"
    and k: "log_kept (lpath l) (keepFiles l) (sint (maxBytes l)) T fs"
  shows "log_kept (lpath l) (keepFiles l) (sint (maxBytes l)) (T @ line marshal e) fs'"
  using ok w
proof (cases rule: writeEntry_cases)
  case skip
  then show ?thesis using k by simp
next
  case (app c)
  then show ?thesis using log_kept_append [OF k] by simp
next
  case (rot c r)
  let ?l = "l\<lparr>currentBytes := of_nat (length (c @ line marshal e))\<rparr>"
  let ?fs = "fs(lpath l \<mapsto> c @ line marshal e)"
  have l: "lfile ?l = Some FileOpen" "0 < keepFiles ?l" using ok keep by (simp_all add: log_ok_def)
  have "sint (maxBytes l) \<le> int (length (content (lpath l) ?fs))"
    using rot(3) sint_of_nat_le [of "length (c @ line marshal e)"] by (simp add: content_def)
  then show ?thesis
    using rotate_ok [OF l, of ?fs] rot keep
    by (intro log_kept_rotate [OF log_kept_append [OF k rot(1)]]) auto
qed

definition writeAll :: "(Entry \<Rightarrow> string option) \<Rightarrow> osfault \<Rightarrow> Entry list \<Rightarrow> Logger \<times> files \<Rightarrow> Logger \<times> files" where
  "writeAll marshal f es lf = fold (writeEntry marshal f) es lf"

lemma writeAll_ok:
  "log_ok (l, fs) \<Longrightarrow> 0 < keepFiles l \<Longrightarrow> writeAll marshal no_faults es (l, fs) = (l', fs') \<Longrightarrow>
     log_ok (l', fs') \<and> lpath l' = lpath l \<and> keepFiles l' = keepFiles l \<and> maxBytes l' = maxBytes l \<and>
     (\<exists>old. logtext (lpath l) (keepFiles l) fs @ concat (map (line marshal) es) =
       old @ logtext (lpath l) (keepFiles l) fs')"
proof (induction es arbitrary: l fs)
  case (Cons e es)
  obtain l1 fs1 where w: "writeEntry marshal no_faults e (l, fs) = (l1, fs1)" by fastforce
  note fr = writeEntry_frame [OF w]
  from writeEntry_ok [OF Cons.prems(1,2) w] obtain old where ok: "log_ok (l1, fs1)"
    and o: "logtext (lpath l) (keepFiles l) fs @ line marshal e = old @ logtext (lpath l) (keepFiles l) fs1" by auto
  have "writeAll marshal no_faults es (l1, fs1) = (l', fs')" using Cons.prems(3) w by (simp add: writeAll_def)
  from Cons.IH [OF ok _ this] fr Cons.prems(2) obtain old' where
    "logtext (lpath l) (keepFiles l) fs1 @ concat (map (line marshal) es) =
       old' @ logtext (lpath l) (keepFiles l) fs'"
    and rest: "log_ok (l', fs') \<and> lpath l' = lpath l \<and> keepFiles l' = keepFiles l \<and> maxBytes l' = maxBytes l"
    by auto
  then have "logtext (lpath l) (keepFiles l) fs @ concat (map (line marshal) (e # es)) =
      (old @ old') @ logtext (lpath l) (keepFiles l) fs'"
    using o by (metis append_assoc concat.simps(2) list.simps(9))
  then show ?case using rest by blast
qed (auto simp: writeAll_def)

lemma writeAll_kept:
  "log_ok (l, fs) \<Longrightarrow> 0 < keepFiles l \<Longrightarrow> writeAll marshal no_faults es (l, fs) = (l', fs') \<Longrightarrow>
     log_kept (lpath l) (keepFiles l) (sint (maxBytes l)) T fs \<Longrightarrow>
     log_kept (lpath l) (keepFiles l) (sint (maxBytes l)) (T @ concat (map (line marshal) es)) fs'"
proof (induction es arbitrary: l fs T)
  case (Cons e es)
  obtain l1 fs1 where w: "writeEntry marshal no_faults e (l, fs) = (l1, fs1)" by fastforce
  note fr = writeEntry_frame [OF w]
  have ok: "log_ok (l1, fs1)" using writeEntry_ok [OF Cons.prems(1,2) w] by simp
  have k: "log_kept (lpath l1) (keepFiles l1) (sint (maxBytes l1)) (T @ line marshal e) fs1"
    using writeEntry_kept [OF Cons.prems(1,2) w Cons.prems(4)] fr by simp
  have "writeAll marshal no_faults es (l1, fs1) = (l', fs')" using Cons.prems(3) w by (simp add: writeAll_def)
  from Cons.IH [OF ok _ this k] show ?case using fr Cons.prems(2) by simp
qed (simp add: writeAll_def)

subsection \<open>Draining\<close>

text \<open>Callers of \<^verbatim>\<open>Log\<close> and the writer goroutine run side by side; each round of the loop has its own
  failing system calls.\<close>

datatype audit_event = AuLog Entry | AuLoop inp osfault

fun audit_exec :: "(Entry \<Rightarrow> string option) \<Rightarrow> audit_event \<Rightarrow> Logger \<times> files \<Rightarrow> (Logger \<times> files) option" where
  "audit_exec marshal (AuLog e) lf = Some (Log e (fst lf), snd lf)"
| "audit_exec marshal (AuLoop i f) lf = loop_step marshal i f lf"

fun logged :: "audit_event list \<Rightarrow> Entry list" where
  "logged [] = []"
| "logged (AuLog e # es) = e # logged es"
| "logged (AuLoop i f # es) = logged es"

fun rounds :: "audit_event list \<Rightarrow> nat" where
  "rounds [] = 0"
| "rounds (AuLog e # es) = rounds es"
| "rounds (AuLoop i f # es) = Suc (rounds es)"

text \<open>The entries handed to \<^verbatim>\<open>writeEntry\<close>, one after the other, each with the calls that failed.\<close>

definition handAll ::
    "(Entry \<Rightarrow> string option) \<Rightarrow> (osfault \<times> Entry) list \<Rightarrow> Logger \<times> files \<Rightarrow> Logger \<times> files" where
  "handAll marshal hs lf = fold (\<lambda>(f, e). writeEntry marshal f e) hs lf"

text \<open>What \<^verbatim>\<open>writeEntry\<close> depends on: neither the channel nor the state of the loop.\<close>

definition core :: "Logger \<Rightarrow> string \<times> int64 \<times> nat \<times> fhandle option \<times> int64" where
  "core l = (lpath l, maxBytes l, keepFiles l, lfile l, currentBytes l)"

lemma core_simps [simp]:
  "core (l\<lparr>ch := c\<rparr>) = core l" "core (l\<lparr>ldone := b\<rparr>) = core l"
  "core (l\<lparr>dropped := d\<rparr>) = core l" "core (l\<lparr>loopPhase := ph\<rparr>) = core l"
  by (simp_all add: core_def)

lemma core_Log [simp]: "core (Log e l) = core l"
  by (simp add: Log_def split: option.splits)

lemma rotate_core:
  assumes "core l = core l'"
  shows "snd (snd (rotateLocked f (l, fs))) = snd (snd (rotateLocked f (l', fs))) \<and>
    core (fst (snd (rotateLocked f (l, fs)))) = core (fst (snd (rotateLocked f (l', fs))))"
proof -
  have eqs: "lpath l = lpath l'" "maxBytes l = maxBytes l'" "lfile l = lfile l'" "keepFiles l = keepFiles l'"
    "currentBytes l = currentBytes l'" using assms by (simp_all add: core_def)
  obtain b gs where mv: "moveAway f (lpath l) (keepFiles l) fs = (b, gs)" by fastforce
  show ?thesis
    using mv by (cases "lfile l"; cases b) (simp_all add: core_def rotateLocked_def Let_def eqs)
qed

lemma writeEntry_core:
  assumes "core l = core l'"
  shows "snd (writeEntry marshal f e (l, fs)) = snd (writeEntry marshal f e (l', fs)) \<and>
    core (fst (writeEntry marshal f e (l, fs))) = core (fst (writeEntry marshal f e (l', fs)))"
proof -
  have eqs: "lpath l = lpath l'" "maxBytes l = maxBytes l'" "lfile l = lfile l'" "currentBytes l = currentBytes l'"
    "keepFiles l = keepFiles l'" using assms by (simp_all add: core_def)
  have c: "core (l\<lparr>currentBytes := b\<rparr>) = core (l'\<lparr>currentBytes := b\<rparr>)" for b
    using eqs by (simp add: core_def)
  show ?thesis
    using assms eqs rotate_core [OF c]
    by (simp add: writeEntry_def Let_def c split: option.splits fhandle.splits)
qed

lemma handAll_core: "core l = core l' \<Longrightarrow> snd (handAll marshal hs (l, fs)) = snd (handAll marshal hs (l', fs))"
proof (induction hs arbitrary: l l' fs)
  case (Cons h hs)
  obtain f e where h: "h = (f, e)" by fastforce
  obtain l1 fs1 where w: "writeEntry marshal f e (l, fs) = (l1, fs1)" by fastforce
  obtain l2 fs2 where w': "writeEntry marshal f e (l', fs) = (l2, fs2)" by fastforce
  have "fs1 = fs2" "core l1 = core l2" using writeEntry_core [OF Cons.prems, of marshal f e fs] w w' by simp_all
  then have "snd (handAll marshal hs (l1, fs1)) = snd (handAll marshal hs (l2, fs2))"
    using Cons.IH [of l1 l2 fs1] by simp
  then show ?case using w w' h by (simp add: handAll_def)
qed (simp add: handAll_def)

fun roundsLeft :: "lphase \<Rightarrow> nat" where
  "roundsLeft LLoop = 2"
| "roundsLeft LDrain = 1"
| "roundsLeft LReturned = 0"

text \<open>What a round of the loop does: it hands over the oldest entry, or goes on to its next phase,
  to \<^verbatim>\<open>return\<close> only with an empty channel.\<close>

lemma loop_step_cases [consumes 1, case_names hand phase]:
  assumes "loop_step marshal i f (l, fs) = Some (l', fs')"
  obtains e es where "ch l = e # es" "writeEntry marshal f e (l\<lparr>ch := es\<rparr>, fs) = (l', fs')" "loopPhase l \<noteq> LReturned"
  | ph where "l' = l\<lparr>loopPhase := ph\<rparr>" "fs' = fs" "Suc (roundsLeft ph) = roundsLeft (loopPhase l)"
      "ph = LReturned \<longrightarrow> ch l = []"
  using assms by (cases "loopPhase l"; cases "ch l"; auto simp: loop_step_def split: if_splits)

text \<open>The account of a run from a logger \<open>l\<close> to \<open>l'\<close>: the entries handed over and those still queued
  are the ones queued at the start and those accepted since, in order; all others are counted as
  dropped.\<close>

definition account ::
    "audit_event list \<Rightarrow> Logger \<Rightarrow> (osfault \<times> Entry) list \<Rightarrow> Entry list \<Rightarrow> Logger \<Rightarrow> bool" where
  "account es l hs ws l' \<longleftrightarrow>
     map snd hs @ ch l' = ch l @ ws \<and> ws \<in> set (subseqs (logged es)) \<and>
     dropped l' + of_nat (length ws) = dropped l + of_nat (length (logged es)) \<and>
     (loopPhase l' = LReturned \<and> loopPhase l \<noteq> LReturned \<longrightarrow> (\<exists>rest. map snd hs = ch l @ rest)) \<and>
     rounds es \<le> length hs + roundsLeft (loopPhase l)"

lemma account_run:
  "run (audit_exec marshal) es (l, fs) = Some (l', fs') \<Longrightarrow>
     \<exists>hs ws. fs' = snd (handAll marshal hs (l, fs)) \<and> account es l hs ws l'"
proof (induction es arbitrary: l fs)
  case Nil
  then show ?case by (auto simp: handAll_def account_def intro!: exI [of _ "[]"])
next
  case (Cons v es)
  show ?case
  proof (cases v)
    case (AuLog e)
    then have "run (audit_exec marshal) es (Log e l, fs) = Some (l', fs')" using Cons.prems by simp
    from Cons.IH [OF this] obtain hs ws where
      hw: "fs' = snd (handAll marshal hs (l, fs))" "account es (Log e l) hs ws l'"
      using handAll_core [OF core_Log] by metis
    have "account (v # es) l hs (if try_send defaultBufferSize e (ch l) = None then ws else e # ws) l'"
      using hw(2) AuLog
      by (auto simp: account_def Log_def try_send_def Let_def algebra_simps split: if_splits option.splits)
    then show ?thesis using hw(1) by blast
  next
    case (AuLoop i f)
    then obtain l1 fs1 where st: "loop_step marshal i f (l, fs) = Some (l1, fs1)"
      and "run (audit_exec marshal) es (l1, fs1) = Some (l', fs')"
      using Cons.prems by (auto split: option.splits)
    from Cons.IH [OF this(2)] obtain hs ws where
      hw: "fs' = snd (handAll marshal hs (l1, fs1))" "account es l1 hs ws l'" by blast
    from st show ?thesis
    proof (cases rule: loop_step_cases)
      case (hand e q)
      note fr = writeEntry_frame [OF hand(2)]
      have "handAll marshal ((f, e) # hs) (l\<lparr>ch := q\<rparr>, fs) = handAll marshal hs (l1, fs1)"
        using hand(2) by (simp add: handAll_def)
      then have "fs' = snd (handAll marshal ((f, e) # hs) (l, fs))"
        using hw(1) handAll_core [of "l\<lparr>ch := q\<rparr>" l] by (metis core_simps(1))
      moreover have "account (v # es) l ((f, e) # hs) ws l'"
        using hw(2) fr hand AuLoop by (auto simp: account_def)
      ultimately show ?thesis by blast
    next
      case (phase ph)
      have "fs' = snd (handAll marshal hs (l, fs))"
        using hw(1) phase handAll_core [of "l\<lparr>loopPhase := ph\<rparr>" l] by simp
      moreover have "account (v # es) l hs ws l'"
        using hw(2) phase AuLoop by (auto simp: account_def)
      ultimately show ?thesis by blast
    qed
  qed
qed

lemma audit_exec_ldone: "audit_exec marshal e (l, fs) = Some (l', fs') \<Longrightarrow> ldone l' = ldone l"
proof (cases e)
  case (AuLoop i f)
  assume "audit_exec marshal e (l, fs) = Some (l', fs')"
  then have "loop_step marshal i f (l, fs) = Some (l', fs')" using AuLoop by simp
  then show ?thesis by (cases rule: loop_step_cases) (auto dest: writeEntry_frame(6))
qed (auto simp: Log_def split: option.splits)

lemma audit_run_ldone: "run (audit_exec marshal) es (l, fs) = Some (l', fs') \<Longrightarrow> ldone l' = ldone l"
proof (induction es arbitrary: l fs)
  case (Cons e es)
  then obtain l1 fs1 where "audit_exec marshal e (l, fs) = Some (l1, fs1)"
    "run (audit_exec marshal) es (l1, fs1) = Some (l', fs')" by (auto split: option.splits)
  then show ?case using Cons.IH audit_exec_ldone by metis
qed simp

lemma loop_goes_on:
  "ldone l \<Longrightarrow> loopPhase l \<noteq> LReturned \<Longrightarrow> \<exists>lf. loop_step marshal inpDone f (l, fs) = Some lf"
  by (cases "loopPhase l") (auto simp: loop_step_def inpDone_def split: list.splits)

subsection \<open>Properties\<close>

text \<open>C33. Rotation: with an open log, room for \<open>n > 0\<close> old files and no failing system call,
  \<^verbatim>\<open>rotateLocked\<close> turns \<open>path\<close> into \<open>path.1\<close> and every \<open>path.i\<close> into \<open>path.(i+1)\<close> for \<open>i < n\<close>, drops
  \<open>path.n\<close>, starts an empty log and touches no other file.\<close>

theorem audit_rotation:
  assumes "lfile l = Some FileOpen" "0 < keepFiles l"
  shows "\<exists>fs'. rotateLocked no_faults (l, fs) =
      (True, l\<lparr>lfile := Some FileOpen, currentBytes := 0\<rparr>, fs') \<and> fs' (lpath l) = Some [] \<and>
    fs' (numbered (lpath l) 1) = fs (lpath l) \<and>
    (\<forall>i. 1 \<le> i \<and> i < keepFiles l \<longrightarrow> fs' (numbered (lpath l) (Suc i)) = fs (numbered (lpath l) i)) \<and>
    (\<forall>q. q \<noteq> lpath l \<and> (\<forall>i. 1 \<le> i \<and> i \<le> keepFiles l \<longrightarrow> q \<noteq> numbered (lpath l) i) \<longrightarrow> fs' q = fs q)"
  by (rule rotate_ok [OF assms])

definition demo_logger :: "nat \<Rightarrow> int64 \<Rightarrow> Logger" where
  "demo_logger n mx = \<lparr>lpath = ''a'', maxBytes = mx, keepFiles = n, ch = [], ldone = False,
     lfile = Some FileOpen, currentBytes = 0, dropped = 0, loopPhase = LLoop\<rparr>"

definition demo_entry :: Entry where
  "demo_entry = \<lparr>eTimestamp = 0, eEvent = ''conn_open'', ConnID = ''1'', eUser = [], ePrimitiveID = [],
     ePrimitiveType = [], eOp = [], HoldMs = 0, eResult = ''success'', DurationNs = 0, eError = []\<rparr>"

theorem audit_rotation_witness:
  "\<exists>fs'. rotateLocked no_faults (demo_logger 2 9, [''a'' \<mapsto> ''new'', ''a.1'' \<mapsto> ''old'', ''b'' \<mapsto> ''x'']) =
      (True, demo_logger 2 9, fs') \<and> fs' ''a.1'' = Some ''new'' \<and> fs' ''a.2'' = Some ''old''"
proof -
  have n: "numbered ''a'' 1 = ''a.1''" "numbered ''a'' 2 = ''a.2''"
    by code_simp+
  show ?thesis
    using audit_rotation [of "demo_logger 2 9" "[''a'' \<mapsto> ''new'', ''a.1'' \<mapsto> ''old'', ''b'' \<mapsto> ''x'']"] n
    by (force simp: demo_logger_def numeral_2_eq_2)
qed

text \<open>C34. The newest part of the log is kept, and as much of it as the limits ask for. When no system
  call fails, \<open>keep > 0\<close> old files are kept and a log found at the start is below a positive limit,
  then after any entries: the text of the numbered files and the log, oldest first, is what was
  there before followed by one line per entry, in order, less a part at the beginning; either all
  of what the log held at the start and all lines written since are still there, or the numbered
  files hold at least \<open>keep\<close> times the limit in bytes; and the size of the log, which the byte
  counter gives, is below a positive limit.\<close>

theorem audit_log_keeps_newest:
  assumes "Audit_New no_faults path mx keep fs = Inr (l, fs0)" "0 < keep"
    and "0 < sint mx \<longrightarrow> sint (currentBytes l) < sint mx"
    and "writeAll marshal no_faults es (l, fs0) = (l', fs')"
  shows "(\<exists>old. logtext path (nat keep) fs0 @ concat (map (line marshal) es) = old @ logtext path (nat keep) fs') \<and>
    ((\<exists>pre. logtext path (nat keep) fs' = pre @ content path fs0 @ concat (map (line marshal) es)) \<or>
     0 < sint mx \<and> keep * sint mx \<le> int (length (archive path (nat keep) fs'))) \<and>
    (\<exists>c. fs' path = Some c \<and> currentBytes l' = of_nat (length c) \<and>
      (0 < sint mx \<longrightarrow> sint (currentBytes l') < sint mx))"
proof -
  have l: "lpath l = path" "keepFiles l = nat keep" "maxBytes l = mx" "lfile l = Some FileOpen"
      "fs0 = open_append path fs" "currentBytes l = of_nat (length (the (fs0 path)))"
    using assms(1,2) by (auto simp: Audit_New_def Let_def split: if_splits)
  have "\<exists>c. fs0 path = Some c" using l(5) by (auto simp: open_append_def split: option.splits)
  then have ok: "log_ok (l, fs0)" using l assms(3) by (auto simp: log_ok_def)
  have k: "log_kept (lpath l) (keepFiles l) (sint (maxBytes l)) (content path fs0) fs0"
    using l(1) by (intro log_keptI [of 0]) auto
  have n: "0 < keepFiles l" using l(2) assms(2) by simp
  show ?thesis
    using writeAll_ok [OF ok n assms(4)] log_keptD [OF writeAll_kept [OF ok n assms(4) k]] l assms(2)
    by (auto simp: log_ok_def)
qed

theorem audit_log_keeps_newest_witness:
  "\<exists>l' fs'. writeAll (\<lambda>e. Some (eEvent e)) no_faults [demo_entry, demo_entry, demo_entry]
       (demo_logger 1 15, Map.empty(''a'' \<mapsto> [])) = (l', fs') \<and>
     ((\<exists>pre. logtext ''a'' 1 fs' = pre @ concat (replicate 3 (''conn_open'' @ [CHR 0x0A]))) \<or>
      15 \<le> length (archive ''a'' 1 fs'))"
proof -
  have new: "Audit_New no_faults ''a'' 15 1 Map.empty = Inr (demo_logger 1 15, Map.empty(''a'' \<mapsto> []))"
    by (simp add: Audit_New_def open_append_def demo_logger_def)
  obtain l' fs' where w: "writeAll (\<lambda>e. Some (eEvent e)) no_faults [demo_entry, demo_entry, demo_entry]
       (demo_logger 1 15, Map.empty(''a'' \<mapsto> [])) = (l', fs')" by fastforce
  have c: "content ''a'' (Map.empty(''a'' \<mapsto> [])) = []" by (simp add: content_def)
  have "(\<exists>pre. logtext ''a'' (nat 1) fs' = pre @ content ''a'' (Map.empty(''a'' \<mapsto> [])) @
        concat (map (line (\<lambda>e. Some (eEvent e))) [demo_entry, demo_entry, demo_entry])) \<or>
      0 < sint (15 :: int64) \<and> 1 * sint (15 :: int64) \<le> int (length (archive ''a'' (nat 1) fs'))"
    using audit_log_keeps_newest [OF new _ _ w] by (auto simp: demo_logger_def)
  then show ?thesis using w c by (auto simp: line_def demo_entry_def numeral_3_eq_3)
qed

text \<open>C35. Closing loses nothing that was accepted. \<^verbatim>\<open>Close\<close> closes \<^verbatim>\<open>done\<close> on a logger whose loop runs;
  let callers of \<^verbatim>\<open>Log\<close> and the loop then take any steps, with any system calls failing. The
  entries handed to \<^verbatim>\<open>writeEntry\<close> so far and those still queued are the ones queued at \<^verbatim>\<open>Close\<close> and
  those accepted since, in order, the files are what \<^verbatim>\<open>writeEntry\<close> made of the former, and every
  other entry was counted as dropped. \<^verbatim>\<open>Close\<close> gets past \<^verbatim>\<open>wg.Wait\<close> only when every entry that was
  queued at its start has been handed over; until then the loop has a step to take, and it takes
  at most one per entry and two more. (\<^verbatim>\<open>writeEntry\<close> itself only reports an entry it cannot marshal
  or write.)\<close>

theorem audit_close_drains:
  assumes "Close_done l = Inr l1" "loopPhase l = LLoop"
    and "run (audit_exec marshal) es (l1, fs) = Some (l2, fs2)"
  shows "\<exists>hs ws. fs2 = snd (handAll marshal hs (l, fs)) \<and>
    map snd hs @ ch l2 = ch l @ ws \<and> ws \<in> set (subseqs (logged es)) \<and>
    dropped l2 + of_nat (length ws) = dropped l + of_nat (length (logged es)) \<and>
    (Close_file f l2 \<noteq> None \<longrightarrow> (\<exists>rest. map snd hs = ch l @ rest)) \<and>
    (Close_file f l2 = None \<longrightarrow> (\<exists>i g lf. loop_step marshal i g (l2, fs2) = Some lf)) \<and>
    rounds es \<le> length hs + 2"
proof -
  have l1: "l1 = l\<lparr>ldone := True\<rparr>" using assms(1) by (auto simp: Close_done_def split: if_splits)
  obtain hs ws where "fs2 = snd (handAll marshal hs (l1, fs))" and a: "account es l1 hs ws l2"
    using account_run [OF assms(3)] by blast
  then have h: "fs2 = snd (handAll marshal hs (l, fs))" using handAll_core [of l1 l] l1 by simp
  have "ldone l2" using audit_run_ldone [OF assms(3)] l1 by simp
  then have go: "Close_file f l2 = None \<longrightarrow> (\<exists>i g lf. loop_step marshal i g (l2, fs2) = Some lf)"
    using loop_goes_on [of l2 marshal no_faults fs2] by (auto simp: Close_file_def split: if_splits option.splits)
  have "Close_file f l2 \<noteq> None \<longrightarrow> loopPhase l2 = LReturned" by (simp add: Close_file_def)
  then show ?thesis using a h go assms(2) l1 by (intro exI [of _ hs] exI [of _ ws]) (auto simp: account_def)
qed

definition demo_close_run :: "audit_event list" where
  "demo_close_run = [AuLoop inpDone no_faults, AuLog demo_entry, AuLoop inp0 no_faults,
     AuLoop inp0 no_faults, AuLoop inp0 no_faults]"

theorem audit_close_drains_witness:
  "\<exists>l1 l2 fs2 hs. Close_done ((demo_logger 1 0)\<lparr>ch := [demo_entry]\<rparr>) = Inr l1 \<and>
     run (audit_exec (\<lambda>e. Some (eEvent e))) demo_close_run (l1, Map.empty(''a'' \<mapsto> [])) = Some (l2, fs2) \<and>
     Close_file no_faults l2 \<noteq> None \<and> (\<exists>rest. map snd hs = [demo_entry] @ rest) \<and>
     fs2 = snd (handAll (\<lambda>e. Some (eEvent e)) hs
       ((demo_logger 1 0)\<lparr>ch := [demo_entry]\<rparr>, Map.empty(''a'' \<mapsto> [])))"
proof -
  let ?l = "(demo_logger 1 0)\<lparr>ch := [demo_entry]\<rparr>"
  let ?l1 = "?l\<lparr>ldone := True\<rparr>"
  have c: "Close_done ?l = Inr ?l1" and ph: "loopPhase ?l = LLoop"
    by (simp_all add: Close_done_def demo_logger_def)
  obtain l2 fs2 where r: "run (audit_exec (\<lambda>e. Some (eEvent e))) demo_close_run
      (?l1, Map.empty(''a'' \<mapsto> [])) = Some (l2, fs2)" and f: "Close_file no_faults l2 \<noteq> None"
    by (simp add: demo_close_run_def Close_done_def demo_logger_def loop_step_def writeEntry_def
      Close_file_def Log_def try_send_def defaultBufferSize_def inpDone_def inp0_def Let_def) blast
  have "ch ?l = [demo_entry]" by simp
  then show ?thesis using audit_close_drains [OF c ph r, of no_faults] c r f by metis
qed

lemma writeEntry_closed: "lfile l = Some FileClosed \<Longrightarrow> writeEntry marshal f e (l, fs) = (l, fs)"
  by (simp add: writeEntry_def Let_def split: option.splits)

lemma writeAll_closed: "lfile l = Some FileClosed \<Longrightarrow> writeAll marshal f es (l, fs) = (l, fs)"
  by (induction es) (simp_all add: writeAll_def writeEntry_closed)

definition rename_fault :: osfault where
  "rename_fault = \<lparr>fails = (\<lambda>c. c = OSRename ''a'' ''a.1''), partial = 0\<rparr>"

text \<open>One failed rename ends the audit log: \<^verbatim>\<open>rotateLocked\<close> has closed the file by then and leaves
  the closed handle in place, so no later entry is ever written, even when nothing fails any more.\<close>

lemma audit_failed_rotation_stops_log:
  "\<exists>l' fs'. writeEntry (\<lambda>e. Some (eEvent e)) rename_fault demo_entry
       (demo_logger 1 5, Map.empty(''a'' \<mapsto> [])) = (l', fs') \<and> lfile l' = Some FileClosed \<and>
     (\<forall>es. writeAll (\<lambda>e. Some (eEvent e)) no_faults es (l', fs') = (l', fs'))"
proof -
  have n: "numbered ''a'' 1 = ''a.1''" by code_simp
  obtain l' fs' where w: "writeEntry (\<lambda>e. Some (eEvent e)) rename_fault demo_entry
       (demo_logger 1 5, Map.empty(''a'' \<mapsto> [])) = (l', fs')" and c: "lfile l' = Some FileClosed"
    using n by (simp add: writeEntry_def Let_def demo_logger_def demo_entry_def rotateLocked_def moveAway_def
        os_Remove_def os_Rename_def rename_fault_def)
  then show ?thesis using writeAll_closed [OF c] by blast
qed

end
