(* ===== verification/JWT.thy ===== *)
theory JWT
  imports GoLib
begin

text \<open>
  \<^verbatim>\<open>internal/auth/jwt.go\<close>: \<^verbatim>\<open>GenerateJWT\<close> and \<^verbatim>\<open>ValidateJWT\<close>. Strings are byte strings.

  \<^verbatim>\<open>base64.RawURLEncoding\<close> is written out (encoding, and decoding as the standard library does it:
  line breaks are skipped, a last group of one character is an error, left-over bits are not
  checked). The keyed hash \<open>mac\<close> (HMAC-SHA256 of a key and a message) and the two JSON codecs are
  arguments; the theorems hold for any hash, and where they need the codecs to round-trip they
  assume it only of the one header the code writes and of claims whose strings are valid UTF-8:
  \<^verbatim>\<open>encoding/json\<close> replaces invalid bytes when it encodes.
\<close>

subsection \<open>base64.RawURLEncoding\<close>

definition alphabet :: string where
  "alphabet = ''ABCDEFGHIJKLMNOPQRSTUVWXYZabcdefghijklmnopqrstuvwxyz0123456789-_''"

definition b64_char :: "nat \<Rightarrow> char" where
  "b64_char d = alphabet ! d"

definition b64_value :: "char \<Rightarrow> nat option" where
  "b64_value c = (case filter (\<lambda>d. alphabet ! d = c) [0..<64] of [] \<Rightarrow> None | d # ds \<Rightarrow> Some d)"

fun b64_digits :: "nat list \<Rightarrow> nat list" where
  "b64_digits (a # b # c # bs) =
     [a div 4, (a mod 4) * 16 + b div 16, (b mod 16) * 4 + c div 64, c mod 64] @ b64_digits bs"
| "b64_digits [a, b] = [a div 4, (a mod 4) * 16 + b div 16, (b mod 16) * 4]"
| "b64_digits [a] = [a div 4, (a mod 4) * 16]"
| "b64_digits [] = []"

fun b64_bytes :: "nat list \<Rightarrow> nat list option" where
  "b64_bytes (d # e # f # g # ds) =
     map_option ((@) [d * 4 + e div 16, (e mod 16) * 16 + f div 4, (f mod 4) * 64 + g]) (b64_bytes ds)"
| "b64_bytes [d, e, f] = Some [d * 4 + e div 16, (e mod 16) * 16 + f div 4]"
| "b64_bytes [d, e] = Some [d * 4 + e div 16]"
| "b64_bytes [d] = None"
| "b64_bytes [] = Some []"

definition EncodeToString :: "string \<Rightarrow> string" where
  "EncodeToString s = map b64_char (b64_digits (map of_char s))"

fun b64_values :: "string \<Rightarrow> nat list option" where
  "b64_values [] = Some []"
| "b64_values (c # cs) =
     (if c = CHR 0x0A \<or> c = CHR 0x0D then b64_values cs
      else case b64_value c of None \<Rightarrow> None | Some d \<Rightarrow> map_option ((#) d) (b64_values cs))"

definition DecodeString :: "string \<Rightarrow> string option" where
  "DecodeString s = (case b64_values s of
      None \<Rightarrow> None | Some ds \<Rightarrow> map_option (map char_of) (b64_bytes ds))"

lemma b64_alphabet:
  assumes "d < 64"
  shows "b64_value (b64_char d) = Some d" "b64_char d \<noteq> CHR 0x0A" "b64_char d \<noteq> CHR 0x0D"
    "b64_char d \<noteq> CHR ''.''"
proof -
  have "list_all (\<lambda>d. b64_value (b64_char d) = Some d \<and> b64_char d \<noteq> CHR 0x0A \<and>
      b64_char d \<noteq> CHR 0x0D \<and> b64_char d \<noteq> CHR ''.'') [0..<64]" by code_simp
  then have "b64_value (b64_char d) = Some d \<and> b64_char d \<noteq> CHR 0x0A \<and>
      b64_char d \<noteq> CHR 0x0D \<and> b64_char d \<noteq> CHR ''.''"
    using assms by (simp add: list_all_iff)
  then show "b64_value (b64_char d) = Some d" "b64_char d \<noteq> CHR 0x0A" "b64_char d \<noteq> CHR 0x0D"
    "b64_char d \<noteq> CHR ''.''" by simp_all
qed

lemma b64_digits_small: "(\<And>b. b \<in> set bs \<Longrightarrow> b < 256) \<Longrightarrow> d \<in> set (b64_digits bs) \<Longrightarrow> d < 64"
proof (induction bs rule: b64_digits.induct)
  case (1 a b c bs)
  have "a div 4 < 64" "(a mod 4) * 16 + b div 16 < 64" "(b mod 16) * 4 + c div 64 < 64" "c mod 64 < 64"
    using 1(2) [of a] 1(2) [of b] 1(2) [of c] by auto
  then show ?case using 1 by auto
next
  case (2 a b)
  have "a div 4 < 64" "(a mod 4) * 16 + b div 16 < 64" "(b mod 16) * 4 < 64"
    using 2(1) [of a] 2(1) [of b] by auto
  then show ?case using 2 by auto
next
  case (3 a)
  have "a div 4 < 64" "(a mod 4) * 16 < 64" using 3(1) [of a] by auto
  then show ?case using 3 by auto
qed simp

text \<open>The bit fields that two neighbouring digits share are put together again.\<close>

lemma b64_field: "x < n \<Longrightarrow> (y * n + x) div n = y" "x < n \<Longrightarrow> (y * n + x) mod n = x" for x y n :: nat
  by simp_all

lemma b64_bytes_digits:
  "(\<And>b. b \<in> set bs \<Longrightarrow> b < 256) \<Longrightarrow> b64_bytes (b64_digits bs) = Some bs"
proof (induction bs rule: b64_digits.induct)
  case (1 a b c bs)
  have "b div 16 < 16" "c div 64 < 4" using 1(2) [of b] 1(2) [of c] by auto
  moreover have "b64_bytes (b64_digits bs) = Some bs" using 1 by simp
  ultimately show ?case by (simp add: b64_field)
next
  case (2 a b)
  have "b div 16 < 16" using 2(1) [of b] by auto
  then show ?case by (simp add: b64_field)
qed simp_all

lemma b64_values_chars: "(\<And>d. d \<in> set ds \<Longrightarrow> d < 64) \<Longrightarrow> b64_values (map b64_char ds) = Some ds"
  by (induction ds) (simp_all add: b64_alphabet)

lemma base64_roundtrip: "DecodeString (EncodeToString s) = Some s"
proof -
  let ?bs = "map of_char s :: nat list"
  have b: "b < 256" if "b \<in> set ?bs" for b
    using that nat_of_char_less_256 by auto
  have d: "d < 64" if "d \<in> set (b64_digits ?bs)" for d
    using b that by (rule b64_digits_small)
  have "b64_values (map b64_char (b64_digits ?bs)) = Some (b64_digits ?bs)"
    by (rule b64_values_chars) (rule d)
  moreover have "b64_bytes (b64_digits ?bs) = Some ?bs" by (rule b64_bytes_digits) (rule b)
  ultimately show ?thesis by (simp add: DecodeString_def EncodeToString_def comp_def)
qed

lemma EncodeToString_no_dot: "CHR ''.'' \<notin> set (EncodeToString s)"
proof -
  have "d < 64" if "d \<in> set (b64_digits (map of_char s))" for d
    using that by (rule b64_digits_small [rotated]) (auto intro: nat_of_char_less_256)
  then show ?thesis using b64_alphabet(4) unfolding EncodeToString_def by fastforce
qed

subsection \<open>Tokens\<close>

record Claims =
  Sub :: string
  Role :: string
  Namespace :: string
  Iat :: int64
  Exp :: int64

record header =
  Alg :: string
  Typ :: string

text \<open>\<^verbatim>\<open>utf8.ValidString\<close>, on the values of the bytes: no overlong encodings, no surrogates, nothing above
  U+10FFFF.\<close>

definition utf8_cont :: "nat \<Rightarrow> bool" where
  "utf8_cont b \<longleftrightarrow> 0x80 \<le> b \<and> b \<le> 0xBF"

fun utf8_bytes :: "nat list \<Rightarrow> bool" where
  "utf8_bytes [] = True"
| "utf8_bytes (a # bs) =
     (if a < 0x80 then utf8_bytes bs
      else if 0xC2 \<le> a \<and> a \<le> 0xDF then
        (case bs of b # r \<Rightarrow> utf8_cont b \<and> utf8_bytes r | _ \<Rightarrow> False)
      else if 0xE0 \<le> a \<and> a \<le> 0xEF then
        (case bs of
           b # c # r \<Rightarrow> utf8_cont b \<and> (a = 0xE0 \<longrightarrow> 0xA0 \<le> b) \<and> (a = 0xED \<longrightarrow> b \<le> 0x9F) \<and>
             utf8_cont c \<and> utf8_bytes r
         | _ \<Rightarrow> False)
      else if 0xF0 \<le> a \<and> a \<le> 0xF4 then
        (case bs of
           b # c # d # r \<Rightarrow> utf8_cont b \<and> (a = 0xF0 \<longrightarrow> 0x90 \<le> b) \<and> (a = 0xF4 \<longrightarrow> b \<le> 0x8F) \<and>
             utf8_cont c \<and> utf8_cont d \<and> utf8_bytes r
         | _ \<Rightarrow> False)
      else False)"

definition valid_utf8 :: "string \<Rightarrow> bool" where
  "valid_utf8 s = utf8_bytes (map of_char s)"

definition valid_claims :: "Claims \<Rightarrow> bool" where
  "valid_claims c \<longleftrightarrow> valid_utf8 (Sub c) \<and> valid_utf8 (Role c) \<and> valid_utf8 (Namespace c)"

datatype jwt_error = InvalidFormat | HeaderEncoding | HeaderJSON | UnsupportedHeader
  | InvalidSignature | PayloadEncoding | PayloadJSON | MissingSub | MissingExp | TokenExpired

definition ValidateJWT ::
    "(string \<Rightarrow> string \<Rightarrow> string) \<Rightarrow> (string \<Rightarrow> header option) \<Rightarrow> (string \<Rightarrow> Claims option) \<Rightarrow>
     int \<Rightarrow> string \<Rightarrow> string \<Rightarrow> jwt_error + Claims" where
  "ValidateJWT mac unmarshalHeader unmarshalClaims nowUnix token secret =
     (case split_on (CHR ''.'') token of
        [p0, p1, p2] \<Rightarrow>
          (case DecodeString p0 of
             None \<Rightarrow> Inl HeaderEncoding
           | Some headerJSON \<Rightarrow>
               (case unmarshalHeader headerJSON of
                  None \<Rightarrow> Inl HeaderJSON
                | Some hdr \<Rightarrow>
                    if Alg hdr \<noteq> ''HS256'' \<or> Typ hdr \<noteq> ''JWT'' then Inl UnsupportedHeader
                    else let signingInput = p0 @ CHR ''.'' # p1;
                             expectedSig = EncodeToString (mac secret signingInput)
                         in if expectedSig \<noteq> p2 then Inl InvalidSignature
                            else (case DecodeString p1 of
                                    None \<Rightarrow> Inl PayloadEncoding
                                  | Some payloadJSON \<Rightarrow>
                                      (case unmarshalClaims payloadJSON of
                                         None \<Rightarrow> Inl PayloadJSON
                                       | Some claims \<Rightarrow>
                                           if Sub claims = [] then Inl MissingSub
                                           else if Exp claims = 0 then Inl MissingExp
                                           else if sint (Exp claims) < nowUnix then Inl TokenExpired
                                           else Inr claims))))
      | _ \<Rightarrow> Inl InvalidFormat)"

definition GenerateJWT ::
    "(string \<Rightarrow> string \<Rightarrow> string) \<Rightarrow> (header \<Rightarrow> string option) \<Rightarrow> (Claims \<Rightarrow> string option) \<Rightarrow>
     Claims \<Rightarrow> string \<Rightarrow> string option" where
  "GenerateJWT mac marshalHeader marshalClaims claims secret =
     (case marshalHeader \<lparr>Alg = ''HS256'', Typ = ''JWT''\<rparr> of
        None \<Rightarrow> None
      | Some headerJSON \<Rightarrow>
          (case marshalClaims claims of
             None \<Rightarrow> None
           | Some payloadJSON \<Rightarrow>
               let headerPart = EncodeToString headerJSON;
                   payloadPart = EncodeToString payloadJSON;
                   signingInput = headerPart @ CHR ''.'' # payloadPart;
                   sigPart = EncodeToString (mac secret signingInput)
               in Some (signingInput @ CHR ''.'' # sigPart)))"

definition ann :: Claims where
  "ann = \<lparr>Sub = ''ann'', Role = ''admin'', Namespace = [], Iat = 1, Exp = 90\<rparr>"

lemma valid_ann: "valid_claims ann"
  by code_simp

lemma jwt_split:
  "split_on (CHR ''.'') (EncodeToString h @ CHR ''.'' # EncodeToString p @ CHR ''.'' # EncodeToString m) =
     [EncodeToString h, EncodeToString p, EncodeToString m]"
  by (simp add: split_on_append split_on_none EncodeToString_no_dot)

text \<open>What is generated is valid.\<close>

lemma generated_valid:
  assumes "GenerateJWT mac marshalHeader marshalClaims c secret = Some token"
    and "valid_claims c"
    and "\<And>j. marshalHeader \<lparr>Alg = ''HS256'', Typ = ''JWT''\<rparr> = Some j \<Longrightarrow>
      unmarshalHeader j = Some \<lparr>Alg = ''HS256'', Typ = ''JWT''\<rparr>"
    and "\<And>c j. valid_claims c \<Longrightarrow> marshalClaims c = Some j \<Longrightarrow> unmarshalClaims j = Some c"
  shows "ValidateJWT mac unmarshalHeader unmarshalClaims nowUnix token secret =
    (if Sub c = [] then Inl MissingSub else if Exp c = 0 then Inl MissingExp
     else if sint (Exp c) < nowUnix then Inl TokenExpired else Inr c)"
proof -
  obtain hj pj where j: "marshalHeader \<lparr>Alg = ''HS256'', Typ = ''JWT''\<rparr> = Some hj"
      "marshalClaims c = Some pj"
    using assms(1) by (auto simp: GenerateJWT_def split: option.splits)
  then have "token = EncodeToString hj @ CHR ''.'' # EncodeToString pj @ CHR ''.'' #
      EncodeToString (mac secret (EncodeToString hj @ CHR ''.'' # EncodeToString pj))"
    using assms(1) by (simp add: GenerateJWT_def Let_def)
  then show ?thesis
    using assms(3) [OF j(1)] assms(4) [OF assms(2) j(2)]
    by (simp add: ValidateJWT_def jwt_split base64_roundtrip Let_def)
qed

text \<open>C19. A token that \<^verbatim>\<open>GenerateJWT\<close> makes is accepted by \<^verbatim>\<open>ValidateJWT\<close> with the same secret until it
  expires, and gives back the same claims, when their strings are valid UTF-8. The JSON codec is
  required to decode what it encoded for the header \<^verbatim>\<open>{HS256, JWT}\<close> and for claims of valid UTF-8
  strings.\<close>

theorem jwt_roundtrip:
  assumes "GenerateJWT mac marshalHeader marshalClaims c secret = Some token"
    and "valid_claims c"
    and "\<And>j. marshalHeader \<lparr>Alg = ''HS256'', Typ = ''JWT''\<rparr> = Some j \<Longrightarrow>
      unmarshalHeader j = Some \<lparr>Alg = ''HS256'', Typ = ''JWT''\<rparr>"
    and "\<And>c j. valid_claims c \<Longrightarrow> marshalClaims c = Some j \<Longrightarrow> unmarshalClaims j = Some c"
  shows "ValidateJWT mac unmarshalHeader unmarshalClaims nowUnix token secret =
    (if Sub c = [] then Inl MissingSub else if Exp c = 0 then Inl MissingExp
     else if sint (Exp c) < nowUnix then Inl TokenExpired else Inr c)"
  using assms by (rule generated_valid)

theorem jwt_roundtrip_witness:
  "\<exists>token. GenerateJWT (\<lambda>k m. k) (\<lambda>h. if h = \<lparr>Alg = ''HS256'', Typ = ''JWT''\<rparr> then Some ''H'' else None)
        (\<lambda>x. if x = ann then Some ''C'' else None) ann ''key'' = Some token \<and>
      ValidateJWT (\<lambda>k m. k)
        (\<lambda>j. if j = ''H'' then Some \<lparr>Alg = ''HS256'', Typ = ''JWT''\<rparr> else None)
        (\<lambda>j. if j = ''C'' then Some ann else None) 50 token ''key'' = Inr ann"
proof -
  let ?h = "\<lparr>Alg = ''HS256'', Typ = ''JWT''\<rparr>"
  let ?mh = "\<lambda>h. if h = ?h then Some ''H'' else None" and ?mc = "\<lambda>x. if x = ann then Some ''C'' else None"
  obtain token where t: "GenerateJWT (\<lambda>k m. k) ?mh ?mc ann ''key'' = Some token"
    by (simp add: GenerateJWT_def Let_def)
  have "ValidateJWT (\<lambda>k m. k) (\<lambda>j. if j = ''H'' then Some ?h else None)
      (\<lambda>j. if j = ''C'' then Some ann else None) 50 token ''key'' = Inr ann"
    by (subst jwt_roundtrip [OF t valid_ann]) (auto simp: ann_def split: if_splits)
  with t show ?thesis by blast
qed

text \<open>C18. Whatever \<^verbatim>\<open>ValidateJWT\<close> accepts is signed: the token is three parts joined by dots, the last
  one is the encoded keyed hash of the first two under the secret, the header asks for HS256 (so a
  token without a signature algorithm is refused), and the claims are the decoded payload, with a
  subject and an expiry that has not passed.\<close>

theorem jwt_accepts_only_signed:
  assumes "ValidateJWT mac unmarshalHeader unmarshalClaims nowUnix token secret = Inr c"
  shows "\<exists>p0 p1 hj pj hdr. token = p0 @ CHR ''.'' # p1 @ CHR ''.'' #
        EncodeToString (mac secret (p0 @ CHR ''.'' # p1)) \<and>
      DecodeString p0 = Some hj \<and> unmarshalHeader hj = Some hdr \<and> Alg hdr = ''HS256'' \<and> Typ hdr = ''JWT'' \<and>
      DecodeString p1 = Some pj \<and> unmarshalClaims pj = Some c \<and>
      Sub c \<noteq> [] \<and> Exp c \<noteq> 0 \<and> nowUnix \<le> sint (Exp c)"
proof -
  obtain p0 p1 p2 where s: "split_on (CHR ''.'') token = [p0, p1, p2]"
    using assms by (auto simp: ValidateJWT_def split: list.splits)
  have t: "token = p0 @ CHR ''.'' # p1 @ CHR ''.'' # p2"
    using join_split [of "CHR ''.''" token] s by simp
  show ?thesis using assms unfolding ValidateJWT_def s
    by - (rule exI [of _ p0], rule exI [of _ p1],
       auto simp: Let_def t split: option.splits if_splits)
qed

theorem jwt_accepts_only_signed_witness:
  "\<exists>p0 p1. ''SA.Qw.aw'' = p0 @ CHR ''.'' # p1 @ CHR ''.'' # EncodeToString ''k''"
proof -
  have "ValidateJWT (\<lambda>k m. k) (\<lambda>j. Some \<lparr>Alg = ''HS256'', Typ = ''JWT''\<rparr>) (\<lambda>j. Some ann) 5 ''SA.Qw.aw'' ''k'' =
      Inr ann" by code_simp
  from jwt_accepts_only_signed [OF this] show ?thesis by blast
qed

end
