(* ===== verification/Waiter.thy ===== *)
theory Waiter
  imports Prelude
begin

text \<open>
  The waiter objects of \<^verbatim>\<open>internal/primitives/waiter.go\<close>: the struct, the pool they are recycled
  through, signalling and the three ways to wait, and the queue of waiters as the primitives see
  it.

  A waiter lives at an address (a \<open>wid\<close>); \<open>objs\<close> maps addresses to the objects, \<open>nalloc\<close> is the
  next address \<^verbatim>\<open>New\<close> hands out, \<open>freePool\<close> holds the recycled ones. The channel \<^verbatim>\<open>Ready\<close> has
  capacity 1, so its content is one boolean: whether a token is in it. \<^verbatim>\<open>sync.Pool.Get\<close> may return
  any pooled object or call \<^verbatim>\<open>New\<close>: the input \<open>pick\<close> decides.

  \<open>WaiterQueue\<close> is the queue at the level of its linearization points, which the theory
  \<open>MSQueue\<close> justifies: linking a node appends, moving the head pops; the counter \<^verbatim>\<open>size\<close> is
  updated by separate actions, after the link and after the pop, as in the code, so it can lag
  and be negative in between.
\<close>

record Waiter =
  ID :: "64 word"
  Ready :: bool
  CreatedAt :: int
  cancelled :: bool

record wstore =
  objs :: "wid \<Rightarrow> Waiter"
  freePool :: "wid list"
  nalloc :: nat
  waiterIDCounter :: "64 word"

definition new_Waiter :: Waiter where
  "new_Waiter = \<lparr>ID = 0, Ready = False, CreatedAt = 0, cancelled = False\<rparr>"

definition empty_store :: wstore where
  "empty_store = \<lparr>objs = (\<lambda>_. new_Waiter), freePool = [], nalloc = 0, waiterIDCounter = 0\<rparr>"

definition waiterPool_Get :: "nat \<Rightarrow> wstore \<Rightarrow> wid \<times> wstore" where
  "waiterPool_Get k st =
     (if k < length (freePool st)
      then (freePool st ! k, st\<lparr>freePool := take k (freePool st) @ drop (Suc k) (freePool st)\<rparr>)
      else (nalloc st, st\<lparr>nalloc := Suc (nalloc st),
                          objs := (objs st)(nalloc st := new_Waiter)\<rparr>))"

definition getWaiter :: "inp \<Rightarrow> wstore \<Rightarrow> wid \<times> wstore" where
  "getWaiter i st =
     (let (w, st1) = waiterPool_Get (pick i) st;
          c = waiterIDCounter st1 + 1
      in (w, st1\<lparr>waiterIDCounter := c,
                 objs := (objs st1)(w := (objs st1 w)\<lparr>Ready := False, ID := c,
                                                      CreatedAt := now i, cancelled := False\<rparr>)\<rparr>))"

definition putWaiter :: "wid option \<Rightarrow> wstore \<Rightarrow> wstore" where
  "putWaiter ow st =
     (case ow of
        None \<Rightarrow> st
      | Some w \<Rightarrow> st\<lparr>objs := (objs st)(w := (objs st w)\<lparr>Ready := False, cancelled := False\<rparr>),
                     freePool := w # freePool st\<rparr>)"

definition NewWaiter :: "inp \<Rightarrow> wstore \<Rightarrow> wid \<times> wstore" where
  "NewWaiter i st = getWaiter i st"

definition setCancelled :: "wid \<Rightarrow> wstore \<Rightarrow> wstore" where
  "setCancelled w st = st\<lparr>objs := (objs st)(w := (objs st w)\<lparr>cancelled := True\<rparr>)\<rparr>"

text \<open>\<^verbatim>\<open>Signal\<close> sends if the channel has room and does nothing otherwise: either way a token is in
  the channel afterwards.\<close>

definition Signal :: "wid \<Rightarrow> wstore \<Rightarrow> wstore" where
  "Signal w st =
     (if Ready (objs st w) then st
      else st\<lparr>objs := (objs st)(w := (objs st w)\<lparr>Ready := True\<rparr>)\<rparr>)"

definition recvReady :: "wid \<Rightarrow> wstore \<Rightarrow> wstore" where
  "recvReady w st = st\<lparr>objs := (objs st)(w := (objs st w)\<lparr>Ready := False\<rparr>)\<rparr>"

text \<open>\<^verbatim>\<open>Wait\<close> receives from the channel and blocks (\<open>None\<close>) while it is empty. The timed and the
  context variants are a \<^verbatim>\<open>select\<close> with a second channel: \<open>ctxArm\<close> says that the timer or the
  context is ready and its arm is the one taken; the result tells the two arms apart.\<close>

definition Wait :: "wid \<Rightarrow> wstore \<Rightarrow> wstore option" where
  "Wait w st = (if Ready (objs st w) then Some (recvReady w st) else None)"

definition WaitTimeout :: "inp \<Rightarrow> wid \<Rightarrow> wstore \<Rightarrow> (bool \<times> wstore) option" where
  "WaitTimeout i w st =
     (if ctxArm i then Some (False, st)
      else case Wait w st of None \<Rightarrow> None | Some st' \<Rightarrow> Some (True, st'))"

definition WaitContext :: "inp \<Rightarrow> wid \<Rightarrow> wstore \<Rightarrow> (bool \<times> wstore) option" where
  "WaitContext i w st =
     (if ctxArm i then Some (False, setCancelled w st)
      else case Wait w st of None \<Rightarrow> None | Some st' \<Rightarrow> Some (True, st'))"

record WaiterQueue =
  items :: "wid list"
  qsize :: "64 word"

definition NewWaiterQueue :: WaiterQueue where
  "NewWaiterQueue = \<lparr>items = [], qsize = 0\<rparr>"

definition enqLink :: "wid \<Rightarrow> WaiterQueue \<Rightarrow> WaiterQueue" where
  "enqLink w q = q\<lparr>items := items q @ [w]\<rparr>"

definition sizeAdd :: "64 word \<Rightarrow> WaiterQueue \<Rightarrow> WaiterQueue" where
  "sizeAdd d q = q\<lparr>qsize := qsize q + d\<rparr>"

definition deqPop :: "WaiterQueue \<Rightarrow> (wid \<times> WaiterQueue) option" where
  "deqPop q = (case items q of [] \<Rightarrow> None | w # ws \<Rightarrow> Some (w, q\<lparr>items := ws\<rparr>))"

definition Size :: "WaiterQueue \<Rightarrow> 64 word" where
  "Size q = (if sint (qsize q) < 0 then 0 else qsize q)"

definition IsEmpty :: "WaiterQueue \<Rightarrow> bool" where
  "IsEmpty q \<longleftrightarrow> Size q = 0"

text \<open>The whole of \<^verbatim>\<open>Enqueue\<close> and of \<^verbatim>\<open>Dequeue\<close> when no other goroutine interferes: \<^verbatim>\<open>Dequeue\<close> pops
  until it meets a waiter that is not cancelled, recycling the cancelled ones it skips.\<close>

definition Enqueue :: "wid \<Rightarrow> WaiterQueue \<Rightarrow> WaiterQueue" where
  "Enqueue w q = sizeAdd 1 (enqLink w q)"

fun dequeue_items :: "wid list \<Rightarrow> 64 word \<Rightarrow> wstore \<Rightarrow> wid option \<times> WaiterQueue \<times> wstore" where
  "dequeue_items [] n st = (None, \<lparr>items = [], qsize = n\<rparr>, st)"
| "dequeue_items (w # ws) n st =
     (if cancelled (objs st w) then dequeue_items ws (n - 1) (putWaiter (Some w) st)
      else (Some w, \<lparr>items = ws, qsize = n - 1\<rparr>, st))"

definition Dequeue :: "WaiterQueue \<Rightarrow> wstore \<Rightarrow> wid option \<times> WaiterQueue \<times> wstore" where
  "Dequeue q st = dequeue_items (items q) (qsize q) st"

subsection \<open>How the store reacts\<close>

lemma NewWaiter_cases:
  assumes "NewWaiter i st = (w, st')"
  obtains (pooled) k where "k < length (freePool st)" "w = freePool st ! k"
      "freePool st' = take k (freePool st) @ drop (Suc k) (freePool st)" "nalloc st' = nalloc st"
  | (fresh) "w = nalloc st" "freePool st' = freePool st" "nalloc st' = Suc (nalloc st)"
  using assms by (auto simp: NewWaiter_def getWaiter_def waiterPool_Get_def Let_def split: if_splits)

lemma NewWaiter_objs:
  assumes "NewWaiter i st = (w, st')"
  shows "\<not> Ready (objs st' w)" "\<not> cancelled (objs st' w)" "v \<noteq> w \<Longrightarrow> objs st' v = objs st v"
  using assms
  by (auto simp: NewWaiter_def getWaiter_def waiterPool_Get_def Let_def split: if_splits)

lemma NewWaiter_ready: "NewWaiter i st = (w, st') \<Longrightarrow> Ready (objs st' v) \<Longrightarrow> Ready (objs st v)"
  by (metis NewWaiter_objs(1,3))

lemma setCancelled_simps [simp]:
  "freePool (setCancelled w st) = freePool st" "nalloc (setCancelled w st) = nalloc st"
  "Ready (objs (setCancelled w st) v) = Ready (objs st v)"
  "cancelled (objs (setCancelled w st) v) \<longleftrightarrow> v = w \<or> cancelled (objs st v)"
  by (auto simp: setCancelled_def)

lemma Signal_simps [simp]:
  "freePool (Signal w st) = freePool st" "nalloc (Signal w st) = nalloc st"
  "Ready (objs (Signal w st) v) \<longleftrightarrow> v = w \<or> Ready (objs st v)"
  "cancelled (objs (Signal w st) v) = cancelled (objs st v)"
  by (auto simp: Signal_def)

lemma recvReady_simps [simp]:
  "freePool (recvReady w st) = freePool st" "nalloc (recvReady w st) = nalloc st"
  "Ready (objs (recvReady w st) v) \<longleftrightarrow> v \<noteq> w \<and> Ready (objs st v)"
  "cancelled (objs (recvReady w st) v) = cancelled (objs st v)"
  by (auto simp: recvReady_def)

lemma putWaiter_simps [simp]:
  "freePool (putWaiter (Some w) st) = w # freePool st"
  "nalloc (putWaiter (Some w) st) = nalloc st"
  "Ready (objs (putWaiter (Some w) st) v) \<longleftrightarrow> v \<noteq> w \<and> Ready (objs st v)"
  "cancelled (objs (putWaiter (Some w) st) v) \<longleftrightarrow> v \<noteq> w \<and> cancelled (objs st v)"
  "putWaiter None st = st"
  by (auto simp: putWaiter_def)

lemma queue_simps [simp]:
  "items (enqLink w q) = items q @ [w]" "qsize (enqLink w q) = qsize q"
  "items (sizeAdd d q) = items q" "qsize (sizeAdd d q) = qsize q + d"
  "items NewWaiterQueue = []" "qsize NewWaiterQueue = 0"
  by (auto simp: enqLink_def sizeAdd_def NewWaiterQueue_def)

lemma deqPop_None: "deqPop q = None \<longleftrightarrow> items q = []"
  by (auto simp: deqPop_def split: list.splits)

lemma deqPop_Some: "deqPop q = Some (w, q') \<longleftrightarrow> items q = w # items q' \<and> qsize q' = qsize q"
  by (cases q; cases q') (auto simp: deqPop_def split: list.splits)

lemma set_remove_nth:
  assumes d: "distinct xs" and k: "k < length xs"
  shows "set (take k xs @ drop (Suc k) xs) = set xs - {xs ! k}"
proof -
  let ?ys = "take k xs" and ?zs = "drop (Suc k) xs"
  have e: "xs = ?ys @ xs ! k # ?zs" using k by (rule id_take_nth_drop)
  have "distinct (?ys @ xs ! k # ?zs)" using d e by simp
  then have "xs ! k \<notin> set (?ys @ ?zs)" by simp
  moreover have "set xs = insert (xs ! k) (set (?ys @ ?zs))"
    by (subst e) simp
  ultimately show ?thesis by auto
qed

lemma distinct_remove_nth: "distinct xs \<Longrightarrow> distinct (take k xs @ drop (Suc k) xs)"
  by (metis distinct_append distinct_drop distinct_take set_take_disj_set_drop_if_distinct
      lessI less_imp_le_nat)

lemmas waiter_eval = empty_store_def WaitContext_def WaitTimeout_def Wait_def inp0_def inpDone_def
  NewWaiter_def getWaiter_def waiterPool_Get_def new_Waiter_def enqLink_def sizeAdd_def deqPop_def
  NewWaiterQueue_def setCancelled_def Signal_def

end
