(* ===== verification/Protocol.thy ===== *)
theory Protocol
  imports Waiter
begin

text \<open>
  The discipline under which every primitive of the library uses its waiter objects, as an
  abstract machine: a goroutine obtains a waiter, links it into a queue, and leaves it again by
  cancelling it or by receiving its token and returning it to the pool; a goroutine that wakes
  others pops waiters, recycles the cancelled ones and signals the others.

  \<open>own\<close> is the waiter a goroutine obtained and has not given up, \<open>hold\<close> the waiter it popped and
  has not disposed of. The invariant \<open>disciplined\<close> says that no object is in two places: in
  particular an object in the pool is referenced by nobody, so reuse through \<^verbatim>\<open>waiterPool\<close> cannot
  make two goroutines share a waiter, and a waiter that is still awaited is in a queue, or is
  about to be signalled, or has its token (no signal is lost). The primitives refine this machine
  and inherit the invariant.
\<close>

datatype ophase = Fresh | Queued | Woken
datatype hphase = Popped | Live | Dead

record pstate =
  own :: "tid \<Rightarrow> (wid \<times> ophase) option"
  hold :: "tid \<Rightarrow> (wid \<times> hphase) option"
  queues :: "nat \<Rightarrow> wid list"
  store :: wstore

inductive pstep :: "pstate \<Rightarrow> pstate \<Rightarrow> bool" where
  new: "own s t = None \<Longrightarrow> NewWaiter i (store s) = (w, st') \<Longrightarrow>
    pstep s (s\<lparr>own := (own s)(t := Some (w, Fresh)), store := st'\<rparr>)"
| link: "own s t = Some (w, Fresh) \<Longrightarrow>
    pstep s (s\<lparr>own := (own s)(t := Some (w, Queued)),
               queues := (queues s)(k := queues s k @ [w])\<rparr>)"
| cancel: "own s t = Some (w, Queued) \<Longrightarrow>
    pstep s (s\<lparr>own := (own s)(t := None), store := setCancelled w (store s)\<rparr>)"
| recv: "own s t = Some (w, Queued) \<Longrightarrow> Ready (objs (store s) w) \<Longrightarrow>
    pstep s (s\<lparr>own := (own s)(t := Some (w, Woken)), store := recvReady w (store s)\<rparr>)"
| put: "own s t = Some (w, Woken) \<Longrightarrow>
    pstep s (s\<lparr>own := (own s)(t := None), store := putWaiter (Some w) (store s)\<rparr>)"
| pop: "hold s t = None \<Longrightarrow> queues s k = w # ws \<Longrightarrow>
    pstep s (s\<lparr>hold := (hold s)(t := Some (w, Popped)), queues := (queues s)(k := ws)\<rparr>)"
| live: "hold s t = Some (w, Popped) \<Longrightarrow> \<not> cancelled (objs (store s) w) \<Longrightarrow>
    pstep s (s\<lparr>hold := (hold s)(t := Some (w, Live))\<rparr>)"
| dead: "hold s t = Some (w, Popped) \<Longrightarrow> cancelled (objs (store s) w) \<Longrightarrow>
    pstep s (s\<lparr>hold := (hold s)(t := Some (w, Dead))\<rparr>)"
| discard: "hold s t = Some (w, Dead) \<Longrightarrow>
    pstep s (s\<lparr>hold := (hold s)(t := None), store := putWaiter (Some w) (store s)\<rparr>)"
| signal: "hold s t = Some (w, Live) \<Longrightarrow>
    pstep s (s\<lparr>hold := (hold s)(t := None), store := Signal w (store s)\<rparr>)"

definition ownW :: "pstate \<Rightarrow> tid \<Rightarrow> wid option" where
  "ownW s t = map_option fst (own s t)"

definition holdW :: "pstate \<Rightarrow> tid \<Rightarrow> wid option" where
  "holdW s t = map_option fst (hold s t)"

definition queued :: "pstate \<Rightarrow> wid \<Rightarrow> bool" where
  "queued s w \<longleftrightarrow> (\<exists>k. w \<in> set (queues s k))"

definition held :: "pstate \<Rightarrow> wid \<Rightarrow> bool" where
  "held s w \<longleftrightarrow> (\<exists>t. holdW s t = Some w)"

definition owned :: "pstate \<Rightarrow> wid \<Rightarrow> bool" where
  "owned s w \<longleftrightarrow> (\<exists>t. ownW s t = Some w)"

definition refs_allocated :: "pstate \<Rightarrow> bool" where
  "refs_allocated s \<longleftrightarrow> (\<forall>w. queued s w \<or> held s w \<or> owned s w \<or> w \<in> set (freePool (store s))
     \<longrightarrow> w < nalloc (store s))"

definition queues_distinct :: "pstate \<Rightarrow> bool" where
  "queues_distinct s \<longleftrightarrow> (\<forall>k. distinct (queues s k)) \<and>
     (\<forall>k l w. w \<in> set (queues s k) \<longrightarrow> w \<in> set (queues s l) \<longrightarrow> k = l)"

definition pool_unreferenced :: "pstate \<Rightarrow> bool" where
  "pool_unreferenced s \<longleftrightarrow> distinct (freePool (store s)) \<and>
     (\<forall>w \<in> set (freePool (store s)). \<not> queued s w \<and> \<not> held s w \<and> \<not> owned s w)"

definition holders_unique :: "pstate \<Rightarrow> bool" where
  "holders_unique s \<longleftrightarrow>
     (\<forall>t u w. holdW s t = Some w \<longrightarrow> holdW s u = Some w \<longrightarrow> t = u) \<and>
     (\<forall>w. held s w \<longrightarrow> \<not> queued s w) \<and>
     (\<forall>t w. hold s t = Some (w, Dead) \<longrightarrow> cancelled (objs (store s) w))"

definition owners_unique :: "pstate \<Rightarrow> bool" where
  "owners_unique s \<longleftrightarrow>
     (\<forall>t u w. ownW s t = Some w \<longrightarrow> ownW s u = Some w \<longrightarrow> t = u) \<and>
     (\<forall>w. owned s w \<longrightarrow> \<not> cancelled (objs (store s) w))"

fun placed :: "pstate \<Rightarrow> (wid \<times> ophase) option \<Rightarrow> bool" where
  "placed s None = True"
| "placed s (Some (w, Fresh)) = (\<not> queued s w \<and> \<not> held s w \<and> \<not> Ready (objs (store s) w))"
| "placed s (Some (w, Woken)) = (\<not> queued s w \<and> \<not> held s w)"
| "placed s (Some (w, Queued)) = ((queued s w \<or> held s w) \<noteq> Ready (objs (store s) w))"

definition owner_places :: "pstate \<Rightarrow> bool" where
  "owner_places s \<longleftrightarrow> (\<forall>t. placed s (own s t))"

definition entries_live :: "pstate \<Rightarrow> bool" where
  "entries_live s \<longleftrightarrow> (\<forall>w. queued s w \<or> (\<exists>t. hold s t = Some (w, Popped)) \<longrightarrow>
     owned s w \<or> cancelled (objs (store s) w))"

definition disciplined :: "pstate \<Rightarrow> bool" where
  "disciplined s \<longleftrightarrow> refs_allocated s \<and> queues_distinct s \<and> pool_unreferenced s \<and>
     holders_unique s \<and> owners_unique s \<and> owner_places s \<and> entries_live s"

definition pinit :: pstate where
  "pinit = \<lparr>own = (\<lambda>_. None), hold = (\<lambda>_. None), queues = (\<lambda>_. []), store = empty_store\<rparr>"

lemmas places_defs = queued_def held_def owned_def ownW_def holdW_def
lemmas disciplined_defs = disciplined_def refs_allocated_def queues_distinct_def
  pool_unreferenced_def holders_unique_def owners_unique_def owner_places_def entries_live_def

lemma disciplined_pinit: "disciplined pinit"
  by (simp add: disciplined_defs places_defs pinit_def empty_store_def)

subsection \<open>Every step keeps the discipline\<close>

lemma queued_link:
  "queues s' = (queues s)(k := queues s k @ [v]) \<Longrightarrow> queued s' w \<longleftrightarrow> queued s w \<or> w = v"
  by (auto simp: queued_def split: if_splits)

lemma queued_pop:
  assumes "queues s' = (queues s)(k := vs)" "queues_distinct s" "queues s k = v # vs"
  shows "queued s' w \<longleftrightarrow> queued s w \<and> w \<noteq> v"
proof -
  have d: "v \<notin> set vs" using assms by (metis queues_distinct_def distinct.simps(2))
  have e: "w \<in> set (queues s l) \<Longrightarrow> w \<in> set (queues s k) \<Longrightarrow> l = k" for l
    using assms(2) by (auto simp: queues_distinct_def)
  have "w \<in> set (((queues s)(k := vs)) l) \<longleftrightarrow> w \<in> set (queues s l) \<and> w \<noteq> v" for l
    using d e assms(3) by auto
  then show ?thesis using assms(1) by (simp add: queued_def)
qed

lemma owned_take:
  "ownW s' = (ownW s)(t := Some v) \<Longrightarrow> ownW s t = None \<Longrightarrow> owned s' w \<longleftrightarrow> owned s w \<or> w = v"
  unfolding owned_def by (simp, metis option.distinct(1))

lemma owned_drop:
  "ownW s' = (ownW s)(t := None) \<Longrightarrow> ownW s t = Some v \<Longrightarrow> owners_unique s \<Longrightarrow>
     owned s' w \<longleftrightarrow> owned s w \<and> w \<noteq> v"
  unfolding owned_def owners_unique_def by (simp, metis option.inject)

lemma held_take:
  "holdW s' = (holdW s)(t := Some v) \<Longrightarrow> holdW s t = None \<Longrightarrow> held s' w \<longleftrightarrow> held s w \<or> w = v"
  unfolding held_def by (simp, metis option.distinct(1))

lemma held_drop:
  "holdW s' = (holdW s)(t := None) \<Longrightarrow> holdW s t = Some v \<Longrightarrow> holders_unique s \<Longrightarrow>
     held s' w \<longleftrightarrow> held s w \<and> w \<noteq> v"
  unfolding held_def holders_unique_def by (simp, metis option.inject)

lemma same_places:
  "queues s' = queues s \<Longrightarrow> queued s' w = queued s w"
  "holdW s' = holdW s \<Longrightarrow> held s' w = held s w"
  "ownW s' = ownW s \<Longrightarrow> owned s' w = owned s w"
  by (simp_all add: queued_def held_def owned_def)

lemma W_upd:
  "own s' = (own s)(t := x) \<Longrightarrow> ownW s' = (ownW s)(t := map_option fst x)"
  "hold s' = (hold s)(t := y) \<Longrightarrow> holdW s' = (holdW s)(t := map_option fst y)"
  "own s' = own s \<Longrightarrow> ownW s' = ownW s"
  "hold s' = hold s \<Longrightarrow> holdW s' = holdW s"
  by (auto simp: ownW_def holdW_def)

lemma W_keep:
  "own s' = (own s)(t := Some (w, p)) \<Longrightarrow> own s t = Some (w, p') \<Longrightarrow> ownW s' = ownW s"
  "hold s' = (hold s)(t := Some (w, h)) \<Longrightarrow> hold s t = Some (w, h') \<Longrightarrow> holdW s' = holdW s"
  by (auto simp: ownW_def holdW_def)

lemma ownedI: "own s t = Some (w, p) \<Longrightarrow> owned s w" by (auto simp: owned_def ownW_def)
lemma heldI: "hold s t = Some (w, p) \<Longrightarrow> held s w" by (auto simp: held_def holdW_def)


lemma own_inj:
  "owners_unique s \<Longrightarrow> own s t = Some (w, p) \<Longrightarrow> own s u = Some (w, p') \<Longrightarrow> t = u"
  unfolding owners_unique_def ownW_def by (metis option.simps(9) fst_conv)

lemma hold_inj:
  "holders_unique s \<Longrightarrow> hold s t = Some (w, p) \<Longrightarrow> hold s u = Some (w, p') \<Longrightarrow> t = u"
  unfolding holders_unique_def holdW_def by (metis option.simps(9) fst_conv)

lemma queues_distinct_tl:
  assumes "queues_distinct s" "queues s k = v # vs" "queues s' = (queues s)(k := vs)"
  shows "queues_distinct s'"
proof -
  have "set (queues s' l) \<subseteq> set (queues s l)" for l using assms(2,3) by auto
  moreover have "distinct (queues s' l)" for l
    using assms by (metis queues_distinct_def distinct.simps(2) fun_upd_apply)
  ultimately show ?thesis using assms(1) unfolding queues_distinct_def by blast
qed

lemma NewWaiter_pool:
  assumes n: "NewWaiter i st = (w, st')" and d: "distinct (freePool st)"
    and a: "\<forall>v \<in> set (freePool st). v < nalloc st"
  shows "distinct (freePool st')" "set (freePool st') \<subseteq> set (freePool st)" "w \<notin> set (freePool st')"
    "w \<in> set (freePool st) \<or> w = nalloc st" "nalloc st \<le> nalloc st'" "w < nalloc st'"
proof -
  have "distinct (freePool st') \<and> set (freePool st') \<subseteq> set (freePool st) \<and> w \<notin> set (freePool st') \<and>
    (w \<in> set (freePool st) \<or> w = nalloc st) \<and> nalloc st \<le> nalloc st' \<and> w < nalloc st'"
    using n
  proof (cases rule: NewWaiter_cases)
    case (pooled k)
    then show ?thesis using a set_remove_nth [OF d pooled(1)] distinct_remove_nth [OF d, of k] by auto
  next
    case fresh
    then show ?thesis using d a by auto
  qed
  then show "distinct (freePool st')" "set (freePool st') \<subseteq> set (freePool st)" "w \<notin> set (freePool st')"
    "w \<in> set (freePool st) \<or> w = nalloc st" "nalloc st \<le> nalloc st'" "w < nalloc st'" by simp_all
qed

lemma placed_frame:
  assumes "placed s x"
    "\<And>w q. x = Some (w, q) \<Longrightarrow> queued s' w = queued s w \<and> held s' w = held s w \<and>
       Ready (objs (store s') w) = Ready (objs (store s) w)"
  shows "placed s' x"
proof (cases x)
  case (Some a)
  obtain w q where "a = (w, q)" by (cases a)
  with Some assms show ?thesis by (cases q) auto
qed simp

lemma owner_places_move:
  assumes "owner_places s" "own s' = (own s)(t := x)" "placed s' x"
    "\<And>u w q. u \<noteq> t \<Longrightarrow> own s u = Some (w, q) \<Longrightarrow> queued s' w = queued s w \<and> held s' w = held s w \<and>
       Ready (objs (store s') w) = Ready (objs (store s) w)"
  shows "owner_places s'"
  using assms unfolding owner_places_def by (auto intro: placed_frame)

lemma owner_placed: "owner_places s \<Longrightarrow> own s t = x \<Longrightarrow> placed s x"
  by (auto simp: owner_places_def)

lemma step_new:
  assumes d: "disciplined s" and o: "own s t = None" and n: "NewWaiter i (store s) = (w, st')"
    and s': "s' = s\<lparr>own := (own s)(t := Some (w, Fresh)), store := st'\<rparr>"
  shows "disciplined s'"
proof -
  have e: "own s' = (own s)(t := Some (w, Fresh))" "queues s' = queues s"
    "hold s' = hold s" "store s' = st'" using s' by simp_all
  have W: "ownW s' = (ownW s)(t := Some w)" "holdW s' = holdW s" "ownW s t = None"
    using W_upd(1) [OF e(1)] W_upd(4) [OF e(3)] o by (simp_all add: ownW_def)
  have p: "queued s' v = queued s v" "held s' v = held s v" "owned s' v \<longleftrightarrow> owned s v \<or> v = w" for v
    by (rule same_places(1) [OF e(2)], rule same_places(2) [OF W(2)], rule owned_take [OF W(1,3)])
  note ob = NewWaiter_objs [OF n]
  have pool: "distinct (freePool st')" "set (freePool st') \<subseteq> set (freePool (store s))"
    "w \<notin> set (freePool st')" "w \<in> set (freePool (store s)) \<or> w = nalloc (store s)"
    "nalloc (store s) \<le> nalloc st'" "w < nalloc st'"
    using NewWaiter_pool [OF n] d by (auto simp: disciplined_def pool_unreferenced_def refs_allocated_def)
  have unref: "\<not> queued s w" "\<not> held s w" "\<not> owned s w"
    using pool(4) d by (auto simp: disciplined_def pool_unreferenced_def refs_allocated_def)
  have other: "v \<noteq> w" if "queued s v \<or> held s v \<or> owned s v" for v
    using that unref by auto
  have "refs_allocated s'" using d pool
    by (auto simp: disciplined_def refs_allocated_def p e dest: order_less_le_trans)
  moreover have "pool_unreferenced s'" using d pool(1-3)
    by (auto simp: disciplined_def pool_unreferenced_def p e)
  moreover have "holders_unique s'" using d other heldI ob(3)
    by (auto simp: disciplined_def holders_unique_def p e W)
  moreover have "owners_unique s'" using d unref ob(2) ob(3)
    by (fastforce simp: disciplined_def owners_unique_def p e W owned_def)
  moreover have "owner_places s'"
    by (rule owner_places_move [OF _ e(1)])
       (use d unref ob other ownedI in \<open>auto simp: disciplined_def p e\<close>)
  moreover have "entries_live s'" using d other heldI ob(3)
    by (auto simp: disciplined_def entries_live_def p e)
  ultimately show ?thesis using d by (simp add: disciplined_def queues_distinct_def e)
qed

lemma step_link:
  assumes d: "disciplined s" and o: "own s t = Some (w, Fresh)"
    and s': "s' = s\<lparr>own := (own s)(t := Some (w, Queued)),
                    queues := (queues s)(k := queues s k @ [w])\<rparr>"
  shows "disciplined s'"
proof -
  have e: "own s' = (own s)(t := Some (w, Queued))" "queues s' = (queues s)(k := queues s k @ [w])"
    "hold s' = hold s" "store s' = store s" using s' by simp_all
  have W: "ownW s' = ownW s" "holdW s' = holdW s"
    using W_keep(1) [OF e(1) o] W_upd(4) [OF e(3)] by simp_all
  have p: "queued s' v \<longleftrightarrow> queued s v \<or> v = w" "held s' v = held s v" "owned s' v = owned s v" for v
    by (rule queued_link [OF e(2)], rule same_places(2) [OF W(2)], rule same_places(3) [OF W(1)])
  have w: "\<not> queued s w" "\<not> held s w" "\<not> Ready (objs (store s) w)" "owned s w"
    using d o owner_placed [of s t] ownedI [OF o] by (auto simp: disciplined_def)
  have "owner_places s'"
    by (rule owner_places_move [OF _ e(1)])
       (use d w o own_inj in \<open>auto simp: disciplined_def p e\<close>)
  moreover have "queues_distinct s'" using d w(1)
    by (auto simp: disciplined_def queues_distinct_def e queued_def split: if_splits)
  moreover have "entries_live s'" using d w
    by (auto simp: disciplined_def entries_live_def p e)
  ultimately show ?thesis using d w
    by (auto simp: disciplined_def refs_allocated_def pool_unreferenced_def holders_unique_def
        owners_unique_def p e W)
qed

lemma step_cancel:
  assumes d: "disciplined s" and o: "own s t = Some (w, Queued)"
    and s': "s' = s\<lparr>own := (own s)(t := None), store := setCancelled w (store s)\<rparr>"
  shows "disciplined s'"
proof -
  have e: "own s' = (own s)(t := None)" "queues s' = queues s" "hold s' = hold s"
    "store s' = setCancelled w (store s)" using s' by simp_all
  have W: "ownW s' = (ownW s)(t := None)" "holdW s' = holdW s" "ownW s t = Some w"
    using W_upd(1) [OF e(1)] W_upd(4) [OF e(3)] o by (simp_all add: ownW_def)
  have u: "owners_unique s" using d by (simp add: disciplined_def)
  have p: "queued s' v = queued s v" "held s' v = held s v" "owned s' v \<longleftrightarrow> owned s v \<and> v \<noteq> w" for v
    by (rule same_places(1) [OF e(2)], rule same_places(2) [OF W(2)], rule owned_drop [OF W(1,3) u])
  have "owner_places s'"
    by (rule owner_places_move [OF _ e(1)]) (use d in \<open>auto simp: disciplined_def p e\<close>)
  moreover have "entries_live s'" using d
    by (auto simp: disciplined_def entries_live_def p e)
  ultimately show ?thesis using d
    by (auto simp: disciplined_def refs_allocated_def pool_unreferenced_def holders_unique_def
        owners_unique_def queues_distinct_def p e W)
qed

lemma step_recv:
  assumes d: "disciplined s" and o: "own s t = Some (w, Queued)" and r: "Ready (objs (store s) w)"
    and s': "s' = s\<lparr>own := (own s)(t := Some (w, Woken)), store := recvReady w (store s)\<rparr>"
  shows "disciplined s'"
proof -
  have e: "own s' = (own s)(t := Some (w, Woken))" "queues s' = queues s" "hold s' = hold s"
    "store s' = recvReady w (store s)" using s' by simp_all
  have W: "ownW s' = ownW s" "holdW s' = holdW s"
    using W_keep(1) [OF e(1) o] W_upd(4) [OF e(3)] by simp_all
  have p: "queued s' v = queued s v" "held s' v = held s v" "owned s' v = owned s v" for v
    by (rule same_places(1) [OF e(2)], rule same_places(2) [OF W(2)], rule same_places(3) [OF W(1)])
  have w: "\<not> queued s w" "\<not> held s w"
    using d o r owner_placed [of s t] by (auto simp: disciplined_def)
  have "owner_places s'"
    by (rule owner_places_move [OF _ e(1)])
       (use d w o own_inj in \<open>auto simp: disciplined_def p e\<close>)
  moreover have "entries_live s'" using d
    by (auto simp: disciplined_def entries_live_def p e)
  ultimately show ?thesis using d
    by (auto simp: disciplined_def refs_allocated_def pool_unreferenced_def holders_unique_def
        owners_unique_def queues_distinct_def p e W)
qed

lemma step_put:
  assumes d: "disciplined s" and o: "own s t = Some (w, Woken)"
    and s': "s' = s\<lparr>own := (own s)(t := None), store := putWaiter (Some w) (store s)\<rparr>"
  shows "disciplined s'"
proof -
  have e: "own s' = (own s)(t := None)" "queues s' = queues s" "hold s' = hold s"
    "store s' = putWaiter (Some w) (store s)" using s' by simp_all
  have W: "ownW s' = (ownW s)(t := None)" "holdW s' = holdW s" "ownW s t = Some w"
    using W_upd(1) [OF e(1)] W_upd(4) [OF e(3)] o by (simp_all add: ownW_def)
  have u: "owners_unique s" using d by (simp add: disciplined_def)
  have p: "queued s' v = queued s v" "held s' v = held s v" "owned s' v \<longleftrightarrow> owned s v \<and> v \<noteq> w" for v
    by (rule same_places(1) [OF e(2)], rule same_places(2) [OF W(2)], rule owned_drop [OF W(1,3) u])
  have w: "\<not> queued s w" "\<not> held s w" "owned s w"
    using d o owner_placed [of s t] ownedI [OF o] by (auto simp: disciplined_def)
  have "owner_places s'"
    by (rule owner_places_move [OF _ e(1)])
       (use d w o own_inj in \<open>auto simp: disciplined_def p e\<close>)
  moreover have "holders_unique s'"
    using d w heldI by (auto simp: disciplined_def holders_unique_def p e W)
  moreover have "entries_live s'" using d w heldI
    by (auto simp: disciplined_def entries_live_def p e)
  ultimately show ?thesis using d w
    by (auto simp: disciplined_def refs_allocated_def pool_unreferenced_def
        owners_unique_def queues_distinct_def p e W)
qed

lemma step_pop:
  assumes d: "disciplined s" and h: "hold s t = None" and q: "queues s k = w # ws"
    and s': "s' = s\<lparr>hold := (hold s)(t := Some (w, Popped)), queues := (queues s)(k := ws)\<rparr>"
  shows "disciplined s'"
proof -
  have e: "own s' = own s" "queues s' = (queues s)(k := ws)" "hold s' = (hold s)(t := Some (w, Popped))"
    "store s' = store s" using s' by simp_all
  have W: "ownW s' = ownW s" "holdW s' = (holdW s)(t := Some w)" "holdW s t = None"
    using W_upd(3) [OF e(1)] W_upd(2) [OF e(3)] h by (simp_all add: holdW_def)
  have qd: "queues_distinct s" using d by (simp add: disciplined_def)
  have p: "queued s' v \<longleftrightarrow> queued s v \<and> v \<noteq> w" "held s' v \<longleftrightarrow> held s v \<or> v = w" "owned s' v = owned s v" for v
    by (rule queued_pop [OF e(2) qd q], rule held_take [OF W(2,3)], rule same_places(3) [OF W(1)])
  have w: "queued s w" unfolding queued_def by (rule exI [of _ k]) (simp add: q)
  have nh: "holdW s u \<noteq> Some w" for u using d w by (auto simp: disciplined_def holders_unique_def held_def)
  have "queues_distinct s'" by (rule queues_distinct_tl [OF qd q e(2)])
  moreover have "holders_unique s'"
    using d nh by (auto simp: disciplined_def holders_unique_def p e W)
  moreover have "owner_places s'" unfolding owner_places_def
  proof
    fix u
    have "placed s (own s u)" using d by (simp add: disciplined_def owner_places_def)
    then show "placed s' (own s' u)" using w by (cases "(s, own s u)" rule: placed.cases) (auto simp: p e)
  qed
  moreover have "entries_live s'" using d w
    by (auto simp: disciplined_def entries_live_def p e)
  ultimately show ?thesis using d w
    by (auto simp: disciplined_def refs_allocated_def pool_unreferenced_def
        owners_unique_def p e W)
qed

lemma step_check:
  assumes d: "disciplined s" and h: "hold s t = Some (w, Popped)"
    and c: "x = Dead \<longrightarrow> cancelled (objs (store s) w)"
    and s': "s' = s\<lparr>hold := (hold s)(t := Some (w, x))\<rparr>"
  shows "disciplined s'"
proof -
  have e: "own s' = own s" "queues s' = queues s" "hold s' = (hold s)(t := Some (w, x))"
    "store s' = store s" using s' by simp_all
  have W: "ownW s' = ownW s" "holdW s' = holdW s"
    using W_upd(3) [OF e(1)] W_keep(2) [OF e(3) h] by simp_all
  have p: "queued s' v = queued s v" "held s' v = held s v" "owned s' v = owned s v" for v
    by (rule same_places(1) [OF e(2)], rule same_places(2) [OF W(2)], rule same_places(3) [OF W(1)])
  have "placed s' y = placed s y" for y
    by (cases "(s, y)" rule: placed.cases) (auto simp: p e)
  moreover have "entries_live s'" using d h
    by (auto simp: disciplined_def entries_live_def p e)
  ultimately show ?thesis using d c
    by (auto simp: disciplined_def refs_allocated_def pool_unreferenced_def holders_unique_def
        owners_unique_def owner_places_def queues_distinct_def p e W)
qed

lemma step_discard:
  assumes d: "disciplined s" and h: "hold s t = Some (w, Dead)"
    and s': "s' = s\<lparr>hold := (hold s)(t := None), store := putWaiter (Some w) (store s)\<rparr>"
  shows "disciplined s'"
proof -
  have e: "own s' = own s" "queues s' = queues s" "hold s' = (hold s)(t := None)"
    "store s' = putWaiter (Some w) (store s)" using s' by simp_all
  have W: "ownW s' = ownW s" "holdW s' = (holdW s)(t := None)" "holdW s t = Some w"
    using W_upd(3) [OF e(1)] W_upd(2) [OF e(3)] h by (simp_all add: holdW_def)
  have u: "holders_unique s" using d by (simp add: disciplined_def)
  have p: "queued s' v = queued s v" "held s' v \<longleftrightarrow> held s v \<and> v \<noteq> w" "owned s' v = owned s v" for v
    by (rule same_places(1) [OF e(2)], rule held_drop [OF W(2,3) u], rule same_places(3) [OF W(1)])
  have w: "\<not> queued s w" "\<not> owned s w" "held s w"
    using d h heldI [OF h] by (auto simp: disciplined_def holders_unique_def owners_unique_def)
  have "holders_unique s'"
    using d h hold_inj by (auto simp: disciplined_def holders_unique_def p e W)
  moreover have "owner_places s'" unfolding owner_places_def
  proof
    fix v
    have "placed s (own s v)" using d by (simp add: disciplined_def owner_places_def)
    then show "placed s' (own s' v)" unfolding e
      by (rule placed_frame) (use w ownedI [of s v] in \<open>auto simp: p e\<close>)
  qed
  moreover have "entries_live s'" using d w h hold_inj
    by (auto simp: disciplined_def entries_live_def p e)
  ultimately show ?thesis using d w
    by (auto simp: disciplined_def refs_allocated_def pool_unreferenced_def
        owners_unique_def queues_distinct_def p e W)
qed

lemma step_signal:
  assumes d: "disciplined s" and h: "hold s t = Some (w, Live)"
    and s': "s' = s\<lparr>hold := (hold s)(t := None), store := Signal w (store s)\<rparr>"
  shows "disciplined s'"
proof -
  have e: "own s' = own s" "queues s' = queues s" "hold s' = (hold s)(t := None)"
    "store s' = Signal w (store s)" using s' by simp_all
  have W: "ownW s' = ownW s" "holdW s' = (holdW s)(t := None)" "holdW s t = Some w"
    using W_upd(3) [OF e(1)] W_upd(2) [OF e(3)] h by (simp_all add: holdW_def)
  have u: "holders_unique s" using d by (simp add: disciplined_def)
  have p: "queued s' v = queued s v" "held s' v \<longleftrightarrow> held s v \<and> v \<noteq> w" "owned s' v = owned s v" for v
    by (rule same_places(1) [OF e(2)], rule held_drop [OF W(2,3) u], rule same_places(3) [OF W(1)])
  have w: "\<not> queued s w" "held s w"
    using d h heldI [OF h] by (auto simp: disciplined_def holders_unique_def)
  have "holders_unique s'"
    using d by (auto simp: disciplined_def holders_unique_def p e W)
  moreover have "owner_places s'" unfolding owner_places_def
  proof
    fix u
    have "placed s (own s u)" using d by (simp add: disciplined_def owner_places_def)
    then show "placed s' (own s' u)" using w by (cases "(s, own s u)" rule: placed.cases) (auto simp: p e)
  qed
  moreover have "entries_live s'" using d
    by (auto simp: disciplined_def entries_live_def p e)
  ultimately show ?thesis using d
    by (auto simp: disciplined_def refs_allocated_def pool_unreferenced_def
        owners_unique_def queues_distinct_def p e W)
qed

lemma pstep_disciplined: "disciplined s \<Longrightarrow> pstep s s' \<Longrightarrow> disciplined s'"
  by (erule pstep.cases)
     (auto intro: step_new step_link step_cancel step_recv step_put step_pop step_check
        step_discard step_signal)

text \<open>Where the waiter of a blocked goroutine is: in a queue, popped by a goroutine that is about to
  signal it, or signalled already.\<close>

lemma disciplined_parked:
  assumes "disciplined s" "own s t = Some (w, Queued)"
  shows "queued s w \<or> held s w \<or> Ready (objs (store s) w)"
proof -
  have "placed s (own s t)" using assms(1) by (simp add: disciplined_def owner_places_def)
  then show ?thesis using assms(2) by auto
qed

lemma disciplined_own_inj:
  "disciplined s \<Longrightarrow> own s t = Some (w, p) \<Longrightarrow> own s u = Some (w, p') \<Longrightarrow> t = u"
  by (rule own_inj) (simp_all add: disciplined_def)

subsection \<open>Rules for the primitives\<close>

text \<open>The steps of the discipline with the successor given field by field, and the queue
  families of primitives with one and with two queues.\<close>

lemma pstate_eqI:
  "own s' = own s \<Longrightarrow> hold s' = hold s \<Longrightarrow> queues s' = queues s \<Longrightarrow> store s' = store s \<Longrightarrow>
     s' = (s :: pstate)"
  by (cases s; cases s') simp

lemma pstep_newI:
  assumes "own s t = None" "NewWaiter i (store s) = (w, store s')"
    "own s' = (own s)(t := Some (w, Fresh))" "hold s' = hold s" "queues s' = queues s"
  shows "pstep s s'"
proof -
  have "s' = s\<lparr>own := (own s)(t := Some (w, Fresh)), store := store s'\<rparr>"
    by (rule pstate_eqI) (use assms in simp_all)
  then show ?thesis using pstep.new [OF assms(1,2)] by simp
qed

lemma pstep_linkI:
  assumes "own s t = Some (w, Fresh)" "queues s' = (queues s)(k := queues s k @ [w])"
    "own s' = (own s)(t := Some (w, Queued))" "hold s' = hold s" "store s' = store s"
  shows "pstep s s'"
proof -
  have "s' = s\<lparr>own := (own s)(t := Some (w, Queued)), queues := (queues s)(k := queues s k @ [w])\<rparr>"
    by (rule pstate_eqI) (use assms in simp_all)
  then show ?thesis using pstep.link [OF assms(1)] by simp
qed

lemma pstep_cancelI:
  assumes "own s t = Some (w, Queued)" "store s' = setCancelled w (store s)"
    "own s' = (own s)(t := None)" "hold s' = hold s" "queues s' = queues s"
  shows "pstep s s'"
proof -
  have "s' = s\<lparr>own := (own s)(t := None), store := setCancelled w (store s)\<rparr>"
    by (rule pstate_eqI) (use assms in simp_all)
  then show ?thesis using pstep.cancel [OF assms(1)] by simp
qed

lemma pstep_recvI:
  assumes "own s t = Some (w, Queued)" "Ready (objs (store s) w)" "store s' = recvReady w (store s)"
    "own s' = (own s)(t := Some (w, Woken))" "hold s' = hold s" "queues s' = queues s"
  shows "pstep s s'"
proof -
  have "s' = s\<lparr>own := (own s)(t := Some (w, Woken)), store := recvReady w (store s)\<rparr>"
    by (rule pstate_eqI) (use assms in simp_all)
  then show ?thesis using pstep.recv [OF assms(1,2)] by simp
qed

lemma pstep_putI:
  assumes "own s t = Some (w, Woken)" "store s' = putWaiter (Some w) (store s)"
    "own s' = (own s)(t := None)" "hold s' = hold s" "queues s' = queues s"
  shows "pstep s s'"
proof -
  have "s' = s\<lparr>own := (own s)(t := None), store := putWaiter (Some w) (store s)\<rparr>"
    by (rule pstate_eqI) (use assms in simp_all)
  then show ?thesis using pstep.put [OF assms(1)] by simp
qed

lemma pstep_popI:
  assumes "hold s t = None" "queues s k = w # ws" "queues s' = (queues s)(k := ws)"
    "hold s' = (hold s)(t := Some (w, Popped))" "own s' = own s" "store s' = store s"
  shows "pstep s s'"
proof -
  have "s' = s\<lparr>hold := (hold s)(t := Some (w, Popped)), queues := (queues s)(k := ws)\<rparr>"
    by (rule pstate_eqI) (use assms in simp_all)
  then show ?thesis using pstep.pop [OF assms(1,2)] by simp
qed

lemma pstep_checkI:
  assumes "hold s t = Some (w, Popped)"
    "hold s' = (hold s)(t := Some (w, if cancelled (objs (store s) w) then Dead else Live))"
    "own s' = own s" "queues s' = queues s" "store s' = store s"
  shows "pstep s s'"
proof -
  have "s' = s\<lparr>hold := (hold s)(t := Some (w, if cancelled (objs (store s) w) then Dead else Live))\<rparr>"
    by (rule pstate_eqI) (use assms in simp_all)
  then show ?thesis using pstep.dead [OF assms(1)] pstep.live [OF assms(1)] by (simp split: if_splits)
qed

lemma pstep_discardI:
  assumes "hold s t = Some (w, Dead)" "store s' = putWaiter (Some w) (store s)"
    "hold s' = (hold s)(t := None)" "own s' = own s" "queues s' = queues s"
  shows "pstep s s'"
proof -
  have "s' = s\<lparr>hold := (hold s)(t := None), store := putWaiter (Some w) (store s)\<rparr>"
    by (rule pstate_eqI) (use assms in simp_all)
  then show ?thesis using pstep.discard [OF assms(1)] by simp
qed

lemma pstep_signalI:
  assumes "hold s t = Some (w, Live)" "store s' = Signal w (store s)"
    "hold s' = (hold s)(t := None)" "own s' = own s" "queues s' = queues s"
  shows "pstep s s'"
proof -
  have "s' = s\<lparr>hold := (hold s)(t := None), store := Signal w (store s)\<rparr>"
    by (rule pstate_eqI) (use assms in simp_all)
  then show ?thesis using pstep.signal [OF assms(1)] by simp
qed

definition queues1 :: "wid list \<Rightarrow> nat \<Rightarrow> wid list" where
  "queues1 xs k = (if k = 0 then xs else [])"

lemma queues1_simps [simp]:
  "queues1 xs 0 = xs" "(queues1 xs)(0 := ys) = queues1 ys" "k \<noteq> 0 \<Longrightarrow> queues1 xs k = []"
  by (auto simp: queues1_def)

definition queues2 :: "wid list \<Rightarrow> wid list \<Rightarrow> nat \<Rightarrow> wid list" where
  "queues2 xs ys k = (if k = 0 then xs else if k = 1 then ys else [])"

lemma queues2_simps [simp]:
  "queues2 xs ys 0 = xs" "queues2 xs ys (Suc 0) = ys" "(queues2 xs ys)(0 := zs) = queues2 zs ys"
  "(queues2 xs ys)(Suc 0 := zs) = queues2 xs zs"
  by (auto simp: queues2_def)

lemma queued_queues1 [simp]: "queued (s\<lparr>queues := queues1 xs\<rparr>) w \<longleftrightarrow> w \<in> set xs"
  by (auto simp: queued_def queues1_def split: if_splits)

end
