(* ===== verification/Waking.thy ===== *)
theory Waking
  imports Protocol
begin

text \<open>
  The two code fragments every blocking primitive is made of, action by action: putting a new
  waiter into a queue (\<^verbatim>\<open>waiter := NewWaiter(); q.Enqueue(waiter)\<close>) and waking the first waiter that
  is not cancelled (\<^verbatim>\<open>waiter := q.Dequeue(); if waiter != nil { waiter.Signal() }\<close>). The primitives
  embed the program counters \<open>epc\<close> and \<open>wpc\<close> in their own and inherit from here that both
  fragments follow the discipline of the theory \<open>Protocol\<close>.
\<close>

datatype epc = ENew | ELink wid | ESize wid

datatype wpc = WPop | WSize wid | WLoad wid | WPut wid | WSig wid

text \<open>\<open>enter_step\<close> ends with \<open>Inr w\<close>, the waiter now in the queue; \<open>wake_step\<close> ends with \<open>WNone\<close> where
  \<^verbatim>\<open>Dequeue\<close> returned nil and with \<open>WOne\<close> after a signal.\<close>

datatype wres = WMore wpc | WNone | WOne

fun enter_step :: "inp \<Rightarrow> epc \<Rightarrow> WaiterQueue \<Rightarrow> wstore \<Rightarrow> (epc + wid) \<times> WaiterQueue \<times> wstore" where
  "enter_step i ENew q st = (let (w, st') = NewWaiter i st in (Inl (ELink w), q, st'))"
| "enter_step i (ELink w) q st = (Inl (ESize w), enqLink w q, st)"
| "enter_step i (ESize w) q st = (Inr w, sizeAdd 1 q, st)"

fun wake_step :: "wpc \<Rightarrow> WaiterQueue \<Rightarrow> wstore \<Rightarrow> wres \<times> WaiterQueue \<times> wstore" where
  "wake_step WPop q st =
     (case deqPop q of None \<Rightarrow> (WNone, q, st) | Some (w, q') \<Rightarrow> (WMore (WSize w), q', st))"
| "wake_step (WSize w) q st = (WMore (WLoad w), sizeAdd (- 1) q, st)"
| "wake_step (WLoad w) q st = (WMore (if cancelled (objs st w) then WPut w else WSig w), q, st)"
| "wake_step (WPut w) q st = (WMore WPop, q, putWaiter (Some w) st)"
| "wake_step (WSig w) q st = (WOne, q, Signal w st)"

fun e_own :: "epc \<Rightarrow> (wid \<times> ophase) option" where
  "e_own ENew = None"
| "e_own (ELink w) = Some (w, Fresh)"
| "e_own (ESize w) = Some (w, Queued)"

fun r_own :: "epc + wid \<Rightarrow> (wid \<times> ophase) option" where
  "r_own (Inl p) = e_own p"
| "r_own (Inr w) = Some (w, Queued)"

fun w_hold :: "wpc \<Rightarrow> (wid \<times> hphase) option" where
  "w_hold WPop = None"
| "w_hold (WSize w) = Some (w, Popped)"
| "w_hold (WLoad w) = Some (w, Popped)"
| "w_hold (WPut w) = Some (w, Dead)"
| "w_hold (WSig w) = Some (w, Live)"

fun r_hold :: "wres \<Rightarrow> (wid \<times> hphase) option" where
  "r_hold (WMore p) = w_hold p"
| "r_hold _ = None"

lemma enter_step_discipline:
  assumes e: "enter_step i p q (store s) = (r, q', store s')"
    and o: "own s t = e_own p" "own s' = (own s)(t := r_own r)" and h: "hold s' = hold s"
    and q: "queues s k = items q" "queues s' = (queues s)(k := items q')"
  shows "s' = s \<or> pstep s s'"
proof (cases p)
  case ENew
  then obtain w where w: "NewWaiter i (store s) = (w, store s')" "r = Inl (ELink w)" "q' = q"
    using e by (auto split: prod.splits)
  show ?thesis by (rule disjI2, rule pstep_newI [of s t i w]) (use w ENew o h q in auto)
next
  case (ELink w)
  show ?thesis
    by (rule disjI2, rule pstep_linkI [of s t w _ k]) (use ELink e o h q in auto)
next
  case (ESize w)
  then have "s' = s" using e o h q by (auto intro!: pstate_eqI simp: fun_upd_idem_iff)
  then show ?thesis ..
qed

lemma wake_step_discipline:
  assumes e: "wake_step p q (store s) = (r, q', store s')"
    and h: "hold s t = w_hold p" "hold s' = (hold s)(t := r_hold r)" and o: "own s' = own s"
    and q: "queues s k = items q" "queues s' = (queues s)(k := items q')"
  shows "s' = s \<or> pstep s s'"
proof (cases p)
  case WPop
  show ?thesis
  proof (cases "deqPop q")
    case None
    then have "s' = s" using WPop e h o q by (auto intro!: pstate_eqI simp: fun_upd_idem_iff)
    then show ?thesis ..
  next
    case (Some x)
    obtain w qq where x: "x = (w, qq)" by (cases x)
    have "q' = qq" "r = WMore (WSize w)" "store s' = store s" using Some x WPop e by auto
    moreover have "items q = w # items qq" using Some x by (simp add: deqPop_Some)
    ultimately show ?thesis using WPop h o q
      by (intro disjI2 pstep_popI [of s t k w "items q'"]) auto
  qed
next
  case (WSize w)
  then have "s' = s" using e h o q by (auto intro!: pstate_eqI simp: fun_upd_idem_iff)
  then show ?thesis ..
next
  case (WLoad w)
  show ?thesis by (rule disjI2, rule pstep_checkI [of s t w]) (use WLoad e h o q in auto)
next
  case (WPut w)
  show ?thesis by (rule disjI2, rule pstep_discardI [of s t w]) (use WPut e h o q in auto)
next
  case (WSig w)
  show ?thesis by (rule disjI2, rule pstep_signalI [of s t w]) (use WSig e h o q in auto)
qed

subsection \<open>What the fragments do to the queue and to the channels\<close>

lemma enter_step_items:
  "enter_step i p q st = (r, q', st') \<Longrightarrow> v \<in> set (items q') \<Longrightarrow> v \<in> set (items q) \<or> p = ELink v"
  by (cases p) (auto split: prod.splits)

lemma enter_step_ready:
  "enter_step i p q st = (r, q', st') \<Longrightarrow> Ready (objs st' v) \<Longrightarrow> Ready (objs st v)"
  by (cases p) (auto split: prod.splits dest: NewWaiter_ready)

lemma wake_step_items:
  "wake_step p q st = (r, q', st') \<Longrightarrow> set (items q') \<subseteq> set (items q)"
  by (cases p) (auto split: option.splits prod.splits simp: deqPop_Some)

lemma wake_step_none: "wake_step p q st = (WNone, q', st') \<Longrightarrow> items q' = [] \<and> q' = q \<and> st' = st"
  by (cases p) (auto split: option.splits prod.splits simp: deqPop_None)

lemma wake_step_ready:
  "wake_step p q st = (r, q', st') \<Longrightarrow> Ready (objs st' v) \<Longrightarrow> Ready (objs st v) \<or> p = WSig v"
  by (cases p) (auto split: option.splits prod.splits if_splits simp: Signal_def putWaiter_def)

end
