(* ===== verification/RWState.thy ===== *)
theory RWState
  imports Prelude
begin

unbundle bit_operations_syntax

text \<open>
  The state word that \<^verbatim>\<open>rwlock.go\<close> and \<^verbatim>\<open>fair_rwlock.go\<close> share: the number of readers in bits 0 to
  29, the writer flag in bit 30. The locale \<open>rw_word\<close> holds what keeps such a word consistent with
  the program counters of the goroutines, whatever queues the lock uses to make them wait; both
  locks interpret it.
\<close>

definition rwLockMaxReaders :: int32 where
  "rwLockMaxReaders = push_bit 30 1 - 1"

definition rwLockWriterBit :: int32 where
  "rwLockWriterBit = push_bit 30 1"

text \<open>\<open>rd pc\<close> is 1 where a goroutine at \<open>pc\<close> owns a read slot, \<open>wr pc\<close> says that it owns the write
  lock, \<open>lc pc\<close> is what it knows locally. The word \<open>x\<close> is consistent with the goroutines \<open>f\<close> if it
  counts the readers and nobody writes, or it is the writer bit, exactly one goroutine writes and
  nobody reads.\<close>

definition rw_consistent ::
    "('pc \<Rightarrow> int) \<Rightarrow> ('pc \<Rightarrow> bool) \<Rightarrow> ('pc \<Rightarrow> bool) \<Rightarrow> int32 \<Rightarrow> (tid \<Rightarrow> 'pc) \<Rightarrow> bool" where
  "rw_consistent rd wr lc x f \<longleftrightarrow> (\<forall>t. lc (f t)) \<and>
     (\<exists>n. sums_to (rd \<circ> f) n \<and>
        ((\<forall>t. \<not> wr (f t)) \<and> uint x = n \<and> n < 2 ^ 30 \<or>
         n = 0 \<and> x = rwLockWriterBit \<and> (\<exists>t. wr (f t) \<and> (\<forall>u. wr (f u) \<longrightarrow> u = t))))"

inductive rw_effect ::
    "('pc \<Rightarrow> int) \<Rightarrow> ('pc \<Rightarrow> bool) \<Rightarrow> ('pc \<Rightarrow> bool) \<Rightarrow> 'pc \<Rightarrow> int32 \<Rightarrow> 'pc \<Rightarrow> int32 \<Rightarrow> bool"
  for rd wr lc pc x pc' y where
  re_keep: "y = x \<Longrightarrow> rd pc' = rd pc \<Longrightarrow> wr pc' = wr pc \<Longrightarrow> lc pc' \<Longrightarrow> rw_effect rd wr lc pc x pc' y"
| re_rlock: "y = x + 1 \<Longrightarrow> x AND rwLockWriterBit = 0 \<Longrightarrow> sint x < sint rwLockMaxReaders \<Longrightarrow>
    rd pc' = 1 \<Longrightarrow> rd pc = 0 \<Longrightarrow> \<not> wr pc' \<Longrightarrow> lc pc' \<Longrightarrow> rw_effect rd wr lc pc x pc' y"
| re_runlock: "y = x - 1 \<Longrightarrow> rd pc' = 0 \<Longrightarrow> rd pc = 1 \<Longrightarrow> \<not> wr pc' \<Longrightarrow> lc pc' \<Longrightarrow>
    rw_effect rd wr lc pc x pc' y"
| re_lock: "x = 0 \<Longrightarrow> y = rwLockWriterBit \<Longrightarrow> rd pc' = 0 \<Longrightarrow> wr pc' \<Longrightarrow> lc pc' \<Longrightarrow>
    rw_effect rd wr lc pc x pc' y"
| re_unlock: "y = 0 \<Longrightarrow> wr pc \<Longrightarrow> rd pc' = 0 \<Longrightarrow> \<not> wr pc' \<Longrightarrow> lc pc' \<Longrightarrow>
    rw_effect rd wr lc pc x pc' y"
| re_rpanic: "rd pc = 1 \<Longrightarrow> x AND rwLockMaxReaders = 0 \<Longrightarrow> rw_effect rd wr lc pc x pc' y"
| re_wpanic: "wr pc \<Longrightarrow> x \<noteq> rwLockWriterBit \<Longrightarrow> rw_effect rd wr lc pc x pc' y"

lemma writer_bit_and: "rwLockWriterBit AND rwLockWriterBit \<noteq> 0" "uint rwLockWriterBit = 2 ^ 30"
  "sint rwLockMaxReaders = 2 ^ 30 - 1" "rwLockWriterBit AND rwLockMaxReaders = 0"
  by (simp_all add: rwLockWriterBit_def rwLockMaxReaders_def)

lemma small_state:
  assumes "uint (s :: int32) < 2 ^ 30"
  shows "s AND rwLockWriterBit = 0" "s AND rwLockMaxReaders = s" "sint s = uint s"
proof -
  have t: "take_bit 30 s = s"
    using assms by (simp add: word_uint_eq_iff unsigned_take_bit_eq take_bit_int_eq_self)
  have "rwLockMaxReaders = mask 30"
    unfolding rwLockMaxReaders_def push_bit_of_1 mask_eq_exp_minus_1 ..
  then show "s AND rwLockMaxReaders = s" using t by (simp add: take_bit_eq_mask)
  have "\<not> bit s 30" using t by (metis bit_take_bit_iff less_irrefl)
  then show "s AND rwLockWriterBit = 0"
    unfolding rwLockWriterBit_def push_bit_of_1 by (simp only: and_exp_eq_0_iff_not_bit not_False_eq_True)
  have "- (2 ^ 31) \<le> uint s" by (rule order_trans [OF _ uint_ge_0]) simp
  moreover have "uint s < 2 ^ 31" using assms by simp
  ultimately show "sint s = uint s" by (simp add: sint_uint signed_take_bit_int_eq_self)
qed

locale rw_word =
  fixes rd :: "'pc \<Rightarrow> int"
    and wr :: "'pc \<Rightarrow> bool"
    and lc :: "'pc \<Rightarrow> bool"
  assumes rd_nonneg: "0 \<le> rd pc"
begin

lemma word_cases [consumes 1, case_names readers writer]:
  assumes "rw_consistent rd wr lc x f"
  obtains (readers) n where "sums_to (rd \<circ> f) n" "\<And>t. \<not> wr (f t)" "uint x = n" "n < 2 ^ 30"
  | (writer) u where "sums_to (rd \<circ> f) 0" "x = rwLockWriterBit" "\<And>t. wr (f t) = (t = u)"
  using assms unfolding rw_consistent_def by blast

lemma readersI:
  assumes "\<And>t. lc (f t)" "sums_to (rd \<circ> f) n" "\<And>t. \<not> wr (f t)" "uint x = n" "n < 2 ^ 30"
  shows "rw_consistent rd wr lc x f"
  using assms unfolding rw_consistent_def by blast

lemma writerI:
  assumes "\<And>t. lc (f t)" "sums_to (rd \<circ> f) 0" "x = rwLockWriterBit" "\<And>t. wr (f t) = (t = u)"
  shows "rw_consistent rd wr lc x f"
  using assms unfolding rw_consistent_def by blast

lemma word_local: "rw_consistent rd wr lc x f \<Longrightarrow> lc (f t)"
  by (simp add: rw_consistent_def)

lemma rd_upd:
  assumes "sums_to (rd \<circ> f) n" "g = f(t := pc)" "m = n - rd (f t) + rd pc"
  shows "sums_to (rd \<circ> g) m"
  using assms by (intro sums_to_upd [OF assms(1), of _ t "rd pc"]) (auto simp: fun_upd_comp)

lemma local_upd: "rw_consistent rd wr lc x f \<Longrightarrow> g = f(t := pc) \<Longrightarrow> lc pc \<Longrightarrow> lc (g u)"
  by (simp add: rw_consistent_def)

lemma rd_le:
  assumes "sums_to (rd \<circ> f) n" shows "rd (f t) \<le> n"
  using sums_to_elem [OF assms, of t] rd_nonneg by simp

lemma no_rd:
  assumes "sums_to (rd \<circ> f) 0" shows "rd (f t) = 0"
  using rd_le [OF assms, of t] rd_nonneg [of "f t"] by simp

text \<open>The five things a goroutine can do to the word: leave it alone, take or give back a read
  slot, take or give back the write lock.\<close>

lemma keep:
  assumes e: "rw_consistent rd wr lc x f" and st: "y = x" and p: "g = f(t := pc)"
    and r: "rd pc = rd (f t)" and w: "wr pc = wr (f t)" and l: "lc pc"
  shows "rw_consistent rd wr lc y g"
proof -
  have ws: "wr (g u) = wr (f u)" for u using p w by simp
  have rs: "sums_to (rd \<circ> g) n" if "sums_to (rd \<circ> f) n" for n using rd_upd [OF that p] r by simp
  from e show ?thesis
  proof (cases rule: word_cases)
    case (readers n)
    then show ?thesis using rs ws st local_upd [OF e p l] by (intro readersI) auto
  next
    case (writer u)
    then show ?thesis using rs ws st local_upd [OF e p l] by (intro writerI) auto
  qed
qed

lemma rlock:
  assumes e: "rw_consistent rd wr lc x f" and st: "y = x + 1"
    and g: "x AND rwLockWriterBit = 0" "sint x < sint rwLockMaxReaders"
    and p: "g = f(t := pc)" and r: "rd pc = 1" "rd (f t) = 0" and w: "\<not> wr pc" and l: "lc pc"
  shows "rw_consistent rd wr lc y g"
  using e
proof (cases rule: word_cases)
  case (readers n)
  have n: "uint x < 2 ^ 30 - 1" using g(2) readers small_state(3) [of x] by (simp add: writer_bit_and)
  moreover have "0 \<le> n" using readers(3) uint_ge_0 [of x] by simp
  ultimately have "uint y = n + 1" using st readers(3) by (simp add: uint_word_ariths)
  moreover have "sums_to (rd \<circ> g) (n + 1)" using rd_upd [OF readers(1) p] r by simp
  ultimately show ?thesis using n readers local_upd [OF e p l] p w
    by (intro readersI [of g "n + 1"]) auto
next
  case (writer u)
  then show ?thesis using g(1) writer_bit_and(1) by simp
qed

lemma runlock:
  assumes e: "rw_consistent rd wr lc x f" and st: "y = x - 1"
    and p: "g = f(t := pc)" and r: "rd pc = 0" "rd (f t) = 1" and w: "\<not> wr pc" and l: "lc pc"
  shows "rw_consistent rd wr lc y g"
  using e
proof (cases rule: word_cases)
  case (readers n)
  have n: "1 \<le> n" using rd_le [OF readers(1), of t] r by simp
  then have "uint y = n - 1" using st readers(3,4) by (simp add: uint_word_ariths)
  moreover have "sums_to (rd \<circ> g) (n - 1)" using rd_upd [OF readers(1) p] r by simp
  ultimately show ?thesis using n readers local_upd [OF e p l] p w
    by (intro readersI [of g "n - 1"]) auto
next
  case (writer u)
  then show ?thesis using rd_le [OF writer(1), of t] r by simp
qed

lemma lock:
  assumes e: "rw_consistent rd wr lc x f" and st: "x = 0" "y = rwLockWriterBit"
    and p: "g = f(t := pc)" and r: "rd pc = 0" and w: "wr pc" and l: "lc pc"
  shows "rw_consistent rd wr lc y g"
  using e
proof (cases rule: word_cases)
  case (readers n)
  then have 0: "sums_to (rd \<circ> f) 0" using st by simp
  have "sums_to (rd \<circ> g) 0" using rd_upd [OF 0 p] r no_rd [OF 0, of t] by simp
  moreover have "wr (g u) = (u = t)" for u using readers p w by simp
  ultimately show ?thesis using st local_upd [OF e p l] by (intro writerI) auto
next
  case (writer u)
  then show ?thesis using st writer_bit_and(2) by auto
qed

lemma unlock:
  assumes e: "rw_consistent rd wr lc x f" and st: "y = 0" and t: "wr (f t)"
    and p: "g = f(t := pc)" and r: "rd pc = 0" and w: "\<not> wr pc" and l: "lc pc"
  shows "rw_consistent rd wr lc y g"
  using e
proof (cases rule: word_cases)
  case (readers n)
  then show ?thesis using t by simp
next
  case (writer u)
  have "sums_to (rd \<circ> g) 0" using rd_upd [OF writer(1) p] r no_rd [OF writer(1), of t] by simp
  moreover have "\<not> wr (g v)" for v using writer(3) p w t by simp
  ultimately show ?thesis using st local_upd [OF e p l] by (intro readersI) auto
qed

lemma writer_state: "rw_consistent rd wr lc x f \<Longrightarrow> wr (f t) \<Longrightarrow> x = rwLockWriterBit"
  by (erule word_cases) auto

lemma reader_state:
  assumes "rw_consistent rd wr lc x f" "rd (f t) = 1"
  shows "x AND rwLockMaxReaders \<noteq> 0"
  using assms(1)
proof (cases rule: word_cases)
  case (readers n)
  have "1 \<le> n" using rd_le [OF readers(1), of t] assms(2) by simp
  then show ?thesis using readers small_state(2) [of x] by auto
next
  case (writer u)
  then show ?thesis using no_rd [OF writer(1), of t] assms(2) by simp
qed

lemma initial:
  assumes "\<And>t. lc (f t) \<and> rd (f t) = 0 \<and> \<not> wr (f t)"
  shows "rw_consistent rd wr lc 0 f"
proof -
  have "rd \<circ> f = (\<lambda>_. 0)" using assms by (simp add: fun_eq_iff)
  then show ?thesis using assms by (intro readersI) (auto simp: sums_to_0)
qed

text \<open>All of it in one relation between the program counter and the word before and after an action;
  the last two cases are the panics of the unlocking methods.\<close>

lemma effect:
  assumes e: "rw_consistent rd wr lc x f" and p: "g = f(t := pc)"
    and step: "rw_effect rd wr lc (f t) x pc y"
  shows "rw_consistent rd wr lc y g"
  using step
proof (cases rule: rw_effect.cases)
  case re_keep
  then show ?thesis by (intro keep [OF e _ p]) auto
next
  case re_rlock
  then show ?thesis by (intro rlock [OF e _ _ _ p]) auto
next
  case re_runlock
  then show ?thesis by (intro runlock [OF e _ p]) auto
next
  case re_lock
  then show ?thesis by (intro lock [OF e _ _ p]) auto
next
  case re_unlock
  then show ?thesis by (intro unlock [OF e _ _ p]) auto
next
  case re_rpanic
  then show ?thesis using reader_state [OF e, of t] by simp
next
  case re_wpanic
  then show ?thesis using writer_state [OF e, of t] by simp
qed

text \<open>What the invariant says to a client of the lock.\<close>

lemma exclusion:
  assumes "rw_consistent rd wr lc x f"
  shows "\<not> (wr (f t) \<and> wr (f u) \<and> t \<noteq> u)" "\<not> (wr (f t) \<and> rd (f u) = 1)"
    "if \<exists>t. wr (f t) then x = rwLockWriterBit else sums_to (rd \<circ> f) (uint x)"
proof (atomize (full), cases rule: word_cases [OF assms])
  case (1 n)
  then show "(\<not> (wr (f t) \<and> wr (f u) \<and> t \<noteq> u)) \<and> (\<not> (wr (f t) \<and> rd (f u) = 1)) \<and>
    (if \<exists>t. wr (f t) then x = rwLockWriterBit else sums_to (rd \<circ> f) (uint x))" by simp
next
  case (2 v)
  have "rd (f t) \<noteq> 1" for t using no_rd [OF 2(1), of t] by simp
  then show "(\<not> (wr (f t) \<and> wr (f u) \<and> t \<noteq> u)) \<and> (\<not> (wr (f t) \<and> rd (f u) = 1)) \<and>
    (if \<exists>t. wr (f t) then x = rwLockWriterBit else sums_to (rd \<circ> f) (uint x))" using 2(2,3) by auto
qed

end

end
