(* ===== verification/RWLock.thy ===== *)
theory RWLock
  imports Waking RWState
begin

unbundle bit_operations_syntax

text \<open>
  \<^verbatim>\<open>internal/primitives/rwlock.go\<close>, action by action: the state word with the number of readers in
  its low 30 bits and the writer flag in bit 30, two queues of waiters, writer preference through
  \<^verbatim>\<open>writerQueue.IsEmpty()\<close>.

  One step function per method; \<open>k\<close> tells the plain, the trying and the context variants of the
  locking methods apart. A goroutine of the model holds the lock at most once; a Go program
  that read-locks twice in one goroutine corresponds to two goroutines of the model.
\<close>

record RWLock =
  rwstate :: int32
  readerQueue :: WaiterQueue
  writerQueue :: WaiterQueue
  readerAcquires :: int64
  writerAcquires :: int64
  readerWaits :: int64
  writerWaits :: int64
  rwtotalWaitTime :: int64
  currentReaders :: int32
  writerHeld :: int32
  rwcreatedAt :: int

definition NewRWLock :: "int \<Rightarrow> RWLock" where
  "NewRWLock t = \<lparr>rwstate = 0, readerQueue = NewWaiterQueue, writerQueue = NewWaiterQueue,
     readerAcquires = 0, writerAcquires = 0, readerWaits = 0, writerWaits = 0,
     rwtotalWaitTime = 0, currentReaders = 0, writerHeld = 0, rwcreatedAt = t\<rparr>"

datatype lkind = LPlain | LCtx | LTry

datatype rwret = RWInit | RWRead | RWWrite | RWReleased | RWFalse | RWCtxErr | RWPanic string

datatype rwpc =
    RWRet rwret
  | RdLoad lkind int
  | RdEmpty lkind int int32
  | RdCas lkind int int32
  | RdGate int
  | RdEnq lkind int epc
  | RdWaits lkind int wid
  | RdLoad2 lkind int wid
  | RdEmpty2 lkind int wid int32
  | RdCas2 lkind int wid int32
  | RdCancel wid
  | RdCount
  | RdAcq
  | RdPark lkind int wid
  | RdPut lkind int wid
  | RdTime lkind int
  | RuLoad
  | RuCas int32
  | RuCount int32
  | WrLoad lkind int
  | WrCas lkind int
  | WrGate int
  | WrEnq lkind int epc
  | WrWaits lkind int wid
  | WrCas2 lkind int wid
  | WrCancel wid
  | WrHeld
  | WrAcq
  | WrPark lkind int wid
  | WrPut lkind int wid
  | WrTime lkind int
  | WrTry
  | UnLoad
  | UnCas int32
  | UnHeld
  | RwWake wpc
  | RwWakeAll wpc

type_synonym rwresult = "(rwpc \<times> RWLock \<times> wstore) option"

text \<open>The tail that \<^verbatim>\<open>RLock\<close>, \<^verbatim>\<open>RLockContext\<close> and \<^verbatim>\<open>TryRLock\<close> share once they own the read slot,
  and the tail of the three write-locking methods.\<close>

definition read_granted :: "rwpc \<Rightarrow> RWLock \<Rightarrow> wstore \<Rightarrow> rwresult" where
  "read_granted pc rw st = (case pc of
     RdCancel w \<Rightarrow> Some (RdCount, rw, setCancelled w st)
   | RdCount \<Rightarrow> Some (RdAcq, rw\<lparr>currentReaders := currentReaders rw + 1\<rparr>, st)
   | RdAcq \<Rightarrow> Some (RWRet RWRead, rw\<lparr>readerAcquires := readerAcquires rw + 1\<rparr>, st)
   | _ \<Rightarrow> None)"

definition write_granted :: "rwpc \<Rightarrow> RWLock \<Rightarrow> wstore \<Rightarrow> rwresult" where
  "write_granted pc rw st = (case pc of
     WrCancel w \<Rightarrow> Some (WrHeld, rw, setCancelled w st)
   | WrHeld \<Rightarrow> Some (WrAcq, rw\<lparr>writerHeld := 1\<rparr>, st)
   | WrAcq \<Rightarrow> Some (RWRet RWWrite, rw\<lparr>writerAcquires := writerAcquires rw + 1\<rparr>, st)
   | _ \<Rightarrow> None)"

definition RLock_step :: "inp \<Rightarrow> rwpc \<Rightarrow> RWLock \<Rightarrow> wstore \<Rightarrow> rwresult" where
  "RLock_step i pc rw st = (case pc of
     RdLoad LPlain b \<Rightarrow>
       Some (if rwstate rw AND rwLockWriterBit \<noteq> 0 then RdEnq LPlain b ENew
             else RdEmpty LPlain b (rwstate rw), rw, st)
   | RdEmpty LPlain b s \<Rightarrow>
       Some (if \<not> IsEmpty (writerQueue rw) then RdEnq LPlain b ENew
             else if sint rwLockMaxReaders \<le> sint s then RWRet (RWPanic ''rwlock: too many readers'')
             else RdCas LPlain b s, rw, st)
   | RdCas LPlain b s \<Rightarrow>
       (if rwstate rw = s then Some (RdCount, rw\<lparr>rwstate := s + 1\<rparr>, st)
        else Some (RdLoad LPlain b, rw, st))
   | RdEnq LPlain b p \<Rightarrow>
       (case enter_step i p (readerQueue rw) st of
          (r, q, st') \<Rightarrow> Some (case r of Inl p' \<Rightarrow> RdEnq LPlain b p' | Inr w \<Rightarrow> RdWaits LPlain b w,
                             rw\<lparr>readerQueue := q\<rparr>, st'))
   | RdWaits LPlain b w \<Rightarrow> Some (RdLoad2 LPlain b w, rw\<lparr>readerWaits := readerWaits rw + 1\<rparr>, st)
   | RdLoad2 LPlain b w \<Rightarrow>
       Some (if rwstate rw AND rwLockWriterBit = 0 then RdEmpty2 LPlain b w (rwstate rw)
             else RdPark LPlain b w, rw, st)
   | RdEmpty2 LPlain b w s \<Rightarrow>
       Some (if IsEmpty (writerQueue rw) \<and> sint s < sint rwLockMaxReaders then RdCas2 LPlain b w s
             else RdPark LPlain b w, rw, st)
   | RdCas2 LPlain b w s \<Rightarrow>
       (if rwstate rw = s then Some (RdCancel w, rw\<lparr>rwstate := s + 1\<rparr>, st)
        else Some (RdPark LPlain b w, rw, st))
   | RdPark LPlain b w \<Rightarrow>
       (case Wait w st of None \<Rightarrow> None | Some st' \<Rightarrow> Some (RdPut LPlain b w, rw, st'))
   | RdPut LPlain b w \<Rightarrow> Some (RdTime LPlain b, rw, putWaiter (Some w) st)
   | RdTime LPlain b \<Rightarrow>
       Some (RdLoad LPlain b, rw\<lparr>rwtotalWaitTime := rwtotalWaitTime rw + elapsed i b\<rparr>, st)
   | _ \<Rightarrow> read_granted pc rw st)"

definition RLockContext_step :: "inp \<Rightarrow> rwpc \<Rightarrow> RWLock \<Rightarrow> wstore \<Rightarrow> rwresult" where
  "RLockContext_step i pc rw st = (case pc of
     RdLoad LCtx b \<Rightarrow>
       Some (if rwstate rw AND rwLockWriterBit = 0 then RdEmpty LCtx b (rwstate rw)
             else RdGate b, rw, st)
   | RdEmpty LCtx b s \<Rightarrow>
       Some (if IsEmpty (writerQueue rw) \<and> sint s < sint rwLockMaxReaders then RdCas LCtx b s
             else RdGate b, rw, st)
   | RdCas LCtx b s \<Rightarrow>
       (if rwstate rw = s then Some (RdCount, rw\<lparr>rwstate := s + 1\<rparr>, st)
        else Some (RdLoad LCtx b, rw, st))
   | RdGate b \<Rightarrow> Some (if ctxArm i then RWRet RWCtxErr else RdEnq LCtx b ENew, rw, st)
   | RdEnq LCtx b p \<Rightarrow>
       (case enter_step i p (readerQueue rw) st of
          (r, q, st') \<Rightarrow> Some (case r of Inl p' \<Rightarrow> RdEnq LCtx b p' | Inr w \<Rightarrow> RdWaits LCtx b w,
                             rw\<lparr>readerQueue := q\<rparr>, st'))
   | RdWaits LCtx b w \<Rightarrow> Some (RdLoad2 LCtx b w, rw\<lparr>readerWaits := readerWaits rw + 1\<rparr>, st)
   | RdLoad2 LCtx b w \<Rightarrow>
       Some (if rwstate rw AND rwLockWriterBit = 0 then RdEmpty2 LCtx b w (rwstate rw)
             else RdPark LCtx b w, rw, st)
   | RdEmpty2 LCtx b w s \<Rightarrow>
       Some (if IsEmpty (writerQueue rw) \<and> sint s < sint rwLockMaxReaders then RdCas2 LCtx b w s
             else RdPark LCtx b w, rw, st)
   | RdCas2 LCtx b w s \<Rightarrow>
       (if rwstate rw = s then Some (RdCancel w, rw\<lparr>rwstate := s + 1\<rparr>, st)
        else Some (RdPark LCtx b w, rw, st))
   | RdPark LCtx b w \<Rightarrow>
       (case WaitContext i w st of
          None \<Rightarrow> None
        | Some (r, st') \<Rightarrow> Some (if r then RdPut LCtx b w else RWRet RWCtxErr, rw, st'))
   | RdPut LCtx b w \<Rightarrow> Some (RdTime LCtx b, rw, putWaiter (Some w) st)
   | RdTime LCtx b \<Rightarrow>
       Some (RdLoad LCtx b, rw\<lparr>rwtotalWaitTime := rwtotalWaitTime rw + elapsed i b\<rparr>, st)
   | _ \<Rightarrow> read_granted pc rw st)"

definition TryRLock_step :: "rwpc \<Rightarrow> RWLock \<Rightarrow> wstore \<Rightarrow> rwresult" where
  "TryRLock_step pc rw st = (case pc of
     RdLoad LTry b \<Rightarrow>
       Some (if rwstate rw AND rwLockWriterBit \<noteq> 0 then RWRet RWFalse
             else RdEmpty LTry b (rwstate rw), rw, st)
   | RdEmpty LTry b s \<Rightarrow>
       Some (if \<not> IsEmpty (writerQueue rw) then RWRet RWFalse
             else if sint rwLockMaxReaders \<le> sint s then RWRet RWFalse
             else RdCas LTry b s, rw, st)
   | RdCas LTry b s \<Rightarrow>
       (if rwstate rw = s then Some (RdCount, rw\<lparr>rwstate := s + 1\<rparr>, st)
        else Some (RdLoad LTry b, rw, st))
   | _ \<Rightarrow> read_granted pc rw st)"

text \<open>The code that \<^verbatim>\<open>RUnlock\<close> and \<^verbatim>\<open>Unlock\<close> share: signal one writer or else drain the readers.\<close>

definition wakeAllReaders_step :: "wpc \<Rightarrow> RWLock \<Rightarrow> wstore \<Rightarrow> rwresult" where
  "wakeAllReaders_step p rw st =
     (case wake_step p (readerQueue rw) st of
        (r, q, st') \<Rightarrow> Some (case r of
            WMore p' \<Rightarrow> RwWakeAll p' | WOne \<Rightarrow> RwWakeAll WPop | WNone \<Rightarrow> RWRet RWReleased,
          rw\<lparr>readerQueue := q\<rparr>, st'))"

definition wake_writer_or_readers :: "wpc \<Rightarrow> RWLock \<Rightarrow> wstore \<Rightarrow> rwresult" where
  "wake_writer_or_readers p rw st =
     (case wake_step p (writerQueue rw) st of
        (r, q, st') \<Rightarrow> Some (case r of
            WMore p' \<Rightarrow> RwWake p' | WOne \<Rightarrow> RWRet RWReleased | WNone \<Rightarrow> RwWakeAll WPop,
          rw\<lparr>writerQueue := q\<rparr>, st'))"

definition RUnlock_step :: "rwpc \<Rightarrow> RWLock \<Rightarrow> wstore \<Rightarrow> rwresult" where
  "RUnlock_step pc rw st = (case pc of
     RuLoad \<Rightarrow>
       Some (if rwstate rw AND rwLockMaxReaders = 0
             then RWRet (RWPanic ''rwlock: RUnlock of unlocked RWLock'') else RuCas (rwstate rw), rw, st)
   | RuCas s \<Rightarrow>
       (if rwstate rw = s then Some (RuCount (s - 1), rw\<lparr>rwstate := s - 1\<rparr>, st)
        else Some (RuLoad, rw, st))
   | RuCount s \<Rightarrow>
       Some (if s AND rwLockMaxReaders = 0 then RwWake WPop else RWRet RWReleased,
             rw\<lparr>currentReaders := currentReaders rw - 1\<rparr>, st)
   | RwWake p \<Rightarrow> wake_writer_or_readers p rw st
   | RwWakeAll p \<Rightarrow> wakeAllReaders_step p rw st
   | _ \<Rightarrow> None)"

definition RW_Lock_step :: "inp \<Rightarrow> rwpc \<Rightarrow> RWLock \<Rightarrow> wstore \<Rightarrow> rwresult" where
  "RW_Lock_step i pc rw st = (case pc of
     WrLoad LPlain b \<Rightarrow>
       Some (if rwstate rw \<noteq> 0 then WrEnq LPlain b ENew else WrCas LPlain b, rw, st)
   | WrCas LPlain b \<Rightarrow>
       (if rwstate rw = 0 then Some (WrHeld, rw\<lparr>rwstate := rwLockWriterBit\<rparr>, st)
        else Some (WrLoad LPlain b, rw, st))
   | WrEnq LPlain b p \<Rightarrow>
       (case enter_step i p (writerQueue rw) st of
          (r, q, st') \<Rightarrow> Some (case r of Inl p' \<Rightarrow> WrEnq LPlain b p' | Inr w \<Rightarrow> WrWaits LPlain b w,
                             rw\<lparr>writerQueue := q\<rparr>, st'))
   | WrWaits LPlain b w \<Rightarrow> Some (WrCas2 LPlain b w, rw\<lparr>writerWaits := writerWaits rw + 1\<rparr>, st)
   | WrCas2 LPlain b w \<Rightarrow>
       (if rwstate rw = 0 then Some (WrCancel w, rw\<lparr>rwstate := rwLockWriterBit\<rparr>, st)
        else Some (WrPark LPlain b w, rw, st))
   | WrPark LPlain b w \<Rightarrow>
       (case Wait w st of None \<Rightarrow> None | Some st' \<Rightarrow> Some (WrPut LPlain b w, rw, st'))
   | WrPut LPlain b w \<Rightarrow> Some (WrTime LPlain b, rw, putWaiter (Some w) st)
   | WrTime LPlain b \<Rightarrow>
       Some (WrLoad LPlain b, rw\<lparr>rwtotalWaitTime := rwtotalWaitTime rw + elapsed i b\<rparr>, st)
   | _ \<Rightarrow> write_granted pc rw st)"

definition RW_LockContext_step :: "inp \<Rightarrow> rwpc \<Rightarrow> RWLock \<Rightarrow> wstore \<Rightarrow> rwresult" where
  "RW_LockContext_step i pc rw st = (case pc of
     WrLoad LCtx b \<Rightarrow> Some (if rwstate rw = 0 then WrCas LCtx b else WrGate b, rw, st)
   | WrCas LCtx b \<Rightarrow>
       (if rwstate rw = 0 then Some (WrHeld, rw\<lparr>rwstate := rwLockWriterBit\<rparr>, st)
        else Some (WrLoad LCtx b, rw, st))
   | WrGate b \<Rightarrow> Some (if ctxArm i then RWRet RWCtxErr else WrEnq LCtx b ENew, rw, st)
   | WrEnq LCtx b p \<Rightarrow>
       (case enter_step i p (writerQueue rw) st of
          (r, q, st') \<Rightarrow> Some (case r of Inl p' \<Rightarrow> WrEnq LCtx b p' | Inr w \<Rightarrow> WrWaits LCtx b w,
                             rw\<lparr>writerQueue := q\<rparr>, st'))
   | WrWaits LCtx b w \<Rightarrow> Some (WrCas2 LCtx b w, rw\<lparr>writerWaits := writerWaits rw + 1\<rparr>, st)
   | WrCas2 LCtx b w \<Rightarrow>
       (if rwstate rw = 0 then Some (WrCancel w, rw\<lparr>rwstate := rwLockWriterBit\<rparr>, st)
        else Some (WrPark LCtx b w, rw, st))
   | WrPark LCtx b w \<Rightarrow>
       (case WaitContext i w st of
          None \<Rightarrow> None
        | Some (r, st') \<Rightarrow> Some (if r then WrPut LCtx b w else RWRet RWCtxErr, rw, st'))
   | WrPut LCtx b w \<Rightarrow> Some (WrTime LCtx b, rw, putWaiter (Some w) st)
   | WrTime LCtx b \<Rightarrow>
       Some (WrLoad LCtx b, rw\<lparr>rwtotalWaitTime := rwtotalWaitTime rw + elapsed i b\<rparr>, st)
   | _ \<Rightarrow> write_granted pc rw st)"

definition RW_TryLock_step :: "rwpc \<Rightarrow> RWLock \<Rightarrow> wstore \<Rightarrow> rwresult" where
  "RW_TryLock_step pc rw st = (case pc of
     WrTry \<Rightarrow>
       (if rwstate rw = 0 then Some (WrHeld, rw\<lparr>rwstate := rwLockWriterBit\<rparr>, st)
        else Some (RWRet RWFalse, rw, st))
   | _ \<Rightarrow> write_granted pc rw st)"

definition RW_Unlock_step :: "rwpc \<Rightarrow> RWLock \<Rightarrow> wstore \<Rightarrow> rwresult" where
  "RW_Unlock_step pc rw st = (case pc of
     UnLoad \<Rightarrow>
       Some (if rwstate rw AND rwLockWriterBit = 0
             then RWRet (RWPanic ''rwlock: Unlock of unlocked RWLock'') else UnCas (rwstate rw), rw, st)
   | UnCas s \<Rightarrow>
       (if rwstate rw = s then Some (UnHeld, rw\<lparr>rwstate := 0\<rparr>, st)
        else Some (RWRet (RWPanic ''rwlock: inconsistent state in Unlock''), rw, st))
   | UnHeld \<Rightarrow> Some (RwWake WPop, rw\<lparr>writerHeld := 0\<rparr>, st)
   | RwWake p \<Rightarrow> wake_writer_or_readers p rw st
   | RwWakeAll p \<Rightarrow> wakeAllReaders_step p rw st
   | _ \<Rightarrow> None)"

definition rw_step :: "inp \<Rightarrow> rwpc \<Rightarrow> RWLock \<Rightarrow> wstore \<Rightarrow> rwresult" where
  "rw_step i pc rw st =
     orelse (RLock_step i pc rw st) (orelse (RLockContext_step i pc rw st)
    (orelse (TryRLock_step pc rw st) (orelse (RUnlock_step pc rw st)
    (orelse (RW_Lock_step i pc rw st) (orelse (RW_LockContext_step i pc rw st)
    (orelse (RW_TryLock_step pc rw st) (RW_Unlock_step pc rw st)))))))"

datatype rwop = OpRLock | OpRLockContext | OpTryRLock | OpRUnlock
  | OpWLock | OpWLockContext | OpTryWLock | OpWUnlock

fun rw_entry :: "int \<Rightarrow> rwop \<Rightarrow> rwpc" where
  "rw_entry t OpRLock = RdLoad LPlain t"
| "rw_entry t OpRLockContext = RdLoad LCtx t"
| "rw_entry t OpTryRLock = RdLoad LTry t"
| "rw_entry t OpRUnlock = RuLoad"
| "rw_entry t OpWLock = WrLoad LPlain t"
| "rw_entry t OpWLockContext = WrLoad LCtx t"
| "rw_entry t OpTryWLock = WrTry"
| "rw_entry t OpWUnlock = UnLoad"

text \<open>A goroutine releases what it holds and acquires only when it holds nothing.\<close>

fun rw_may_call :: "rwpc \<Rightarrow> rwop \<Rightarrow> bool" where
  "rw_may_call (RWRet RWRead) op = (op = OpRUnlock)"
| "rw_may_call (RWRet RWWrite) op = (op = OpWUnlock)"
| "rw_may_call (RWRet (RWPanic msg)) op = False"
| "rw_may_call (RWRet r) op = (op \<noteq> OpRUnlock \<and> op \<noteq> OpWUnlock)"
| "rw_may_call _ op = False"

record rwsys =
  rwl :: RWLock
  rwst :: wstore
  rwpcs :: "tid \<Rightarrow> rwpc"

definition rw_init :: "int \<Rightarrow> rwsys" where
  "rw_init t = \<lparr>rwl = NewRWLock t, rwst = empty_store, rwpcs = (\<lambda>_. RWRet RWInit)\<rparr>"

fun rw_exec :: "rwop event \<Rightarrow> rwsys \<Rightarrow> rwsys option" where
  "rw_exec (Invoke t i op) s =
     (if rw_may_call (rwpcs s t) op
      then Some (s\<lparr>rwpcs := (rwpcs s)(t := rw_entry (now i) op)\<rparr>) else None)"
| "rw_exec (Go t i) s =
     (case rw_step i (rwpcs s t) (rwl s) (rwst s) of
        None \<Rightarrow> None
      | Some (pc, m, st) \<Rightarrow> Some \<lparr>rwl = m, rwst = st, rwpcs = (rwpcs s)(t := pc)\<rparr>)"

record RWLockStats =
  rs_ReaderAcquires :: int64
  rs_WriterAcquires :: int64
  rs_ReaderWaits :: int64
  rs_WriterWaits :: int64
  rs_TotalWaitTimeNs :: int64
  rs_CurrentReaders :: int32
  rs_WriterHeld :: bool
  rs_ReadersWaiting :: int64
  rs_WritersWaiting :: int64
  rs_Age :: int

definition RWLock_GetStats :: "int \<Rightarrow> RWLock \<Rightarrow> RWLockStats" where
  "RWLock_GetStats t rw = \<lparr>rs_ReaderAcquires = readerAcquires rw,
     rs_WriterAcquires = writerAcquires rw, rs_ReaderWaits = readerWaits rw,
     rs_WriterWaits = writerWaits rw, rs_TotalWaitTimeNs = rwtotalWaitTime rw,
     rs_CurrentReaders = currentReaders rw, rs_WriterHeld = (writerHeld rw = 1),
     rs_ReadersWaiting = Size (readerQueue rw), rs_WritersWaiting = Size (writerQueue rw),
     rs_Age = t - rwcreatedAt rw\<rparr>"

subsection \<open>The step relation\<close>

inductive rw_trans :: "inp \<Rightarrow> rwpc \<Rightarrow> RWLock \<Rightarrow> wstore \<Rightarrow> rwpc \<Rightarrow> RWLock \<Rightarrow> wstore \<Rightarrow> bool" where
  rx_load: "rwstate rw AND rwLockWriterBit = 0 \<Longrightarrow>
    rw_trans i (RdLoad k b) rw st (RdEmpty k b (rwstate rw)) rw st"
| rx_wait: "pc' = RdEnq LPlain b ENew \<and> k = LPlain \<or> pc' = RdGate b \<and> k = LCtx \<or>
      pc' = RWRet RWFalse \<and> k = LTry \<or>
      pc' = RWRet (RWPanic ''rwlock: too many readers'') \<and> pc = RdEmpty LPlain b s \<and>
        sint rwLockMaxReaders \<le> sint s \<Longrightarrow>
    pc = RdLoad k b \<or> pc = RdEmpty k b s \<Longrightarrow> rw_trans i pc rw st pc' rw st"
| rx_empty: "sint s < sint rwLockMaxReaders \<Longrightarrow>
    rw_trans i (RdEmpty k b s) rw st (RdCas k b s) rw st"
| rx_cas: "rwstate rw = s \<Longrightarrow>
    rw_trans i (RdCas k b s) rw st RdCount (rw\<lparr>rwstate := s + 1\<rparr>) st"
| rx_cas_lost: "rw_trans i (RdCas k b s) rw st (RdLoad k b) rw st"
| rx_gate: "rw_trans i (RdGate b) rw st (RdEnq LCtx b ENew) rw st"
| rx_done: "pc = RdGate b \<or> pc = WrGate b \<Longrightarrow> rw_trans i pc rw st (RWRet RWCtxErr) rw st"
| rx_enq: "enter_step i p (readerQueue rw) st = (Inl p', q, st') \<Longrightarrow>
    rw_trans i (RdEnq k b p) rw st (RdEnq k b p') (rw\<lparr>readerQueue := q\<rparr>) st'"
| rx_enqd: "enter_step i p (readerQueue rw) st = (Inr w, q, st') \<Longrightarrow>
    rw_trans i (RdEnq k b p) rw st (RdWaits k b w) (rw\<lparr>readerQueue := q\<rparr>) st'"
| rx_waits: "rw_trans i (RdWaits k b w) rw st (RdLoad2 k b w)
    (rw\<lparr>readerWaits := readerWaits rw + 1\<rparr>) st"
| rx_load2: "rwstate rw AND rwLockWriterBit = 0 \<Longrightarrow>
    rw_trans i (RdLoad2 k b w) rw st (RdEmpty2 k b w (rwstate rw)) rw st"
| rx_park: "pc = RdLoad2 k b w \<or> pc = RdEmpty2 k b w s \<or> pc = RdCas2 k b w s \<Longrightarrow>
    rw_trans i pc rw st (RdPark k b w) rw st"
| rx_empty2: "sint s < sint rwLockMaxReaders \<Longrightarrow>
    rw_trans i (RdEmpty2 k b w s) rw st (RdCas2 k b w s) rw st"
| rx_cas2: "rwstate rw = s \<Longrightarrow>
    rw_trans i (RdCas2 k b w s) rw st (RdCancel w) (rw\<lparr>rwstate := s + 1\<rparr>) st"
| rx_cancel: "rw_trans i (RdCancel w) rw st RdCount rw (setCancelled w st)"
| rx_count: "rw_trans i RdCount rw st RdAcq (rw\<lparr>currentReaders := currentReaders rw + 1\<rparr>) st"
| rx_acq: "rw_trans i RdAcq rw st (RWRet RWRead) (rw\<lparr>readerAcquires := readerAcquires rw + 1\<rparr>) st"
| rx_wake: "Ready (objs st w) \<Longrightarrow>
    rw_trans i (RdPark k b w) rw st (RdPut k b w) rw (recvReady w st)"
| rx_ctx: "pc = RdPark LCtx b w \<or> pc = WrPark LCtx b w \<Longrightarrow>
    rw_trans i pc rw st (RWRet RWCtxErr) rw (setCancelled w st)"
| rx_put: "rw_trans i (RdPut k b w) rw st (RdTime k b) rw (putWaiter (Some w) st)"
| rx_time: "rw_trans i (RdTime k b) rw st (RdLoad k b)
    (rw\<lparr>rwtotalWaitTime := rwtotalWaitTime rw + elapsed i b\<rparr>) st"
| rx_ru_panic: "rwstate rw AND rwLockMaxReaders = 0 \<Longrightarrow>
    rw_trans i RuLoad rw st (RWRet (RWPanic ''rwlock: RUnlock of unlocked RWLock'')) rw st"
| rx_ru_load: "rw_trans i RuLoad rw st (RuCas (rwstate rw)) rw st"
| rx_ru_cas: "rwstate rw = s \<Longrightarrow>
    rw_trans i (RuCas s) rw st (RuCount (s - 1)) (rw\<lparr>rwstate := s - 1\<rparr>) st"
| rx_ru_lost: "rw_trans i (RuCas s) rw st RuLoad rw st"
| rx_ru_count: "pc' = RwWake WPop \<or> pc' = RWRet RWReleased \<Longrightarrow>
    rw_trans i (RuCount s) rw st pc' (rw\<lparr>currentReaders := currentReaders rw - 1\<rparr>) st"
| wx_load: "rw_trans i (WrLoad k b) rw st (WrCas k b) rw st"
| wx_wait: "pc' = WrEnq k b ENew \<or> pc' = WrGate b \<Longrightarrow> rw_trans i (WrLoad k b) rw st pc' rw st"
| wx_cas: "rwstate rw = 0 \<Longrightarrow> pc = WrCas k b \<or> pc = WrTry \<Longrightarrow>
    rw_trans i pc rw st WrHeld (rw\<lparr>rwstate := rwLockWriterBit\<rparr>) st"
| wx_cas_lost: "rw_trans i (WrCas k b) rw st (WrLoad k b) rw st"
| wx_try_lost: "rw_trans i WrTry rw st (RWRet RWFalse) rw st"
| wx_gate: "rw_trans i (WrGate b) rw st (WrEnq LCtx b ENew) rw st"
| wx_enq: "enter_step i p (writerQueue rw) st = (Inl p', q, st') \<Longrightarrow>
    rw_trans i (WrEnq k b p) rw st (WrEnq k b p') (rw\<lparr>writerQueue := q\<rparr>) st'"
| wx_enqd: "enter_step i p (writerQueue rw) st = (Inr w, q, st') \<Longrightarrow>
    rw_trans i (WrEnq k b p) rw st (WrWaits k b w) (rw\<lparr>writerQueue := q\<rparr>) st'"
| wx_waits: "rw_trans i (WrWaits k b w) rw st (WrCas2 k b w)
    (rw\<lparr>writerWaits := writerWaits rw + 1\<rparr>) st"
| wx_cas2: "rwstate rw = 0 \<Longrightarrow>
    rw_trans i (WrCas2 k b w) rw st (WrCancel w) (rw\<lparr>rwstate := rwLockWriterBit\<rparr>) st"
| wx_park: "rw_trans i (WrCas2 k b w) rw st (WrPark k b w) rw st"
| wx_cancel: "rw_trans i (WrCancel w) rw st WrHeld rw (setCancelled w st)"
| wx_held: "rw_trans i WrHeld rw st WrAcq (rw\<lparr>writerHeld := 1\<rparr>) st"
| wx_acq: "rw_trans i WrAcq rw st (RWRet RWWrite) (rw\<lparr>writerAcquires := writerAcquires rw + 1\<rparr>) st"
| wx_wake: "Ready (objs st w) \<Longrightarrow>
    rw_trans i (WrPark k b w) rw st (WrPut k b w) rw (recvReady w st)"
| wx_put: "rw_trans i (WrPut k b w) rw st (WrTime k b) rw (putWaiter (Some w) st)"
| wx_time: "rw_trans i (WrTime k b) rw st (WrLoad k b)
    (rw\<lparr>rwtotalWaitTime := rwtotalWaitTime rw + elapsed i b\<rparr>) st"
| ux_panic: "rwstate rw AND rwLockWriterBit = 0 \<Longrightarrow>
    rw_trans i UnLoad rw st (RWRet (RWPanic ''rwlock: Unlock of unlocked RWLock'')) rw st"
| ux_load: "rw_trans i UnLoad rw st (UnCas (rwstate rw)) rw st"
| ux_cas: "rwstate rw = s \<Longrightarrow> rw_trans i (UnCas s) rw st UnHeld (rw\<lparr>rwstate := 0\<rparr>) st"
| ux_inconsistent: "rwstate rw \<noteq> s \<Longrightarrow>
    rw_trans i (UnCas s) rw st (RWRet (RWPanic ''rwlock: inconsistent state in Unlock'')) rw st"
| ux_held: "rw_trans i UnHeld rw st (RwWake WPop) (rw\<lparr>writerHeld := 0\<rparr>) st"
| rx_waking: "wake_step p (writerQueue rw) st = (WMore p', q, st') \<Longrightarrow>
    rw_trans i (RwWake p) rw st (RwWake p') (rw\<lparr>writerQueue := q\<rparr>) st'"
| rx_woken: "wake_step p (writerQueue rw) st = (r, q, st') \<Longrightarrow>
    pc' = RWRet RWReleased \<and> r = WOne \<or> pc' = RwWakeAll WPop \<and> r = WNone \<Longrightarrow>
    rw_trans i (RwWake p) rw st pc' (rw\<lparr>writerQueue := q\<rparr>) st'"
| rx_waking_all: "wake_step p (readerQueue rw) st = (WMore p', q, st') \<Longrightarrow>
    rw_trans i (RwWakeAll p) rw st (RwWakeAll p') (rw\<lparr>readerQueue := q\<rparr>) st'"
| rx_woken_all: "wake_step p (readerQueue rw) st = (r, q, st') \<Longrightarrow>
    pc' = RWRet RWReleased \<and> r = WNone \<or> pc' = RwWakeAll WPop \<and> r = WOne \<Longrightarrow>
    rw_trans i (RwWakeAll p) rw st pc' (rw\<lparr>readerQueue := q\<rparr>) st'"

lemmas rw_step_defs = rw_step_def RLock_step_def RLockContext_step_def TryRLock_step_def
  RUnlock_step_def RW_Lock_step_def RW_LockContext_step_def RW_TryLock_step_def RW_Unlock_step_def
  read_granted_def write_granted_def wake_writer_or_readers_def wakeAllReaders_step_def
  WaitContext_def Wait_def orelse_simps

lemma rw_step_trans:
  "rw_step i pc rw st = Some (pc', rw', st') \<Longrightarrow> rw_trans i pc rw st pc' rw' st'"
  by (cases pc)
     (auto simp: rw_step_defs not_le intro: rw_trans.intros
       split: if_splits prod.splits option.splits sum.splits lkind.splits wres.splits)

lemma rw_may_call_ret: "rw_may_call pc op \<Longrightarrow> \<exists>r. pc = RWRet r"
  by (cases pc) auto

lemma rw_exec_cases [consumes 1, case_names call go]:
  assumes "rw_exec e s = Some s'"
  obtains (call) t i op r where "e = Invoke t i op" "rwpcs s t = RWRet r" "rw_may_call (RWRet r) op"
      "rwl s' = rwl s" "rwst s' = rwst s" "rwpcs s' = (rwpcs s)(t := rw_entry (now i) op)"
  | (go) t i pc where "e = Go t i" "rw_trans i (rwpcs s t) (rwl s) (rwst s) pc (rwl s') (rwst s')"
      "rwpcs s' = (rwpcs s)(t := pc)"
proof (cases e)
  case (Invoke t i op)
  with assms have m: "rw_may_call (rwpcs s t) op"
    and s': "s' = s\<lparr>rwpcs := (rwpcs s)(t := rw_entry (now i) op)\<rparr>" by (auto split: if_splits)
  from rw_may_call_ret [OF m] obtain r where "rwpcs s t = RWRet r" ..
  with Invoke m s' show ?thesis by (intro call) auto
next
  case (Go t i)
  with assms show ?thesis by (auto split: option.splits dest!: rw_step_trans intro: go)
qed

subsection \<open>The waiter discipline\<close>

fun rw_own :: "rwpc \<Rightarrow> (wid \<times> ophase) option" where
  "rw_own (RdEnq k b p) = e_own p"
| "rw_own (RdWaits k b w) = Some (w, Queued)"
| "rw_own (RdLoad2 k b w) = Some (w, Queued)"
| "rw_own (RdEmpty2 k b w s) = Some (w, Queued)"
| "rw_own (RdCas2 k b w s) = Some (w, Queued)"
| "rw_own (RdCancel w) = Some (w, Queued)"
| "rw_own (RdPark k b w) = Some (w, Queued)"
| "rw_own (RdPut k b w) = Some (w, Woken)"
| "rw_own (WrEnq k b p) = e_own p"
| "rw_own (WrWaits k b w) = Some (w, Queued)"
| "rw_own (WrCas2 k b w) = Some (w, Queued)"
| "rw_own (WrCancel w) = Some (w, Queued)"
| "rw_own (WrPark k b w) = Some (w, Queued)"
| "rw_own (WrPut k b w) = Some (w, Woken)"
| "rw_own _ = None"

fun rw_hold :: "rwpc \<Rightarrow> (wid \<times> hphase) option" where
  "rw_hold (RwWake p) = w_hold p"
| "rw_hold (RwWakeAll p) = w_hold p"
| "rw_hold _ = None"

definition rwabs :: "rwsys \<Rightarrow> pstate" where
  "rwabs s = \<lparr>own = rw_own \<circ> rwpcs s, hold = rw_hold \<circ> rwpcs s,
     queues = queues2 (items (readerQueue (rwl s))) (items (writerQueue (rwl s))), store = rwst s\<rparr>"

lemma rwabs_simps [simp]:
  "own (rwabs s) t = rw_own (rwpcs s t)" "hold (rwabs s) t = rw_hold (rwpcs s t)"
  "queues (rwabs s) = queues2 (items (readerQueue (rwl s))) (items (writerQueue (rwl s)))"
  "store (rwabs s) = rwst s"
  by (simp_all add: rwabs_def)

lemma rwabs_own: "own (rwabs s) = rw_own \<circ> rwpcs s" and rwabs_hold: "hold (rwabs s) = rw_hold \<circ> rwpcs s"
  by (simp_all add: rwabs_def)

lemmas rwabs_upd = rwabs_own rwabs_hold fun_upd_comp

lemma rw_entry_roles [simp]: "rw_own (rw_entry t op) = None" "rw_hold (rw_entry t op) = None"
  by (cases op; simp)+

lemma rw_trans_discipline:
  assumes "rw_trans i (rwpcs s t) (rwl s) (rwst s) pc (rwl s') (rwst s')"
    "rwpcs s' = (rwpcs s)(t := pc)"
  shows "rwabs s' = rwabs s \<or> pstep (rwabs s) (rwabs s')"
  using assms(1)
proof (cases rule: rw_trans.cases)
  case (rx_enq p p' q k b)
  show ?thesis
    by (rule enter_step_discipline [of i p "readerQueue (rwl s)" _ "Inl p'" q _ t 0])
       (use rx_enq assms(2) in \<open>auto simp: rwabs_upd\<close>)
next
  case (rx_enqd p w q k b)
  show ?thesis
    by (rule enter_step_discipline [of i p "readerQueue (rwl s)" _ "Inr w" q _ t 0])
       (use rx_enqd assms(2) in \<open>auto simp: rwabs_upd\<close>)
next
  case (wx_enq p p' q k b)
  show ?thesis
    by (rule enter_step_discipline [of i p "writerQueue (rwl s)" _ "Inl p'" q _ t "Suc 0"])
       (use wx_enq assms(2) in \<open>auto simp: rwabs_upd\<close>)
next
  case (wx_enqd p w q k b)
  show ?thesis
    by (rule enter_step_discipline [of i p "writerQueue (rwl s)" _ "Inr w" q _ t "Suc 0"])
       (use wx_enqd assms(2) in \<open>auto simp: rwabs_upd\<close>)
next
  case (rx_waking p p' q)
  show ?thesis
    by (rule wake_step_discipline [of p "writerQueue (rwl s)" _ "WMore p'" q _ t "Suc 0"])
       (use rx_waking assms(2) in \<open>auto simp: rwabs_upd\<close>)
next
  case (rx_woken p r q)
  show ?thesis
    by (rule wake_step_discipline [of p "writerQueue (rwl s)" _ r q _ t "Suc 0"])
       (use rx_woken assms(2) in \<open>auto simp: rwabs_upd\<close>)
next
  case (rx_waking_all p p' q)
  show ?thesis
    by (rule wake_step_discipline [of p "readerQueue (rwl s)" _ "WMore p'" q _ t 0])
       (use rx_waking_all assms(2) in \<open>auto simp: rwabs_upd\<close>)
next
  case (rx_woken_all p r q)
  show ?thesis
    by (rule wake_step_discipline [of p "readerQueue (rwl s)" _ r q _ t 0])
       (use rx_woken_all assms(2) in \<open>auto simp: rwabs_upd\<close>)
next
  case (rx_cancel w)
  show ?thesis by (rule disjI2, rule pstep_cancelI [of _ t w]) (use rx_cancel assms(2) in \<open>auto simp: rwabs_upd\<close>)
next
  case (wx_cancel w)
  show ?thesis by (rule disjI2, rule pstep_cancelI [of _ t w]) (use wx_cancel assms(2) in \<open>auto simp: rwabs_upd\<close>)
next
  case (rx_ctx b w)
  show ?thesis by (rule disjI2, rule pstep_cancelI [of _ t w]) (use rx_ctx assms(2) in \<open>auto simp: rwabs_upd\<close>)
next
  case (rx_wake w k b)
  show ?thesis by (rule disjI2, rule pstep_recvI [of _ t w]) (use rx_wake assms(2) in \<open>auto simp: rwabs_upd\<close>)
next
  case (wx_wake w k b)
  show ?thesis by (rule disjI2, rule pstep_recvI [of _ t w]) (use wx_wake assms(2) in \<open>auto simp: rwabs_upd\<close>)
next
  case (rx_put k b w)
  show ?thesis by (rule disjI2, rule pstep_putI [of _ t w]) (use rx_put assms(2) in \<open>auto simp: rwabs_upd\<close>)
next
  case (wx_put k b w)
  show ?thesis by (rule disjI2, rule pstep_putI [of _ t w]) (use wx_put assms(2) in \<open>auto simp: rwabs_upd\<close>)
qed (auto intro!: pstate_eqI simp: rwabs_upd assms(2) fun_upd_idem_iff)

lemma rw_discipline_step:
  assumes "rw_exec e s = Some s'"
  shows "rwabs s' = rwabs s \<or> pstep (rwabs s) (rwabs s')"
  using assms
proof (cases rule: rw_exec_cases)
  case (call t i op r)
  then have "rwabs s' = rwabs s" by (auto intro!: pstate_eqI simp: rwabs_upd fun_upd_idem_iff)
  then show ?thesis ..
next
  case (go t i pc)
  then show ?thesis by (intro rw_trans_discipline) auto
qed

lemma rwabs_init: "rwabs (rw_init t0) = pinit"
  by (auto intro!: pstate_eqI
      simp: rwabs_def rw_init_def pinit_def NewRWLock_def NewWaiterQueue_def queues2_def)

interpretation rw_abs: abstraction rw_exec "rw_init t0" pstep rwabs disciplined
  by unfold_locales
     (auto dest!: rw_discipline_step intro: pstep_disciplined simp: rwabs_init disciplined_pinit)

subsection \<open>Readers and writers exclude each other\<close>

text \<open>The reader's share of the state word, and whether a goroutine is the writer: from the
  winning compare-and-swap of the locking call to the one of the releasing call.\<close>

fun rw_reads :: "rwpc \<Rightarrow> int" where
  "rw_reads (RWRet RWRead) = 1"
| "rw_reads (RdCancel w) = 1"
| "rw_reads RdCount = 1"
| "rw_reads RdAcq = 1"
| "rw_reads RuLoad = 1"
| "rw_reads (RuCas s) = 1"
| "rw_reads _ = 0"

fun rw_writes :: "rwpc \<Rightarrow> bool" where
  "rw_writes (RWRet RWWrite) = True"
| "rw_writes (WrCancel w) = True"
| "rw_writes WrHeld = True"
| "rw_writes WrAcq = True"
| "rw_writes UnLoad = True"
| "rw_writes (UnCas s) = True"
| "rw_writes _ = False"

text \<open>The panics that a goroutine obeying \<open>rw_may_call\<close> can meet: only the reader overflow.\<close>

fun rw_local :: "rwpc \<Rightarrow> bool" where
  "rw_local (RdEmpty k b s) = (s AND rwLockWriterBit = 0)"
| "rw_local (RdCas k b s) = (s AND rwLockWriterBit = 0 \<and> sint s < sint rwLockMaxReaders)"
| "rw_local (RdEmpty2 k b w s) = (s AND rwLockWriterBit = 0)"
| "rw_local (RdCas2 k b w s) = (s AND rwLockWriterBit = 0 \<and> sint s < sint rwLockMaxReaders)"
| "rw_local (UnCas s) = (s = rwLockWriterBit)"
| "rw_local (RWRet (RWPanic msg)) = (msg = ''rwlock: too many readers'')"
| "rw_local _ = True"

interpretation rw_word: rw_word rw_reads rw_writes rw_local
proof
  show "0 \<le> rw_reads pc" for pc by (cases pc rule: rw_reads.cases) auto
qed

definition rw_excl :: "rwsys \<Rightarrow> bool" where
  "rw_excl s \<longleftrightarrow> rw_consistent rw_reads rw_writes rw_local (rwstate (rwl s)) (rwpcs s)"

lemma rw_excl_trans:
  assumes "rw_excl s" and t: "rw_trans i (rwpcs s t) (rwl s) (rwst s) pc (rwl s') (rwst s')"
    and p: "rwpcs s' = (rwpcs s)(t := pc)"
  shows "rw_excl s'"
  unfolding rw_excl_def
proof -
  have e: "rw_consistent rw_reads rw_writes rw_local (rwstate (rwl s)) (rwpcs s)"
    using assms(1) by (simp add: rw_excl_def)
  have l: "rw_local (rwpcs s t)" by (rule rw_word.word_local [OF e])
  note keep = rw_word.keep [OF e _ p]
  from t show "rw_consistent rw_reads rw_writes rw_local (rwstate (rwl s')) (rwpcs s')"
  proof (cases rule: rw_trans.cases)
    case (rx_cas s k b)
    then show ?thesis using l by (intro rw_word.rlock [OF e _ _ _ p]) auto
  next
    case (rx_cas2 s k b w)
    then show ?thesis using l by (intro rw_word.rlock [OF e _ _ _ p]) auto
  next
    case (rx_ru_cas s)
    then show ?thesis by (intro rw_word.runlock [OF e _ p]) auto
  next
    case (wx_cas k b)
    then show ?thesis by (intro rw_word.lock [OF e _ _ p]) auto
  next
    case (wx_cas2 k b w)
    then show ?thesis by (intro rw_word.lock [OF e _ _ p]) auto
  next
    case (ux_cas s)
    then show ?thesis by (intro rw_word.unlock [OF e _ _ p]) auto
  next
    case rx_ru_panic
    then show ?thesis using rw_word.reader_state [OF e, of t] by simp
  next
    case ux_panic
    then show ?thesis using rw_word.writer_state [OF e, of t] writer_bit_and(1) by simp
  next
    case (ux_inconsistent s)
    then show ?thesis using rw_word.writer_state [OF e, of t] l by simp
  next
    case ux_load
    then show ?thesis using rw_word.writer_state [OF e, of t] by (intro keep) auto
  qed (use l in \<open>auto intro!: keep\<close>)
qed

lemma rw_excl_step:
  assumes e: "rw_excl s" and x: "rw_exec e s = Some s'"
  shows "rw_excl s'"
  using x
proof (cases rule: rw_exec_cases)
  case (call t i op r)
  have "rw_reads (rw_entry (now i) op) = rw_reads (RWRet r)"
    "rw_writes (rw_entry (now i) op) = rw_writes (RWRet r)" "rw_local (rw_entry (now i) op)"
    using call(3) by (cases op; cases r; simp)+
  then show ?thesis using call unfolding rw_excl_def
    by (intro rw_word.keep [OF e [unfolded rw_excl_def] _ call(6)]) simp_all
next
  case (go t i pc)
  then show ?thesis by (intro rw_excl_trans [OF e]) auto
qed

lemma rw_excl_init: "rw_excl (rw_init t0)"
  by (auto simp: rw_excl_def rw_init_def NewRWLock_def intro: rw_word.initial)

interpretation rw_inv: invariant_machine rw_exec "rw_init t0" rw_excl
  by unfold_locales (auto intro: rw_excl_init rw_excl_step)

subsection \<open>Properties\<close>

lemmas rw_eval = rw_init_def NewRWLock_def rw_step_defs rwLockWriterBit_def rwLockMaxReaders_def
  IsEmpty_def Size_def waiter_eval

definition rw_lost_run :: "rwop event list" where
  "rw_lost_run =
     Invoke 0 inp0 OpRLock # replicate 5 (Go 0 inp0) @
     Invoke 1 inp0 OpWLockContext # replicate 7 (Go 1 inp0) @
     Invoke 2 inp0 OpRLock # replicate 8 (Go 2 inp0) @
     Invoke 0 inp0 OpRUnlock # replicate 7 (Go 0 inp0) @
     [Go 1 inpDone]"

text \<open>C5. Readers and writers exclude each other: in every reachable state at most one goroutine
  is the writer, no goroutine reads while another writes, the state word is either exactly the
  number of readers or exactly the writer bit, and the only panic a well-behaved caller can meet
  is the overflow of the reader count (in particular \<^verbatim>\<open>Unlock\<close> never finds an inconsistent
  state). So bit 31, which the comment on the field describes as a flag for a waiting writer, is
  never set: waiting writers are known by their queue alone.\<close>

theorem rwlock_exclusion:
  assumes "reachable rw_exec (rw_init t0) s"
  shows "(\<forall>t u. \<not> (rw_writes (rwpcs s t) \<and> rw_writes (rwpcs s u) \<and> t \<noteq> u)) \<and>
     (\<forall>t u. \<not> (rw_writes (rwpcs s t) \<and> rw_reads (rwpcs s u) = 1)) \<and>
     (if \<exists>t. rw_writes (rwpcs s t) then rwstate (rwl s) = rwLockWriterBit
      else sums_to (rw_reads \<circ> rwpcs s) (uint (rwstate (rwl s)))) \<and>
     (\<forall>t msg. \<not> (rwpcs s t = RWRet (RWPanic msg) \<and> msg \<noteq> ''rwlock: too many readers''))"
proof -
  have "rw_excl s" by (rule rw_inv.reachable_inv [OF assms])
  then have e: "rw_consistent rw_reads rw_writes rw_local (rwstate (rwl s)) (rwpcs s)"
    by (simp add: rw_excl_def)
  have "\<not> (rwpcs s t = RWRet (RWPanic msg) \<and> msg \<noteq> ''rwlock: too many readers'')" for t msg
    using rw_word.word_local [OF e, of t] by auto
  then show ?thesis using rw_word.exclusion [OF e] by blast
qed

theorem rwlock_exclusion_witness:
  "\<exists>s. run rw_exec (Invoke 0 inp0 OpRLock # replicate 5 (Go 0 inp0)) (rw_init 0) = Some s \<and>
     rwpcs s 0 = RWRet RWRead \<and> \<not> rw_writes (rwpcs s 1)"
proof -
  obtain s where r: "run rw_exec (Invoke 0 inp0 OpRLock # replicate 5 (Go 0 inp0)) (rw_init 0) = Some s"
    and p: "rwpcs s 0 = RWRet RWRead" by (simp add: rw_eval)
  have "\<not> rw_writes (rwpcs s 1)"
    using rwlock_exclusion [OF run_reachable [OF r]] p by (metis rw_reads.simps(1))
  with r p show ?thesis by blast
qed

text \<open>A cancelled \<^verbatim>\<open>LockContext\<close> strands a reader: goroutine 0 reads, goroutine 1 waits to write,
  goroutine 2 queues behind it as a reader. \<^verbatim>\<open>RUnlock\<close> signals goroutine 1 and wakes no reader;
  goroutine 1 takes \<^verbatim>\<open>ctx.Done()\<close>. The lock is free, goroutine 2 is blocked, and nobody is inside a
  call that could wake it.\<close>

lemma rwlock_cancelled_writer_strands_reader:
  "\<exists>s. run rw_exec rw_lost_run (rw_init 0) = Some s \<and> rwstate (rwl s) = 0 \<and>
     rwpcs s 2 = RdPark LPlain 0 1 \<and> (\<forall>i. rw_exec (Go 2 i) s = None) \<and>
     (\<forall>t. t = 2 \<or> (\<exists>r. rwpcs s t = RWRet r))"
  by (simp add: rw_lost_run_def rw_eval)

end
