(* ===== verification/FairQueue.thy ===== *)
theory FairQueue
  imports Prelude
begin

text \<open>
  \<^verbatim>\<open>internal/primitives/fair_waiter.go\<close> and \<^verbatim>\<open>fair_waiter_queue.go\<close>: the waiters of the fair lock,
  which carry their kind and a flag \<^verbatim>\<open>signaled\<close> and are not recycled, and the one queue they share.
  The queue is modelled at its linearization points: linking a node appends, moving the head
  pops, and \<^verbatim>\<open>size\<close> is updated by an action of its own. A step function ends with \<open>Inr\<close> and the
  value the Go function returns.
\<close>

datatype fairWaiterKind = fairWaiterKindReader | fairWaiterKindWriter

record fairWaiter =
  fwID :: "64 word"
  fwkind :: fairWaiterKind
  fwReady :: bool
  fwCreatedAt :: int
  signaled :: bool
  fwcancelled :: bool

record fstore =
  fobjs :: "wid \<Rightarrow> fairWaiter"
  fnalloc :: nat
  fwIDCounter :: "64 word"

definition nil_fairWaiter :: fairWaiter where
  "nil_fairWaiter = \<lparr>fwID = 0, fwkind = fairWaiterKindReader, fwReady = False, fwCreatedAt = 0,
     signaled = False, fwcancelled = False\<rparr>"

definition empty_fstore :: fstore where
  "empty_fstore = \<lparr>fobjs = (\<lambda>_. nil_fairWaiter), fnalloc = 0, fwIDCounter = 0\<rparr>"

definition newFairWaiter :: "fairWaiterKind \<Rightarrow> inp \<Rightarrow> fstore \<Rightarrow> wid \<times> fstore" where
  "newFairWaiter k i st =
     (let c = fwIDCounter st + 1; w = fnalloc st
      in (w, \<lparr>fobjs = (fobjs st)(w := \<lparr>fwID = c, fwkind = k, fwReady = False, fwCreatedAt = now i,
                                     signaled = False, fwcancelled = False\<rparr>),
              fnalloc = Suc w, fwIDCounter = c\<rparr>))"

text \<open>\<^verbatim>\<open>signal\<close> is two actions: the store to \<^verbatim>\<open>signaled\<close>, then the send, which does nothing if a token
  is already in the channel.\<close>

definition signalStore :: "wid \<Rightarrow> fstore \<Rightarrow> fstore" where
  "signalStore w st = st\<lparr>fobjs := (fobjs st)(w := (fobjs st w)\<lparr>signaled := True\<rparr>)\<rparr>"

definition signalSend :: "wid \<Rightarrow> fstore \<Rightarrow> fstore" where
  "signalSend w st =
     (if fwReady (fobjs st w) then st
      else st\<lparr>fobjs := (fobjs st)(w := (fobjs st w)\<lparr>fwReady := True\<rparr>)\<rparr>)"

definition storeCancelled :: "wid \<Rightarrow> fstore \<Rightarrow> fstore" where
  "storeCancelled w st = st\<lparr>fobjs := (fobjs st)(w := (fobjs st w)\<lparr>fwcancelled := True\<rparr>)\<rparr>"

definition fair_wait :: "wid \<Rightarrow> fstore \<Rightarrow> fstore option" where
  "fair_wait w st =
     (if fwReady (fobjs st w)
      then Some (st\<lparr>fobjs := (fobjs st)(w := (fobjs st w)\<lparr>fwReady := False\<rparr>)\<rparr>) else None)"

text \<open>The \<^verbatim>\<open>select\<close> of \<^verbatim>\<open>waitContext\<close>; where it takes the context's arm (\<open>False\<close>), the store to
  \<^verbatim>\<open>cancelled\<close> is the next action of the goroutine.\<close>

definition fair_waitContext :: "inp \<Rightarrow> wid \<Rightarrow> fstore \<Rightarrow> (bool \<times> fstore) option" where
  "fair_waitContext i w st =
     (if ctxArm i then Some (False, st)
      else case fair_wait w st of None \<Rightarrow> None | Some st' \<Rightarrow> Some (True, st'))"

record fairWaiterQueue =
  fitems :: "wid list"
  fsize :: "64 word"

definition newFairWaiterQueue :: fairWaiterQueue where
  "newFairWaiterQueue = \<lparr>fitems = [], fsize = 0\<rparr>"

definition sizeValue :: "fairWaiterQueue \<Rightarrow> 64 word" where
  "sizeValue q = (if sint (fsize q) < 0 then 0 else fsize q)"

definition fisEmpty :: "fairWaiterQueue \<Rightarrow> bool" where
  "fisEmpty q \<longleftrightarrow> sizeValue q = 0"

datatype fenq = FLink wid | FSize wid

fun enqueue_step :: "fenq \<Rightarrow> fairWaiterQueue \<Rightarrow> (fenq + wid) \<times> fairWaiterQueue" where
  "enqueue_step (FLink w) q = (Inl (FSize w), q\<lparr>fitems := fitems q @ [w]\<rparr>)"
| "enqueue_step (FSize w) q = (Inr w, q\<lparr>fsize := fsize q + 1\<rparr>)"

datatype fdeq = DqPop | DqSize wid | DqLoad wid

fun dequeue_step :: "fstore \<Rightarrow> fdeq \<Rightarrow> fairWaiterQueue \<Rightarrow> (fdeq + wid option) \<times> fairWaiterQueue" where
  "dequeue_step st DqPop q =
     (case fitems q of [] \<Rightarrow> (Inr None, q) | w # ws \<Rightarrow> (Inl (DqSize w), q\<lparr>fitems := ws\<rparr>))"
| "dequeue_step st (DqSize w) q = (Inl (DqLoad w), q\<lparr>fsize := fsize q - 1\<rparr>)"
| "dequeue_step st (DqLoad w) q =
     (if fwcancelled (fobjs st w) then (Inl DqPop, q) else (Inr (Some w), q))"

text \<open>\<^verbatim>\<open>peek\<close> drops a cancelled first waiter if the head still is what it read: the waiters are never
  recycled, so the compare-and-swap on the head succeeds exactly if \<open>w\<close> is still the first.\<close>

datatype fpeek = PkRead | PkLoad wid | PkDrop wid | PkSize

fun peek_step :: "fstore \<Rightarrow> fpeek \<Rightarrow> fairWaiterQueue \<Rightarrow> (fpeek + wid option) \<times> fairWaiterQueue" where
  "peek_step st PkRead q = (case fitems q of [] \<Rightarrow> (Inr None, q) | w # ws \<Rightarrow> (Inl (PkLoad w), q))"
| "peek_step st (PkLoad w) q =
     (if fwcancelled (fobjs st w) then (Inl (PkDrop w), q) else (Inr (Some w), q))"
| "peek_step st (PkDrop w) q =
     (case fitems q of
        [] \<Rightarrow> (Inl PkRead, q)
      | v # ws \<Rightarrow> if v = w then (Inl PkSize, q\<lparr>fitems := ws\<rparr>) else (Inl PkRead, q))"
| "peek_step st PkSize q = (Inl PkRead, q\<lparr>fsize := fsize q - 1\<rparr>)"

datatype freaders = RFirst fdeq | RPeek "wid list" fpeek | RNext "wid list" fdeq

definition isReader :: "fstore \<Rightarrow> wid \<Rightarrow> bool" where
  "isReader st w \<longleftrightarrow> fwkind (fobjs st w) = fairWaiterKindReader"

fun dequeueReaders_step ::
    "fstore \<Rightarrow> freaders \<Rightarrow> fairWaiterQueue \<Rightarrow> (freaders + wid list) \<times> fairWaiterQueue" where
  "dequeueReaders_step st (RFirst p) q =
     (case dequeue_step st p q of
        (Inl p', q') \<Rightarrow> (Inl (RFirst p'), q')
      | (Inr None, q') \<Rightarrow> (Inr [], q')
      | (Inr (Some w), q') \<Rightarrow> (if isReader st w then Inl (RPeek [w] PkRead) else Inr [w], q'))"
| "dequeueReaders_step st (RPeek rs p) q =
     (case peek_step st p q of
        (Inl p', q') \<Rightarrow> (Inl (RPeek rs p'), q')
      | (Inr None, q') \<Rightarrow> (Inr rs, q')
      | (Inr (Some w), q') \<Rightarrow> (if isReader st w then Inl (RNext rs DqPop) else Inr rs, q'))"
| "dequeueReaders_step st (RNext rs p) q =
     (case dequeue_step st p q of
        (Inl p', q') \<Rightarrow> (Inl (RNext rs p'), q')
      | (Inr None, q') \<Rightarrow> (Inr rs, q')
      | (Inr (Some w), q') \<Rightarrow>
          (if isReader st w then Inl (RPeek (rs @ [w]) PkRead) else Inr (rs @ [w]), q'))"

subsection \<open>The queue operations when nobody interferes\<close>

text \<open>\<open>finishes step p x r y\<close>: iterating \<open>step\<close> from the control point \<open>p\<close> on the state \<open>x\<close> ends, with
  the value \<open>r\<close> and the state \<open>y\<close>.\<close>

inductive finishes :: "('p \<Rightarrow> 's \<Rightarrow> ('p + 'r) \<times> 's) \<Rightarrow> 'p \<Rightarrow> 's \<Rightarrow> 'r \<Rightarrow> 's \<Rightarrow> bool"
  for step :: "'p \<Rightarrow> 's \<Rightarrow> ('p + 'r) \<times> 's" where
  fin_done: "step p x = (Inr r, y) \<Longrightarrow> finishes step p x r y"
| fin_more: "step p x = (Inl p', x') \<Longrightarrow> finishes step p' x' r y \<Longrightarrow> finishes step p x r y"

text \<open>A sub-machine that finishes drives the machine that embeds it.\<close>

lemma finishes_embed:
  assumes "finishes sub p x r y"
    and "\<And>p x p' x'. sub p x = (Inl p', x') \<Longrightarrow> step (c p) x = (Inl (c p'), x')"
    and "\<And>p x. sub p x = (Inr r, y) \<Longrightarrow> finishes step (c p) x r' z"
  shows "finishes step (c p) x r' z"
  using assms by (induction rule: finishes.induct) (auto intro: fin_more)

lemma finishes_unfold:
  "finishes step p x r y \<longleftrightarrow> (case step p x of
     (Inl p', x') \<Rightarrow> finishes step p' x' r y | (Inr r', y') \<Rightarrow> r' = r \<and> y' = y)"
  by (subst finishes.simps) (auto split: prod.splits sum.splits)

definition live :: "fstore \<Rightarrow> wid \<Rightarrow> bool" where
  "live st w \<longleftrightarrow> \<not> fwcancelled (fobjs st w)"

lemma fq_update: "q\<lparr>fitems := ws, fsize := n\<rparr> = \<lparr>fitems = ws, fsize = n\<rparr>"
  for q :: fairWaiterQueue by (cases q) simp

lemma dequeue_pop:
  assumes "fitems q = w # ws"
  shows "finishes (dequeue_step st) DqPop q r y \<longleftrightarrow>
     (if live st w then r = Some w \<and> y = \<lparr>fitems = ws, fsize = fsize q - 1\<rparr>
      else finishes (dequeue_step st) DqPop \<lparr>fitems = ws, fsize = fsize q - 1\<rparr> r y)"
  using assms
  by (cases q, subst finishes_unfold)
     (auto simp: live_def finishes_unfold [of _ "DqSize w"] finishes_unfold [of _ "DqLoad w"])

lemma dequeue_nil: "fitems q = [] \<Longrightarrow> finishes (dequeue_step st) DqPop q None q"
  by (subst finishes_unfold) simp

text \<open>What \<^verbatim>\<open>dequeue\<close> leaves of a list: everything after the first live waiter.\<close>

definition dequeued :: "fstore \<Rightarrow> wid list \<Rightarrow> 64 word \<Rightarrow> wid option \<times> fairWaiterQueue" where
  "dequeued st ws n = (case dropWhile (\<lambda>w. \<not> live st w) ws of
      [] \<Rightarrow> (None, \<lparr>fitems = [], fsize = n - of_nat (length ws)\<rparr>)
    | v # vs \<Rightarrow> (Some v, \<lparr>fitems = vs, fsize = n - of_nat (length ws - length vs)\<rparr>))"

lemma dequeued_simps:
  "dequeued st [] n = (None, \<lparr>fitems = [], fsize = n\<rparr>)"
  "dequeued st (w # ws) n =
     (if live st w then (Some w, \<lparr>fitems = ws, fsize = n - 1\<rparr>) else dequeued st ws (n - 1))"
proof -
  have "length vs \<le> length ws" if "dropWhile (\<lambda>w. \<not> live st w) ws = v # vs" for v vs
    using length_dropWhile_le [of "\<lambda>w. \<not> live st w" ws] that by simp
  then show "dequeued st (w # ws) n =
      (if live st w then (Some w, \<lparr>fitems = ws, fsize = n - 1\<rparr>) else dequeued st ws (n - 1))"
    by (cases "dropWhile (\<lambda>w. \<not> live st w) ws") 
       (simp_all add: dequeued_def Suc_diff_le del: dropWhile_eq_Nil_conv dropWhile_eq_Cons_conv)
qed (simp add: dequeued_def)

lemma dequeue_finishes:
  "dequeued st (fitems q) (fsize q) = (r, y) \<Longrightarrow> finishes (dequeue_step st) DqPop q r y"
proof (induction "fitems q" arbitrary: q)
  case Nil
  then have "r = None" "y = q" "fitems q = []" by (cases q, auto simp: dequeued_simps)+
  then show ?case using dequeue_nil [of q] by simp
next
  case (Cons w ws)
  from Cons.hyps(2) [symmetric] Cons.prems Cons.hyps(1) [of "\<lparr>fitems = ws, fsize = fsize q - 1\<rparr>"]
  show ?case by (auto simp: dequeue_pop dequeued_simps split: if_splits)
qed

lemma peek_first:
  assumes "fitems q = w # ws"
  shows "finishes (peek_step st) PkRead q r y \<longleftrightarrow>
     (if live st w then r = Some w \<and> y = q
      else finishes (peek_step st) PkRead \<lparr>fitems = ws, fsize = fsize q - 1\<rparr> r y)"
  using assms
  by (cases q, subst finishes_unfold)
     (auto simp: live_def finishes_unfold [of _ "PkLoad w"] finishes_unfold [of _ "PkDrop w"]
       finishes_unfold [of _ PkSize])

definition peeked :: "fstore \<Rightarrow> wid list \<Rightarrow> 64 word \<Rightarrow> wid option \<times> fairWaiterQueue" where
  "peeked st ws n = (let vs = dropWhile (\<lambda>w. \<not> live st w) ws
     in (if vs = [] then None else Some (hd vs),
         \<lparr>fitems = vs, fsize = n - of_nat (length ws - length vs)\<rparr>))"

lemma peeked_simps:
  "peeked st [] n = (None, \<lparr>fitems = [], fsize = n\<rparr>)"
  "peeked st (w # ws) n =
     (if live st w then (Some w, \<lparr>fitems = w # ws, fsize = n\<rparr>) else peeked st ws (n - 1))"
  using length_dropWhile_le [of "\<lambda>w. \<not> live st w" ws]
  by (auto simp: peeked_def Let_def Suc_diff_le)

lemma peek_finishes:
  "peeked st (fitems q) (fsize q) = (r, y) \<Longrightarrow> finishes (peek_step st) PkRead q r y"
proof (induction "fitems q" arbitrary: q)
  case Nil
  then have "r = None" "y = q" "fitems q = []" by (cases q, auto simp: peeked_simps)+
  then show ?case by (subst finishes_unfold) simp
next
  case (Cons w ws)
  from Cons.hyps(2) [symmetric] Cons.prems Cons.hyps(1) [of "\<lparr>fitems = ws, fsize = fsize q - 1\<rparr>"]
  show ?case by (cases q) (auto simp: peek_first peeked_simps split: if_splits)
qed

text \<open>Whom \<^verbatim>\<open>dequeueReaders\<close> takes when the first live waiter is a reader: the live ones in front of
  the first live writer.\<close>

definition passes :: "fstore \<Rightarrow> wid \<Rightarrow> bool" where
  "passes st w \<longleftrightarrow> \<not> live st w \<or> isReader st w"

lemma readers_loop_end:
  assumes "peeked st (fitems q) (fsize q) = (r, y)" "\<And>w. r = Some w \<Longrightarrow> \<not> isReader st w"
  shows "finishes (dequeueReaders_step st) (RPeek rs PkRead) q rs y"
proof (rule finishes_embed [OF peek_finishes [OF assms(1)]])
  fix p x assume "peek_step st p x = (Inr r, y)"
  then show "finishes (dequeueReaders_step st) (RPeek rs p) x rs y"
    using assms(2) by (intro fin_done) (auto split: option.splits)
qed simp

lemma readers_loop_more:
  assumes "peeked st (fitems q) (fsize q) = (Some w, y)" "isReader st w" "fitems y = w # ws" "live st w"
    and more: "finishes (dequeueReaders_step st) (RPeek (rs @ [w]) PkRead)
      \<lparr>fitems = ws, fsize = fsize y - 1\<rparr> r z"
  shows "finishes (dequeueReaders_step st) (RPeek rs PkRead) q r z"
proof (rule finishes_embed [OF peek_finishes [OF assms(1)]])
  have d: "finishes (dequeue_step st) DqPop y (Some w) \<lparr>fitems = ws, fsize = fsize y - 1\<rparr>"
    by (simp add: dequeue_pop [OF assms(3)] assms(4))
  have "finishes (dequeueReaders_step st) (RNext rs DqPop) y r z"
  proof (rule finishes_embed [OF d])
    fix p x assume "dequeue_step st p x = (Inr (Some w), \<lparr>fitems = ws, fsize = fsize y - 1\<rparr>)"
    then have "dequeueReaders_step st (RNext rs p) x =
        (Inl (RPeek (rs @ [w]) PkRead), \<lparr>fitems = ws, fsize = fsize y - 1\<rparr>)"
      by (simp add: assms(2))
    then show "finishes (dequeueReaders_step st) (RNext rs p) x r z" by (rule fin_more [OF _ more])
  qed simp
  then show "finishes (dequeueReaders_step st) (RPeek rs p) x r z"
    if "peek_step st p x = (Inr (Some w), y)" for p x
    using that assms(2) by (subst finishes_unfold) simp
qed simp

lemma readers_loop:
  "finishes (dequeueReaders_step st) (RPeek rs PkRead) q
     (rs @ filter (live st) (takeWhile (passes st) (fitems q)))
     \<lparr>fitems = dropWhile (passes st) (fitems q),
      fsize = fsize q - of_nat (length (takeWhile (passes st) (fitems q)))\<rparr>"
proof (induction "fitems q" arbitrary: q rs)
  case Nil
  then have "fitems q = []" by simp
  then show ?case using readers_loop_end [of st q None q rs]
    by (cases q) (simp add: peeked_simps)
next
  case (Cons w ws)
  then have q: "fitems q = w # ws" by simp
  let ?q = "\<lparr>fitems = ws, fsize = fsize q - 1\<rparr>"
  consider (writer) "\<not> passes st w" | (dead) "\<not> live st w" | (reader) "live st w" "isReader st w"
    by (auto simp: passes_def)
  then show ?case
  proof cases
    case writer
    then show ?thesis using readers_loop_end [of st q "Some w" q rs] q
      by (cases q) (auto simp: peeked_simps passes_def)
  next
    case dead
    have "finishes (dequeueReaders_step st) (RPeek rs PkRead) q r z"
      if "finishes (dequeueReaders_step st) (RPeek rs PkRead) ?q r z" for r z
      using that dead q
      by (subst finishes_unfold)
         (simp add: live_def fq_update finishes_unfold [of _ "RPeek rs (PkLoad w)"]
            finishes_unfold [of _ "RPeek rs (PkDrop w)"] finishes_unfold [of _ "RPeek rs PkSize"])
    from this [OF Cons.hyps(1) [of ?q rs]] show ?thesis using dead q
      by (simp add: passes_def diff_diff_add)
  next
    case reader
    then have "peeked st (fitems q) (fsize q) = (Some w, q)" using q by (cases q) (simp add: peeked_simps)
    from readers_loop_more [OF this reader(2) q reader(1) Cons.hyps(1) [of ?q]] show ?thesis
      using reader q by (simp add: passes_def diff_diff_add)
  qed
qed

text \<open>\<^verbatim>\<open>dequeueReaders\<close> ends and wakes a whole group: when the first live waiter is a reader and
  nobody interferes, it returns exactly the live readers in front of the first live writer, in
  queue order, removes them and the cancelled waiters between them, and leaves the rest.\<close>

lemma dequeueReaders_takes_leading_readers:
  assumes "dropWhile (\<lambda>w. \<not> live st w) (fitems q) = w # ws" "isReader st w"
  shows "finishes (dequeueReaders_step st) (RFirst DqPop) q
     (filter (live st) (takeWhile (passes st) (fitems q)))
     \<lparr>fitems = dropWhile (passes st) (fitems q),
      fsize = fsize q - of_nat (length (takeWhile (passes st) (fitems q)))\<rparr>"
  using assms
proof (induction "fitems q" arbitrary: q)
  case Nil
  then show ?case by (metis dropWhile.simps(1) list.distinct(1))
next
  case (Cons v vs)
  then have q: "fitems q = v # vs" by simp
  let ?q = "\<lparr>fitems = vs, fsize = fsize q - 1\<rparr>"
  show ?case
  proof (cases "live st v")
    case True
    then have "v = w" using Cons.prems(1) q by simp
    then show ?thesis using True Cons.prems(2) q readers_loop [of st "[w]" ?q]
      by (subst finishes_unfold)
         (simp add: live_def passes_def fq_update diff_diff_add finishes_unfold [of _ "RFirst (DqSize w)"]
            finishes_unfold [of _ "RFirst (DqLoad w)"])
  next
    case False
    have "finishes (dequeueReaders_step st) (RFirst DqPop) q r z"
      if "finishes (dequeueReaders_step st) (RFirst DqPop) ?q r z" for r z
      using that False q
      by (subst finishes_unfold)
         (simp add: live_def fq_update finishes_unfold [of _ "RFirst (DqSize v)"]
            finishes_unfold [of _ "RFirst (DqLoad v)"])
    from this [OF Cons.hyps(1) [of ?q]] show ?thesis using False q Cons.prems
      by (simp add: passes_def diff_diff_add)
  qed
qed

definition demo_waiters :: fstore where
  "demo_waiters = \<lparr>fobjs = (\<lambda>w. nil_fairWaiter\<lparr>fwcancelled := (w = 1),
     fwkind := (if w = 3 then fairWaiterKindWriter else fairWaiterKindReader)\<rparr>), fnalloc = 5, fwIDCounter = 5\<rparr>"

lemma dequeueReaders_takes_leading_readers_witness:
  "finishes (dequeueReaders_step demo_waiters) (RFirst DqPop) \<lparr>fitems = [0, 1, 2, 3, 4], fsize = 5\<rparr>
     [0, 2] \<lparr>fitems = [3, 4], fsize = 2\<rparr>"
  using dequeueReaders_takes_leading_readers [of demo_waiters "\<lparr>fitems = [0, 1, 2, 3, 4], fsize = 5\<rparr>" 0 "[1, 2, 3, 4]"]
  by (simp add: demo_waiters_def nil_fairWaiter_def live_def isReader_def passes_def)

end
