(* ===== verification/FairRWLock.thy ===== *)
theory FairRWLock
  imports FairQueue RWState
begin

unbundle bit_operations_syntax

text \<open>
  \<^verbatim>\<open>internal/primitives/fair_rwlock.go\<close>, action by action: the state word of the theory \<open>RWState\<close>
  and one queue for readers and writers. A method whose fast path fails queues a waiter and loops:
  once \<^verbatim>\<open>signaled\<close> it spins for the lock, before that it tries for the lock only while it is the
  first in the queue, and parks otherwise. One step function per method; \<open>k\<close> tells the plain, the
  context and the trying variants apart.
\<close>

record FairRWLock =
  fstate :: int32
  fqueue :: fairWaiterQueue
  freaderAcquires :: int64
  fwriterAcquires :: int64
  freaderWaits :: int64
  fwriterWaits :: int64
  ftotalWaitTime :: int64
  fcurrentReaders :: int32
  fwriterHeld :: int32
  fcreatedAt :: int

definition NewFairRWLock :: "int \<Rightarrow> FairRWLock" where
  "NewFairRWLock t = \<lparr>fstate = 0, fqueue = newFairWaiterQueue, freaderAcquires = 0,
     fwriterAcquires = 0, freaderWaits = 0, fwriterWaits = 0, ftotalWaitTime = 0,
     fcurrentReaders = 0, fwriterHeld = 0, fcreatedAt = t\<rparr>"

datatype fkind = FPlain | FCtx | FTry

datatype fret = FInit | FRead | FWrite | FReleased | FFalse | FCtxErr | FPanic string

datatype fwake = KPeek fpeek | KReaders freaders | KOne fdeq | KStore wid "wid list" | KSend wid "wid list"

datatype fpc =
    FRet fret
  | FrLoad fkind int
  | FrEmpty fkind int int32
  | FrCas fkind int int32
  | FrGate int
  | FrNew fkind int
  | FrEnq fkind int fenq
  | FrWaits fkind int wid
  | FrSig fkind int wid
  | FrSLoad fkind int wid
  | FrSCas fkind int wid int32
  | FrPeek fkind int wid fpeek
  | FrQLoad fkind int wid
  | FrQCas fkind int wid int32
  | FrQCount wid
  | FrCancel wid
  | FrCount
  | FrAcq
  | FrPark fkind int wid
  | FrTime fkind int wid
  | FruLoad
  | FruCas int32
  | FruCount int32
  | FwEmpty fkind int
  | FwCas fkind int
  | FwGate int
  | FwNew fkind int
  | FwEnq fkind int fenq
  | FwWaits fkind int wid
  | FwSig fkind int wid
  | FwSCas fkind int wid
  | FwPeek fkind int wid fpeek
  | FwQCas fkind int wid
  | FwQHeld wid
  | FwCancel wid
  | FwHeld
  | FwAcq
  | FwPark fkind int wid
  | FwTime fkind int wid
  | FunLoad
  | FunCas
  | FunHeld
  | FCtxCancel wid
  | FWake fwake

type_synonym fresult = "(fpc \<times> FairRWLock \<times> fstore) option"

text \<open>\<^verbatim>\<open>tryAcquireSignaledReader\<close> and \<^verbatim>\<open>tryAcquireQueuedReader\<close>: they return to the loop of the caller
  where the lock is held by a writer, the first to the test of \<^verbatim>\<open>signaled\<close>, the second to \<^verbatim>\<open>wait\<close>.\<close>

definition tryAcquireSignaledReader_step :: "fpc \<Rightarrow> FairRWLock \<Rightarrow> fstore \<Rightarrow> fresult" where
  "tryAcquireSignaledReader_step pc rw st = (case pc of
     FrSLoad k b w \<Rightarrow>
       Some (if fstate rw AND rwLockWriterBit \<noteq> 0 then FrSig k b w
             else if sint rwLockMaxReaders \<le> sint (fstate rw)
             then FRet (FPanic ''fairrwlock: too many readers'')
             else FrSCas k b w (fstate rw), rw, st)
   | FrSCas k b w s \<Rightarrow>
       (if fstate rw = s then Some (FrCount, rw\<lparr>fstate := s + 1\<rparr>, st)
        else Some (FrSLoad k b w, rw, st))
   | FrCount \<Rightarrow> Some (FrAcq, rw\<lparr>fcurrentReaders := fcurrentReaders rw + 1\<rparr>, st)
   | _ \<Rightarrow> None)"

definition tryAcquireQueuedReader_step :: "fpc \<Rightarrow> FairRWLock \<Rightarrow> fstore \<Rightarrow> fresult" where
  "tryAcquireQueuedReader_step pc rw st = (case pc of
     FrPeek k b w p \<Rightarrow>
       (case peek_step st p (fqueue rw) of
          (Inl p', q) \<Rightarrow> Some (FrPeek k b w p', rw\<lparr>fqueue := q\<rparr>, st)
        | (Inr head, q) \<Rightarrow>
            Some (if head \<noteq> Some w then FrPark k b w else FrQLoad k b w, rw\<lparr>fqueue := q\<rparr>, st))
   | FrQLoad k b w \<Rightarrow>
       Some (if fstate rw AND rwLockWriterBit \<noteq> 0 then FrPark k b w
             else if sint rwLockMaxReaders \<le> sint (fstate rw)
             then FRet (FPanic ''fairrwlock: too many readers'')
             else FrQCas k b w (fstate rw), rw, st)
   | FrQCas k b w s \<Rightarrow>
       (if fstate rw = s then Some (FrQCount w, rw\<lparr>fstate := s + 1\<rparr>, st)
        else Some (FrQLoad k b w, rw, st))
   | FrQCount w \<Rightarrow> Some (FrCancel w, rw\<lparr>fcurrentReaders := fcurrentReaders rw + 1\<rparr>, st)
   | _ \<Rightarrow> None)"

definition tryAcquireSignaledWriter_step :: "fpc \<Rightarrow> FairRWLock \<Rightarrow> fstore \<Rightarrow> fresult" where
  "tryAcquireSignaledWriter_step pc rw st = (case pc of
     FwSCas k b w \<Rightarrow>
       (if fstate rw = 0 then Some (FwHeld, rw\<lparr>fstate := rwLockWriterBit\<rparr>, st)
        else Some (FwSig k b w, rw, st))
   | FwHeld \<Rightarrow> Some (FwAcq, rw\<lparr>fwriterHeld := 1\<rparr>, st)
   | _ \<Rightarrow> None)"

definition tryAcquireQueuedWriter_step :: "fpc \<Rightarrow> FairRWLock \<Rightarrow> fstore \<Rightarrow> fresult" where
  "tryAcquireQueuedWriter_step pc rw st = (case pc of
     FwPeek k b w p \<Rightarrow>
       (case peek_step st p (fqueue rw) of
          (Inl p', q) \<Rightarrow> Some (FwPeek k b w p', rw\<lparr>fqueue := q\<rparr>, st)
        | (Inr head, q) \<Rightarrow>
            Some (if head \<noteq> Some w then FwPark k b w else FwQCas k b w, rw\<lparr>fqueue := q\<rparr>, st))
   | FwQCas k b w \<Rightarrow>
       (if fstate rw = 0 then Some (FwQHeld w, rw\<lparr>fstate := rwLockWriterBit\<rparr>, st)
        else Some (FwPark k b w, rw, st))
   | FwQHeld w \<Rightarrow> Some (FwCancel w, rw\<lparr>fwriterHeld := 1\<rparr>, st)
   | _ \<Rightarrow> None)"

text \<open>What the reading methods share: the compare-and-swap of the fast path, queueing a waiter, the
  test of \<^verbatim>\<open>signaled\<close>, and the two actions before they return.\<close>

definition fair_read_common :: "inp \<Rightarrow> fpc \<Rightarrow> FairRWLock \<Rightarrow> fstore \<Rightarrow> fresult" where
  "fair_read_common i pc rw st = (case pc of
     FrCas k b s \<Rightarrow>
       (if fstate rw = s then Some (FrCount, rw\<lparr>fstate := s + 1\<rparr>, st)
        else Some (FrLoad k b, rw, st))
   | FrNew k b \<Rightarrow>
       (case newFairWaiter fairWaiterKindReader i st of
          (w, st') \<Rightarrow> Some (FrEnq k b (FLink w), rw, st'))
   | FrEnq k b p \<Rightarrow>
       (case enqueue_step p (fqueue rw) of
          (Inl p', q) \<Rightarrow> Some (FrEnq k b p', rw\<lparr>fqueue := q\<rparr>, st)
        | (Inr w, q) \<Rightarrow> Some (FrWaits k b w, rw\<lparr>fqueue := q\<rparr>, st))
   | FrWaits k b w \<Rightarrow> Some (FrSig k b w, rw\<lparr>freaderWaits := freaderWaits rw + 1\<rparr>, st)
   | FrSig k b w \<Rightarrow>
       Some (if signaled (fobjs st w) then FrSLoad k b w else FrPeek k b w PkRead, rw, st)
   | FrTime k b w \<Rightarrow>
       Some (FrSig k b w, rw\<lparr>ftotalWaitTime := ftotalWaitTime rw + elapsed i b\<rparr>, st)
   | FrCancel w \<Rightarrow> Some (FrAcq, rw, storeCancelled w st)
   | FrAcq \<Rightarrow> Some (FRet FRead, rw\<lparr>freaderAcquires := freaderAcquires rw + 1\<rparr>, st)
   | _ \<Rightarrow> orelse (tryAcquireSignaledReader_step pc rw st) (tryAcquireQueuedReader_step pc rw st))"

definition fair_write_common :: "inp \<Rightarrow> fpc \<Rightarrow> FairRWLock \<Rightarrow> fstore \<Rightarrow> fresult" where
  "fair_write_common i pc rw st = (case pc of
     FwNew k b \<Rightarrow>
       (case newFairWaiter fairWaiterKindWriter i st of
          (w, st') \<Rightarrow> Some (FwEnq k b (FLink w), rw, st'))
   | FwEnq k b p \<Rightarrow>
       (case enqueue_step p (fqueue rw) of
          (Inl p', q) \<Rightarrow> Some (FwEnq k b p', rw\<lparr>fqueue := q\<rparr>, st)
        | (Inr w, q) \<Rightarrow> Some (FwWaits k b w, rw\<lparr>fqueue := q\<rparr>, st))
   | FwWaits k b w \<Rightarrow> Some (FwSig k b w, rw\<lparr>fwriterWaits := fwriterWaits rw + 1\<rparr>, st)
   | FwSig k b w \<Rightarrow>
       Some (if signaled (fobjs st w) then FwSCas k b w else FwPeek k b w PkRead, rw, st)
   | FwTime k b w \<Rightarrow>
       Some (FwSig k b w, rw\<lparr>ftotalWaitTime := ftotalWaitTime rw + elapsed i b\<rparr>, st)
   | FwCancel w \<Rightarrow> Some (FwAcq, rw, storeCancelled w st)
   | FwAcq \<Rightarrow> Some (FRet FWrite, rw\<lparr>fwriterAcquires := fwriterAcquires rw + 1\<rparr>, st)
   | _ \<Rightarrow> orelse (tryAcquireSignaledWriter_step pc rw st) (tryAcquireQueuedWriter_step pc rw st))"

definition Fair_RLock_step :: "inp \<Rightarrow> fpc \<Rightarrow> FairRWLock \<Rightarrow> fstore \<Rightarrow> fresult" where
  "Fair_RLock_step i pc rw st = (case pc of
     FrLoad FPlain b \<Rightarrow>
       Some (if fstate rw AND rwLockWriterBit = 0 then FrEmpty FPlain b (fstate rw)
             else FrNew FPlain b, rw, st)
   | FrEmpty FPlain b s \<Rightarrow>
       Some (if \<not> fisEmpty (fqueue rw) then FrNew FPlain b
             else if sint rwLockMaxReaders \<le> sint s then FRet (FPanic ''fairrwlock: too many readers'')
             else FrCas FPlain b s, rw, st)
   | FrPark FPlain b w \<Rightarrow>
       (case fair_wait w st of None \<Rightarrow> None | Some st' \<Rightarrow> Some (FrTime FPlain b w, rw, st'))
   | _ \<Rightarrow> fair_read_common i pc rw st)"

definition Fair_RLockContext_step :: "inp \<Rightarrow> fpc \<Rightarrow> FairRWLock \<Rightarrow> fstore \<Rightarrow> fresult" where
  "Fair_RLockContext_step i pc rw st = (case pc of
     FrLoad FCtx b \<Rightarrow>
       Some (if fstate rw AND rwLockWriterBit = 0 then FrEmpty FCtx b (fstate rw) else FrGate b, rw, st)
   | FrEmpty FCtx b s \<Rightarrow>
       Some (if \<not> fisEmpty (fqueue rw) then FrGate b
             else if sint s < sint rwLockMaxReaders then FrCas FCtx b s
             else FrLoad FCtx b, rw, st)
   | FrGate b \<Rightarrow> Some (if ctxArm i then FRet FCtxErr else FrNew FCtx b, rw, st)
   | FrPark FCtx b w \<Rightarrow>
       (case fair_waitContext i w st of
          None \<Rightarrow> None
        | Some (r, st') \<Rightarrow> Some (if r then FrTime FCtx b w else FCtxCancel w, rw, st'))
   | FCtxCancel w \<Rightarrow> Some (FRet FCtxErr, rw, storeCancelled w st)
   | _ \<Rightarrow> fair_read_common i pc rw st)"

definition Fair_TryRLock_step :: "fpc \<Rightarrow> FairRWLock \<Rightarrow> fstore \<Rightarrow> fresult" where
  "Fair_TryRLock_step pc rw st = (case pc of
     FrLoad FTry b \<Rightarrow>
       Some (if fstate rw AND rwLockWriterBit \<noteq> 0 then FRet FFalse
             else FrEmpty FTry b (fstate rw), rw, st)
   | FrEmpty FTry b s \<Rightarrow>
       Some (if \<not> fisEmpty (fqueue rw) then FRet FFalse
             else if sint rwLockMaxReaders \<le> sint s then FRet FFalse else FrCas FTry b s, rw, st)
   | FrCas FTry b s \<Rightarrow>
       (if fstate rw = s then Some (FrCount, rw\<lparr>fstate := s + 1\<rparr>, st)
        else Some (FrLoad FTry b, rw, st))
   | FrCount \<Rightarrow> Some (FrAcq, rw\<lparr>fcurrentReaders := fcurrentReaders rw + 1\<rparr>, st)
   | FrAcq \<Rightarrow> Some (FRet FRead, rw\<lparr>freaderAcquires := freaderAcquires rw + 1\<rparr>, st)
   | _ \<Rightarrow> None)"

definition wake_all :: "wid list \<Rightarrow> fpc" where
  "wake_all ws = (case ws of [] \<Rightarrow> FRet FReleased | w # vs \<Rightarrow> FWake (KStore w vs))"

definition wakeNextWaiters_step :: "fwake \<Rightarrow> FairRWLock \<Rightarrow> fstore \<Rightarrow> fresult" where
  "wakeNextWaiters_step p rw st = (case p of
     KPeek pk \<Rightarrow>
       (case peek_step st pk (fqueue rw) of
          (Inl pk', q) \<Rightarrow> Some (FWake (KPeek pk'), rw\<lparr>fqueue := q\<rparr>, st)
        | (Inr None, q) \<Rightarrow> Some (FRet FReleased, rw\<lparr>fqueue := q\<rparr>, st)
        | (Inr (Some head), q) \<Rightarrow>
            Some (FWake (if isReader st head then KReaders (RFirst DqPop) else KOne DqPop),
                  rw\<lparr>fqueue := q\<rparr>, st))
   | KReaders r \<Rightarrow>
       (case dequeueReaders_step st r (fqueue rw) of
          (Inl r', q) \<Rightarrow> Some (FWake (KReaders r'), rw\<lparr>fqueue := q\<rparr>, st)
        | (Inr ws, q) \<Rightarrow> Some (wake_all ws, rw\<lparr>fqueue := q\<rparr>, st))
   | KOne d \<Rightarrow>
       (case dequeue_step st d (fqueue rw) of
          (Inl d', q) \<Rightarrow> Some (FWake (KOne d'), rw\<lparr>fqueue := q\<rparr>, st)
        | (Inr None, q) \<Rightarrow> Some (FRet FReleased, rw\<lparr>fqueue := q\<rparr>, st)
        | (Inr (Some w), q) \<Rightarrow> Some (wake_all [w], rw\<lparr>fqueue := q\<rparr>, st))
   | KStore w ws \<Rightarrow> Some (FWake (KSend w ws), rw, signalStore w st)
   | KSend w ws \<Rightarrow> Some (wake_all ws, rw, signalSend w st))"

definition Fair_RUnlock_step :: "fpc \<Rightarrow> FairRWLock \<Rightarrow> fstore \<Rightarrow> fresult" where
  "Fair_RUnlock_step pc rw st = (case pc of
     FruLoad \<Rightarrow>
       Some (if fstate rw AND rwLockMaxReaders = 0
             then FRet (FPanic ''fairrwlock: RUnlock of unlocked FairRWLock'')
             else FruCas (fstate rw), rw, st)
   | FruCas s \<Rightarrow>
       (if fstate rw = s then Some (FruCount (s - 1), rw\<lparr>fstate := s - 1\<rparr>, st)
        else Some (FruLoad, rw, st))
   | FruCount s \<Rightarrow>
       Some (if s AND rwLockMaxReaders = 0 then FWake (KPeek PkRead) else FRet FReleased,
             rw\<lparr>fcurrentReaders := fcurrentReaders rw - 1\<rparr>, st)
   | FWake p \<Rightarrow> wakeNextWaiters_step p rw st
   | _ \<Rightarrow> None)"

definition Fair_Lock_step :: "inp \<Rightarrow> fpc \<Rightarrow> FairRWLock \<Rightarrow> fstore \<Rightarrow> fresult" where
  "Fair_Lock_step i pc rw st = (case pc of
     FwEmpty FPlain b \<Rightarrow>
       Some (if fisEmpty (fqueue rw) then FwCas FPlain b else FwNew FPlain b, rw, st)
   | FwCas FPlain b \<Rightarrow>
       (if fstate rw = 0 then Some (FwHeld, rw\<lparr>fstate := rwLockWriterBit\<rparr>, st)
        else Some (FwNew FPlain b, rw, st))
   | FwPark FPlain b w \<Rightarrow>
       (case fair_wait w st of None \<Rightarrow> None | Some st' \<Rightarrow> Some (FwTime FPlain b w, rw, st'))
   | _ \<Rightarrow> fair_write_common i pc rw st)"

definition Fair_LockContext_step :: "inp \<Rightarrow> fpc \<Rightarrow> FairRWLock \<Rightarrow> fstore \<Rightarrow> fresult" where
  "Fair_LockContext_step i pc rw st = (case pc of
     FwEmpty FCtx b \<Rightarrow> Some (if fisEmpty (fqueue rw) then FwCas FCtx b else FwGate b, rw, st)
   | FwCas FCtx b \<Rightarrow>
       (if fstate rw = 0 then Some (FwHeld, rw\<lparr>fstate := rwLockWriterBit\<rparr>, st)
        else Some (FwGate b, rw, st))
   | FwGate b \<Rightarrow> Some (if ctxArm i then FRet FCtxErr else FwNew FCtx b, rw, st)
   | FwPark FCtx b w \<Rightarrow>
       (case fair_waitContext i w st of
          None \<Rightarrow> None
        | Some (r, st') \<Rightarrow> Some (if r then FwTime FCtx b w else FCtxCancel w, rw, st'))
   | FCtxCancel w \<Rightarrow> Some (FRet FCtxErr, rw, storeCancelled w st)
   | _ \<Rightarrow> fair_write_common i pc rw st)"

definition Fair_TryLock_step :: "fpc \<Rightarrow> FairRWLock \<Rightarrow> fstore \<Rightarrow> fresult" where
  "Fair_TryLock_step pc rw st = (case pc of
     FwEmpty FTry b \<Rightarrow> Some (if \<not> fisEmpty (fqueue rw) then FRet FFalse else FwCas FTry b, rw, st)
   | FwCas FTry b \<Rightarrow>
       (if fstate rw = 0 then Some (FwHeld, rw\<lparr>fstate := rwLockWriterBit\<rparr>, st)
        else Some (FRet FFalse, rw, st))
   | FwHeld \<Rightarrow> Some (FwAcq, rw\<lparr>fwriterHeld := 1\<rparr>, st)
   | FwAcq \<Rightarrow> Some (FRet FWrite, rw\<lparr>fwriterAcquires := fwriterAcquires rw + 1\<rparr>, st)
   | _ \<Rightarrow> None)"

definition Fair_Unlock_step :: "fpc \<Rightarrow> FairRWLock \<Rightarrow> fstore \<Rightarrow> fresult" where
  "Fair_Unlock_step pc rw st = (case pc of
     FunLoad \<Rightarrow>
       Some (if fstate rw \<noteq> rwLockWriterBit
             then FRet (FPanic ''fairrwlock: Unlock of unlocked FairRWLock'') else FunCas, rw, st)
   | FunCas \<Rightarrow>
       (if fstate rw = rwLockWriterBit then Some (FunHeld, rw\<lparr>fstate := 0\<rparr>, st)
        else Some (FRet (FPanic ''fairrwlock: inconsistent state in Unlock''), rw, st))
   | FunHeld \<Rightarrow> Some (FWake (KPeek PkRead), rw\<lparr>fwriterHeld := 0\<rparr>, st)
   | FWake p \<Rightarrow> wakeNextWaiters_step p rw st
   | _ \<Rightarrow> None)"

definition fair_step :: "inp \<Rightarrow> fpc \<Rightarrow> FairRWLock \<Rightarrow> fstore \<Rightarrow> fresult" where
  "fair_step i pc rw st =
     orelse (Fair_RLock_step i pc rw st) (orelse (Fair_RLockContext_step i pc rw st)
    (orelse (Fair_TryRLock_step pc rw st) (orelse (Fair_RUnlock_step pc rw st)
    (orelse (Fair_Lock_step i pc rw st) (orelse (Fair_LockContext_step i pc rw st)
    (orelse (Fair_TryLock_step pc rw st) (Fair_Unlock_step pc rw st)))))))"

datatype fop = FOpRLock | FOpRLockContext | FOpTryRLock | FOpRUnlock
  | FOpLock | FOpLockContext | FOpTryLock | FOpUnlock

fun fair_entry :: "int \<Rightarrow> fop \<Rightarrow> fpc" where
  "fair_entry t FOpRLock = FrLoad FPlain t"
| "fair_entry t FOpRLockContext = FrLoad FCtx t"
| "fair_entry t FOpTryRLock = FrLoad FTry t"
| "fair_entry t FOpRUnlock = FruLoad"
| "fair_entry t FOpLock = FwEmpty FPlain t"
| "fair_entry t FOpLockContext = FwEmpty FCtx t"
| "fair_entry t FOpTryLock = FwEmpty FTry t"
| "fair_entry t FOpUnlock = FunLoad"

text \<open>A goroutine releases what it holds and acquires only when it holds nothing.\<close>

fun fair_may_call :: "fpc \<Rightarrow> fop \<Rightarrow> bool" where
  "fair_may_call (FRet FRead) op = (op = FOpRUnlock)"
| "fair_may_call (FRet FWrite) op = (op = FOpUnlock)"
| "fair_may_call (FRet (FPanic msg)) op = False"
| "fair_may_call (FRet r) op = (op \<noteq> FOpRUnlock \<and> op \<noteq> FOpUnlock)"
| "fair_may_call _ op = False"

record fsys =
  flk :: FairRWLock
  fstr :: fstore
  fpcs :: "tid \<Rightarrow> fpc"

definition fair_init :: "int \<Rightarrow> fsys" where
  "fair_init t = \<lparr>flk = NewFairRWLock t, fstr = empty_fstore, fpcs = (\<lambda>_. FRet FInit)\<rparr>"

fun fair_exec :: "fop event \<Rightarrow> fsys \<Rightarrow> fsys option" where
  "fair_exec (Invoke t i op) s =
     (if fair_may_call (fpcs s t) op
      then Some (s\<lparr>fpcs := (fpcs s)(t := fair_entry (now i) op)\<rparr>) else None)"
| "fair_exec (Go t i) s =
     (case fair_step i (fpcs s t) (flk s) (fstr s) of
        None \<Rightarrow> None
      | Some (pc, m, st) \<Rightarrow> Some \<lparr>flk = m, fstr = st, fpcs = (fpcs s)(t := pc)\<rparr>)"

record FairRWLockStats =
  fs_Policy :: string
  fs_ReaderAcquires :: int64
  fs_WriterAcquires :: int64
  fs_ReaderWaits :: int64
  fs_WriterWaits :: int64
  fs_TotalWaitTimeNs :: int64
  fs_CurrentReaders :: int32
  fs_WriterHeld :: bool
  fs_WaitersQueued :: int64
  fs_Age :: int

definition FairRWLock_GetStats :: "int \<Rightarrow> FairRWLock \<Rightarrow> FairRWLockStats" where
  "FairRWLock_GetStats t rw = \<lparr>fs_Policy = ''fair-fifo'', fs_ReaderAcquires = freaderAcquires rw,
     fs_WriterAcquires = fwriterAcquires rw, fs_ReaderWaits = freaderWaits rw,
     fs_WriterWaits = fwriterWaits rw, fs_TotalWaitTimeNs = ftotalWaitTime rw,
     fs_CurrentReaders = fcurrentReaders rw, fs_WriterHeld = (fwriterHeld rw = 1),
     fs_WaitersQueued = sizeValue (fqueue rw), fs_Age = t - fcreatedAt rw\<rparr>"

subsection \<open>Who holds the lock\<close>

fun f_reads :: "fpc \<Rightarrow> int" where
  "f_reads (FRet FRead) = 1"
| "f_reads (FrQCount w) = 1"
| "f_reads (FrCancel w) = 1"
| "f_reads FrCount = 1"
| "f_reads FrAcq = 1"
| "f_reads FruLoad = 1"
| "f_reads (FruCas s) = 1"
| "f_reads _ = 0"

fun f_writes :: "fpc \<Rightarrow> bool" where
  "f_writes (FRet FWrite) = True"
| "f_writes (FwQHeld w) = True"
| "f_writes (FwCancel w) = True"
| "f_writes FwHeld = True"
| "f_writes FwAcq = True"
| "f_writes FunLoad = True"
| "f_writes FunCas = True"
| "f_writes _ = False"

fun f_local :: "fpc \<Rightarrow> bool" where
  "f_local (FrEmpty k b s) = (s AND rwLockWriterBit = 0)"
| "f_local (FrCas k b s) = (s AND rwLockWriterBit = 0 \<and> sint s < sint rwLockMaxReaders)"
| "f_local (FrSCas k b w s) = (s AND rwLockWriterBit = 0 \<and> sint s < sint rwLockMaxReaders)"
| "f_local (FrQCas k b w s) = (s AND rwLockWriterBit = 0 \<and> sint s < sint rwLockMaxReaders)"
| "f_local (FRet (FPanic msg)) = (msg = ''fairrwlock: too many readers'')"
| "f_local _ = True"

interpretation fair_word: rw_word f_reads f_writes f_local
proof
  show "0 \<le> f_reads pc" for pc by (cases pc rule: f_reads.cases) auto
qed

lemmas fair_step_defs = fair_step_def Fair_RLock_step_def Fair_RLockContext_step_def
  Fair_TryRLock_step_def Fair_RUnlock_step_def Fair_Lock_step_def Fair_LockContext_step_def
  Fair_TryLock_step_def Fair_Unlock_step_def fair_read_common_def fair_write_common_def
  tryAcquireSignaledReader_step_def tryAcquireQueuedReader_step_def
  tryAcquireSignaledWriter_step_def tryAcquireQueuedWriter_step_def orelse_simps

lemma wake_all_roles [simp]:
  "f_reads (wake_all ws) = 0" "\<not> f_writes (wake_all ws)" "f_local (wake_all ws)"
  by (cases ws; simp add: wake_all_def)+

lemma wakeNext_effect:
  assumes "wakeNextWaiters_step p rw st = Some (pc', rw', st')"
  shows "fstate rw' = fstate rw" "f_reads pc' = 0" "\<not> f_writes pc'" "f_local pc'"
  using assms
  by (auto simp: wakeNextWaiters_step_def split: fwake.splits prod.splits sum.splits option.splits)

lemma fair_step_effect:
  assumes "fair_step i pc rw st = Some (pc', rw', st')" "f_local pc"
  shows "rw_effect f_reads f_writes f_local pc (fstate rw) pc' (fstate rw')"
  using assms
proof (cases pc)
  case (FRet r)
  then show ?thesis using assms by (simp add: fair_step_defs)
next
  case (FWake p)
  then show ?thesis using assms wakeNext_effect [of p rw st pc' rw' st']
    by (intro re_keep) (simp_all add: fair_step_defs)
qed (auto simp: fair_step_defs not_le intro: rw_effect.intros
      split: if_splits prod.splits option.splits sum.splits fkind.splits)

definition fair_excl :: "fsys \<Rightarrow> bool" where
  "fair_excl s \<longleftrightarrow> rw_consistent f_reads f_writes f_local (fstate (flk s)) (fpcs s)"

lemma fair_excl_step:
  assumes e: "fair_excl s" and x: "fair_exec e s = Some s'"
  shows "fair_excl s'"
proof (cases e)
  case (Invoke t i op)
  with x have m: "fair_may_call (fpcs s t) op"
    and s': "flk s' = flk s" "fpcs s' = (fpcs s)(t := fair_entry (now i) op)" by (auto split: if_splits)
  obtain r where r: "fpcs s t = FRet r" using m by (cases "fpcs s t") auto
  have "f_reads (fair_entry (now i) op) = f_reads (FRet r)"
    "f_writes (fair_entry (now i) op) = f_writes (FRet r)" "f_local (fair_entry (now i) op)"
    using m unfolding r by (cases op; cases r; simp)+
  then show ?thesis using s' r unfolding fair_excl_def
    by (intro fair_word.keep [OF e [unfolded fair_excl_def] _ s'(2)]) simp_all
next
  case (Go t i)
  with x obtain pc rw st where g: "fair_step i (fpcs s t) (flk s) (fstr s) = Some (pc, rw, st)"
    and s': "flk s' = rw" "fpcs s' = (fpcs s)(t := pc)" by (auto split: option.splits)
  have "f_local (fpcs s t)" by (rule fair_word.word_local [OF e [unfolded fair_excl_def]])
  from fair_step_effect [OF g this] show ?thesis unfolding fair_excl_def s'(1)
    by (rule fair_word.effect [OF e [unfolded fair_excl_def] s'(2)])
qed

lemma fair_excl_init: "fair_excl (fair_init t0)"
  by (auto simp: fair_excl_def fair_init_def NewFairRWLock_def intro: fair_word.initial)

interpretation fair_inv: invariant_machine fair_exec "fair_init t0" fair_excl
  by unfold_locales (auto intro: fair_excl_init fair_excl_step)

subsection \<open>Properties\<close>

lemmas fair_eval = fair_init_def NewFairRWLock_def newFairWaiterQueue_def fair_step_defs
  wakeNextWaiters_step_def wake_all_def isReader_def fisEmpty_def sizeValue_def newFairWaiter_def
  empty_fstore_def nil_fairWaiter_def signalStore_def signalSend_def storeCancelled_def
  fair_wait_def fair_waitContext_def inp0_def inpDone_def rwLockWriterBit_def rwLockMaxReaders_def

definition fair_barge_run :: "fop event list" where
  "fair_barge_run =
     Invoke 0 inp0 FOpLock # replicate 4 (Go 0 inp0) @
     Invoke 1 inp0 FOpLock # replicate 10 (Go 1 inp0) @
     Invoke 0 inp0 FOpUnlock # replicate 10 (Go 0 inp0) @
     Invoke 2 inp0 FOpLock # replicate 4 (Go 2 inp0)"

definition fair_lost_run :: "fop event list" where
  "fair_lost_run =
     Invoke 0 inp0 FOpLock # replicate 4 (Go 0 inp0) @
     Invoke 1 inp0 FOpLockContext # replicate 11 (Go 1 inp0) @
     Invoke 2 inp0 FOpLock # replicate 8 (Go 2 inp0) @
     Invoke 0 inp0 FOpUnlock # replicate 10 (Go 0 inp0) @
     [Go 1 inpDone, Go 1 inp0]"

text \<open>C9. The fair lock excludes readers and writers from each other in every reachable state: at
  most one writer, no reader beside it, the state word is exactly the number of readers or the
  writer bit, and the only panic a well-behaved caller can meet is the overflow of the reader
  count.\<close>

theorem fair_rwlock_exclusion:
  assumes "reachable fair_exec (fair_init t0) s"
  shows "(\<forall>t u. \<not> (f_writes (fpcs s t) \<and> f_writes (fpcs s u) \<and> t \<noteq> u)) \<and>
     (\<forall>t u. \<not> (f_writes (fpcs s t) \<and> f_reads (fpcs s u) = 1)) \<and>
     (if \<exists>t. f_writes (fpcs s t) then fstate (flk s) = rwLockWriterBit
      else sums_to (f_reads \<circ> fpcs s) (uint (fstate (flk s)))) \<and>
     (\<forall>t msg. \<not> (fpcs s t = FRet (FPanic msg) \<and> msg \<noteq> ''fairrwlock: too many readers''))"
proof -
  have "fair_excl s" by (rule fair_inv.reachable_inv [OF assms])
  then have e: "rw_consistent f_reads f_writes f_local (fstate (flk s)) (fpcs s)"
    by (simp add: fair_excl_def)
  have "\<not> (fpcs s t = FRet (FPanic msg) \<and> msg \<noteq> ''fairrwlock: too many readers'')" for t msg
    using fair_word.word_local [OF e, of t] by auto
  then show ?thesis using fair_word.exclusion [OF e] by blast
qed

theorem fair_rwlock_exclusion_witness:
  "\<exists>s. run fair_exec (Invoke 0 inp0 FOpLock # replicate 4 (Go 0 inp0)) (fair_init 0) = Some s \<and>
     fpcs s 0 = FRet FWrite \<and> \<not> f_writes (fpcs s 1)"
proof -
  obtain s where r: "run fair_exec (Invoke 0 inp0 FOpLock # replicate 4 (Go 0 inp0)) (fair_init 0) = Some s"
    and p: "fpcs s 0 = FRet FWrite" by (simp add: fair_eval)
  have "\<not> f_writes (fpcs s 1)"
    using fair_rwlock_exclusion [OF run_reachable [OF r]] p by (metis f_writes.simps(1) zero_neq_one)
  with r p show ?thesis by blast
qed

text \<open>The lock is not first-in first-out: goroutine 1 is the only one in the queue when goroutine
  0 unlocks and takes it out; goroutine 2, which calls \<^verbatim>\<open>Lock\<close> only afterwards, finds the queue
  empty and the lock free and takes it while goroutine 1 has not run yet.\<close>

lemma fair_rwlock_barging:
  "\<exists>s. run fair_exec fair_barge_run (fair_init 0) = Some s \<and> fpcs s 2 = FRet FWrite \<and>
     fpcs s 1 = FwPark FPlain 0 0 \<and> signaled (fobjs (fstr s) 0)"
  by (simp add: fair_barge_run_def fair_eval)

text \<open>A cancelled \<^verbatim>\<open>LockContext\<close> that has already been signalled keeps the wake-up: goroutine 2 stays
  parked, first in the queue, beside a free lock.\<close>

lemma fair_rwlock_cancelled_writer_strands:
  "\<exists>s. run fair_exec fair_lost_run (fair_init 0) = Some s \<and> fstate (flk s) = 0 \<and>
     fitems (fqueue (flk s)) = [1] \<and> fpcs s 2 = FwPark FPlain 0 1 \<and> fair_exec (Go 2 i) s = None \<and>
     (\<forall>t. t = 2 \<or> (\<exists>r. fpcs s t = FRet r))"
  by (simp add: fair_lost_run_def fair_eval)

end
