(* ===== verification/Semaphore.thy ===== *)
theory Semaphore
  imports Waking
begin

text \<open>
  \<^verbatim>\<open>internal/primitives/semaphore.go\<close>, action by action.

  The program counters carry the local variables: the kind \<open>k\<close> of the acquiring call, the
  number \<open>n\<close> of permits, \<open>b\<close> for \<^verbatim>\<open>startTime\<close>, \<open>w\<close> for the waiter and the count last loaded. The
  counts are 32-bit words and compared as signed numbers, so the sum \<^verbatim>\<open>count+n\<close> wraps as it does in
  Go. \<open>sacct\<close> is not part of the code: it is the number of permits a goroutine's completed calls
  have obtained less those they have given back.
\<close>

record Semaphore =
  capacity :: int32
  scount :: int32
  swaiters :: WaiterQueue
  acquires :: int64
  releases :: int64
  swaits :: int64
  timeouts :: int64
  stotalWaitTime :: int64
  screatedAt :: int

definition NewSemaphore :: "int \<Rightarrow> int32 \<Rightarrow> string + Semaphore" where
  "NewSemaphore t cap =
     (if sint cap \<le> 0 then Inl ''semaphore: capacity must be positive''
      else Inr \<lparr>capacity = cap, scount = cap, swaiters = NewWaiterQueue, acquires = 0, releases = 0,
                swaits = 0, timeouts = 0, stotalWaitTime = 0, screatedAt = t\<rparr>)"

text \<open>The acquiring calls: \<^verbatim>\<open>AcquireN\<close>, \<^verbatim>\<open>TryAcquireN\<close>, \<^verbatim>\<open>AcquireNTimeout\<close> with its deadline,
  \<^verbatim>\<open>AcquireNContext\<close>.\<close>

datatype akind = KPlain | KTry | KTimeout int | KCtx

datatype sret = SInit | SAcquired | SFalse | SReleased | SCtxErr
  | SOverRelease int32 int32 int32 | SPanic string

datatype spc =
    SRet sret
  | SLoad akind int32 int
  | SCas akind int32 int int32
  | SGate akind int32 int
  | STimeouts
  | SEnq akind int32 int epc
  | SWaits akind int32 int wid
  | SLoad2 akind int32 int wid
  | SCas2 akind int32 int wid int32
  | SCancel int32 wid
  | SPark akind int32 int wid
  | SGiveUp wid
  | SPut akind int32 int wid
  | STime akind int32 int
  | SAcqAdd int32
  | RLoad int32
  | RCas int32 int32
  | RRelAdd int32
  | RWake int32 int32 wpc

text \<open>Widening an \<^verbatim>\<open>int32\<close> to \<^verbatim>\<open>int64\<close>, as in \<^verbatim>\<open>s.acquires.Add(int64(n))\<close>.\<close>

definition int64 :: "int32 \<Rightarrow> int64" where
  "int64 n = scast n"

text \<open>One definition per acquiring method, one branch per atomic action of its loop.\<close>

definition AcquireN_step :: "inp \<Rightarrow> spc \<Rightarrow> Semaphore \<Rightarrow> wstore \<Rightarrow> (spc \<times> Semaphore \<times> wstore) option" where
  "AcquireN_step i pc s st = (case pc of
     SLoad KPlain n b \<Rightarrow>
       Some (if sint n \<le> sint (scount s) then SCas KPlain n b (scount s)
             else SEnq KPlain n b ENew, s, st)
   | SCas KPlain n b cnt \<Rightarrow>
       (if scount s = cnt then Some (SAcqAdd n, s\<lparr>scount := cnt - n\<rparr>, st)
        else Some (SLoad KPlain n b, s, st))
   | SEnq KPlain n b p \<Rightarrow>
       (case enter_step i p (swaiters s) st of
          (r, q, st') \<Rightarrow> Some (case r of Inl p' \<Rightarrow> SEnq KPlain n b p' | Inr w \<Rightarrow> SWaits KPlain n b w,
                             s\<lparr>swaiters := q\<rparr>, st'))
   | SWaits KPlain n b w \<Rightarrow> Some (SLoad2 KPlain n b w, s\<lparr>swaits := swaits s + 1\<rparr>, st)
   | SLoad2 KPlain n b w \<Rightarrow>
       Some (if sint n \<le> sint (scount s) then SCas2 KPlain n b w (scount s)
             else SPark KPlain n b w, s, st)
   | SCas2 KPlain n b w cur \<Rightarrow>
       (if scount s = cur then Some (SCancel n w, s\<lparr>scount := cur - n\<rparr>, st)
        else Some (SPark KPlain n b w, s, st))
   | SPark KPlain n b w \<Rightarrow>
       (case Wait w st of None \<Rightarrow> None | Some st' \<Rightarrow> Some (SPut KPlain n b w, s, st'))
   | SPut KPlain n b w \<Rightarrow> Some (STime KPlain n b, s, putWaiter (Some w) st)
   | STime KPlain n b \<Rightarrow>
       Some (SLoad KPlain n b, s\<lparr>stotalWaitTime := stotalWaitTime s + elapsed i b\<rparr>, st)
   | SCancel n w \<Rightarrow> Some (SAcqAdd n, s, setCancelled w st)
   | SAcqAdd n \<Rightarrow> Some (SRet SAcquired, s\<lparr>acquires := acquires s + int64 n\<rparr>, st)
   | _ \<Rightarrow> None)"

definition TryAcquireN_step :: "spc \<Rightarrow> Semaphore \<Rightarrow> (spc \<times> Semaphore) option" where
  "TryAcquireN_step pc s = (case pc of
     SLoad KTry n b \<Rightarrow>
       Some (if sint (scount s) < sint n then SRet SFalse else SCas KTry n b (scount s), s)
   | SCas KTry n b cnt \<Rightarrow>
       (if scount s = cnt then Some (SAcqAdd n, s\<lparr>scount := cnt - n\<rparr>)
        else Some (SLoad KTry n b, s))
   | SAcqAdd n \<Rightarrow> Some (SRet SAcquired, s\<lparr>acquires := acquires s + int64 n\<rparr>)
   | _ \<Rightarrow> None)"

definition AcquireNTimeout_step :: "inp \<Rightarrow> spc \<Rightarrow> Semaphore \<Rightarrow> wstore \<Rightarrow> (spc \<times> Semaphore \<times> wstore) option" where
  "AcquireNTimeout_step i pc s st = (case pc of
     SLoad (KTimeout d) n b \<Rightarrow>
       Some (if sint n \<le> sint (scount s) then SCas (KTimeout d) n b (scount s)
             else SGate (KTimeout d) n b, s, st)
   | SCas (KTimeout d) n b cnt \<Rightarrow>
       (if scount s = cnt then Some (SAcqAdd n, s\<lparr>scount := cnt - n\<rparr>, st)
        else Some (SLoad (KTimeout d) n b, s, st))
   | SGate (KTimeout d) n b \<Rightarrow>
       Some (if d < now i then STimeouts else SEnq (KTimeout d) n b ENew, s, st)
   | SEnq (KTimeout d) n b p \<Rightarrow>
       (case enter_step i p (swaiters s) st of
          (r, q, st') \<Rightarrow> Some (case r of Inl p' \<Rightarrow> SEnq (KTimeout d) n b p' | Inr w \<Rightarrow> SWaits (KTimeout d) n b w,
                             s\<lparr>swaiters := q\<rparr>, st'))
   | SWaits (KTimeout d) n b w \<Rightarrow> Some (SLoad2 (KTimeout d) n b w, s\<lparr>swaits := swaits s + 1\<rparr>, st)
   | SLoad2 (KTimeout d) n b w \<Rightarrow>
       Some (if sint n \<le> sint (scount s) then SCas2 (KTimeout d) n b w (scount s)
             else SPark (KTimeout d) n b w, s, st)
   | SCas2 (KTimeout d) n b w cur \<Rightarrow>
       (if scount s = cur then Some (SCancel n w, s\<lparr>scount := cur - n\<rparr>, st)
        else Some (SPark (KTimeout d) n b w, s, st))
   | SPark (KTimeout d) n b w \<Rightarrow>
       (case WaitTimeout i w st of
          None \<Rightarrow> None
        | Some (r, st') \<Rightarrow> Some (if r then SPut (KTimeout d) n b w else SGiveUp w, s, st'))
   | SGiveUp w \<Rightarrow> Some (STimeouts, s, setCancelled w st)
   | STimeouts \<Rightarrow> Some (SRet SFalse, s\<lparr>timeouts := timeouts s + 1\<rparr>, st)
   | SPut (KTimeout d) n b w \<Rightarrow> Some (STime (KTimeout d) n b, s, putWaiter (Some w) st)
   | STime (KTimeout d) n b \<Rightarrow>
       Some (SLoad (KTimeout d) n b, s\<lparr>stotalWaitTime := stotalWaitTime s + elapsed i b\<rparr>, st)
   | SCancel n w \<Rightarrow> Some (SAcqAdd n, s, setCancelled w st)
   | SAcqAdd n \<Rightarrow> Some (SRet SAcquired, s\<lparr>acquires := acquires s + int64 n\<rparr>, st)
   | _ \<Rightarrow> None)"

definition AcquireNContext_step :: "inp \<Rightarrow> spc \<Rightarrow> Semaphore \<Rightarrow> wstore \<Rightarrow> (spc \<times> Semaphore \<times> wstore) option" where
  "AcquireNContext_step i pc s st = (case pc of
     SLoad KCtx n b \<Rightarrow>
       Some (if sint n \<le> sint (scount s) then SCas KCtx n b (scount s)
             else SGate KCtx n b, s, st)
   | SCas KCtx n b cnt \<Rightarrow>
       (if scount s = cnt then Some (SAcqAdd n, s\<lparr>scount := cnt - n\<rparr>, st)
        else Some (SLoad KCtx n b, s, st))
   | SGate KCtx n b \<Rightarrow> Some (if ctxArm i then SRet SCtxErr else SEnq KCtx n b ENew, s, st)
   | SEnq KCtx n b p \<Rightarrow>
       (case enter_step i p (swaiters s) st of
          (r, q, st') \<Rightarrow> Some (case r of Inl p' \<Rightarrow> SEnq KCtx n b p' | Inr w \<Rightarrow> SWaits KCtx n b w,
                             s\<lparr>swaiters := q\<rparr>, st'))
   | SWaits KCtx n b w \<Rightarrow> Some (SLoad2 KCtx n b w, s\<lparr>swaits := swaits s + 1\<rparr>, st)
   | SLoad2 KCtx n b w \<Rightarrow>
       Some (if sint n \<le> sint (scount s) then SCas2 KCtx n b w (scount s)
             else SPark KCtx n b w, s, st)
   | SCas2 KCtx n b w cur \<Rightarrow>
       (if scount s = cur then Some (SCancel n w, s\<lparr>scount := cur - n\<rparr>, st)
        else Some (SPark KCtx n b w, s, st))
   | SPark KCtx n b w \<Rightarrow>
       (case WaitContext i w st of
          None \<Rightarrow> None
        | Some (r, st') \<Rightarrow> Some (if r then SPut KCtx n b w else SRet SCtxErr, s, st'))
   | SPut KCtx n b w \<Rightarrow> Some (STime KCtx n b, s, putWaiter (Some w) st)
   | STime KCtx n b \<Rightarrow>
       Some (SLoad KCtx n b, s\<lparr>stotalWaitTime := stotalWaitTime s + elapsed i b\<rparr>, st)
   | SCancel n w \<Rightarrow> Some (SAcqAdd n, s, setCancelled w st)
   | SAcqAdd n \<Rightarrow> Some (SRet SAcquired, s\<lparr>acquires := acquires s + int64 n\<rparr>, st)
   | _ \<Rightarrow> None)"

text \<open>The head of the loop \<^verbatim>\<open>for i := int32(0); i < n; i++ { s.wakeOne() }\<close>.\<close>

definition release_loop :: "int32 \<Rightarrow> int32 \<Rightarrow> spc" where
  "release_loop n j = (if sint j < sint n then RWake n j WPop else SRet SReleased)"

definition ReleaseN_step :: "spc \<Rightarrow> Semaphore \<Rightarrow> wstore \<Rightarrow> (spc \<times> Semaphore \<times> wstore) option" where
  "ReleaseN_step pc s st = (case pc of
     RLoad n \<Rightarrow>
       Some (if sint (capacity s) < sint (scount s + n)
             then SRet (SOverRelease (scount s) n (capacity s)) else RCas n (scount s), s, st)
   | RCas n cnt \<Rightarrow>
       (if scount s = cnt then Some (RRelAdd n, s\<lparr>scount := cnt + n\<rparr>, st)
        else Some (RLoad n, s, st))
   | RRelAdd n \<Rightarrow> Some (release_loop n 0, s\<lparr>releases := releases s + int64 n\<rparr>, st)
   | RWake n j p \<Rightarrow>
       (case wake_step p (swaiters s) st of
          (r, q, st') \<Rightarrow> Some (case r of WMore p' \<Rightarrow> RWake n j p' | _ \<Rightarrow> release_loop n (j + 1),
                             s\<lparr>swaiters := q\<rparr>, st'))
   | _ \<Rightarrow> None)"

definition sem_step :: "inp \<Rightarrow> spc \<Rightarrow> Semaphore \<Rightarrow> wstore \<Rightarrow> (spc \<times> Semaphore \<times> wstore) option" where
  "sem_step i pc s st =
     orelse (AcquireN_step i pc s st)
    (orelse (map_option (\<lambda>(pc', s'). (pc', s', st)) (TryAcquireN_step pc s))
    (orelse (AcquireNTimeout_step i pc s st)
    (orelse (AcquireNContext_step i pc s st) (ReleaseN_step pc s st))))"

datatype sop = OpAcquireN int32 | OpTryAcquireN int32 | OpAcquireNTimeout int32 int
  | OpAcquireNContext int32 | OpReleaseN int32

definition OpAcquire :: sop where "OpAcquire = OpAcquireN 1"
definition OpTryAcquire :: sop where "OpTryAcquire = OpTryAcquireN 1"
definition OpAcquireTimeout :: "int \<Rightarrow> sop" where "OpAcquireTimeout d = OpAcquireNTimeout 1 d"
definition OpAcquireContext :: sop where "OpAcquireContext = OpAcquireNContext 1"
definition OpRelease :: sop where "OpRelease = OpReleaseN 1"

text \<open>The argument checks at the head of the calls; the loops start at \<open>SLoad\<close>, \<^verbatim>\<open>ReleaseN\<close>'s at
  \<open>RLoad\<close>.\<close>

fun sem_entry :: "int32 \<Rightarrow> int \<Rightarrow> sop \<Rightarrow> spc" where
  "sem_entry cap t (OpAcquireN n) =
     (if sint n \<le> 0 then SRet (SPanic ''semaphore: n must be positive'')
      else if sint cap < sint n then SRet (SPanic ''semaphore: n exceeds capacity'')
      else SLoad KPlain n t)"
| "sem_entry cap t (OpTryAcquireN n) =
     (if sint n \<le> 0 then SRet (SPanic ''semaphore: n must be positive'')
      else if sint cap < sint n then SRet SFalse
      else SLoad KTry n t)"
| "sem_entry cap t (OpAcquireNTimeout n d) =
     (if sint n \<le> 0 then SRet (SPanic ''semaphore: n must be positive'')
      else if sint cap < sint n then SRet SFalse
      else SLoad (KTimeout (t + d)) n t)"
| "sem_entry cap t (OpAcquireNContext n) =
     (if sint n \<le> 0 then SRet (SPanic ''semaphore: n must be positive'')
      else if sint cap < sint n then SRet (SPanic ''semaphore: n exceeds capacity'')
      else SLoad KCtx n t)"
| "sem_entry cap t (OpReleaseN n) =
     (if sint n \<le> 0 then SRet (SPanic ''semaphore: n must be positive'') else RLoad n)"

record ssys =
  sem :: Semaphore
  sst :: wstore
  spcs :: "tid \<Rightarrow> spc"
  sacct :: "tid \<Rightarrow> int"

fun idle :: "spc \<Rightarrow> bool" where
  "idle (SRet (SPanic msg)) = False"
| "idle (SRet r) = True"
| "idle _ = False"

text \<open>What a completed atomic action adds to the goroutine's account: the code counts the same
  amounts in \<^verbatim>\<open>acquires\<close> and \<^verbatim>\<open>releases\<close>, at the same places.\<close>

fun settled :: "spc \<Rightarrow> int" where
  "settled (SAcqAdd n) = sint n"
| "settled (RRelAdd n) = - sint n"
| "settled _ = 0"

fun sem_exec :: "sop event \<Rightarrow> ssys \<Rightarrow> ssys option" where
  "sem_exec (Invoke t i op) s =
     (if idle (spcs s t)
      then Some (s\<lparr>spcs := (spcs s)(t := sem_entry (capacity (sem s)) (now i) op)\<rparr>) else None)"
| "sem_exec (Go t i) s =
     (case sem_step i (spcs s t) (sem s) (sst s) of
        None \<Rightarrow> None
      | Some (pc, m, st) \<Rightarrow> Some \<lparr>sem = m, sst = st, spcs = (spcs s)(t := pc),
                                 sacct = (sacct s)(t := sacct s t + settled (spcs s t))\<rparr>)"

definition sem_init :: "Semaphore \<Rightarrow> ssys" where
  "sem_init m = \<lparr>sem = m, sst = empty_store, spcs = (\<lambda>_. SRet SInit), sacct = (\<lambda>_. 0)\<rparr>"

definition GetCount :: "Semaphore \<Rightarrow> int32" where
  "GetCount s = scount s"

definition GetCapacity :: "Semaphore \<Rightarrow> int32" where
  "GetCapacity s = capacity s"

record SemaphoreStats =
  ss_Capacity :: int32
  ss_CurrentCount :: int32
  ss_Acquires :: int64
  ss_Releases :: int64
  ss_Waits :: int64
  ss_Timeouts :: int64
  ss_TotalWaitTimeNs :: int64
  ss_WaitersQueued :: int64
  ss_Age :: int

definition Semaphore_GetStats :: "int \<Rightarrow> Semaphore \<Rightarrow> SemaphoreStats" where
  "Semaphore_GetStats t s = \<lparr>ss_Capacity = capacity s, ss_CurrentCount = scount s,
     ss_Acquires = acquires s, ss_Releases = releases s, ss_Waits = swaits s,
     ss_Timeouts = timeouts s, ss_TotalWaitTimeNs = stotalWaitTime s,
     ss_WaitersQueued = Size (swaiters s), ss_Age = t - screatedAt s\<rparr>"

subsection \<open>The step relation\<close>

inductive sem_trans :: "inp \<Rightarrow> spc \<Rightarrow> Semaphore \<Rightarrow> wstore \<Rightarrow> spc \<Rightarrow> Semaphore \<Rightarrow> wstore \<Rightarrow> bool" where
  sx_load: "sint n \<le> sint (scount s) \<Longrightarrow>
    sem_trans i (SLoad k n b) s st (SCas k n b (scount s)) s st"
| sx_low: "sint (scount s) < sint n \<Longrightarrow>
    sem_trans i (SLoad KPlain n b) s st (SEnq KPlain n b ENew) s st"
| sx_low_try: "sint (scount s) < sint n \<Longrightarrow> sem_trans i (SLoad KTry n b) s st (SRet SFalse) s st"
| sx_low_gate: "sint (scount s) < sint n \<Longrightarrow> k = KCtx \<or> k = KTimeout d \<Longrightarrow>
    sem_trans i (SLoad k n b) s st (SGate k n b) s st"
| sx_cas: "scount s = cnt \<Longrightarrow>
    sem_trans i (SCas k n b cnt) s st (SAcqAdd n) (s\<lparr>scount := cnt - n\<rparr>) st"
| sx_cas_lost: "scount s \<noteq> cnt \<Longrightarrow> sem_trans i (SCas k n b cnt) s st (SLoad k n b) s st"
| sx_late: "d < now i \<Longrightarrow> sem_trans i (SGate (KTimeout d) n b) s st STimeouts s st"
| sx_done: "ctxArm i \<Longrightarrow> sem_trans i (SGate KCtx n b) s st (SRet SCtxErr) s st"
| sx_gate: "k = KTimeout d \<and> now i \<le> d \<or> k = KCtx \<and> \<not> ctxArm i \<Longrightarrow>
    sem_trans i (SGate k n b) s st (SEnq k n b ENew) s st"
| sx_enq: "k \<noteq> KTry \<Longrightarrow> enter_step i p (swaiters s) st = (Inl p', q, st') \<Longrightarrow>
    sem_trans i (SEnq k n b p) s st (SEnq k n b p') (s\<lparr>swaiters := q\<rparr>) st'"
| sx_enqd: "k \<noteq> KTry \<Longrightarrow> enter_step i p (swaiters s) st = (Inr w, q, st') \<Longrightarrow>
    sem_trans i (SEnq k n b p) s st (SWaits k n b w) (s\<lparr>swaiters := q\<rparr>) st'"
| sx_waits: "k \<noteq> KTry \<Longrightarrow> sem_trans i (SWaits k n b w) s st (SLoad2 k n b w) (s\<lparr>swaits := swaits s + 1\<rparr>) st"
| sx_load2: "k \<noteq> KTry \<Longrightarrow> sint n \<le> sint (scount s) \<Longrightarrow>
    sem_trans i (SLoad2 k n b w) s st (SCas2 k n b w (scount s)) s st"
| sx_park: "k \<noteq> KTry \<Longrightarrow> sint (scount s) < sint n \<Longrightarrow>
    sem_trans i (SLoad2 k n b w) s st (SPark k n b w) s st"
| sx_cas2: "k \<noteq> KTry \<Longrightarrow> scount s = cur \<Longrightarrow>
    sem_trans i (SCas2 k n b w cur) s st (SCancel n w) (s\<lparr>scount := cur - n\<rparr>) st"
| sx_cas2_lost: "k \<noteq> KTry \<Longrightarrow> scount s \<noteq> cur \<Longrightarrow> sem_trans i (SCas2 k n b w cur) s st (SPark k n b w) s st"
| sx_cancel: "sem_trans i (SCancel n w) s st (SAcqAdd n) s (setCancelled w st)"
| sx_wake: "Ready (objs st w) \<Longrightarrow> k \<noteq> KTry \<Longrightarrow> k = KPlain \<or> \<not> ctxArm i \<Longrightarrow>
    sem_trans i (SPark k n b w) s st (SPut k n b w) s (recvReady w st)"
| sx_timeout: "ctxArm i \<Longrightarrow>
    sem_trans i (SPark (KTimeout d) n b w) s st (SGiveUp w) s st"
| sx_ctx: "ctxArm i \<Longrightarrow>
    sem_trans i (SPark KCtx n b w) s st (SRet SCtxErr) s (setCancelled w st)"
| sx_give_up: "sem_trans i (SGiveUp w) s st STimeouts s (setCancelled w st)"
| sx_timeouts: "sem_trans i STimeouts s st (SRet SFalse) (s\<lparr>timeouts := timeouts s + 1\<rparr>) st"
| sx_put: "k \<noteq> KTry \<Longrightarrow> sem_trans i (SPut k n b w) s st (STime k n b) s (putWaiter (Some w) st)"
| sx_time: "k \<noteq> KTry \<Longrightarrow> sem_trans i (STime k n b) s st (SLoad k n b)
    (s\<lparr>stotalWaitTime := stotalWaitTime s + elapsed i b\<rparr>) st"
| sx_acquired: "sem_trans i (SAcqAdd n) s st (SRet SAcquired) (s\<lparr>acquires := acquires s + int64 n\<rparr>) st"
| sx_over: "sint (capacity s) < sint (scount s + n) \<Longrightarrow>
    sem_trans i (RLoad n) s st (SRet (SOverRelease (scount s) n (capacity s))) s st"
| sx_rload: "sint (scount s + n) \<le> sint (capacity s) \<Longrightarrow>
    sem_trans i (RLoad n) s st (RCas n (scount s)) s st"
| sx_rcas: "scount s = cnt \<Longrightarrow>
    sem_trans i (RCas n cnt) s st (RRelAdd n) (s\<lparr>scount := cnt + n\<rparr>) st"
| sx_rcas_lost: "scount s \<noteq> cnt \<Longrightarrow> sem_trans i (RCas n cnt) s st (RLoad n) s st"
| sx_released: "sem_trans i (RRelAdd n) s st (release_loop n 0) (s\<lparr>releases := releases s + int64 n\<rparr>) st"
| sx_waking: "wake_step p (swaiters s) st = (WMore p', q, st') \<Longrightarrow>
    sem_trans i (RWake n j p) s st (RWake n j p') (s\<lparr>swaiters := q\<rparr>) st'"
| sx_woken: "wake_step p (swaiters s) st = (r, q, st') \<Longrightarrow> r = WNone \<or> r = WOne \<Longrightarrow>
    sem_trans i (RWake n j p) s st (release_loop n (j + 1)) (s\<lparr>swaiters := q\<rparr>) st'"

lemmas sem_step_defs = sem_step_def AcquireN_step_def TryAcquireN_step_def AcquireNTimeout_step_def
  AcquireNContext_step_def ReleaseN_step_def WaitContext_def WaitTimeout_def Wait_def orelse_simps

lemma sem_step_trans:
  "sem_step i pc s st = Some (pc', s', st') \<Longrightarrow> sem_trans i pc s st pc' s' st'"
  by (cases pc)
     (auto simp: sem_step_defs not_le intro: sem_trans.intros
       split: if_splits prod.splits option.splits sum.splits akind.splits wres.splits)

lemma sem_trans_step:
  "sem_trans i pc s st pc' s' st' \<Longrightarrow> sem_step i pc s st = Some (pc', s', st')"
  by (induction rule: sem_trans.induct)
     (auto simp: sem_step_defs split: akind.splits)

lemma sem_exec_cases [consumes 1, case_names call go]:
  assumes "sem_exec e s = Some s'"
  obtains (call) t i op r where "e = Invoke t i op" "spcs s t = SRet r" "idle (SRet r)"
      "sem s' = sem s" "sst s' = sst s" "sacct s' = sacct s"
      "spcs s' = (spcs s)(t := sem_entry (capacity (sem s)) (now i) op)"
  | (go) t i pc where "e = Go t i" "sem_trans i (spcs s t) (sem s) (sst s) pc (sem s') (sst s')"
      "spcs s' = (spcs s)(t := pc)" "sacct s' = (sacct s)(t := sacct s t + settled (spcs s t))"
proof (cases e)
  case (Invoke t i op)
  with assms have m: "idle (spcs s t)"
    and s': "s' = s\<lparr>spcs := (spcs s)(t := sem_entry (capacity (sem s)) (now i) op)\<rparr>"
    by (auto split: if_splits)
  from m obtain r where "spcs s t = SRet r" by (cases "spcs s t") auto
  with Invoke m s' show ?thesis by (intro call) auto
next
  case (Go t i)
  with assms show ?thesis by (auto split: option.splits dest!: sem_step_trans intro: go)
qed

subsection \<open>The waiter discipline\<close>

fun s_own :: "spc \<Rightarrow> (wid \<times> ophase) option" where
  "s_own (SEnq k n b p) = e_own p"
| "s_own (SWaits k n b w) = Some (w, Queued)"
| "s_own (SLoad2 k n b w) = Some (w, Queued)"
| "s_own (SCas2 k n b w cur) = Some (w, Queued)"
| "s_own (SCancel n w) = Some (w, Queued)"
| "s_own (SPark k n b w) = Some (w, Queued)"
| "s_own (SGiveUp w) = Some (w, Queued)"
| "s_own (SPut k n b w) = Some (w, Woken)"
| "s_own _ = None"

fun s_hold :: "spc \<Rightarrow> (wid \<times> hphase) option" where
  "s_hold (RWake n j p) = w_hold p"
| "s_hold _ = None"

definition sabs :: "ssys \<Rightarrow> pstate" where
  "sabs s = \<lparr>own = s_own \<circ> spcs s, hold = s_hold \<circ> spcs s,
             queues = queues1 (items (swaiters (sem s))), store = sst s\<rparr>"

lemma sabs_simps [simp]:
  "own (sabs s) t = s_own (spcs s t)" "hold (sabs s) t = s_hold (spcs s t)"
  "queues (sabs s) = queues1 (items (swaiters (sem s)))" "store (sabs s) = sst s"
  by (simp_all add: sabs_def)

lemma sabs_own: "own (sabs s) = s_own \<circ> spcs s" and sabs_hold: "hold (sabs s) = s_hold \<circ> spcs s"
  by (simp_all add: sabs_def)

lemmas sabs_upd = sabs_own sabs_hold fun_upd_comp

lemma sem_roles [simp]:
  "s_own (release_loop n j) = None" "s_hold (release_loop n j) = None"
  by (simp_all add: release_loop_def)

lemma sem_entry_roles [simp]:
  "s_own (sem_entry c t op) = None" "s_hold (sem_entry c t op) = None"
  by (cases op; simp)+

lemma sem_trans_discipline:
  assumes "sem_trans i (spcs s t) (sem s) (sst s) pc (sem s') (sst s')"
    "spcs s' = (spcs s)(t := pc)"
  shows "sabs s' = sabs s \<or> pstep (sabs s) (sabs s')"
  using assms(1)
proof (cases rule: sem_trans.cases)
  case (sx_enq k p p' q n b)
  show ?thesis
    by (rule enter_step_discipline [of i p "swaiters (sem s)" _ "Inl p'" q _ t 0])
       (use sx_enq assms(2) in \<open>auto simp: sabs_upd\<close>)
next
  case (sx_enqd k p w q n b)
  show ?thesis
    by (rule enter_step_discipline [of i p "swaiters (sem s)" _ "Inr w" q _ t 0])
       (use sx_enqd assms(2) in \<open>auto simp: sabs_upd\<close>)
next
  case (sx_waking p p' q n j)
  show ?thesis
    by (rule wake_step_discipline [of p "swaiters (sem s)" _ "WMore p'" q _ t 0])
       (use sx_waking assms(2) in \<open>auto simp: sabs_upd\<close>)
next
  case (sx_woken p r q n j)
  show ?thesis
    by (rule wake_step_discipline [of p "swaiters (sem s)" _ r q _ t 0])
       (use sx_woken assms(2) in \<open>auto simp: sabs_upd\<close>)
next
  case (sx_cancel n w)
  show ?thesis by (rule disjI2, rule pstep_cancelI [of _ t w]) (use sx_cancel assms(2) in \<open>auto simp: sabs_upd\<close>)
next
  case (sx_ctx n b w)
  show ?thesis by (rule disjI2, rule pstep_cancelI [of _ t w]) (use sx_ctx assms(2) in \<open>auto simp: sabs_upd\<close>)
next
  case (sx_give_up w)
  show ?thesis by (rule disjI2, rule pstep_cancelI [of _ t w]) (use sx_give_up assms(2) in \<open>auto simp: sabs_upd\<close>)
next
  case (sx_wake w k n b)
  show ?thesis by (rule disjI2, rule pstep_recvI [of _ t w]) (use sx_wake assms(2) in \<open>auto simp: sabs_upd\<close>)
next
  case (sx_put k n b w)
  show ?thesis by (rule disjI2, rule pstep_putI [of _ t w]) (use sx_put assms(2) in \<open>auto simp: sabs_upd\<close>)
qed (auto intro!: pstate_eqI simp: sabs_upd assms(2) fun_upd_idem_iff)

lemma sem_discipline_step:
  assumes "sem_exec e s = Some s'"
  shows "sabs s' = sabs s \<or> pstep (sabs s) (sabs s')"
  using assms
proof (cases rule: sem_exec_cases)
  case (call t i op r)
  then have "sabs s' = sabs s" by (auto intro!: pstate_eqI simp: sabs_upd fun_upd_idem_iff)
  then show ?thesis ..
next
  case (go t i pc)
  then show ?thesis by (intro sem_trans_discipline) auto
qed

definition fresh_semaphore :: "Semaphore \<Rightarrow> bool" where
  "fresh_semaphore m \<longleftrightarrow> (\<exists>t cap. NewSemaphore t cap = Inr m)"

lemma fresh_semaphoreD:
  assumes "fresh_semaphore m"
  shows "0 < sint (capacity m)" "scount m = capacity m" "swaiters m = NewWaiterQueue"
    "acquires m = 0" "releases m = 0"
  using assms by (auto simp: fresh_semaphore_def NewSemaphore_def split: if_splits)

lemma sabs_init: "fresh_semaphore m \<Longrightarrow> sabs (sem_init m) = pinit"
  by (auto intro!: pstate_eqI
      simp: fresh_semaphoreD sabs_def sem_init_def pinit_def NewWaiterQueue_def queues1_def)

subsection \<open>Permits\<close>

text \<open>A goroutine has been granted permits by the compare-and-swap before its call returns, and
  has given permits back by the one in \<^verbatim>\<open>ReleaseN\<close> before its account is settled. \<open>permits\<close> counts
  what it holds at this very moment.\<close>

fun pending :: "spc \<Rightarrow> int" where
  "pending (SCancel n w) = sint n"
| "pending (SAcqAdd n) = sint n"
| "pending (RRelAdd n) = - sint n"
| "pending _ = 0"

definition permits :: "ssys \<Rightarrow> tid \<Rightarrow> int" where
  "permits s t = sacct s t + pending (spcs s t)"

text \<open>Callers that give back only permits they hold.\<close>

fun sem_owned :: "sop event \<Rightarrow> ssys \<Rightarrow> ssys option" where
  "sem_owned (Invoke t i (OpReleaseN n)) s =
     (if sint n \<le> sacct s t then sem_exec (Invoke t i (OpReleaseN n)) s else None)"
| "sem_owned e s = sem_exec e s"

text \<open>What is known of a program counter when \<open>acct\<close> is the goroutine's account.\<close>

fun spc_ok :: "int32 \<Rightarrow> int \<Rightarrow> spc \<Rightarrow> bool" where
  "spc_ok cap acct (SRet r) = (\<forall>c n d. r \<noteq> SOverRelease c n d)"
| "spc_ok cap acct (SLoad k n b) = (0 < sint n \<and> sint n \<le> sint cap)"
| "spc_ok cap acct (SCas k n b cnt) = (0 < sint n \<and> sint n \<le> sint cap \<and> sint n \<le> sint cnt)"
| "spc_ok cap acct (SGate k n b) = (0 < sint n \<and> sint n \<le> sint cap)"
| "spc_ok cap acct (SEnq k n b p) = (0 < sint n \<and> sint n \<le> sint cap)"
| "spc_ok cap acct (SWaits k n b w) = (0 < sint n \<and> sint n \<le> sint cap)"
| "spc_ok cap acct (SLoad2 k n b w) = (0 < sint n \<and> sint n \<le> sint cap)"
| "spc_ok cap acct (SCas2 k n b w cur) = (0 < sint n \<and> sint n \<le> sint cap \<and> sint n \<le> sint cur)"
| "spc_ok cap acct (SCancel n w) = (0 < sint n)"
| "spc_ok cap acct (SPark k n b w) = (0 < sint n \<and> sint n \<le> sint cap)"
| "spc_ok cap acct (SPut k n b w) = (0 < sint n \<and> sint n \<le> sint cap)"
| "spc_ok cap acct (STime k n b) = (0 < sint n \<and> sint n \<le> sint cap)"
| "spc_ok cap acct (SAcqAdd n) = (0 < sint n)"
| "spc_ok cap acct (RLoad n) = (0 < sint n \<and> sint n \<le> acct)"
| "spc_ok cap acct (RCas n cnt) = (0 < sint n \<and> sint n \<le> acct)"
| "spc_ok cap acct (RRelAdd n) = (0 < sint n \<and> sint n \<le> acct)"
| "spc_ok cap acct _ = True"

definition sem_inv :: "Semaphore \<Rightarrow> ssys \<Rightarrow> bool" where
  "sem_inv m0 s \<longleftrightarrow> capacity (sem s) = capacity m0 \<and> 0 \<le> sint (scount (sem s)) \<and>
     sums_to (permits s) (sint (capacity m0) - sint (scount (sem s))) \<and>
     (\<forall>t. 0 \<le> sacct s t \<and> spc_ok (capacity m0) (sacct s t) (spcs s t))"

lemma spc_ok_simps [simp]:
  "spc_ok cap acct (release_loop n j)" "pending (release_loop n j) = 0"
  by (simp_all add: release_loop_def)

lemma pending_entry [simp]: "pending (sem_entry c t op) = 0"
  by (cases op) auto

lemma spc_ok_entry:
  "(\<And>n. op = OpReleaseN n \<Longrightarrow> sint n \<le> acct) \<Longrightarrow> spc_ok cap acct (sem_entry cap t op)"
  by (cases op) auto

lemma permits_nonneg:
  assumes "0 \<le> sacct s t" "spc_ok cap (sacct s t) (spcs s t)"
  shows "0 \<le> permits s t"
  using assms by (cases "spcs s t") (auto simp: permits_def)

text \<open>A step that leaves the count alone, and one that takes or gives back permits.\<close>

lemma sem_inv_move:
  assumes inv: "sem_inv m0 s" and c: "capacity (sem s') = capacity (sem s)"
    and n: "0 \<le> sint (scount (sem s'))"
    and p: "spcs s' = (spcs s)(t := pc)" and a: "sacct s' = (sacct s)(t := acct)"
    and ok: "0 \<le> acct" "spc_ok (capacity m0) acct pc"
    and d: "acct + pending pc = permits s t + sint (scount (sem s)) - sint (scount (sem s'))"
  shows "sem_inv m0 s'"
proof -
  have "permits s' = (permits s)(t := acct + pending pc)"
    by (rule ext) (simp add: permits_def p a)
  moreover have "sums_to (permits s) (sint (capacity m0) - sint (scount (sem s)))"
    using inv by (simp add: sem_inv_def)
  ultimately have "sums_to (permits s') (sint (capacity m0) - sint (scount (sem s')))"
    using sums_to_upd [of "permits s"] d by fastforce
  then show ?thesis using inv c n p a ok by (auto simp: sem_inv_def)
qed

lemma sem_inv_room:
  assumes inv: "sem_inv m0 s" and n: "0 < sint n" "sint n \<le> sacct s t" "pending (spcs s t) = 0"
  shows "sint (scount (sem s) + n) = sint (scount (sem s)) + sint n"
    "sint (scount (sem s)) + sint n \<le> sint (capacity m0)"
proof -
  have "0 \<le> permits s u" for u
    using inv by (auto simp: sem_inv_def intro!: permits_nonneg)
  then have "permits s t \<le> sint (capacity m0) - sint (scount (sem s))"
    using inv by (auto simp: sem_inv_def intro: sums_to_elem)
  then show le: "sint (scount (sem s)) + sint n \<le> sint (capacity m0)"
    using n by (simp add: permits_def)
  have "0 \<le> sint (scount (sem s))" using inv by (simp add: sem_inv_def)
  then show "sint (scount (sem s) + n) = sint (scount (sem s)) + sint n"
    using le n(1) sint32_range(2) [of "capacity m0"] by (intro sint32_add) auto
qed

lemma sem_take:
  "0 < sint n \<Longrightarrow> sint n \<le> sint cnt \<Longrightarrow> sint (cnt - n :: int32) = sint cnt - sint n"
  using sint32_range(2) [of cnt] by (intro sint32_sub) auto

lemma sem_inv_trans:
  assumes inv: "sem_inv m0 s" and t: "sem_trans i (spcs s t) (sem s) (sst s) pc (sem s') (sst s')"
    and p: "spcs s' = (spcs s)(t := pc)"
    and a: "sacct s' = (sacct s)(t := sacct s t + settled (spcs s t))"
  shows "sem_inv m0 s'"
proof -
  have ok: "spc_ok (capacity m0) (sacct s t) (spcs s t)" and a0: "0 \<le> sacct s t"
    and c0: "0 \<le> sint (scount (sem s))" and cap: "capacity (sem s) = capacity m0"
    using inv by (auto simp: sem_inv_def)
  note move = sem_inv_move [OF inv _ _ p a]
  from t show ?thesis
  proof (cases rule: sem_trans.cases)
    case (sx_cas cnt k n b)
    then have "0 < sint n" "sint n \<le> sint cnt" using ok by auto
    then show ?thesis using sx_cas sem_take [of n cnt] a0 by (intro move) (auto simp: permits_def)
  next
    case (sx_cas2 k cur n b w)
    then have "0 < sint n" "sint n \<le> sint cur" using ok by auto
    then show ?thesis using sx_cas2 sem_take [of n cur] a0 by (intro move) (auto simp: permits_def)
  next
    case (sx_rcas cnt n)
    then have "0 < sint n" "sint n \<le> sacct s t" "pending (spcs s t) = 0" using ok by auto
    then show ?thesis
      using sx_rcas sem_inv_room [OF inv] a0 c0 by (intro move) (auto simp: permits_def)
  next
    case (sx_over n)
    then have "0 < sint n" "sint n \<le> sacct s t" "pending (spcs s t) = 0" using ok by auto
    then show ?thesis using sem_inv_room [OF inv] sx_over cap by fastforce
  qed (use ok a0 c0 cap in \<open>auto intro!: move simp: permits_def\<close>)
qed

lemma sem_owned_exec: "sem_owned e s = Some s' \<Longrightarrow> sem_exec e s = Some s'"
  by (cases "(e, s)" rule: sem_owned.cases) (auto split: if_splits)

lemma sem_owned_release:
  "sem_owned (Invoke t i (OpReleaseN n)) s = Some s' \<Longrightarrow> sint n \<le> sacct s t"
  by (auto split: if_splits)

lemma sem_inv_step:
  assumes inv: "sem_inv m0 s" and x: "sem_owned e s = Some s'"
  shows "sem_inv m0 s'"
  using sem_owned_exec [OF x]
proof (cases rule: sem_exec_cases)
  case (call t i op r)
  have "spc_ok (capacity m0) (sacct s t) (sem_entry (capacity (sem s)) (now i) op)"
    using inv call(1) x sem_owned_release by (auto simp: sem_inv_def intro!: spc_ok_entry)
  then show ?thesis using inv call
    by (intro sem_inv_move [OF inv, where t = t and acct = "sacct s t"])
       (auto simp: sem_inv_def permits_def)
next
  case (go t i pc)
  then show ?thesis by (intro sem_inv_trans [OF inv]) auto
qed

lemma sem_inv_init: "fresh_semaphore m0 \<Longrightarrow> sem_inv m0 (sem_init m0)"
proof -
  assume f: "fresh_semaphore m0"
  have "permits (sem_init m0) = (\<lambda>_. 0)" by (simp add: permits_def sem_init_def fun_eq_iff)
  then show ?thesis using fresh_semaphoreD [OF f] by (simp add: sem_inv_def sem_init_def sums_to_0)
qed

interpretation sem_perm: invariant_machine sem_owned "sem_init m0"
  "\<lambda>s. fresh_semaphore m0 \<longrightarrow> sem_inv m0 s"
  by unfold_locales (auto intro: sem_inv_init sem_inv_step)

interpretation sem_abs: abstraction sem_exec "sem_init m0" pstep sabs
  "\<lambda>a. fresh_semaphore m0 \<longrightarrow> disciplined a"
  by unfold_locales
     (auto dest!: sem_discipline_step intro: pstep_disciplined simp: sabs_init disciplined_pinit)

subsection \<open>The count for arbitrary callers\<close>

text \<open>Callers that may release what they never acquired, but pass no \<open>n\<close> so large that
  \<^verbatim>\<open>capacity+n\<close> leaves the range of \<^verbatim>\<open>int32\<close>.\<close>

fun sem_small :: "sop event \<Rightarrow> ssys \<Rightarrow> ssys option" where
  "sem_small (Invoke t i (OpReleaseN n)) s =
     (if sint (capacity (sem s)) + sint n < 2 ^ 31 then sem_exec (Invoke t i (OpReleaseN n)) s
      else None)"
| "sem_small e s = sem_exec e s"

fun spc_safe :: "int32 \<Rightarrow> spc \<Rightarrow> bool" where
  "spc_safe cap (SLoad k n b) = (0 < sint n)"
| "spc_safe cap (SCas k n b cnt) = (0 < sint n \<and> sint n \<le> sint cnt)"
| "spc_safe cap (SGate k n b) = (0 < sint n)"
| "spc_safe cap (SEnq k n b p) = (0 < sint n)"
| "spc_safe cap (SWaits k n b w) = (0 < sint n)"
| "spc_safe cap (SLoad2 k n b w) = (0 < sint n)"
| "spc_safe cap (SCas2 k n b w cur) = (0 < sint n \<and> sint n \<le> sint cur)"
| "spc_safe cap (SPark k n b w) = (0 < sint n)"
| "spc_safe cap (SPut k n b w) = (0 < sint n)"
| "spc_safe cap (STime k n b) = (0 < sint n)"
| "spc_safe cap (RLoad n) = (0 < sint n \<and> sint cap + sint n < 2 ^ 31)"
| "spc_safe cap (RCas n cnt) =
     (0 < sint n \<and> sint cap + sint n < 2 ^ 31 \<and> sint (cnt + n) \<le> sint cap)"
| "spc_safe cap _ = True"

definition sem_bounded :: "Semaphore \<Rightarrow> ssys \<Rightarrow> bool" where
  "sem_bounded m0 s \<longleftrightarrow> capacity (sem s) = capacity m0 \<and> 0 \<le> sint (scount (sem s)) \<and>
     sint (scount (sem s)) \<le> sint (capacity m0) \<and> (\<forall>t. spc_safe (capacity m0) (spcs s t))"

lemma spc_safe_simps [simp]:
  "spc_safe cap (release_loop n j)"
  by (simp add: release_loop_def)

lemma sem_small_exec: "sem_small e s = Some s' \<Longrightarrow> sem_exec e s = Some s'"
  by (cases "(e, s)" rule: sem_small.cases) (auto split: if_splits)

lemma sem_small_entry:
  "sem_small (Invoke t i op) s = Some s' \<Longrightarrow>
     spc_safe (capacity (sem s)) (sem_entry (capacity (sem s)) n op)"
  by (cases op) (auto split: if_splits)

lemma sem_bounded_move:
  assumes "sem_bounded m0 s" "capacity (sem s') = capacity (sem s)" "spcs s' = (spcs s)(t := pc)"
    "spc_safe (capacity m0) pc" "0 \<le> sint (scount (sem s'))" "sint (scount (sem s')) \<le> sint (capacity m0)"
  shows "sem_bounded m0 s'"
  using assms by (auto simp: sem_bounded_def)

lemma sem_bounded_trans:
  assumes inv: "sem_bounded m0 s"
    and t: "sem_trans i (spcs s t) (sem s) (sst s) pc (sem s') (sst s')"
    and p: "spcs s' = (spcs s)(t := pc)"
  shows "sem_bounded m0 s'"
proof -
  have ok: "spc_safe (capacity m0) (spcs s t)" and c: "0 \<le> sint (scount (sem s))"
    "sint (scount (sem s)) \<le> sint (capacity m0)" and cap: "capacity (sem s) = capacity m0"
    using inv by (auto simp: sem_bounded_def)
  note move = sem_bounded_move [OF inv _ p]
  from t show ?thesis
  proof (cases rule: sem_trans.cases)
    case (sx_cas cnt k n b)
    then show ?thesis using ok c sem_take [of n cnt] by (intro move) auto
  next
    case (sx_cas2 k cur n b w)
    then show ?thesis using ok c sem_take [of n cur] by (intro move) auto
  next
    case (sx_rcas cnt n)
    then have "sint (cnt + n) = sint cnt + sint n" using ok c by (intro sint32_add) auto
    then show ?thesis using sx_rcas ok c by (intro move) auto
  qed (use ok c cap in \<open>auto intro!: move\<close>)
qed

lemma sem_bounded_step:
  assumes inv: "sem_bounded m0 s" and x: "sem_small e s = Some s'"
  shows "sem_bounded m0 s'"
  using sem_small_exec [OF x]
proof (cases rule: sem_exec_cases)
  case (call t i op r)
  then show ?thesis using inv x sem_small_entry [of t i op s s' "now i"]
    by (intro sem_bounded_move [OF inv, of s' t]) (auto simp: sem_bounded_def)
next
  case (go t i pc)
  then show ?thesis by (intro sem_bounded_trans [OF inv]) auto
qed

lemma sem_bounded_init: "fresh_semaphore m0 \<Longrightarrow> sem_bounded m0 (sem_init m0)"
  by (simp add: sem_bounded_def sem_init_def fresh_semaphoreD less_imp_le)

interpretation sem_bnd: invariant_machine sem_small "sem_init m0"
  "\<lambda>s. fresh_semaphore m0 \<longrightarrow> sem_bounded m0 s"
  by unfold_locales (auto intro: sem_bounded_init sem_bounded_step)

subsection \<open>Properties\<close>

definition semaphore_of :: "int32 \<Rightarrow> Semaphore" where
  "semaphore_of cap = \<lparr>capacity = cap, scount = cap, swaiters = NewWaiterQueue, acquires = 0,
     releases = 0, swaits = 0, timeouts = 0, stotalWaitTime = 0, screatedAt = 0\<rparr>"

lemma fresh_semaphore_of: "0 < sint cap \<Longrightarrow> fresh_semaphore (semaphore_of cap)"
  unfolding fresh_semaphore_def
  by (rule exI [of _ 0], rule exI [of _ cap]) (simp add: NewSemaphore_def semaphore_of_def)

lemmas sem_eval = semaphore_of_def sem_init_def sem_step_defs release_loop_def waiter_eval

definition sem_lost_run :: "sop event list" where
  "sem_lost_run =
     Invoke 0 inp0 OpAcquire # replicate 3 (Go 0 inp0) @
     Invoke 1 inp0 OpAcquire # replicate 3 (Go 1 inp0) @
     Invoke 2 inp0 OpAcquire # Go 2 inp0 #
     Invoke 0 inp0 OpRelease # replicate 4 (Go 0 inp0) @
     Invoke 1 inp0 OpRelease # replicate 4 (Go 1 inp0) @
     replicate 5 (Go 2 inp0) @
     Invoke 3 inp0 OpTryAcquire # replicate 3 (Go 3 inp0) @ [Go 2 inp0]"

definition sem_overflow_run :: "sop event list" where
  "sem_overflow_run = Invoke 0 inp0 (OpReleaseN 2147483647) # replicate 3 (Go 0 inp0)"

text \<open>C3. Permits are conserved when callers give back only what they hold: in every reachable
  state the permits of all goroutines and the count add up to the capacity, so any set of
  goroutines holds at most \<^verbatim>\<open>capacity\<close> permits, the count stays between 0 and the capacity, and no
  release is refused as an over-release.\<close>

theorem sem_permits_conserved:
  assumes "fresh_semaphore m0" "reachable sem_owned (sem_init m0) s"
  shows "sums_to (permits s) (sint (capacity m0) - sint (scount (sem s))) \<and>
     (\<forall>B. infinite B \<or> (\<Sum>t\<in>B. permits s t) \<le> sint (capacity m0)) \<and>
     0 \<le> sint (scount (sem s)) \<and> sint (scount (sem s)) \<le> sint (capacity m0) \<and>
     (\<forall>t c n d. spcs s t \<noteq> SRet (SOverRelease c n d))"
proof -
  have inv: "sem_inv m0 s" using sem_perm.reachable_inv [OF assms(2)] assms(1) by blast
  have nn: "0 \<le> permits s t" for t using inv by (auto simp: sem_inv_def intro!: permits_nonneg)
  have tot: "sums_to (permits s) (sint (capacity m0) - sint (scount (sem s)))"
    and c: "0 \<le> sint (scount (sem s))" using inv by (auto simp: sem_inv_def)
  have "(\<Sum>t\<in>B. permits s t) \<le> sint (capacity m0)" if "finite B" for B
    using sums_to_part [OF tot nn that] c by simp
  moreover have "sint (scount (sem s)) \<le> sint (capacity m0)"
    using sums_to_part [OF tot nn, of "{}"] by simp
  moreover have "spcs s t \<noteq> SRet (SOverRelease c n d)" for t c n d
    using inv by (auto simp: sem_inv_def) (metis spc_ok.simps(1))
  ultimately show ?thesis using tot c by blast
qed

theorem sem_permits_conserved_witness:
  "\<exists>s. run sem_owned [Invoke 0 inp0 OpAcquire, Go 0 inp0, Go 0 inp0, Go 0 inp0]
        (sem_init (semaphore_of 2)) = Some s \<and>
     sums_to (permits s) (sint (2 :: int32) - sint (scount (sem s))) \<and> scount (sem s) = 1"
proof -
  obtain s where r: "run sem_owned [Invoke 0 inp0 OpAcquire, Go 0 inp0, Go 0 inp0, Go 0 inp0]
        (sem_init (semaphore_of 2)) = Some s" and c: "scount (sem s) = 1"
    by (simp add: OpAcquire_def sem_eval)
  have f: "fresh_semaphore (semaphore_of 2)" by (rule fresh_semaphore_of) simp
  have "sums_to (permits s) (sint (2 :: int32) - sint (scount (sem s)))"
    using sem_permits_conserved [OF f run_reachable [OF r]] by (simp add: semaphore_of_def)
  with r c show ?thesis by blast
qed

text \<open>Whatever the callers release, the count never leaves the range from 0 to the capacity as
  long as \<^verbatim>\<open>capacity+n\<close> does not overflow: an excessive \<^verbatim>\<open>ReleaseN\<close> is answered by an error and
  leaves no trace in the count.\<close>

lemma sem_count_bounds:
  assumes "fresh_semaphore m0" "reachable sem_small (sem_init m0) s"
  shows "0 \<le> sint (scount (sem s)) \<and> sint (scount (sem s)) \<le> sint (capacity m0) \<and>
     capacity (sem s) = capacity m0"
  using sem_bnd.reachable_inv [OF assms(2)] assms(1) by (auto simp: sem_bounded_def)

lemma sem_count_bounds_witness:
  "\<exists>s. run sem_small [Invoke 0 inp0 (OpReleaseN 3), Go 0 inp0] (sem_init (semaphore_of 5)) = Some s \<and>
     spcs s 0 = SRet (SOverRelease 5 3 5) \<and> sint (scount (sem s)) \<le> 5"
proof -
  obtain s where r: "run sem_small [Invoke 0 inp0 (OpReleaseN 3), Go 0 inp0]
        (sem_init (semaphore_of 5)) = Some s" and c: "spcs s 0 = SRet (SOverRelease 5 3 5)"
    by (simp add: sem_eval)
  have f: "fresh_semaphore (semaphore_of 5)" by (rule fresh_semaphore_of) simp
  have "sint (scount (sem s)) \<le> 5"
    using sem_count_bounds [OF f run_reachable [OF r]] by (simp add: semaphore_of_def)
  with r c show ?thesis by blast
qed

text \<open>The guard of \<^verbatim>\<open>ReleaseN\<close> overflows: on a full semaphore of capacity 5,
  \<^verbatim>\<open>ReleaseN(2147483647)\<close> computes a negative \<^verbatim>\<open>count+n\<close>, passes the check and leaves a count below
  zero.\<close>

lemma sem_release_overflows:
  "\<exists>s. run sem_exec sem_overflow_run (sem_init (semaphore_of 5)) = Some s \<and>
     spcs s 0 = RWake 2147483647 0 WPop \<and> sint (scount (sem s)) < 0"
  by (simp add: sem_overflow_run_def sem_eval)

text \<open>A wake-up is lost although no call is cancelled: goroutine 2 re-checks the count after it
  enqueued itself and reads 2, another acquirer takes a permit, the compare-and-swap fails and
  goroutine 2 parks although a permit is left. No goroutine is inside a call that could wake it.\<close>

lemma sem_failed_recheck_loses_wakeup:
  "\<exists>s. run (uncancelled sem_exec) sem_lost_run (sem_init (semaphore_of 2)) = Some s \<and>
     scount (sem s) = 1 \<and> spcs s 2 = SPark KPlain 1 0 0 \<and> (\<forall>i. sem_exec (Go 2 i) s = None) \<and>
     (\<forall>t. t = 2 \<or> (\<exists>r. spcs s t = SRet r))"
  by (simp add: sem_lost_run_def uncancelled_def OpAcquire_def OpRelease_def
      OpTryAcquire_def sem_eval)

end
