(* ===== verification/Mutex.thy ===== *)
theory Mutex
  imports Protocol
begin

text \<open>
  \<^verbatim>\<open>Mutex\<close> of \<^verbatim>\<open>internal/primitives/condvar.go\<close> (lines 14-157 and 336-384), action by action.

  A goroutine's place in the code is a value of \<open>mpc\<close>, with its local variables: \<open>c\<close> tells
  \<^verbatim>\<open>LockContext\<close> from \<^verbatim>\<open>Lock\<close>, \<open>b\<close> is \<^verbatim>\<open>startTime\<close>, \<open>w\<close> the waiter. \<open>mutex_step\<close> performs the
  next atomic action; \<open>mutex_exec\<close> lets any goroutine move. The only rule put on the callers is
  that a goroutine unlocks what it has locked and does not lock twice (\<open>may_call\<close>).

  The lemmas show that at most one goroutine is inside, that the panics of \<^verbatim>\<open>Unlock\<close> are out of
  reach, that the waiters are used with discipline (so that recycling them is safe), that the
  mutex implements an abstract lock, that without cancelled contexts no wake-up is lost, and
  that with one a wake-up can be lost.
\<close>

record Mutex =
  mstate :: int32
  mwaiters :: WaiterQueue
  mlocks :: int64
  munlocks :: int64
  mwaits :: int64
  mtotalWaitTime :: int64
  mcreatedAt :: int

definition NewMutex :: "int \<Rightarrow> Mutex" where
  "NewMutex t = \<lparr>mstate = 0, mwaiters = NewWaiterQueue, mlocks = 0, munlocks = 0, mwaits = 0,
     mtotalWaitTime = 0, mcreatedAt = t\<rparr>"

datatype mret = RInit | RLocked | RUnlocked | RBusy | RCtxErr | RPanic string

datatype mpc =
    MRet mret
  | MCas1 bool int
  | MCtx int
  | MNew bool int
  | MLink bool int wid
  | MSize bool int wid
  | MWaits bool int wid
  | MCas2 bool int wid
  | MCancel wid
  | MPark bool int wid
  | MPut bool int wid
  | MTime bool int
  | MLocks
  | MTry
  | UCheck
  | UCount
  | UStore
  | UPop
  | USize wid
  | ULoad wid
  | UPut wid
  | USignal wid

datatype mop = OpLock | OpLockContext | OpTryLock | OpUnlock

definition Lock_step :: "inp \<Rightarrow> mpc \<Rightarrow> Mutex \<Rightarrow> wstore \<Rightarrow> (mpc \<times> Mutex \<times> wstore) option" where
  "Lock_step i pc m st = (case pc of
     MCas1 False b \<Rightarrow>
       (if mstate m = 0 then Some (MLocks, m\<lparr>mstate := 1\<rparr>, st) else Some (MNew False b, m, st))
   | MNew False b \<Rightarrow> (let (w, st') = NewWaiter i st in Some (MLink False b w, m, st'))
   | MLink False b w \<Rightarrow> Some (MSize False b w, m\<lparr>mwaiters := enqLink w (mwaiters m)\<rparr>, st)
   | MSize False b w \<Rightarrow> Some (MWaits False b w, m\<lparr>mwaiters := sizeAdd 1 (mwaiters m)\<rparr>, st)
   | MWaits False b w \<Rightarrow> Some (MCas2 False b w, m\<lparr>mwaits := mwaits m + 1\<rparr>, st)
   | MCas2 False b w \<Rightarrow>
       (if mstate m = 0 then Some (MCancel w, m\<lparr>mstate := 1\<rparr>, st)
        else Some (MPark False b w, m, st))
   | MCancel w \<Rightarrow> Some (MLocks, m, setCancelled w st)
   | MPark False b w \<Rightarrow>
       (case Wait w st of None \<Rightarrow> None | Some st' \<Rightarrow> Some (MPut False b w, m, st'))
   | MPut False b w \<Rightarrow> Some (MTime False b, m, putWaiter (Some w) st)
   | MTime False b \<Rightarrow>
       Some (MCas1 False b, m\<lparr>mtotalWaitTime := mtotalWaitTime m + elapsed i b\<rparr>, st)
   | MLocks \<Rightarrow> Some (MRet RLocked, m\<lparr>mlocks := mlocks m + 1\<rparr>, st)
   | _ \<Rightarrow> None)"

definition LockContext_step :: "inp \<Rightarrow> mpc \<Rightarrow> Mutex \<Rightarrow> wstore \<Rightarrow> (mpc \<times> Mutex \<times> wstore) option" where
  "LockContext_step i pc m st = (case pc of
     MCas1 True b \<Rightarrow>
       (if mstate m = 0 then Some (MLocks, m\<lparr>mstate := 1\<rparr>, st) else Some (MCtx b, m, st))
   | MCtx b \<Rightarrow> Some (if ctxArm i then MRet RCtxErr else MNew True b, m, st)
   | MNew True b \<Rightarrow> (let (w, st') = NewWaiter i st in Some (MLink True b w, m, st'))
   | MLink True b w \<Rightarrow> Some (MSize True b w, m\<lparr>mwaiters := enqLink w (mwaiters m)\<rparr>, st)
   | MSize True b w \<Rightarrow> Some (MWaits True b w, m\<lparr>mwaiters := sizeAdd 1 (mwaiters m)\<rparr>, st)
   | MWaits True b w \<Rightarrow> Some (MCas2 True b w, m\<lparr>mwaits := mwaits m + 1\<rparr>, st)
   | MCas2 True b w \<Rightarrow>
       (if mstate m = 0 then Some (MCancel w, m\<lparr>mstate := 1\<rparr>, st)
        else Some (MPark True b w, m, st))
   | MCancel w \<Rightarrow> Some (MLocks, m, setCancelled w st)
   | MPark True b w \<Rightarrow>
       (case WaitContext i w st of
          None \<Rightarrow> None
        | Some (r, st') \<Rightarrow> Some (if r then MPut True b w else MRet RCtxErr, m, st'))
   | MPut True b w \<Rightarrow> Some (MTime True b, m, putWaiter (Some w) st)
   | MTime True b \<Rightarrow>
       Some (MCas1 True b, m\<lparr>mtotalWaitTime := mtotalWaitTime m + elapsed i b\<rparr>, st)
   | MLocks \<Rightarrow> Some (MRet RLocked, m\<lparr>mlocks := mlocks m + 1\<rparr>, st)
   | _ \<Rightarrow> None)"

definition TryLock_step :: "mpc \<Rightarrow> Mutex \<Rightarrow> wstore \<Rightarrow> (mpc \<times> Mutex \<times> wstore) option" where
  "TryLock_step pc m st = (case pc of
     MTry \<Rightarrow> (if mstate m = 0 then Some (MLocks, m\<lparr>mstate := 1\<rparr>, st) else Some (MRet RBusy, m, st))
   | MLocks \<Rightarrow> Some (MRet RLocked, m\<lparr>mlocks := mlocks m + 1\<rparr>, st)
   | _ \<Rightarrow> None)"

definition Unlock_step :: "mpc \<Rightarrow> Mutex \<Rightarrow> wstore \<Rightarrow> (mpc \<times> Mutex \<times> wstore) option" where
  "Unlock_step pc m st = (case pc of
     UCheck \<Rightarrow>
       (if mstate m \<noteq> 1 then Some (MRet (RPanic ''mutex: unlock of unlocked mutex''), m, st)
        else Some (UCount, m, st))
   | UCount \<Rightarrow> Some (UStore, m\<lparr>munlocks := munlocks m + 1\<rparr>, st)
   | UStore \<Rightarrow> Some (UPop, m\<lparr>mstate := 0\<rparr>, st)
   | UPop \<Rightarrow>
       (case deqPop (mwaiters m) of
          None \<Rightarrow> Some (MRet RUnlocked, m, st)
        | Some (w, q) \<Rightarrow> Some (USize w, m\<lparr>mwaiters := q\<rparr>, st))
   | USize w \<Rightarrow> Some (ULoad w, m\<lparr>mwaiters := sizeAdd (- 1) (mwaiters m)\<rparr>, st)
   | ULoad w \<Rightarrow> Some (if cancelled (objs st w) then UPut w else USignal w, m, st)
   | UPut w \<Rightarrow> Some (UPop, m, putWaiter (Some w) st)
   | USignal w \<Rightarrow> Some (MRet RUnlocked, m, Signal w st)
   | _ \<Rightarrow> None)"

definition mutex_step :: "inp \<Rightarrow> mpc \<Rightarrow> Mutex \<Rightarrow> wstore \<Rightarrow> (mpc \<times> Mutex \<times> wstore) option" where
  "mutex_step i pc m st =
     orelse (Lock_step i pc m st) (orelse (LockContext_step i pc m st)
    (orelse (TryLock_step pc m st) (Unlock_step pc m st)))"

fun mutex_entry :: "int \<Rightarrow> mop \<Rightarrow> mpc" where
  "mutex_entry t OpLock = MCas1 False t"
| "mutex_entry t OpLockContext = MCas1 True t"
| "mutex_entry t OpTryLock = MTry"
| "mutex_entry t OpUnlock = UCheck"

fun may_call :: "mpc \<Rightarrow> mop \<Rightarrow> bool" where
  "may_call (MRet RLocked) op = (op = OpUnlock)"
| "may_call (MRet (RPanic _)) op = False"
| "may_call (MRet _) op = (op \<noteq> OpUnlock)"
| "may_call _ op = False"

record msys =
  mtx :: Mutex
  mst :: wstore
  mpcs :: "tid \<Rightarrow> mpc"

definition mutex_init :: "int \<Rightarrow> msys" where
  "mutex_init t = \<lparr>mtx = NewMutex t, mst = empty_store, mpcs = (\<lambda>_. MRet RInit)\<rparr>"

fun mutex_exec :: "mop event \<Rightarrow> msys \<Rightarrow> msys option" where
  "mutex_exec (Invoke t i op) s =
     (if may_call (mpcs s t) op
      then Some (s\<lparr>mpcs := (mpcs s)(t := mutex_entry (now i) op)\<rparr>) else None)"
| "mutex_exec (Go t i) s =
     (case mutex_step i (mpcs s t) (mtx s) (mst s) of
        None \<Rightarrow> None
      | Some (pc, m, st) \<Rightarrow> Some \<lparr>mtx = m, mst = st, mpcs = (mpcs s)(t := pc)\<rparr>)"

definition IsLocked :: "Mutex \<Rightarrow> bool" where
  "IsLocked m \<longleftrightarrow> mstate m = 1"

record MutexStats =
  ms_Locks :: int64
  ms_Unlocks :: int64
  ms_Waits :: int64
  ms_TotalWaitTimeNs :: int64
  ms_IsLocked :: bool
  ms_WaitersQueued :: int64
  ms_Age :: int

definition Mutex_GetStats :: "int \<Rightarrow> Mutex \<Rightarrow> MutexStats" where
  "Mutex_GetStats t m = \<lparr>ms_Locks = mlocks m, ms_Unlocks = munlocks m, ms_Waits = mwaits m,
     ms_TotalWaitTimeNs = mtotalWaitTime m, ms_IsLocked = IsLocked m,
     ms_WaitersQueued = Size (mwaiters m), ms_Age = t - mcreatedAt m\<rparr>"

subsection \<open>The step relation\<close>

text \<open>The same steps as a relation, one rule per branch of the code, for rule inversion.\<close>

inductive mutex_trans :: "inp \<Rightarrow> mpc \<Rightarrow> Mutex \<Rightarrow> wstore \<Rightarrow> mpc \<Rightarrow> Mutex \<Rightarrow> wstore \<Rightarrow> bool" where
  mx_cas1: "mstate m = 0 \<Longrightarrow>
    mutex_trans i (MCas1 c b) m st MLocks (m\<lparr>mstate := 1\<rparr>) st"
| mx_busy: "mstate m \<noteq> 0 \<Longrightarrow> \<not> c \<Longrightarrow>
    mutex_trans i (MCas1 c b) m st (MNew c b) m st"
| mx_busy_ctx: "mstate m \<noteq> 0 \<Longrightarrow> c \<Longrightarrow>
    mutex_trans i (MCas1 c b) m st (MCtx b) m st"
| mx_ctx_done: "ctxArm i \<Longrightarrow> mutex_trans i (MCtx b) m st (MRet RCtxErr) m st"
| mx_ctx_open: "\<not> ctxArm i \<Longrightarrow> mutex_trans i (MCtx b) m st (MNew True b) m st"
| mx_new: "NewWaiter i st = (w, st') \<Longrightarrow>
    mutex_trans i (MNew c b) m st (MLink c b w) m st'"
| mx_link: "mutex_trans i (MLink c b w) m st (MSize c b w) (m\<lparr>mwaiters := enqLink w (mwaiters m)\<rparr>) st"
| mx_size: "mutex_trans i (MSize c b w) m st (MWaits c b w) (m\<lparr>mwaiters := sizeAdd 1 (mwaiters m)\<rparr>) st"
| mx_waits: "mutex_trans i (MWaits c b w) m st (MCas2 c b w) (m\<lparr>mwaits := mwaits m + 1\<rparr>) st"
| mx_cas2: "mstate m = 0 \<Longrightarrow>
    mutex_trans i (MCas2 c b w) m st (MCancel w) (m\<lparr>mstate := 1\<rparr>) st"
| mx_park: "mstate m \<noteq> 0 \<Longrightarrow>
    mutex_trans i (MCas2 c b w) m st (MPark c b w) m st"
| mx_cancel: "mutex_trans i (MCancel w) m st MLocks m (setCancelled w st)"
| mx_wake: "(c \<longrightarrow> \<not> ctxArm i) \<Longrightarrow> Ready (objs st w) \<Longrightarrow>
    mutex_trans i (MPark c b w) m st (MPut c b w) m (recvReady w st)"
| mx_give_up: "c \<Longrightarrow> ctxArm i \<Longrightarrow>
    mutex_trans i (MPark c b w) m st (MRet RCtxErr) m (setCancelled w st)"
| mx_put: "mutex_trans i (MPut c b w) m st (MTime c b) m (putWaiter (Some w) st)"
| mx_time: "mutex_trans i (MTime c b) m st (MCas1 c b) (m\<lparr>mtotalWaitTime := mtotalWaitTime m + elapsed i b\<rparr>) st"
| mx_locks: "mutex_trans i MLocks m st (MRet RLocked) (m\<lparr>mlocks := mlocks m + 1\<rparr>) st"
| mx_try_ok: "mstate m = 0 \<Longrightarrow>
    mutex_trans i MTry m st MLocks (m\<lparr>mstate := 1\<rparr>) st"
| mx_try_busy: "mstate m \<noteq> 0 \<Longrightarrow>
    mutex_trans i MTry m st (MRet RBusy) m st"
| mx_panic: "mstate m \<noteq> 1 \<Longrightarrow>
    mutex_trans i UCheck m st (MRet (RPanic ''mutex: unlock of unlocked mutex'')) m st"
| mx_check: "mstate m = 1 \<Longrightarrow>
    mutex_trans i UCheck m st UCount m st"
| mx_count: "mutex_trans i UCount m st UStore (m\<lparr>munlocks := munlocks m + 1\<rparr>) st"
| mx_release: "mutex_trans i UStore m st UPop (m\<lparr>mstate := 0\<rparr>) st"
| mx_empty: "deqPop (mwaiters m) = None \<Longrightarrow>
    mutex_trans i UPop m st (MRet RUnlocked) m st"
| mx_pop: "deqPop (mwaiters m) = Some (w, q) \<Longrightarrow>
    mutex_trans i UPop m st (USize w) (m\<lparr>mwaiters := q\<rparr>) st"
| mx_usize: "mutex_trans i (USize w) m st (ULoad w) (m\<lparr>mwaiters := sizeAdd (- 1) (mwaiters m)\<rparr>) st"
| mx_skip: "cancelled (objs st w) \<Longrightarrow> mutex_trans i (ULoad w) m st (UPut w) m st"
| mx_found: "\<not> cancelled (objs st w) \<Longrightarrow> mutex_trans i (ULoad w) m st (USignal w) m st"
| mx_discard: "mutex_trans i (UPut w) m st UPop m (putWaiter (Some w) st)"
| mx_signal: "mutex_trans i (USignal w) m st (MRet RUnlocked) m (Signal w st)"

lemmas mutex_step_defs = mutex_step_def Lock_step_def LockContext_step_def TryLock_step_def
  Unlock_step_def WaitContext_def Wait_def orelse_simps

lemma mutex_step_trans:
  "mutex_step i pc m st = Some (pc', m', st') \<Longrightarrow> mutex_trans i pc m st pc' m' st'"
  by (cases pc)
     (auto simp: mutex_step_defs intro: mutex_trans.intros
       split: if_splits prod.splits option.splits bool.splits)

lemma mutex_trans_step:
  "mutex_trans i pc m st pc' m' st' \<Longrightarrow> mutex_step i pc m st = Some (pc', m', st')"
  by (induction rule: mutex_trans.induct) (auto simp: mutex_step_defs split: bool.splits)

subsection \<open>The discipline and mutual exclusion\<close>

fun m_own :: "mpc \<Rightarrow> (wid \<times> ophase) option" where
  "m_own (MLink c b w) = Some (w, Fresh)"
| "m_own (MSize c b w) = Some (w, Queued)"
| "m_own (MWaits c b w) = Some (w, Queued)"
| "m_own (MCas2 c b w) = Some (w, Queued)"
| "m_own (MCancel w) = Some (w, Queued)"
| "m_own (MPark c b w) = Some (w, Queued)"
| "m_own (MPut c b w) = Some (w, Woken)"
| "m_own _ = None"

fun m_hold :: "mpc \<Rightarrow> (wid \<times> hphase) option" where
  "m_hold (USize w) = Some (w, Popped)"
| "m_hold (ULoad w) = Some (w, Popped)"
| "m_hold (UPut w) = Some (w, Dead)"
| "m_hold (USignal w) = Some (w, Live)"
| "m_hold _ = None"

definition mabs :: "msys \<Rightarrow> pstate" where
  "mabs s = \<lparr>own = m_own \<circ> mpcs s, hold = m_hold \<circ> mpcs s,
             queues = queues1 (items (mwaiters (mtx s))), store = mst s\<rparr>"

lemma mabs_simps [simp]:
  "own (mabs s) t = m_own (mpcs s t)" "hold (mabs s) t = m_hold (mpcs s t)"
  "queues (mabs s) = queues1 (items (mwaiters (mtx s)))" "store (mabs s) = mst s"
  by (simp_all add: mabs_def)

lemma mabs_own: "own (mabs s) = m_own \<circ> mpcs s" and mabs_hold: "hold (mabs s) = m_hold \<circ> mpcs s"
  by (simp_all add: mabs_def)

lemmas mabs_upd = mabs_own mabs_hold fun_upd_comp

lemma may_call_ret: "may_call pc op \<Longrightarrow> \<exists>r. pc = MRet r"
  by (cases pc) auto

lemma mutex_exec_cases [consumes 1, case_names call go]:
  assumes "mutex_exec e s = Some s'"
  obtains (call) t i op r where "e = Invoke t i op" "mpcs s t = MRet r" "may_call (MRet r) op"
      "mtx s' = mtx s" "mst s' = mst s" "mpcs s' = (mpcs s)(t := mutex_entry (now i) op)"
  | (go) t i pc where "e = Go t i" "mutex_trans i (mpcs s t) (mtx s) (mst s) pc (mtx s') (mst s')"
      "mpcs s' = (mpcs s)(t := pc)"
proof (cases e)
  case (Invoke t i op)
  with assms have m: "may_call (mpcs s t) op"
    and s': "s' = s\<lparr>mpcs := (mpcs s)(t := mutex_entry (now i) op)\<rparr>" by (auto split: if_splits)
  from may_call_ret [OF m] obtain r where "mpcs s t = MRet r" ..
  with Invoke m s' show ?thesis by (intro call) auto
next
  case (Go t i)
  with assms show ?thesis by (auto split: option.splits dest!: mutex_step_trans intro: go)
qed

lemma entry_roles [simp]: "m_own (mutex_entry t op) = None" "m_hold (mutex_entry t op) = None"
  by (cases op; simp)+

text \<open>Every step of the mutex follows the discipline, in any system that contains the mutex: its
  queue is the queue \<open>k\<close> of the system, and the goroutine may own another waiter while its place
  in the mutex owns none.\<close>

lemma mutex_trans_pstep:
  assumes t: "mutex_trans i p m (store s) p' m' (store s')"
    and o: "own s' = (own s)(t := if m_own p' = m_own p then own s t else m_own p')"
      "m_own p' \<noteq> m_own p \<Longrightarrow> own s t = m_own p"
    and h: "hold s t = m_hold p" "hold s' = (hold s)(t := m_hold p')"
    and q: "queues s k = items (mwaiters m)" "queues s' = (queues s)(k := items (mwaiters m'))"
  shows "s' = s \<or> pstep s s'"
  using t
proof (cases rule: mutex_trans.cases)
  case (mx_new w c b)
  show ?thesis by (rule disjI2, rule pstep_newI [of _ t i w]) (use mx_new o h q in auto)
next
  case (mx_link c b w)
  show ?thesis by (rule disjI2, rule pstep_linkI [of _ t w _ k]) (use mx_link o h q in auto)
next
  case (mx_cancel w)
  show ?thesis by (rule disjI2, rule pstep_cancelI [of _ t w]) (use mx_cancel o h q in auto)
next
  case (mx_give_up c b w)
  show ?thesis by (rule disjI2, rule pstep_cancelI [of _ t w]) (use mx_give_up o h q in auto)
next
  case (mx_wake c w b)
  show ?thesis by (rule disjI2, rule pstep_recvI [of _ t w]) (use mx_wake o h q in auto)
next
  case (mx_put c b w)
  show ?thesis by (rule disjI2, rule pstep_putI [of _ t w]) (use mx_put o h q in auto)
next
  case (mx_pop w q')
  show ?thesis
    by (rule disjI2, rule pstep_popI [of _ t k w "items q'"]) (use mx_pop o h q in \<open>auto simp: deqPop_Some\<close>)
next
  case (mx_skip w)
  show ?thesis by (rule disjI2, rule pstep_checkI [of _ t w]) (use mx_skip o h q in auto)
next
  case (mx_found w)
  show ?thesis by (rule disjI2, rule pstep_checkI [of _ t w]) (use mx_found o h q in auto)
next
  case (mx_discard w)
  show ?thesis by (rule disjI2, rule pstep_discardI [of _ t w]) (use mx_discard o h q in auto)
next
  case (mx_signal w)
  show ?thesis by (rule disjI2, rule pstep_signalI [of _ t w]) (use mx_signal o h q in auto)
qed (use o h q in \<open>auto intro!: pstate_eqI simp: fun_upd_idem_iff\<close>)

lemma mutex_trans_discipline:
  assumes "mutex_trans i (mpcs s t) (mtx s) (mst s) pc (mtx s') (mst s')"
    "mpcs s' = (mpcs s)(t := pc)"
  shows "mabs s' = mabs s \<or> pstep (mabs s) (mabs s')"
  using assms
  by (intro mutex_trans_pstep [of i "mpcs s t" "mtx s" _ pc "mtx s'" _ t 0])
     (auto simp: mabs_upd fun_upd_idem_iff)

lemma mutex_discipline_step:
  assumes "mutex_exec e s = Some s'"
  shows "mabs s' = mabs s \<or> pstep (mabs s) (mabs s')"
  using assms
proof (cases rule: mutex_exec_cases)
  case (call t i op r)
  then have "mabs s' = mabs s" by (auto intro!: pstate_eqI simp: mabs_upd fun_upd_idem_iff)
  then show ?thesis ..
next
  case (go t i pc)
  then show ?thesis by (intro mutex_trans_discipline) auto
qed

fun m_holds :: "mpc \<Rightarrow> bool" where
  "m_holds (MRet RLocked) = True"
| "m_holds (MCancel w) = True"
| "m_holds MLocks = True"
| "m_holds UCheck = True"
| "m_holds UCount = True"
| "m_holds UStore = True"
| "m_holds _ = False"

definition mutex_excl :: "msys \<Rightarrow> bool" where
  "mutex_excl s \<longleftrightarrow> mstate (mtx s) = (if \<exists>t. m_holds (mpcs s t) then 1 else 0) \<and>
     (\<forall>t u. m_holds (mpcs s t) \<longrightarrow> m_holds (mpcs s u) \<longrightarrow> t = u) \<and>
     (\<forall>t msg. mpcs s t \<noteq> MRet (RPanic msg))"

lemma mutex_excl_keep:
  assumes "mutex_excl s" "mstate (mtx s') = mstate (mtx s)" "mpcs s' = (mpcs s)(t := pc)"
    "m_holds pc = m_holds (mpcs s t)" "\<forall>msg. pc \<noteq> MRet (RPanic msg)"
  shows "mutex_excl s'"
proof -
  have "m_holds (mpcs s' u) = m_holds (mpcs s u)" for u using assms(3,4) by simp
  then show ?thesis using assms by (simp add: mutex_excl_def)
qed

lemma mutex_excl_acquire:
  assumes "mutex_excl s" "mstate (mtx s) = 0" "mstate (mtx s') = 1" "mpcs s' = (mpcs s)(t := pc)"
    "m_holds pc" "\<forall>msg. pc \<noteq> MRet (RPanic msg)"
  shows "mutex_excl s'"
proof -
  have "\<not> m_holds (mpcs s u)" for u using assms(1,2) by (auto simp: mutex_excl_def split: if_splits)
  then have "m_holds (mpcs s' u) = (u = t)" for u using assms(4,5) by simp
  then show ?thesis using assms by (simp add: mutex_excl_def)
qed

lemma mutex_excl_release:
  assumes "mutex_excl s" "m_holds (mpcs s t)" "mstate (mtx s') = 0" "mpcs s' = (mpcs s)(t := pc)"
    "\<not> m_holds pc" "\<forall>msg. pc \<noteq> MRet (RPanic msg)"
  shows "mutex_excl s'"
proof -
  have "m_holds (mpcs s u) \<Longrightarrow> u = t" for u using assms(1,2) by (auto simp: mutex_excl_def)
  then have "\<not> m_holds (mpcs s' u)" for u using assms(4,5) by auto
  then show ?thesis using assms by (simp add: mutex_excl_def)
qed

lemma mutex_excl_locked: "mutex_excl s \<Longrightarrow> m_holds (mpcs s t) \<Longrightarrow> mstate (mtx s) = 1"
  by (auto simp: mutex_excl_def)

lemma mutex_excl_trans:
  assumes e: "mutex_excl s" and t: "mutex_trans i (mpcs s t) (mtx s) (mst s) pc (mtx s') (mst s')"
    and p: "mpcs s' = (mpcs s)(t := pc)"
  shows "mutex_excl s'"
  using t
proof (cases rule: mutex_trans.cases)
  case (mx_cas1 c b)
  then show ?thesis by (intro mutex_excl_acquire [OF e _ _ p]) auto
next
  case (mx_cas2 c b w)
  then show ?thesis by (intro mutex_excl_acquire [OF e _ _ p]) auto
next
  case mx_try_ok
  then show ?thesis by (intro mutex_excl_acquire [OF e _ _ p]) auto
next
  case mx_release
  then show ?thesis by (intro mutex_excl_release [OF e _ _ p]) auto
next
  case mx_panic
  then show ?thesis using mutex_excl_locked [OF e, of t] by simp
qed (rule mutex_excl_keep [OF e _ p]; simp)+

lemma mutex_excl_step:
  assumes e: "mutex_excl s" and x: "mutex_exec e s = Some s'"
  shows "mutex_excl s'"
  using x
proof (cases rule: mutex_exec_cases)
  case (call t i op r)
  have "m_holds (mutex_entry (now i) op) = m_holds (MRet r)"
    using call(3) by (cases op; cases r) auto
  moreover have "\<forall>msg. mutex_entry (now i) op \<noteq> MRet (RPanic msg)" by (cases op) auto
  ultimately show ?thesis using call by (intro mutex_excl_keep [OF e]) auto
next
  case (go t i pc)
  then show ?thesis by (intro mutex_excl_trans [OF e]) auto
qed

lemma mutex_excl_init: "mutex_excl (mutex_init t0)"
  by (simp add: mutex_excl_def mutex_init_def NewMutex_def)

interpretation mutex_inv: invariant_machine mutex_exec "mutex_init t0" mutex_excl
  by unfold_locales (auto intro: mutex_excl_init mutex_excl_step)

lemma mabs_init: "mabs (mutex_init t0) = pinit"
  by (auto intro!: pstate_eqI simp: mabs_def mutex_init_def pinit_def NewMutex_def queues1_def)

interpretation mutex_abs: abstraction mutex_exec "mutex_init t0" pstep mabs disciplined
  by unfold_locales
     (auto dest!: mutex_discipline_step intro: pstep_disciplined simp: mabs_init disciplined_pinit)

subsection \<open>No wakeup is lost\<close>

text \<open>A goroutine is active when it is inside a call and can move: it is not parked on an empty
  channel. A waker that is about to signal counts as active only if the signal reaches somebody.
  \<open>mutex_live\<close>: whenever the mutex is free and somebody is parked, somebody is active.\<close>

fun m_parked :: "mpc \<Rightarrow> bool" where
  "m_parked (MPark c b w) = True"
| "m_parked _ = False"

definition m_active :: "msys \<Rightarrow> tid \<Rightarrow> bool" where
  "m_active s t = (case mpcs s t of
     MRet r \<Rightarrow> False
   | MPark c b w \<Rightarrow> Ready (objs (mst s) w)
   | USignal w \<Rightarrow> owned (mabs s) w
   | _ \<Rightarrow> True)"

definition mutex_live :: "msys \<Rightarrow> bool" where
  "mutex_live s \<longleftrightarrow> mstate (mtx s) = 0 \<longrightarrow> (\<exists>t. m_parked (mpcs s t)) \<longrightarrow> (\<exists>u. m_active s u)"

lemma mutex_liveI: "m_active s t \<Longrightarrow> mutex_live s"
  by (auto simp: mutex_live_def)

lemma m_holder_active:
  assumes "m_hold (mpcs s v) = Some (w, p)" "owned (mabs s) w"
  shows "m_active s v"
  using assms by (cases "mpcs s v") (auto simp: m_active_def)

lemma parked_owns: "m_parked (mpcs s t) \<Longrightarrow> \<exists>w. m_own (mpcs s t) = Some (w, Queued) \<and> owned (mabs s) w"
  by (cases "mpcs s t") (auto intro: ownedI [of "mabs s" t])

lemma parked_active_or_queued:
  assumes d: "disciplined (mabs s)" and p: "m_parked (mpcs s t)"
    and q: "items (mwaiters (mtx s)) = []"
  shows "\<exists>u. m_active s u"
proof -
  obtain c b w where pc: "mpcs s t = MPark c b w" using p by (cases "mpcs s t") auto
  have "placed (mabs s) (own (mabs s) t)" using d by (simp add: disciplined_def owner_places_def)
  then have "(queued (mabs s) w \<or> held (mabs s) w) \<noteq> Ready (objs (mst s) w)" using pc by simp
  moreover have "\<not> queued (mabs s) w" using q by (simp add: queued_def queues1_def)
  ultimately consider "held (mabs s) w" | "Ready (objs (mst s) w)" by blast
  then show ?thesis
  proof cases
    case 1
    then obtain v x where "m_hold (mpcs s v) = Some (w, x)" by (auto simp: held_def holdW_def)
    moreover have "owned (mabs s) w" using pc by (intro ownedI [of _ t w Queued]) simp
    ultimately show ?thesis using m_holder_active by blast
  next
    case 2
    then show ?thesis using pc by (intro exI [of _ t]) (simp add: m_active_def)
  qed
qed

lemma signalled_active:
  assumes d: "disciplined (mabs s)" and e: "mutex_excl s" and st: "mstate (mtx s) = 0"
    and h: "mpcs s t = USignal w" and o: "owned (mabs s) w"
    and s': "mst s' = Signal w (mst s)" "mpcs s' = (mpcs s)(t := pc)"
  shows "\<exists>u. m_active s' u"
proof -
  obtain v x where v: "m_own (mpcs s v) = Some (w, x)" using o by (auto simp: owned_def ownW_def)
  have "held (mabs s) w" using h by (intro heldI [of _ t w Live]) simp
  moreover have "placed (mabs s) (own (mabs s) v)" using d by (simp add: disciplined_def owner_places_def)
  ultimately have "x = Queued" using v by (cases x) auto
  moreover have "v \<noteq> t" using v h by auto
  moreover have "\<not> m_holds (mpcs s v)" using mutex_excl_locked [OF e] st by force
  ultimately have "m_active s' v" using v s' by (cases "mpcs s v") (auto simp: m_active_def)
  then show ?thesis by blast
qed

lemma owned_mabs_same:
  "m_own \<circ> mpcs s' = m_own \<circ> mpcs s \<Longrightarrow> owned (mabs s') w = owned (mabs s) w"
  by (intro same_places(3)) (simp add: ownW_def fun_eq_iff)

lemma mutex_live_trans:
  assumes l: "mutex_live s" and d: "disciplined (mabs s)" and d': "disciplined (mabs s')"
    and e: "mutex_excl s" and c: "\<not> ctxArm i"
    and t: "mutex_trans i (mpcs s t) (mtx s) (mst s) pc (mtx s') (mst s')"
    and p: "mpcs s' = (mpcs s)(t := pc)"
  shows "mutex_live s'"
  using t
proof (cases rule: mutex_trans.cases)
  case mx_locks
  then show ?thesis using mutex_excl_locked [OF e, of t] by (simp add: mutex_live_def)
next
  case mx_panic
  then show ?thesis using mutex_excl_locked [OF e, of t] by simp
next
  case mx_empty
  then show ?thesis using parked_active_or_queued [OF d']
    by (auto simp: mutex_live_def deqPop_None)
next
  case (mx_found w)
  then have "hold (mabs s) t = Some (w, Popped)" "\<not> cancelled (objs (store (mabs s)) w)" by simp_all
  then have "owned (mabs s) w" using d unfolding disciplined_def entries_live_def by blast
  moreover have "owned (mabs s') w = owned (mabs s) w"
    using mx_found p by (intro owned_mabs_same) (simp add: fun_upd_comp fun_upd_idem_iff)
  ultimately show ?thesis using mx_found p by (intro mutex_liveI [of _ t]) (simp add: m_active_def)
next
  case (mx_signal w)
  have own: "owned (mabs s') v = owned (mabs s) v" for v
    using mx_signal p by (intro owned_mabs_same) (simp add: fun_upd_comp fun_upd_idem_iff)
  have other: "m_active s' u" if "m_active s u" "u \<noteq> t" for u
    using that p mx_signal own by (auto simp: m_active_def split: mpc.splits)
  show ?thesis
  proof (unfold mutex_live_def, intro impI)
    assume st: "mstate (mtx s') = 0" and "\<exists>u. m_parked (mpcs s' u)"
    then have st0: "mstate (mtx s) = 0" and "\<exists>u. m_parked (mpcs s u)"
      using p mx_signal by (auto split: if_splits)
    then obtain u where u: "m_active s u" using l by (auto simp: mutex_live_def)
    show "\<exists>u. m_active s' u"
    proof (cases "u = t")
      case True
      then have "owned (mabs s) w" using u mx_signal by (simp add: m_active_def)
      then show ?thesis using mx_signal p by (intro signalled_active [OF d e st0]) auto
    qed (use other u in blast)
  qed
qed (use c p in \<open>auto intro!: mutex_liveI [of s' t] simp: m_active_def mutex_live_def\<close>)

definition mutex_good :: "msys \<Rightarrow> bool" where
  "mutex_good s \<longleftrightarrow> disciplined (mabs s) \<and> mutex_excl s \<and> mutex_live s"

lemma mutex_disciplined_step:
  "disciplined (mabs s) \<Longrightarrow> mutex_exec e s = Some s' \<Longrightarrow> disciplined (mabs s')"
  using mutex_discipline_step pstep_disciplined by metis

lemma mutex_good_step:
  assumes g: "mutex_good s" and x: "uncancelled mutex_exec e s = Some s'"
  shows "mutex_good s'"
proof -
  have x': "mutex_exec e s = Some s'" and c: "\<not> ctxArm (event_inp e)"
    using x by (simp_all add: uncancelled_Some)
  have d: "disciplined (mabs s)" "disciplined (mabs s')" and e: "mutex_excl s" "mutex_excl s'"
    and l: "mutex_live s"
    using g x' mutex_disciplined_step mutex_excl_step by (auto simp: mutex_good_def)
  from x' have "mutex_live s'"
  proof (cases rule: mutex_exec_cases)
    case (call t i op r)
    then show ?thesis by (cases op) (auto intro!: mutex_liveI [of s' t] simp: m_active_def)
  next
    case (go t i pc)
    then show ?thesis using c by (intro mutex_live_trans [OF l d e(1)]) auto
  qed
  with d(2) e(2) show ?thesis by (simp add: mutex_good_def)
qed

lemma mutex_good_init: "mutex_good (mutex_init t0)"
proof -
  have "mutex_live (mutex_init t0)" by (simp add: mutex_live_def mutex_init_def)
  then show ?thesis by (simp add: mutex_good_def mabs_init disciplined_pinit mutex_excl_init)
qed

interpretation mutex_bg: invariant_machine "uncancelled mutex_exec" "mutex_init t0" mutex_good
  by unfold_locales (auto intro: mutex_good_init mutex_good_step)

lemma m_active_enabled:
  assumes "m_active s u" "\<not> ctxArm i"
  shows "mutex_exec (Go u i) s \<noteq> None"
  using assms
  by (cases "mpcs s u")
     (auto simp: m_active_def mutex_step_defs split: option.splits prod.splits bool.splits if_splits)

subsection \<open>The abstract lock\<close>

text \<open>What a mutex promises: one owner at most, taken only when there is none and given up only by
  the owner.\<close>

inductive lock_step :: "tid \<Rightarrow> tid option \<Rightarrow> tid option \<Rightarrow> bool" where
  lock_acquire: "lock_step t None (Some t)"
| lock_release: "lock_step t (Some t) None"
| lock_stutter: "lock_step t a a"

definition lock_of :: "msys \<Rightarrow> tid option \<Rightarrow> bool" where
  "lock_of s a \<longleftrightarrow> (\<forall>t. m_holds (mpcs s t) = (a = Some t)) \<and> IsLocked (mtx s) = (a \<noteq> None)"

lemma mutex_excl_lock_of: "mutex_excl s \<Longrightarrow> \<exists>a. lock_of s a"
proof (cases "\<exists>t. m_holds (mpcs s t)")
  case True
  assume e: "mutex_excl s"
  from True obtain t where "m_holds (mpcs s t)" ..
  with e have "lock_of s (Some t)" by (auto simp: lock_of_def mutex_excl_def IsLocked_def)
  then show ?thesis ..
next
  case False
  assume "mutex_excl s"
  with False have "lock_of s None" by (auto simp: lock_of_def mutex_excl_def IsLocked_def)
  then show ?thesis ..
qed

lemma lock_of_step:
  assumes "lock_of s a" "lock_of s' a'" "mpcs s' = (mpcs s)(t := pc)"
  shows "lock_step t a a'"
proof -
  have same: "(a = Some u) = (a' = Some u)" if "u \<noteq> t" for u
    using assms that by (auto simp: lock_of_def split: if_splits)
  consider "a = a'" | "a = None" "a' = Some t" | "a = Some t" "a' = None"
    using same by (cases a; cases a') (metis option.distinct(1) option.inject)+
  then show ?thesis by cases (auto intro: lock_step.intros)
qed

lemma mutex_exec_pcs: "mutex_exec e s = Some s' \<Longrightarrow> \<exists>pc. mpcs s' = (mpcs s)(event_tid e := pc)"
  by (cases rule: mutex_exec_cases) auto

subsection \<open>Properties\<close>

definition mutex_lost_run :: "mop event list" where
  "mutex_lost_run =
     Invoke 0 inp0 OpLock # replicate 2 (Go 0 inp0) @
     Invoke 1 inp0 OpLockContext # replicate 7 (Go 1 inp0) @
     Invoke 2 inp0 OpLock # replicate 6 (Go 2 inp0) @
     Invoke 0 inp0 OpUnlock # replicate 7 (Go 0 inp0) @
     [Go 1 inpDone]"

text \<open>C1. Mutual exclusion: in every state any schedule, clock and cancellation can reach, two
  goroutines that are both past the successful compare-and-swap of \<^verbatim>\<open>Lock\<close>, \<^verbatim>\<open>LockContext\<close> or
  \<^verbatim>\<open>TryLock\<close> and have not yet stored 0 in \<^verbatim>\<open>Unlock\<close> are the same goroutine; the state word says
  exactly whether there is one; and \<^verbatim>\<open>Unlock\<close> never panics for callers that unlock what they
  locked.\<close>

theorem mutex_mutual_exclusion:
  assumes "reachable mutex_exec (mutex_init t0) s"
  shows "(\<forall>t u. \<not> (m_holds (mpcs s t) \<and> m_holds (mpcs s u) \<and> t \<noteq> u)) \<and>
     (mstate (mtx s) = 1) = (\<exists>t. m_holds (mpcs s t)) \<and>
     (\<forall>t msg. mpcs s t \<noteq> MRet (RPanic msg))"
  using mutex_inv.reachable_inv [OF assms] by (auto simp: mutex_excl_def)

theorem mutex_mutual_exclusion_witness:
  "\<exists>s. run mutex_exec [Invoke 0 inp0 OpLock, Go 0 inp0, Go 0 inp0] (mutex_init 0) = Some s \<and>
     mpcs s 0 = MRet RLocked \<and> \<not> m_holds (mpcs s 1)"
proof -
  obtain s where r: "run mutex_exec [Invoke 0 inp0 OpLock, Go 0 inp0, Go 0 inp0] (mutex_init 0) = Some s"
    and p: "mpcs s 0 = MRet RLocked"
    by (simp add: mutex_init_def NewMutex_def mutex_step_defs)
  have "\<not> m_holds (mpcs s 1)"
    using mutex_mutual_exclusion [OF run_reachable [OF r]] p by (metis m_holds.simps(1) zero_neq_one)
  with r p show ?thesis by blast
qed

text \<open>The mutex refines an abstract lock that has one owner at most: every atomic action of a
  goroutine either leaves the owner alone, or makes that goroutine the owner when there was none,
  or takes the ownership from that goroutine itself; \<^verbatim>\<open>IsLocked\<close> reports whether there is an
  owner.\<close>

lemma mutex_refines_lock:
  assumes "reachable mutex_exec (mutex_init t0) s" "mutex_exec e s = Some s'"
  shows "\<exists>a a'. lock_of s a \<and> lock_of s' a' \<and> lock_step (event_tid e) a a'"
proof -
  have "mutex_excl s" "mutex_excl s'"
    using assms mutex_inv.reachable_inv reachable_step by metis+
  then obtain a a' where "lock_of s a" "lock_of s' a'" using mutex_excl_lock_of by metis
  then show ?thesis using lock_of_step mutex_exec_pcs [OF assms(2)] by blast
qed

lemma mutex_refines_lock_witness:
  "\<exists>s s'. mutex_exec (Go 0 inp0) s = Some s' \<and> lock_of s None \<and> lock_of s' (Some 0) \<and>
     lock_step 0 None (Some 0)"
proof -
  define s where "s = (mutex_init 0)\<lparr>mpcs := (mpcs (mutex_init 0))(0 := MCas1 False 0)\<rparr>"
  have "mutex_exec (Invoke 0 inp0 OpLock) (mutex_init 0) = Some s"
    by (simp add: s_def mutex_init_def inp0_def)
  then have r: "reachable mutex_exec (mutex_init 0) s" using reachable.intros by metis
  obtain s' where s': "mutex_exec (Go 0 inp0) s = Some s'" "mpcs s' 0 = MLocks"
    by (simp add: s_def mutex_step_defs mutex_init_def NewMutex_def)
  obtain a a' where "lock_of s a" "lock_of s' a'" "lock_step 0 a a'"
    using mutex_refines_lock [OF r s'(1)] by auto
  moreover have "m_holds (mpcs s' 0)" using s'(2) by simp
  moreover from this have "a' = Some 0" using \<open>lock_of s' a'\<close> unfolding lock_of_def by blast
  moreover have "\<not> IsLocked (mtx s)" by (simp add: s_def mutex_init_def NewMutex_def IsLocked_def)
  moreover from this have "a = None" using \<open>lock_of s a\<close> by (simp add: lock_of_def)
  ultimately show ?thesis using s'(1) by blast
qed

text \<open>C11. No wake-up is lost while no context is cancelled: whenever the mutex is free and a
  goroutine is parked on its waiter, some goroutine is inside a call and can take its next step
  (so the parked goroutines cannot all be stuck beside a free mutex).\<close>

theorem mutex_no_lost_wakeup:
  assumes "reachable (uncancelled mutex_exec) (mutex_init t0) s" "mstate (mtx s) = 0"
    "mpcs s t = MPark c b w"
  shows "\<exists>u. (\<forall>r. mpcs s u \<noteq> MRet r) \<and> (\<forall>n p. mutex_exec (Go u \<lparr>now = n, ctxArm = False, pick = p\<rparr>) s \<noteq> None)"
proof -
  have "mutex_live s" using mutex_bg.reachable_inv [OF assms(1)] by (simp add: mutex_good_def)
  moreover have "m_parked (mpcs s t)" using assms(3) by simp
  ultimately obtain u where u: "m_active s u" using assms(2) unfolding mutex_live_def by blast
  moreover have "mpcs s u \<noteq> MRet r" for r using u by (auto simp: m_active_def)
  moreover have "mutex_exec (Go u \<lparr>now = n, ctxArm = False, pick = p\<rparr>) s \<noteq> None" for n p
    by (rule m_active_enabled [OF u]) simp
  ultimately show ?thesis by blast
qed

theorem mutex_no_lost_wakeup_witness:
  "\<exists>s u. run (uncancelled mutex_exec) (butlast mutex_lost_run) (mutex_init 0) = Some s \<and>
     mstate (mtx s) = 0 \<and> mpcs s 2 = MPark False 0 1 \<and> (\<forall>r. mpcs s u \<noteq> MRet r) \<and>
     mutex_exec (Go u inp0) s \<noteq> None"
proof -
  obtain s where r: "run (uncancelled mutex_exec) (butlast mutex_lost_run) (mutex_init 0) = Some s"
    and h: "mstate (mtx s) = 0" "mpcs s 2 = MPark False 0 1"
    by (simp add: mutex_lost_run_def uncancelled_def  mutex_init_def NewMutex_def
        mutex_step_defs waiter_eval)
  from mutex_no_lost_wakeup [OF run_reachable [OF r] h]
  obtain u where "\<forall>r. mpcs s u \<noteq> MRet r" "mutex_exec (Go u inp0) s \<noteq> None"
    unfolding inp0_def by blast
  with r h show ?thesis by blast
qed

text \<open>With a cancelled context a wake-up is lost: goroutine 1 waits in \<^verbatim>\<open>LockContext\<close> and
  goroutine 2 in \<^verbatim>\<open>Lock\<close>; \<^verbatim>\<open>Unlock\<close> signals goroutine 1, whose \<^verbatim>\<open>select\<close> finds both channels ready and
  takes \<^verbatim>\<open>ctx.Done()\<close>. Now the mutex is free, goroutine 2 is blocked on its channel whatever the
  inputs, and no other goroutine is inside a call.\<close>

lemma mutex_cancelled_context_loses_wakeup:
  "\<exists>s. run mutex_exec mutex_lost_run (mutex_init 0) = Some s \<and> mstate (mtx s) = 0 \<and>
     mpcs s 2 = MPark False 0 1 \<and> (\<forall>i. mutex_exec (Go 2 i) s = None) \<and>
     (\<forall>t. t = 2 \<or> (\<exists>r. mpcs s t = MRet r))"
  by (simp add: mutex_lost_run_def  mutex_init_def NewMutex_def mutex_step_defs waiter_eval)

end
