(* ===== verification/CondVar.thy ===== *)
theory CondVar
  imports Mutex Waking
begin

text \<open>
  \<^verbatim>\<open>CondVar\<close> of \<^verbatim>\<open>internal/primitives/condvar.go\<close> (lines 159-334), composed with the mutex of the
  theory \<open>Mutex\<close>: \<^verbatim>\<open>Wait\<close> runs \<^verbatim>\<open>m.Unlock()\<close> and \<^verbatim>\<open>m.Lock()\<close> of that model, action by action, on the
  same mutex, and both take their waiters from the same pool.

  A goroutine's program counter is \<open>CM p\<close> while it uses the mutex directly (\<open>CM (MRet RLocked)\<close>: it
  holds it) and otherwise its place in a method of the condition variable. \<open>k\<close> tells \<^verbatim>\<open>Wait\<close>,
  \<^verbatim>\<open>WaitTimeout\<close> and the \<^verbatim>\<open>Wait\<close> inside \<^verbatim>\<open>WaitFor\<close> apart. \<^verbatim>\<open>Signal\<close> and \<^verbatim>\<open>Broadcast\<close> may be called with
  or without the mutex and remember in \<open>r\<close> which. The condition of \<^verbatim>\<open>WaitFor\<close> is the caller's
  function: the input says what it returns.
\<close>

record CondVar =
  cvwaiters :: WaiterQueue
  cvwaits :: int64
  signals :: int64
  broadcasts :: int64
  cvtotalWaitTime :: int64
  cvcreatedAt :: int

definition NewCondVar :: "int \<Rightarrow> CondVar" where
  "NewCondVar t = \<lparr>cvwaiters = NewWaiterQueue, cvwaits = 0, signals = 0, broadcasts = 0,
     cvtotalWaitTime = 0, cvcreatedAt = t\<rparr>"

datatype cvkind = CvWait | CvTimed | CvFor

datatype cvpc =
    CM mpc
  | CCheck cvkind int
  | CEnq cvkind int epc
  | CWaits cvkind int wid
  | CUnlock cvkind int wid mpc
  | CPark cvkind int wid
  | CTCancel int wid
  | CPut cvkind int wid
  | CTime cvkind int bool
  | CLock cvkind bool mpc
  | CRet cvkind bool
  | CCond
  | CPanic string
  | CSignal mret wpc
  | CSigCount mret wid
  | CSigSend mret wid
  | CBcast mret wpc int64
  | CBcastEnd mret int64

type_synonym cvresult = "(cvpc \<times> CondVar \<times> Mutex \<times> wstore) option"

text \<open>The calls \<^verbatim>\<open>m.Unlock()\<close> and \<^verbatim>\<open>m.Lock()\<close> inside the waiting methods.\<close>

definition call_unlock :: "cvkind \<Rightarrow> int \<Rightarrow> wid \<Rightarrow> mpc \<Rightarrow> CondVar \<Rightarrow> Mutex \<Rightarrow> wstore \<Rightarrow> cvresult" where
  "call_unlock k b w p cv m st =
     (case Unlock_step p m st of
        None \<Rightarrow> None
      | Some (p', m', st') \<Rightarrow>
          Some (case p' of
                  MRet RUnlocked \<Rightarrow> CPark k b w
                | MRet (RPanic msg) \<Rightarrow> CPanic msg
                | _ \<Rightarrow> CUnlock k b w p', cv, m', st'))"

definition call_lock :: "inp \<Rightarrow> cvkind \<Rightarrow> bool \<Rightarrow> mpc \<Rightarrow> CondVar \<Rightarrow> Mutex \<Rightarrow> wstore \<Rightarrow> cvresult" where
  "call_lock i k sig p cv m st =
     (case Lock_step i p m st of
        None \<Rightarrow> None
      | Some (p', m', st') \<Rightarrow>
          Some (case p' of
                  MRet RLocked \<Rightarrow> if k = CvFor then CCond else CRet k sig
                | _ \<Rightarrow> CLock k sig p', cv, m', st'))"

definition CV_Wait_step :: "inp \<Rightarrow> cvpc \<Rightarrow> CondVar \<Rightarrow> Mutex \<Rightarrow> wstore \<Rightarrow> cvresult" where
  "CV_Wait_step i pc cv m st = (case pc of
     CCheck k b \<Rightarrow>
       (if k = CvTimed then None
        else Some (if \<not> IsLocked m then CPanic ''condvar: Wait called on unlocked mutex''
                   else CEnq k (now i) ENew, cv, m, st))
   | CEnq k b p \<Rightarrow>
       (if k = CvTimed then None
        else case enter_step i p (cvwaiters cv) st of
          (r, q, st') \<Rightarrow> Some (case r of Inl p' \<Rightarrow> CEnq k b p' | Inr w \<Rightarrow> CWaits k b w,
                             cv\<lparr>cvwaiters := q\<rparr>, m, st'))
   | CWaits k b w \<Rightarrow>
       (if k = CvTimed then None
        else Some (CUnlock k b w UCheck, cv\<lparr>cvwaits := cvwaits cv + 1\<rparr>, m, st))
   | CUnlock k b w p \<Rightarrow> (if k = CvTimed then None else call_unlock k b w p cv m st)
   | CPark k b w \<Rightarrow>
       (if k = CvTimed then None
        else case Wait w st of None \<Rightarrow> None | Some st' \<Rightarrow> Some (CPut k b w, cv, m, st'))
   | CPut k b w \<Rightarrow>
       (if k = CvTimed then None else Some (CTime k b True, cv, m, putWaiter (Some w) st))
   | CTime k b sig \<Rightarrow>
       (if k = CvTimed then None
        else Some (CLock k sig (mutex_entry (now i) OpLock),
                   cv\<lparr>cvtotalWaitTime := cvtotalWaitTime cv + elapsed i b\<rparr>, m, st))
   | CLock k sig p \<Rightarrow> (if k = CvTimed then None else call_lock i k sig p cv m st)
   | _ \<Rightarrow> None)"

definition CV_WaitTimeout_step :: "inp \<Rightarrow> cvpc \<Rightarrow> CondVar \<Rightarrow> Mutex \<Rightarrow> wstore \<Rightarrow> cvresult" where
  "CV_WaitTimeout_step i pc cv m st = (case pc of
     CCheck CvTimed b \<Rightarrow>
       Some (if \<not> IsLocked m then CPanic ''condvar: WaitTimeout called on unlocked mutex''
             else CEnq CvTimed (now i) ENew, cv, m, st)
   | CEnq CvTimed b p \<Rightarrow>
       (case enter_step i p (cvwaiters cv) st of
          (r, q, st') \<Rightarrow> Some (case r of Inl p' \<Rightarrow> CEnq CvTimed b p' | Inr w \<Rightarrow> CWaits CvTimed b w,
                             cv\<lparr>cvwaiters := q\<rparr>, m, st'))
   | CWaits CvTimed b w \<Rightarrow>
       Some (CUnlock CvTimed b w UCheck, cv\<lparr>cvwaits := cvwaits cv + 1\<rparr>, m, st)
   | CUnlock CvTimed b w p \<Rightarrow> call_unlock CvTimed b w p cv m st
   | CPark CvTimed b w \<Rightarrow>
       (case WaitTimeout i w st of
          None \<Rightarrow> None
        | Some (r, st') \<Rightarrow> Some (if r then CPut CvTimed b w else CTCancel b w, cv, m, st'))
   | CTCancel b w \<Rightarrow> Some (CTime CvTimed b False, cv, m, setCancelled w st)
   | CPut CvTimed b w \<Rightarrow> Some (CTime CvTimed b True, cv, m, putWaiter (Some w) st)
   | CTime CvTimed b sig \<Rightarrow>
       Some (CLock CvTimed sig (mutex_entry (now i) OpLock),
             cv\<lparr>cvtotalWaitTime := cvtotalWaitTime cv + elapsed i b\<rparr>, m, st)
   | CLock CvTimed sig p \<Rightarrow> call_lock i CvTimed sig p cv m st
   | _ \<Rightarrow> None)"

text \<open>The head of the loop of \<^verbatim>\<open>WaitFor\<close>; its body is \<^verbatim>\<open>Wait\<close>.\<close>

definition CV_WaitFor_step :: "inp \<Rightarrow> cvpc \<Rightarrow> CondVar \<Rightarrow> Mutex \<Rightarrow> wstore \<Rightarrow> cvresult" where
  "CV_WaitFor_step i pc cv m st = (case pc of
     CCond \<Rightarrow> Some (if pick i \<noteq> 0 then CRet CvFor True else CCheck CvFor 0, cv, m, st)
   | _ \<Rightarrow> None)"

definition CV_Signal_step :: "cvpc \<Rightarrow> CondVar \<Rightarrow> Mutex \<Rightarrow> wstore \<Rightarrow> cvresult" where
  "CV_Signal_step pc cv m st = (case pc of
     CSignal r p \<Rightarrow>
       (case wake_step p (cvwaiters cv) st of
          (x, q, st') \<Rightarrow> Some (case x of
              WMore p' \<Rightarrow> (case p' of WSig w \<Rightarrow> CSigCount r w | _ \<Rightarrow> CSignal r p')
            | _ \<Rightarrow> CM (MRet r), cv\<lparr>cvwaiters := q\<rparr>, m, st'))
   | CSigCount r w \<Rightarrow> Some (CSigSend r w, cv\<lparr>signals := signals cv + 1\<rparr>, m, st)
   | CSigSend r w \<Rightarrow> Some (CM (MRet r), cv, m, Signal w st)
   | _ \<Rightarrow> None)"

definition CV_Broadcast_step :: "cvpc \<Rightarrow> CondVar \<Rightarrow> Mutex \<Rightarrow> wstore \<Rightarrow> cvresult" where
  "CV_Broadcast_step pc cv m st = (case pc of
     CBcast r p n \<Rightarrow>
       (case wake_step p (cvwaiters cv) st of
          (x, q, st') \<Rightarrow> Some (case x of
              WMore p' \<Rightarrow> CBcast r p' n | WOne \<Rightarrow> CBcast r WPop (n + 1) | WNone \<Rightarrow> CBcastEnd r n,
            cv\<lparr>cvwaiters := q\<rparr>, m, st'))
   | CBcastEnd r n \<Rightarrow>
       Some (CM (MRet r), if 0 < sint n then cv\<lparr>broadcasts := broadcasts cv + 1\<rparr> else cv, m, st)
   | _ \<Rightarrow> None)"

definition cv_step :: "inp \<Rightarrow> cvpc \<Rightarrow> CondVar \<Rightarrow> Mutex \<Rightarrow> wstore \<Rightarrow> cvresult" where
  "cv_step i pc cv m st = (case pc of
     CM p \<Rightarrow> (case mutex_step i p m st of
                None \<Rightarrow> None | Some (p', m', st') \<Rightarrow> Some (CM p', cv, m', st'))
   | _ \<Rightarrow> orelse (CV_Wait_step i pc cv m st) (orelse (CV_WaitTimeout_step i pc cv m st)
         (orelse (CV_WaitFor_step i pc cv m st) (orelse (CV_Signal_step pc cv m st)
         (CV_Broadcast_step pc cv m st)))))"

datatype cvop = OpM mop | OpCvWait | OpCvWaitTimeout | OpCvWaitFor | OpCvSignal | OpCvBroadcast

text \<open>What a goroutine may call: the waiting methods only while it holds the mutex, the mutex itself
  under the rule of the theory \<open>Mutex\<close>, the waking methods at any time.\<close>

fun cv_entry :: "int \<Rightarrow> mret \<Rightarrow> cvop \<Rightarrow> cvpc option" where
  "cv_entry t r (OpM op) = (if may_call (MRet r) op then Some (CM (mutex_entry t op)) else None)"
| "cv_entry t r OpCvWait = (if r = RLocked then Some (CCheck CvWait t) else None)"
| "cv_entry t r OpCvWaitTimeout = (if r = RLocked then Some (CCheck CvTimed t) else None)"
| "cv_entry t r OpCvWaitFor = (if r = RLocked then Some CCond else None)"
| "cv_entry t r OpCvSignal = Some (CSignal r WPop)"
| "cv_entry t r OpCvBroadcast = Some (CBcast r WPop 0)"

text \<open>The mutex as seen by a goroutine that is between calls: after the waiting methods it holds
  it.\<close>

fun cv_ret :: "cvpc \<Rightarrow> mret option" where
  "cv_ret (CM (MRet r)) = (case r of RPanic msg \<Rightarrow> None | _ \<Rightarrow> Some r)"
| "cv_ret (CRet k sig) = Some RLocked"
| "cv_ret _ = None"

record cvsys =
  cvar :: CondVar
  cvm :: Mutex
  cvst :: wstore
  cvpcs :: "tid \<Rightarrow> cvpc"

definition cv_init :: "int \<Rightarrow> cvsys" where
  "cv_init t = \<lparr>cvar = NewCondVar t, cvm = NewMutex t, cvst = empty_store,
     cvpcs = (\<lambda>_. CM (MRet RInit))\<rparr>"

fun cv_exec :: "cvop event \<Rightarrow> cvsys \<Rightarrow> cvsys option" where
  "cv_exec (Invoke t i op) s =
     (case cv_ret (cvpcs s t) of
        None \<Rightarrow> None
      | Some r \<Rightarrow> (case cv_entry (now i) r op of
                     None \<Rightarrow> None
                   | Some pc \<Rightarrow> Some (s\<lparr>cvpcs := (cvpcs s)(t := pc)\<rparr>)))"
| "cv_exec (Go t i) s =
     (case cv_step i (cvpcs s t) (cvar s) (cvm s) (cvst s) of
        None \<Rightarrow> None
      | Some (pc, cv, m, st) \<Rightarrow>
          Some \<lparr>cvar = cv, cvm = m, cvst = st, cvpcs = (cvpcs s)(t := pc)\<rparr>)"

record CondVarStats =
  cs_Waits :: int64
  cs_Signals :: int64
  cs_Broadcasts :: int64
  cs_TotalWaitTimeNs :: int64
  cs_WaitersQueued :: int64
  cs_Age :: int

definition CondVar_GetStats :: "int \<Rightarrow> CondVar \<Rightarrow> CondVarStats" where
  "CondVar_GetStats t cv = \<lparr>cs_Waits = cvwaits cv, cs_Signals = signals cv,
     cs_Broadcasts = broadcasts cv, cs_TotalWaitTimeNs = cvtotalWaitTime cv,
     cs_WaitersQueued = Size (cvwaiters cv), cs_Age = t - cvcreatedAt cv\<rparr>"

subsection \<open>The step relation\<close>

text \<open>The place in the mutex that a place in the condition variable stands for, and the waiter a
  goroutine has in the queue of the condition variable.\<close>

fun cv_view :: "cvpc \<Rightarrow> mpc" where
  "cv_view (CM p) = p"
| "cv_view (CUnlock k b w p) = p"
| "cv_view (CPark k b w) = MRet RUnlocked"
| "cv_view (CTCancel b w) = MRet RUnlocked"
| "cv_view (CPut k b w) = MRet RUnlocked"
| "cv_view (CTime k b sig) = MRet RUnlocked"
| "cv_view (CLock k sig p) = p"
| "cv_view (CPanic msg) = MRet (RPanic msg)"
| "cv_view (CSignal r p) = MRet r"
| "cv_view (CSigCount r w) = MRet r"
| "cv_view (CSigSend r w) = MRet r"
| "cv_view (CBcast r p n) = MRet r"
| "cv_view (CBcastEnd r n) = MRet r"
| "cv_view _ = MRet RLocked"

fun cv_wait :: "cvpc \<Rightarrow> (wid \<times> ophase) option" where
  "cv_wait (CEnq k b p) = e_own p"
| "cv_wait (CWaits k b w) = Some (w, Queued)"
| "cv_wait (CUnlock k b w p) = Some (w, Queued)"
| "cv_wait (CPark k b w) = Some (w, Queued)"
| "cv_wait (CTCancel b w) = Some (w, Queued)"
| "cv_wait (CPut k b w) = Some (w, Woken)"
| "cv_wait _ = None"

fun cv_wakes :: "cvpc \<Rightarrow> (wid \<times> hphase) option" where
  "cv_wakes (CSignal r p) = w_hold p"
| "cv_wakes (CSigCount r w) = Some (w, Live)"
| "cv_wakes (CSigSend r w) = Some (w, Live)"
| "cv_wakes (CBcast r p n) = w_hold p"
| "cv_wakes _ = None"

inductive cv_trans ::
    "inp \<Rightarrow> cvpc \<Rightarrow> CondVar \<Rightarrow> Mutex \<Rightarrow> wstore \<Rightarrow> cvpc \<Rightarrow> CondVar \<Rightarrow> Mutex \<Rightarrow> wstore \<Rightarrow> bool" where
  cx_mutex: "mutex_trans i (cv_view pc) m st (cv_view pc') m' st' \<Longrightarrow>
    cv_wait pc' = cv_wait pc \<Longrightarrow> cv_wakes pc = None \<Longrightarrow> cv_wakes pc' = None \<Longrightarrow>
    cv_wait pc = None \<or> m_own (cv_view pc) = None \<and> m_own (cv_view pc') = None \<Longrightarrow>
    cv_trans i pc cv m st pc' cv m' st'"
| cx_check: "IsLocked m \<Longrightarrow> cv_trans i (CCheck k b) cv m st (CEnq k (now i) ENew) cv m st"
| cx_panic: "\<not> IsLocked m \<Longrightarrow> cv_trans i (CCheck k b) cv m st (CPanic msg) cv m st"
| cx_unlock_panic: "\<not> IsLocked m \<Longrightarrow> cv_trans i (CUnlock k b w UCheck) cv m st (CPanic msg) cv m st"
| cx_enq: "enter_step i p (cvwaiters cv) st = (Inl p', q, st') \<Longrightarrow>
    cv_trans i (CEnq k b p) cv m st (CEnq k b p') (cv\<lparr>cvwaiters := q\<rparr>) m st'"
| cx_enqd: "enter_step i p (cvwaiters cv) st = (Inr w, q, st') \<Longrightarrow>
    cv_trans i (CEnq k b p) cv m st (CWaits k b w) (cv\<lparr>cvwaiters := q\<rparr>) m st'"
| cx_waits: "cv_trans i (CWaits k b w) cv m st (CUnlock k b w UCheck)
    (cv\<lparr>cvwaits := cvwaits cv + 1\<rparr>) m st"
| cx_wake: "Ready (objs st w) \<Longrightarrow>
    cv_trans i (CPark k b w) cv m st (CPut k b w) cv m (recvReady w st)"
| cx_timeout: "cv_trans i (CPark k b w) cv m st (CTCancel b w) cv m st"
| cx_cancel: "cv_trans i (CTCancel b w) cv m st (CTime CvTimed b False) cv m (setCancelled w st)"
| cx_put: "cv_trans i (CPut k b w) cv m st (CTime k b True) cv m (putWaiter (Some w) st)"
| cx_time: "cv_trans i (CTime k b sig) cv m st (CLock k sig (MCas1 False (now i)))
    (cv\<lparr>cvtotalWaitTime := cvtotalWaitTime cv + elapsed i b\<rparr>) m st"
| cx_cond: "pc' = CRet CvFor True \<or> pc' = CCheck CvFor 0 \<Longrightarrow> cv_trans i CCond cv m st pc' cv m st"
| cx_signal: "wake_step p (cvwaiters cv) st = (x, q, st') \<Longrightarrow> r_hold x = cv_wakes pc' \<Longrightarrow>
    (\<exists>p'. pc' = CSignal r p') \<or> (\<exists>w. pc' = CSigCount r w) \<or> pc' = CM (MRet r) \<Longrightarrow>
    cv_trans i (CSignal r p) cv m st pc' (cv\<lparr>cvwaiters := q\<rparr>) m st'"
| cx_count: "cv_trans i (CSigCount r w) cv m st (CSigSend r w) (cv\<lparr>signals := signals cv + 1\<rparr>) m st"
| cx_send: "cv_trans i (CSigSend r w) cv m st (CM (MRet r)) cv m (Signal w st)"
| cx_bcast: "wake_step p (cvwaiters cv) st = (x, q, st') \<Longrightarrow> r_hold x = cv_wakes pc' \<Longrightarrow>
    (\<exists>p' n'. pc' = CBcast r p' n') \<or> pc' = CBcastEnd r n \<and> x = WNone \<Longrightarrow>
    cv_trans i (CBcast r p n) cv m st pc' (cv\<lparr>cvwaiters := q\<rparr>) m st'"
| cx_bcast_end: "cvwaiters cv' = cvwaiters cv \<Longrightarrow>
    cv_trans i (CBcastEnd r n) cv m st (CM (MRet r)) cv' m st"

lemma Lock_step_mutex: "Lock_step i p m st = Some x \<Longrightarrow> mutex_step i p m st = Some x"
  by (simp add: mutex_step_def)

lemma Unlock_step_mutex: "Unlock_step p m st = Some x \<Longrightarrow> mutex_step i p m st = Some x"
  by (cases p) (auto simp: mutex_step_defs)

lemma Unlock_step_own:
  "Unlock_step p m st = Some (p', m', st') \<Longrightarrow> m_own p = None \<and> m_own p' = None \<and>
     (p' = MRet r \<longrightarrow> r = RUnlocked \<or> (\<exists>msg. r = RPanic msg) \<and> p = UCheck \<and> m' = m \<and> st' = st \<and> \<not> IsLocked m)"
  by (cases p) (auto simp: Unlock_step_def IsLocked_def split: if_splits option.splits prod.splits)

lemma call_unlock_trans:
  assumes "call_unlock k b w p cv m st = Some (pc', cv', m', st')"
  shows "cv_trans i (CUnlock k b w p) cv m st pc' cv' m' st'"
proof -
  obtain p' where u: "Unlock_step p m st = Some (p', m', st')" and cv': "cv' = cv"
    and pc': "pc' = (case p' of MRet RUnlocked \<Rightarrow> CPark k b w | MRet (RPanic msg) \<Rightarrow> CPanic msg
                     | _ \<Rightarrow> CUnlock k b w p')"
    using assms by (auto simp: call_unlock_def split: option.splits)
  have t: "mutex_trans i p m st p' m' st'"
    by (rule mutex_step_trans [OF Unlock_step_mutex [OF u]])
  note own' = Unlock_step_own [OF u]
  show ?thesis
  proof (cases "\<exists>msg. p' = MRet (RPanic msg)")
    case True
    then obtain msg where p': "p' = MRet (RPanic msg)" by blast
    then show ?thesis using own' [of "RPanic msg"] cv' pc' by (auto intro: cx_unlock_panic)
  next
    case False
    have o: "m_own p = None" "m_own p' = None" using own' by blast+
    have "pc' = CUnlock k b w p' \<or> pc' = CPark k b w \<and> p' = MRet RUnlocked"
      using pc' own' False by (auto split: mpc.splits mret.splits)
    then have v: "cv_view pc' = p'" "cv_wait pc' = Some (w, Queued)" "cv_wakes pc' = None" by auto
    show ?thesis unfolding cv' by (rule cx_mutex) (use t v o in simp_all)
  qed
qed

lemma call_lock_trans:
  assumes "call_lock i k sig p cv m st = Some (pc', cv', m', st')"
  shows "cv_trans i (CLock k sig p) cv m st pc' cv' m' st'"
proof -
  obtain p' where u: "Lock_step i p m st = Some (p', m', st')" and cv': "cv' = cv"
    and pc': "pc' = (case p' of MRet RLocked \<Rightarrow> if k = CvFor then CCond else CRet k sig
                     | _ \<Rightarrow> CLock k sig p')"
    using assms by (auto simp: call_lock_def split: option.splits)
  have t: "mutex_trans i p m st p' m' st'" by (rule mutex_step_trans [OF Lock_step_mutex [OF u]])
  have "cv_view pc' = p'" "cv_wait pc' = None" "cv_wakes pc' = None"
    using pc' by (auto split: mpc.splits mret.splits)
  then show ?thesis unfolding cv' by (intro cx_mutex) (use t in simp_all)
qed

lemma cv_step_trans:
  assumes "cv_step i pc cv m st = Some (pc', cv', m', st')"
  shows "cv_trans i pc cv m st pc' cv' m' st'"
proof (cases pc)
  case (CM p)
  then show ?thesis using assms
    by (auto simp: cv_step_def split: option.splits dest!: mutex_step_trans intro!: cx_mutex)
next
  case (CUnlock k b w p)
  then show ?thesis using assms
    by (cases k) (auto simp: cv_step_def CV_Wait_step_def CV_WaitTimeout_step_def CV_WaitFor_step_def
        CV_Signal_step_def CV_Broadcast_step_def intro!: call_unlock_trans elim: orelse.elims)
next
  case (CLock k sig p)
  then show ?thesis using assms
    by (cases k) (auto simp: cv_step_def CV_Wait_step_def CV_WaitTimeout_step_def CV_WaitFor_step_def
        CV_Signal_step_def CV_Broadcast_step_def intro!: call_lock_trans elim: orelse.elims)
qed (use assms in \<open>auto simp: cv_step_def CV_Wait_step_def CV_WaitTimeout_step_def CV_WaitFor_step_def
        CV_Signal_step_def CV_Broadcast_step_def Wait_def WaitTimeout_def
      split: if_splits option.splits prod.splits sum.splits cvkind.splits wres.splits wpc.splits
      intro: cv_trans.intros\<close>)

lemma cv_exec_cases [consumes 1, case_names call go]:
  assumes "cv_exec e s = Some s'"
  obtains (call) t i op r pc where "e = Invoke t i op" "cv_ret (cvpcs s t) = Some r"
      "cv_entry (now i) r op = Some pc" "s' = s\<lparr>cvpcs := (cvpcs s)(t := pc)\<rparr>"
  | (go) t i pc where "e = Go t i"
      "cv_trans i (cvpcs s t) (cvar s) (cvm s) (cvst s) pc (cvar s') (cvm s') (cvst s')"
      "cvpcs s' = (cvpcs s)(t := pc)"
proof (cases e)
  case (Invoke t i op)
  with assms show ?thesis by (auto split: option.splits intro: call)
next
  case (Go t i)
  with assms show ?thesis by (auto split: option.splits dest!: cv_step_trans intro: go)
qed

subsection \<open>Mutual exclusion\<close>

text \<open>The mutex part of the system is a state of the machine of the theory \<open>Mutex\<close>, so its invariant
  and its lemmas apply.\<close>

definition cvM :: "cvsys \<Rightarrow> msys" where
  "cvM s = \<lparr>mtx = cvm s, mst = cvst s, mpcs = cv_view \<circ> cvpcs s\<rparr>"

lemma cvM_simps [simp]:
  "mtx (cvM s) = cvm s" "mst (cvM s) = cvst s" "mpcs (cvM s) t = cv_view (cvpcs s t)"
  by (simp_all add: cvM_def)

lemma cvM_pcs: "cvpcs s' = (cvpcs s)(t := pc) \<Longrightarrow> mpcs (cvM s') = (mpcs (cvM s))(t := cv_view pc)"
  by (simp add: cvM_def fun_upd_comp)

lemma cv_locked:
  assumes "mutex_excl (cvM s)" "m_holds (cv_view (cvpcs s t))"
  shows "IsLocked (cvm s)"
  using mutex_excl_locked [OF assms(1), of t] assms(2) by (simp add: IsLocked_def)

lemma cv_excl_trans:
  assumes e: "mutex_excl (cvM s)"
    and t: "cv_trans i (cvpcs s t) (cvar s) (cvm s) (cvst s) pc (cvar s') (cvm s') (cvst s')"
    and p: "cvpcs s' = (cvpcs s)(t := pc)"
  shows "mutex_excl (cvM s')"
proof -
  note keep = mutex_excl_keep [OF e _ cvM_pcs [OF p]]
  have ok: "cv_view (cvpcs s t) \<noteq> MRet (RPanic msg)" for msg
    using e unfolding mutex_excl_def by (metis cvM_simps(3))
  from t show ?thesis
  proof (cases rule: cv_trans.cases)
    case cx_mutex
    then show ?thesis by (intro mutex_excl_trans [OF e _ cvM_pcs [OF p]]) auto
  next
    case (cx_panic k b msg)
    then show ?thesis using cv_locked [OF e, of t] by simp
  next
    case (cx_unlock_panic k b w msg)
    then show ?thesis using cv_locked [OF e, of t] by simp
  qed (use ok in \<open>auto intro!: keep\<close>)
qed

lemma cv_entry_view:
  assumes "cv_ret pc0 = Some r" "cv_entry n r op = Some pc"
  shows "m_holds (cv_view pc) = m_holds (cv_view pc0)" "\<forall>msg. cv_view pc \<noteq> MRet (RPanic msg)"
    "cv_wait pc = None" "cv_wait pc0 = None" "m_own (cv_view pc) = None" "m_own (cv_view pc0) = None"
    "cv_wakes pc = None" "cv_wakes pc0 = None" "m_hold (cv_view pc) = None" "m_hold (cv_view pc0) = None"
proof -
  have v: "cv_view pc0 = MRet r" and w: "cv_wait pc0 = None" "cv_wakes pc0 = None"
    and np: "\<forall>msg. r \<noteq> RPanic msg"
    using assms(1) by (cases pc0 rule: cv_ret.cases; auto split: mret.splits)+
  have m: "m_holds (mutex_entry n o') = m_holds (MRet r)" "mutex_entry n o' \<noteq> MRet r'"
    if "may_call (MRet r) o'" for o' r'
    using that by (cases o'; cases r; auto)+
  show "m_holds (cv_view pc) = m_holds (cv_view pc0)" "\<forall>msg. cv_view pc \<noteq> MRet (RPanic msg)"
    "cv_wait pc = None" "m_own (cv_view pc) = None" "cv_wakes pc = None" "m_hold (cv_view pc) = None"
    using assms(2) v np m by (cases op; auto split: if_splits)+
  show "cv_wait pc0 = None" "m_own (cv_view pc0) = None" "cv_wakes pc0 = None"
    "m_hold (cv_view pc0) = None" using v w by simp_all
qed

subsection \<open>The waiter discipline\<close>

definition cv_own :: "cvpc \<Rightarrow> (wid \<times> ophase) option" where
  "cv_own pc = (if cv_wait pc = None then m_own (cv_view pc) else cv_wait pc)"

definition cv_hold :: "cvpc \<Rightarrow> (wid \<times> hphase) option" where
  "cv_hold pc = (if cv_wakes pc = None then m_hold (cv_view pc) else cv_wakes pc)"

definition cvabs :: "cvsys \<Rightarrow> pstate" where
  "cvabs s = \<lparr>own = cv_own \<circ> cvpcs s, hold = cv_hold \<circ> cvpcs s,
     queues = queues2 (items (mwaiters (cvm s))) (items (cvwaiters (cvar s))), store = cvst s\<rparr>"

lemma cvabs_simps [simp]:
  "own (cvabs s) t = cv_own (cvpcs s t)" "hold (cvabs s) t = cv_hold (cvpcs s t)"
  "queues (cvabs s) = queues2 (items (mwaiters (cvm s))) (items (cvwaiters (cvar s)))"
  "store (cvabs s) = cvst s"
  by (simp_all add: cvabs_def)

lemma cvabs_upd:
  "cvpcs s' = (cvpcs s)(t := pc) \<Longrightarrow> own (cvabs s') = (own (cvabs s))(t := cv_own pc)"
  "cvpcs s' = (cvpcs s)(t := pc) \<Longrightarrow> hold (cvabs s') = (hold (cvabs s))(t := cv_hold pc)"
  by (simp_all add: cvabs_def fun_upd_comp)

lemma cvabs_same:
  assumes "cvpcs s' = (cvpcs s)(t := pc)" "cv_own pc = cv_own (cvpcs s t)" "cv_hold pc = cv_hold (cvpcs s t)"
    "items (mwaiters (cvm s')) = items (mwaiters (cvm s))"
    "items (cvwaiters (cvar s')) = items (cvwaiters (cvar s))" "cvst s' = cvst s"
  shows "cvabs s' = cvabs s"
  using assms by (intro pstate_eqI) (auto simp: cvabs_upd fun_upd_idem_iff)

lemma cv_trans_discipline:
  assumes t: "cv_trans i (cvpcs s t) (cvar s) (cvm s) (cvst s) pc (cvar s') (cvm s') (cvst s')"
    and p: "cvpcs s' = (cvpcs s)(t := pc)" and e: "mutex_excl (cvM s)"
  shows "cvabs s' = cvabs s \<or> pstep (cvabs s) (cvabs s')"
  using t
proof (cases rule: cv_trans.cases)
  case cx_mutex
  show ?thesis
    by (rule mutex_trans_pstep [of i "cv_view (cvpcs s t)" "cvm s" _ "cv_view pc" "cvm s'" _ t 0])
       (use cx_mutex p in \<open>auto simp: cvabs_upd cv_own_def cv_hold_def fun_upd_idem_iff\<close>)
next
  case (cx_panic k b msg)
  then show ?thesis using cv_locked [OF e, of t] by simp
next
  case (cx_unlock_panic k b w msg)
  then show ?thesis using cv_locked [OF e, of t] by simp
next
  case (cx_enq p p' q k b)
  show ?thesis
    by (rule enter_step_discipline [of i p "cvwaiters (cvar s)" _ "Inl p'" q _ t "Suc 0"])
       (use cx_enq assms(2) in \<open>auto simp: cvabs_upd cv_own_def cv_hold_def fun_upd_idem_iff\<close>)
next
  case (cx_enqd p w q k b)
  show ?thesis
    by (rule enter_step_discipline [of i p "cvwaiters (cvar s)" _ "Inr w" q _ t "Suc 0"])
       (use cx_enqd assms(2) in \<open>auto simp: cvabs_upd cv_own_def cv_hold_def fun_upd_idem_iff\<close>)
next
  case (cx_signal p x q r)
  show ?thesis
    by (rule wake_step_discipline [of p "cvwaiters (cvar s)" _ x q _ t "Suc 0"])
       (use cx_signal assms(2) in \<open>auto simp: cvabs_upd cv_own_def cv_hold_def fun_upd_idem_iff\<close>)
next
  case (cx_bcast p x q r n)
  show ?thesis
    by (rule wake_step_discipline [of p "cvwaiters (cvar s)" _ x q _ t "Suc 0"])
       (use cx_bcast assms(2) in \<open>auto simp: cvabs_upd cv_own_def cv_hold_def fun_upd_idem_iff\<close>)
next
  case (cx_wake w k b)
  show ?thesis by (rule disjI2, rule pstep_recvI [of _ t w])
      (use cx_wake p in \<open>auto simp: cvabs_upd cv_own_def cv_hold_def fun_upd_idem_iff\<close>)
next
  case (cx_cancel b w)
  show ?thesis by (rule disjI2, rule pstep_cancelI [of _ t w])
      (use cx_cancel p in \<open>auto simp: cvabs_upd cv_own_def cv_hold_def fun_upd_idem_iff\<close>)
next
  case (cx_put k b w)
  show ?thesis by (rule disjI2, rule pstep_putI [of _ t w])
      (use cx_put p in \<open>auto simp: cvabs_upd cv_own_def cv_hold_def fun_upd_idem_iff\<close>)
next
  case (cx_send r w)
  show ?thesis by (rule disjI2, rule pstep_signalI [of _ t w])
      (use cx_send p in \<open>auto simp: cvabs_upd cv_own_def cv_hold_def fun_upd_idem_iff\<close>)
qed (use p in \<open>auto intro!: disjI1 cvabs_same simp: cv_own_def cv_hold_def\<close>)

text \<open>A waiter of the condition variable is never in the queue of the mutex, nor in the hands of a
  goroutine that popped it from there.\<close>

definition cv_sep :: "cvsys \<Rightarrow> bool" where
  "cv_sep s \<longleftrightarrow> (\<forall>t w. cv_wait (cvpcs s t) = Some (w, Queued) \<longrightarrow>
     w \<notin> set (items (mwaiters (cvm s))) \<and> (\<forall>u y. m_hold (cv_view (cvpcs s u)) \<noteq> Some (w, y)))"

lemma mutex_trans_items:
  "mutex_trans i p m st p' m' st' \<Longrightarrow> v \<in> set (items (mwaiters m')) \<Longrightarrow>
     v \<in> set (items (mwaiters m)) \<or> m_own p = Some (v, Fresh)"
  by (erule mutex_trans.cases) (auto simp: deqPop_Some)

lemma mutex_trans_hold:
  "mutex_trans i p m st p' m' st' \<Longrightarrow> m_hold p' = Some (v, y) \<Longrightarrow>
     (\<exists>y'. m_hold p = Some (v, y')) \<or> v \<in> set (items (mwaiters m))"
  by (erule mutex_trans.cases) (auto simp: deqPop_Some)

lemma cv_sep_frame:
  assumes f: "cv_sep s" and p: "cvpcs s' = (cvpcs s)(t := pc)" and m: "mwaiters (cvm s') = mwaiters (cvm s)"
    and h: "m_hold (cv_view pc) = m_hold (cv_view (cvpcs s t))"
    and w: "\<And>w. cv_wait pc = Some (w, Queued) \<Longrightarrow> cv_wait (cvpcs s t) = Some (w, Queued) \<or>
       w \<notin> set (items (mwaiters (cvm s))) \<and> (\<forall>u y. m_hold (cv_view (cvpcs s u)) \<noteq> Some (w, y))"
  shows "cv_sep s'"
proof -
  have "m_hold (cv_view (cvpcs s' u)) = m_hold (cv_view (cvpcs s u))" for u using p h by simp
  moreover have "w \<notin> set (items (mwaiters (cvm s))) \<and> (\<forall>u y. m_hold (cv_view (cvpcs s u)) \<noteq> Some (w, y))"
    if "cv_wait (cvpcs s' u) = Some (w, Queued)" for u w
    using that p w [of w] f unfolding cv_sep_def by (cases "u = t") auto
  ultimately show ?thesis using m unfolding cv_sep_def by simp
qed

lemma cv_sep_trans:
  assumes f: "cv_sep s" and d: "disciplined (cvabs s)"
    and t: "cv_trans i (cvpcs s t) (cvar s) (cvm s) (cvst s) pc (cvar s') (cvm s') (cvst s')"
    and p: "cvpcs s' = (cvpcs s)(t := pc)"
  shows "cv_sep s'"
  using t
proof (cases rule: cv_trans.cases)
  case cx_mutex
  have "w \<notin> set (items (mwaiters (cvm s'))) \<and> (\<forall>v y. m_hold (cv_view (cvpcs s' v)) \<noteq> Some (w, y))"
    if "cv_wait (cvpcs s' u) = Some (w, Queued)" for u w
  proof -
    have c: "cv_wait (cvpcs s u) = Some (w, Queued)" using that p cx_mutex by (auto split: if_splits)
    then have old: "w \<notin> set (items (mwaiters (cvm s)))" "\<And>v y. m_hold (cv_view (cvpcs s v)) \<noteq> Some (w, y)"
      using f unfolding cv_sep_def by blast+
    have "m_own (cv_view (cvpcs s t)) \<noteq> Some (w, Fresh)"
    proof
      assume o: "m_own (cv_view (cvpcs s t)) = Some (w, Fresh)"
      then have "cv_wait (cvpcs s t) = None" using cx_mutex by auto
      then have "own (cvabs s) t = Some (w, Fresh)" using o by (simp add: cv_own_def)
      moreover have "own (cvabs s) u = Some (w, Queued)" using c by (simp add: cv_own_def)
      ultimately have "u = t" using disciplined_own_inj [OF d] by blast
      with c \<open>cv_wait (cvpcs s t) = None\<close> show False by simp
    qed
    then have "w \<notin> set (items (mwaiters (cvm s')))"
      using mutex_trans_items [OF cx_mutex(2)] old(1) by blast
    moreover have "m_hold (cv_view pc) \<noteq> Some (w, y)" for y
      using mutex_trans_hold [OF cx_mutex(2)] old by blast
    ultimately show ?thesis using old(2) p by auto
  qed
  then show ?thesis unfolding cv_sep_def by blast
next
  case (cx_enq p p' q k b)
  have "w \<notin> set (items (mwaiters (cvm s))) \<and> (\<forall>u y. m_hold (cv_view (cvpcs s u)) \<noteq> Some (w, y))"
    if "p = ELink w" for w
  proof -
    have "own (cvabs s) t = Some (w, Fresh)" using that cx_enq(1) by (simp add: cv_own_def)
    then have n: "\<not> queued (cvabs s) w" "\<not> held (cvabs s) w"
      using d owner_placed [of "cvabs s" t] by (auto simp: disciplined_def)
    have "w \<notin> set (queues (cvabs s) 0)" using n(1) unfolding queued_def by blast
    moreover have "m_hold (cv_view (cvpcs s u)) \<noteq> Some (w, y)" for u y
    proof
      assume a: "m_hold (cv_view (cvpcs s u)) = Some (w, y)"
      then have "cv_wakes (cvpcs s u) = None" by (cases "cvpcs s u") auto
      with a have "hold (cvabs s) u = Some (w, y)" by (simp add: cv_hold_def)
      then show False using n(2) heldI by blast
    qed
    ultimately show ?thesis by simp
  qed
  then show ?thesis using cx_enq
    by (intro cv_sep_frame [OF f assms(4)]) (cases p; auto split: prod.splits)+
next
  case (cx_enqd p w q k b)
  then have "p = ESize w" by (cases p) (auto split: prod.splits)
  then show ?thesis using cx_enqd by (intro cv_sep_frame [OF f assms(4)]) auto
qed (use p in \<open>auto intro!: cv_sep_frame [OF f p]\<close>)

definition cv_good :: "cvsys \<Rightarrow> bool" where
  "cv_good s \<longleftrightarrow> mutex_excl (cvM s) \<and> disciplined (cvabs s) \<and> cv_sep s"

lemma cv_good_step:
  assumes g: "cv_good s" and x: "cv_exec e s = Some s'"
  shows "cv_good s'"
proof -
  have e: "mutex_excl (cvM s)" and d: "disciplined (cvabs s)" and f: "cv_sep s"
    using g by (auto simp: cv_good_def)
  from x show ?thesis
  proof (cases rule: cv_exec_cases)
    case (call t i op r pc)
    note v = cv_entry_view [OF call(2,3)]
    have p: "cvpcs s' = (cvpcs s)(t := pc)" using call by simp
    have "mutex_excl (cvM s')"
      by (rule mutex_excl_keep [OF e _ cvM_pcs [OF p]]) (use v call in simp_all)
    moreover have "cvabs s' = cvabs s"
      by (rule cvabs_same [OF p]) (use v call in \<open>simp_all add: cv_own_def cv_hold_def\<close>)
    moreover have "cv_sep s'" by (rule cv_sep_frame [OF f p]) (use v call in simp_all)
    ultimately show ?thesis using d by (simp add: cv_good_def)
  next
    case (go t i pc)
    have "disciplined (cvabs s')"
      using cv_trans_discipline [OF go(2,3) e] pstep_disciplined d by auto
    then show ?thesis using cv_excl_trans [OF e go(2,3)] cv_sep_trans [OF f d go(2,3)]
      by (simp add: cv_good_def)
  qed
qed

lemma cv_good_init: "cv_good (cv_init t0)"
proof -
  have "cvabs (cv_init t0) = pinit"
    by (auto intro!: pstate_eqI simp: cvabs_def cv_init_def pinit_def cv_own_def cv_hold_def
        NewMutex_def NewCondVar_def queues2_def)
  moreover have "cv_sep (cv_init t0)" by (simp add: cv_sep_def cv_init_def)
  moreover have "mutex_excl (cvM (cv_init t0))"
    by (simp add: mutex_excl_def) (simp add: cv_init_def NewMutex_def)
  ultimately show ?thesis by (simp add: cv_good_def disciplined_pinit)
qed

interpretation cv_inv: invariant_machine cv_exec "cv_init t0" cv_good
  by unfold_locales (auto intro: cv_good_init cv_good_step)

lemma cv_registered:
  assumes g: "cv_good s" and w: "cv_wait (cvpcs s t) = Some (w, Queued)"
  shows "w \<in> set (items (cvwaiters (cvar s))) \<or> (\<exists>u x. cv_wakes (cvpcs s u) = Some (w, x)) \<or>
     Ready (objs (cvst s) w)"
proof -
  have "own (cvabs s) t = Some (w, Queued)" using w by (simp add: cv_own_def)
  then have "queued (cvabs s) w \<or> held (cvabs s) w \<or> Ready (objs (cvst s) w)"
    using disciplined_parked [of "cvabs s" t w] g by (simp add: cv_good_def)
  moreover have sep: "w \<notin> set (items (mwaiters (cvm s)))" "\<And>u y. m_hold (cv_view (cvpcs s u)) \<noteq> Some (w, y)"
    using g w unfolding cv_good_def cv_sep_def by blast+
  moreover have "\<exists>u x. cv_wakes (cvpcs s u) = Some (w, x)" if "held (cvabs s) w"
    using that sep(2) by (auto simp: held_def holdW_def cv_hold_def split: if_splits)
  moreover have "w \<in> set (items (cvwaiters (cvar s)))" if "queued (cvabs s) w"
    using that sep(1) by (auto simp: queued_def queues2_def split: if_splits)
  ultimately show ?thesis by blast
qed

subsection \<open>Properties\<close>

lemmas cv_eval = cv_init_def NewCondVar_def NewMutex_def cv_step_def CV_Wait_step_def
  CV_WaitTimeout_step_def CV_WaitFor_step_def CV_Signal_step_def CV_Broadcast_step_def
  call_lock_def call_unlock_def mutex_step_defs IsLocked_def waiter_eval

definition cv_wait_run :: "cvop event list" where
  "cv_wait_run = Invoke 0 inp0 (OpM OpLock) # replicate 2 (Go 0 inp0) @
     Invoke 0 inp0 OpCvWait # replicate 9 (Go 0 inp0)"

definition cv_bcast_run :: "cvop event list" where
  "cv_bcast_run = cv_wait_run @ Invoke 1 inp0 OpCvBroadcast # replicate 4 (Go 1 inp0)"

text \<open>C10. Mutual exclusion survives the condition variable: two goroutines that hold the mutex,
  directly or inside a waiting method before its \<^verbatim>\<open>Unlock\<close> or after its \<^verbatim>\<open>Lock\<close>, are the same; a
  goroutine that has returned from \<^verbatim>\<open>Wait\<close>, \<^verbatim>\<open>WaitTimeout\<close> or \<^verbatim>\<open>WaitFor\<close> holds the locked mutex; and no
  goroutine that waits while holding the mutex meets a panic.\<close>

theorem condvar_mutual_exclusion:
  assumes "reachable cv_exec (cv_init t0) s"
  shows "(\<forall>t u. \<not> (m_holds (cv_view (cvpcs s t)) \<and> m_holds (cv_view (cvpcs s u)) \<and> t \<noteq> u)) \<and>
     (\<forall>t k sig. \<not> (cvpcs s t = CRet k sig \<and> \<not> IsLocked (cvm s))) \<and>
     (\<forall>t msg. cvpcs s t \<noteq> CPanic msg)"
proof -
  have e: "mutex_excl (cvM s)" using cv_inv.reachable_inv [OF assms] by (simp add: cv_good_def)
  have "t = u" if "m_holds (cv_view (cvpcs s t))" "m_holds (cv_view (cvpcs s u))" for t u
    using e that unfolding mutex_excl_def by (metis cvM_simps(3))
  moreover have "IsLocked (cvm s)" if "cvpcs s t = CRet k sig" for t k sig
    using cv_locked [OF e, of t] that by simp
  moreover have "cvpcs s t \<noteq> CPanic msg" for t msg
    using e unfolding mutex_excl_def by (metis cvM_simps(3) cv_view.simps(8))
  ultimately show ?thesis by blast
qed

theorem condvar_mutual_exclusion_witness:
  "\<exists>s. run cv_exec [Invoke 0 inp0 (OpM OpLock), Go 0 inp0, Go 0 inp0] (cv_init 0) = Some s \<and>
     cvpcs s 0 = CM (MRet RLocked) \<and> \<not> m_holds (cv_view (cvpcs s 1))"
proof -
  obtain s where r: "run cv_exec [Invoke 0 inp0 (OpM OpLock), Go 0 inp0, Go 0 inp0] (cv_init 0) = Some s"
    and p: "cvpcs s 0 = CM (MRet RLocked)"
    by (simp add: cv_eval)
  have "m_holds (cv_view (cvpcs s 0))" using p by simp
  then have "\<not> m_holds (cv_view (cvpcs s 1))"
    using condvar_mutual_exclusion [OF run_reachable [OF r]] by (metis zero_neq_one)
  with r p show ?thesis by blast
qed

text \<open>No signal is missed between the \<^verbatim>\<open>Unlock\<close> inside \<^verbatim>\<open>Wait\<close> and the blocking receive: from the
  moment the goroutine starts to release the mutex until it receives, its waiter is in the queue
  of the condition variable, or in the hands of a \<^verbatim>\<open>Signal\<close> or \<^verbatim>\<open>Broadcast\<close> that popped it, or its
  token is in the channel.\<close>

lemma condvar_waiter_registered:
  assumes "reachable cv_exec (cv_init t0) s"
    "cvpcs s t = CUnlock k b w p \<or> cvpcs s t = CPark k b w"
  shows "w \<in> set (items (cvwaiters (cvar s))) \<or> (\<exists>u x. cv_wakes (cvpcs s u) = Some (w, x)) \<or>
     Ready (objs (cvst s) w)"
  using cv_registered [OF cv_inv.reachable_inv [OF assms(1)], of t w] assms(2) by auto

lemma condvar_waiter_registered_witness:
  "\<exists>s. run cv_exec cv_wait_run (cv_init 0) = Some s \<and> cvpcs s 0 = CPark CvWait 0 0 \<and>
     (0 \<in> set (items (cvwaiters (cvar s))) \<or> (\<exists>u x. cv_wakes (cvpcs s u) = Some (0, x)) \<or>
      Ready (objs (cvst s) 0))"
proof -
  obtain s where r: "run cv_exec cv_wait_run (cv_init 0) = Some s" and p: "cvpcs s 0 = CPark CvWait 0 0"
    by (simp add: cv_wait_run_def cv_eval)
  with condvar_waiter_registered [OF run_reachable [OF r], of 0 CvWait 0 0 UCheck] show ?thesis by blast
qed

text \<open>C31. \<^verbatim>\<open>Broadcast\<close> leaves nobody behind: when its last \<^verbatim>\<open>Dequeue\<close> finds the queue empty, every
  goroutine parked in a waiting method has its token or is about to get it.\<close>

theorem condvar_broadcast_reaches_all:
  assumes "reachable cv_exec (cv_init t0) s" "cv_exec (Go u i) s = Some s'"
    "cvpcs s u = CBcast r p n" "cvpcs s' u = CBcastEnd r n'" "cvpcs s' t = CPark k b w"
  shows "Ready (objs (cvst s') w) \<or> (\<exists>v x. cv_wakes (cvpcs s' v) = Some (w, x))"
proof -
  have g: "cv_good s'" using cv_inv.reachable_inv [OF reachable_step [OF assms(1,2)]] .
  have "items (cvwaiters (cvar s')) = []"
    using assms(2)
  proof (cases rule: cv_exec_cases)
    case (go t' i' pc)
    then have "cv_trans i (CBcast r p n) (cvar s) (cvm s) (cvst s) (CBcastEnd r n') (cvar s') (cvm s') (cvst s')"
      using assms(3,4) by simp
    then show ?thesis
    proof (cases rule: cv_trans.cases)
      case cx_mutex
      then show ?thesis by (auto elim: mutex_trans.cases)
    qed (auto dest!: wake_step_none)
  qed simp
  then show ?thesis using cv_registered [OF g, of t w] assms(5) by auto
qed

theorem condvar_broadcast_reaches_all_witness:
  "\<exists>s s'. run cv_exec (cv_bcast_run @ [Go 1 inp0]) (cv_init 0) = Some s' \<and>
     run cv_exec cv_bcast_run (cv_init 0) = Some s \<and> cvpcs s' 0 = CPark CvWait 0 0 \<and>
     (Ready (objs (cvst s') 0) \<or> (\<exists>v x. cv_wakes (cvpcs s' v) = Some (0, x)))"
proof -
  obtain s s' where r: "run cv_exec cv_bcast_run (cv_init 0) = Some s"
    and r': "run cv_exec (cv_bcast_run @ [Go 1 inp0]) (cv_init 0) = Some s'"
    and x: "cv_exec (Go 1 inp0) s = Some s'" and p: "cvpcs s 1 = CBcast RInit WPop 1"
      "cvpcs s' 1 = CBcastEnd RInit 1" "cvpcs s' 0 = CPark CvWait 0 0"
    by (simp add: cv_bcast_run_def cv_wait_run_def cv_eval)
  with condvar_broadcast_reaches_all [OF run_reachable [OF r] x p] show ?thesis by blast
qed

end
