(* ===== verification/Barrier.thy ===== *)
theory Barrier
  imports Waking
begin

text \<open>
  \<^verbatim>\<open>internal/primitives/barrier.go\<close>, action by action: the number of arrivals, the generation, the
  queue of waiters, the three waiting methods, \<^verbatim>\<open>Break\<close> and \<^verbatim>\<open>Reset\<close>.

  The program counters carry \<^verbatim>\<open>startTime\<close> (\<open>b\<close>), the captured \<^verbatim>\<open>generation\<close> (\<open>g\<close>), the own arrival
  number (\<open>a\<close>) and the waiter (\<open>w\<close>). The loop that takes an arrival back
  (\<open>BUndoLoad\<close>, \<open>BUndoCas\<close>) is followed by a return or, after a timeout, by the cancellation of
  the waiter.
\<close>

record Barrier =
  parties :: int32
  arrived :: int32
  generation :: int64
  bwaiters :: WaiterQueue
  broken :: bool
  trips :: int64
  btotalWaitTime :: int64
  bcreatedAt :: int

definition NewBarrier :: "int \<Rightarrow> int32 \<Rightarrow> string + Barrier" where
  "NewBarrier t n =
     (if sint n \<le> 0 then Inl ''barrier: parties must be positive''
      else Inr \<lparr>parties = n, arrived = 0, generation = 0, bwaiters = NewWaiterQueue, broken = False,
                trips = 0, btotalWaitTime = 0, bcreatedAt = t\<rparr>)"

datatype bkind = BPlain | BTimed | BCtx

datatype bret = BInit | BIdx int32 | BErrBroken | BFalse | BDeadline | BCtxErr | BDone

datatype after = ARet bret | ACancel wid

datatype bpc =
    BRet bret
  | BBroken0 bkind int
  | BGen bkind int
  | BArrive bkind int int64
  | BUndoLoad after
  | BUndoCas after int32
  | BTrips int32
  | BStore0 int32
  | BGenAdd int32
  | BWake bret wpc
  | BEnq bkind int int64 int32 epc
  | BRecheck bkind int int64 int32 wid
  | BCancel int int32 wid
  | BTime int int32
  | BPark bkind int int64 int32 wid
  | BTGen int64 wid
  | BTCancel wid
  | BCGen int64
  | BPut bkind int int64 int32 wid
  | BBroken1 bkind int int64 int32
  | BGen2 bkind int int64 int32
  | BBreak
  | BReset0
  | BReset1
  | BReset2

type_synonym bresult = "(bpc \<times> Barrier \<times> wstore) option"

definition bar_wakeAll_step :: "bret \<Rightarrow> wpc \<Rightarrow> Barrier \<Rightarrow> wstore \<Rightarrow> bresult" where
  "bar_wakeAll_step ret p B st =
     (case wake_step p (bwaiters B) st of
        (r, q, st') \<Rightarrow> Some (case r of
            WMore p' \<Rightarrow> BWake ret p' | WOne \<Rightarrow> BWake ret WPop | WNone \<Rightarrow> BRet ret,
          B\<lparr>bwaiters := q\<rparr>, st'))"

text \<open>\<^verbatim>\<open>for { cur := b.arrived.Load(); if cur <= 0 { break }; if b.arrived.CompareAndSwap(cur, cur-1)
  { break } }\<close> and what follows it.\<close>

fun undo_done :: "after \<Rightarrow> bpc" where
  "undo_done (ARet r) = BRet r"
| "undo_done (ACancel w) = BTCancel w"

definition undo_step :: "bpc \<Rightarrow> Barrier \<Rightarrow> wstore \<Rightarrow> bresult" where
  "undo_step pc B st = (case pc of
     BUndoLoad x \<Rightarrow> Some (if sint (arrived B) \<le> 0 then undo_done x else BUndoCas x (arrived B), B, st)
   | BUndoCas x cur \<Rightarrow>
       (if arrived B = cur then Some (undo_done x, B\<lparr>arrived := cur - 1\<rparr>, st)
        else Some (BUndoLoad x, B, st))
   | _ \<Rightarrow> None)"

definition Barrier_Wait_step :: "inp \<Rightarrow> bpc \<Rightarrow> Barrier \<Rightarrow> wstore \<Rightarrow> bresult" where
  "Barrier_Wait_step i pc B st = (case pc of
     BBroken0 BPlain b \<Rightarrow> Some (if broken B then BRet BErrBroken else BGen BPlain b, B, st)
   | BGen BPlain b \<Rightarrow> Some (BArrive BPlain b (generation B), B, st)
   | BArrive BPlain b g \<Rightarrow>
       (let a = arrived B + 1
        in Some (if sint (parties B) < sint a then BUndoLoad (ARet (BIdx (a - 1)))
                 else if a = parties B then BTrips a else BEnq BPlain b g a ENew, B\<lparr>arrived := a\<rparr>, st))
   | BTrips a \<Rightarrow> Some (BStore0 a, B\<lparr>trips := trips B + 1\<rparr>, st)
   | BStore0 a \<Rightarrow> Some (BGenAdd a, B\<lparr>arrived := 0\<rparr>, st)
   | BGenAdd a \<Rightarrow> Some (BWake (BIdx (a - 1)) WPop, B\<lparr>generation := generation B + 1\<rparr>, st)
   | BWake r p \<Rightarrow> bar_wakeAll_step r p B st
   | BEnq BPlain b g a p \<Rightarrow>
       (case enter_step i p (bwaiters B) st of
          (r, q, st') \<Rightarrow> Some (case r of Inl p' \<Rightarrow> BEnq BPlain b g a p' | Inr w \<Rightarrow> BRecheck BPlain b g a w,
                             B\<lparr>bwaiters := q\<rparr>, st'))
   | BRecheck BPlain b g a w \<Rightarrow>
       Some (if sint g < sint (generation B) then BCancel b a w else BPark BPlain b g a w, B, st)
   | BCancel b a w \<Rightarrow> Some (BTime b a, B, setCancelled w st)
   | BTime b a \<Rightarrow>
       Some (BRet (BIdx (a - 1)), B\<lparr>btotalWaitTime := btotalWaitTime B + elapsed i b\<rparr>, st)
   | BPark BPlain b g a w \<Rightarrow>
       (case Wait w st of None \<Rightarrow> None | Some st' \<Rightarrow> Some (BPut BPlain b g a w, B, st'))
   | BPut BPlain b g a w \<Rightarrow> Some (BBroken1 BPlain b g a, B, putWaiter (Some w) st)
   | BBroken1 BPlain b g a \<Rightarrow> Some (if broken B then BRet BErrBroken else BGen2 BPlain b g a, B, st)
   | BGen2 BPlain b g a \<Rightarrow>
       Some (if sint g < sint (generation B) then BTime b a else BRet (BIdx (a - 1)), B, st)
   | _ \<Rightarrow> undo_step pc B st)"

definition Barrier_WaitTimeout_step :: "inp \<Rightarrow> bpc \<Rightarrow> Barrier \<Rightarrow> wstore \<Rightarrow> bresult" where
  "Barrier_WaitTimeout_step i pc B st = (case pc of
     BBroken0 BTimed b \<Rightarrow> Some (if broken B then BRet BFalse else BGen BTimed b, B, st)
   | BGen BTimed b \<Rightarrow> Some (BArrive BTimed b (generation B), B, st)
   | BArrive BTimed b g \<Rightarrow>
       (let a = arrived B + 1
        in Some (if sint (parties B) < sint a then BUndoLoad (ARet BFalse)
                 else if a = parties B then BTrips a else BEnq BTimed b g a ENew, B\<lparr>arrived := a\<rparr>, st))
   | BTrips a \<Rightarrow> Some (BStore0 a, B\<lparr>trips := trips B + 1\<rparr>, st)
   | BStore0 a \<Rightarrow> Some (BGenAdd a, B\<lparr>arrived := 0\<rparr>, st)
   | BGenAdd a \<Rightarrow> Some (BWake (BIdx (a - 1)) WPop, B\<lparr>generation := generation B + 1\<rparr>, st)
   | BWake r p \<Rightarrow> bar_wakeAll_step r p B st
   | BEnq BTimed b g a p \<Rightarrow>
       (case enter_step i p (bwaiters B) st of
          (r, q, st') \<Rightarrow> Some (case r of Inl p' \<Rightarrow> BEnq BTimed b g a p' | Inr w \<Rightarrow> BRecheck BTimed b g a w,
                             B\<lparr>bwaiters := q\<rparr>, st'))
   | BRecheck BTimed b g a w \<Rightarrow>
       Some (if sint g < sint (generation B) then BCancel b a w else BPark BTimed b g a w, B, st)
   | BCancel b a w \<Rightarrow> Some (BTime b a, B, setCancelled w st)
   | BTime b a \<Rightarrow>
       Some (BRet (BIdx (a - 1)), B\<lparr>btotalWaitTime := btotalWaitTime B + elapsed i b\<rparr>, st)
   | BPark BTimed b g a w \<Rightarrow>
       (case WaitTimeout i w st of
          None \<Rightarrow> None
        | Some (r, st') \<Rightarrow> Some (if r then BPut BTimed b g a w else BTGen g w, B, st'))
   | BTGen g w \<Rightarrow> Some (if generation B = g then BUndoLoad (ACancel w) else BTCancel w, B, st)
   | BTCancel w \<Rightarrow> Some (BRet BFalse, B, setCancelled w st)
   | BPut BTimed b g a w \<Rightarrow> Some (BBroken1 BTimed b g a, B, putWaiter (Some w) st)
   | BBroken1 BTimed b g a \<Rightarrow> Some (if broken B then BRet BFalse else BGen2 BTimed b g a, B, st)
   | BGen2 BTimed b g a \<Rightarrow>
       Some (if sint g < sint (generation B) then BTime b a else BRet BFalse, B, st)
   | _ \<Rightarrow> undo_step pc B st)"

definition Barrier_WaitContext_step :: "inp \<Rightarrow> bpc \<Rightarrow> Barrier \<Rightarrow> wstore \<Rightarrow> bresult" where
  "Barrier_WaitContext_step i pc B st = (case pc of
     BBroken0 BCtx b \<Rightarrow> Some (if broken B then BRet BErrBroken else BGen BCtx b, B, st)
   | BGen BCtx b \<Rightarrow> Some (BArrive BCtx b (generation B), B, st)
   | BArrive BCtx b g \<Rightarrow>
       (let a = arrived B + 1
        in Some (if sint (parties B) < sint a then BUndoLoad (ARet BDeadline)
                 else if a = parties B then BTrips a else BEnq BCtx b g a ENew, B\<lparr>arrived := a\<rparr>, st))
   | BTrips a \<Rightarrow> Some (BStore0 a, B\<lparr>trips := trips B + 1\<rparr>, st)
   | BStore0 a \<Rightarrow> Some (BGenAdd a, B\<lparr>arrived := 0\<rparr>, st)
   | BGenAdd a \<Rightarrow> Some (BWake (BIdx (a - 1)) WPop, B\<lparr>generation := generation B + 1\<rparr>, st)
   | BWake r p \<Rightarrow> bar_wakeAll_step r p B st
   | BEnq BCtx b g a p \<Rightarrow>
       (case enter_step i p (bwaiters B) st of
          (r, q, st') \<Rightarrow> Some (case r of Inl p' \<Rightarrow> BEnq BCtx b g a p' | Inr w \<Rightarrow> BRecheck BCtx b g a w,
                             B\<lparr>bwaiters := q\<rparr>, st'))
   | BRecheck BCtx b g a w \<Rightarrow>
       Some (if sint g < sint (generation B) then BCancel b a w else BPark BCtx b g a w, B, st)
   | BCancel b a w \<Rightarrow> Some (BTime b a, B, setCancelled w st)
   | BTime b a \<Rightarrow>
       Some (BRet (BIdx (a - 1)), B\<lparr>btotalWaitTime := btotalWaitTime B + elapsed i b\<rparr>, st)
   | BPark BCtx b g a w \<Rightarrow>
       (case WaitContext i w st of
          None \<Rightarrow> None
        | Some (r, st') \<Rightarrow> Some (if r then BPut BCtx b g a w else BCGen g, B, st'))
   | BCGen g \<Rightarrow> Some (if generation B = g then BUndoLoad (ARet BCtxErr) else BRet BCtxErr, B, st)
   | BPut BCtx b g a w \<Rightarrow> Some (BBroken1 BCtx b g a, B, putWaiter (Some w) st)
   | BBroken1 BCtx b g a \<Rightarrow> Some (if broken B then BRet BErrBroken else BGen2 BCtx b g a, B, st)
   | BGen2 BCtx b g a \<Rightarrow>
       Some (if sint g < sint (generation B) then BTime b a else BRet (BIdx (a - 1)), B, st)
   | _ \<Rightarrow> undo_step pc B st)"

definition Break_step :: "bpc \<Rightarrow> Barrier \<Rightarrow> wstore \<Rightarrow> bresult" where
  "Break_step pc B st = (case pc of
     BBreak \<Rightarrow> Some (BWake BDone WPop, B\<lparr>broken := True\<rparr>, st)
   | BWake r p \<Rightarrow> bar_wakeAll_step r p B st
   | _ \<Rightarrow> None)"

definition Reset_step :: "bpc \<Rightarrow> Barrier \<Rightarrow> wstore \<Rightarrow> bresult" where
  "Reset_step pc B st = (case pc of
     BReset0 \<Rightarrow> Some (BReset1, B\<lparr>broken := False\<rparr>, st)
   | BReset1 \<Rightarrow> Some (BReset2, B\<lparr>arrived := 0\<rparr>, st)
   | BReset2 \<Rightarrow> Some (BWake BDone WPop, B\<lparr>generation := generation B + 1\<rparr>, st)
   | BWake r p \<Rightarrow> bar_wakeAll_step r p B st
   | _ \<Rightarrow> None)"

definition bar_step :: "inp \<Rightarrow> bpc \<Rightarrow> Barrier \<Rightarrow> wstore \<Rightarrow> bresult" where
  "bar_step i pc B st =
     orelse (Barrier_Wait_step i pc B st) (orelse (Barrier_WaitTimeout_step i pc B st)
    (orelse (Barrier_WaitContext_step i pc B st) (orelse (Break_step pc B st) (Reset_step pc B st))))"

datatype bop = OpBWait | OpBWaitTimeout | OpBWaitContext | OpBreak | OpReset

fun bar_entry :: "int \<Rightarrow> bop \<Rightarrow> bpc" where
  "bar_entry t OpBWait = BBroken0 BPlain t"
| "bar_entry t OpBWaitTimeout = BBroken0 BTimed t"
| "bar_entry t OpBWaitContext = BBroken0 BCtx t"
| "bar_entry t OpBreak = BBreak"
| "bar_entry t OpReset = BReset0"

record bsys =
  bar :: Barrier
  bst :: wstore
  bpcs :: "tid \<Rightarrow> bpc"

fun bar_exec :: "bop event \<Rightarrow> bsys \<Rightarrow> bsys option" where
  "bar_exec (Invoke t i op) s =
     (case bpcs s t of
        BRet r \<Rightarrow> Some (s\<lparr>bpcs := (bpcs s)(t := bar_entry (now i) op)\<rparr>)
      | _ \<Rightarrow> None)"
| "bar_exec (Go t i) s =
     (case bar_step i (bpcs s t) (bar s) (bst s) of
        None \<Rightarrow> None
      | Some (pc, B, st) \<Rightarrow> Some \<lparr>bar = B, bst = st, bpcs = (bpcs s)(t := pc)\<rparr>)"

definition bar_init :: "Barrier \<Rightarrow> bsys" where
  "bar_init B = \<lparr>bar = B, bst = empty_store, bpcs = (\<lambda>_. BRet BInit)\<rparr>"

definition IsBroken :: "Barrier \<Rightarrow> bool" where "IsBroken B = broken B"
definition GetParties :: "Barrier \<Rightarrow> int32" where "GetParties B = parties B"
definition GetArrived :: "Barrier \<Rightarrow> int32" where "GetArrived B = arrived B"
definition GetGeneration :: "Barrier \<Rightarrow> int64" where "GetGeneration B = generation B"

record BarrierStats =
  bs_Parties :: int32
  bs_Arrived :: int32
  bs_Generation :: int64
  bs_Trips :: int64
  bs_TotalWaitTimeNs :: int64
  bs_WaitersQueued :: int64
  bs_Age :: int

definition Barrier_GetStats :: "int \<Rightarrow> Barrier \<Rightarrow> BarrierStats" where
  "Barrier_GetStats t B = \<lparr>bs_Parties = parties B, bs_Arrived = arrived B,
     bs_Generation = generation B, bs_Trips = trips B, bs_TotalWaitTimeNs = btotalWaitTime B,
     bs_WaitersQueued = Size (bwaiters B), bs_Age = t - bcreatedAt B\<rparr>"

subsection \<open>The step relation\<close>

text \<open>Guards that no proof below needs are left out of the rules.\<close>

inductive bar_trans :: "inp \<Rightarrow> bpc \<Rightarrow> Barrier \<Rightarrow> wstore \<Rightarrow> bpc \<Rightarrow> Barrier \<Rightarrow> wstore \<Rightarrow> bool" where
  bx_fail: "r = BErrBroken \<or> r = BFalse \<Longrightarrow> pc = BBroken0 k b \<or> pc = BBroken1 k b g a \<Longrightarrow>
    bar_trans i pc B st (BRet r) B st"
| bx_open: "bar_trans i (BBroken0 k b) B st (BGen k b) B st"
| bx_gen: "bar_trans i (BGen k b) B st (BArrive k b (generation B)) B st"
| bx_over: "sint (parties B) < sint (arrived B + 1) \<Longrightarrow> r = BIdx (arrived B) \<or> r = BFalse \<or> r = BDeadline \<Longrightarrow>
    bar_trans i (BArrive k b g) B st (BUndoLoad (ARet r)) (B\<lparr>arrived := arrived B + 1\<rparr>) st"
| bx_last: "arrived B + 1 = parties B \<Longrightarrow>
    bar_trans i (BArrive k b g) B st (BTrips (parties B)) (B\<lparr>arrived := parties B\<rparr>) st"
| bx_arrive: "sint (arrived B + 1) \<le> sint (parties B) \<Longrightarrow> arrived B + 1 \<noteq> parties B \<Longrightarrow>
    bar_trans i (BArrive k b g) B st (BEnq k b g (arrived B + 1) ENew) (B\<lparr>arrived := arrived B + 1\<rparr>) st"
| bx_trips: "bar_trans i (BTrips a) B st (BStore0 a) (B\<lparr>trips := trips B + 1\<rparr>) st"
| bx_store0: "bar_trans i (BStore0 a) B st (BGenAdd a) (B\<lparr>arrived := 0\<rparr>) st"
| bx_gen_add: "pc = BGenAdd a \<and> r = BIdx (a - 1) \<or> pc = BReset2 \<and> r = BDone \<Longrightarrow>
    bar_trans i pc B st (BWake r WPop) (B\<lparr>generation := generation B + 1\<rparr>) st"
| bx_waking: "wake_step p (bwaiters B) st = (r, q, st') \<Longrightarrow>
    r = WMore p' \<or> r = WOne \<and> p' = WPop \<Longrightarrow>
    bar_trans i (BWake x p) B st (BWake x p') (B\<lparr>bwaiters := q\<rparr>) st'"
| bx_woken: "wake_step p (bwaiters B) st = (WNone, q, st') \<Longrightarrow>
    bar_trans i (BWake x p) B st (BRet x) (B\<lparr>bwaiters := q\<rparr>) st'"
| bx_enq: "enter_step i p (bwaiters B) st = (Inl p', q, st') \<Longrightarrow>
    bar_trans i (BEnq k b g a p) B st (BEnq k b g a p') (B\<lparr>bwaiters := q\<rparr>) st'"
| bx_enqd: "enter_step i p (bwaiters B) st = (Inr w, q, st') \<Longrightarrow>
    bar_trans i (BEnq k b g a p) B st (BRecheck k b g a w) (B\<lparr>bwaiters := q\<rparr>) st'"
| bx_tripped: "sint g < sint (generation B) \<Longrightarrow>
    bar_trans i (BRecheck k b g a w) B st (BCancel b a w) B st"
| bx_park: "\<not> sint g < sint (generation B) \<Longrightarrow>
    bar_trans i (BRecheck k b g a w) B st (BPark k b g a w) B st"
| bx_cancel: "bar_trans i (BCancel b a w) B st (BTime b a) B (setCancelled w st)"
| bx_time: "bar_trans i (BTime b a) B st (BRet (BIdx (a - 1)))
    (B\<lparr>btotalWaitTime := btotalWaitTime B + elapsed i b\<rparr>) st"
| bx_wake: "Ready (objs st w) \<Longrightarrow>
    bar_trans i (BPark k b g a w) B st (BPut k b g a w) B (recvReady w st)"
| bx_timeout: "bar_trans i (BPark k b g a w) B st (BTGen g w) B st"
| bx_ctx: "bar_trans i (BPark k b g a w) B st (BCGen g) B (setCancelled w st)"
| bx_undo: "generation B = g \<Longrightarrow> pc = BTGen g w \<and> x = ACancel w \<or> pc = BCGen g \<and> x = ARet BCtxErr \<Longrightarrow>
    bar_trans i pc B st (BUndoLoad x) B st"
| bx_late: "generation B \<noteq> g \<Longrightarrow> pc = BTGen g w \<and> pc' = BTCancel w \<or> pc = BCGen g \<and> pc' = BRet BCtxErr \<Longrightarrow>
    bar_trans i pc B st pc' B st"
| bx_undo_load: "0 < sint (arrived B) \<Longrightarrow>
    bar_trans i (BUndoLoad x) B st (BUndoCas x (arrived B)) B st"
| bx_undo_none: "sint (arrived B) \<le> 0 \<Longrightarrow>
    bar_trans i (BUndoLoad x) B st (undo_done x) B st"
| bx_undo_cas: "arrived B = cur \<Longrightarrow>
    bar_trans i (BUndoCas x cur) B st (undo_done x) (B\<lparr>arrived := cur - 1\<rparr>) st"
| bx_undo_lost: "arrived B \<noteq> cur \<Longrightarrow> bar_trans i (BUndoCas x cur) B st (BUndoLoad x) B st"
| bx_tcancel: "bar_trans i (BTCancel w) B st (BRet BFalse) B (setCancelled w st)"
| bx_put: "bar_trans i (BPut k b g a w) B st (BBroken1 k b g a) B (putWaiter (Some w) st)"
| bx_unbroken: "bar_trans i (BBroken1 k b g a) B st (BGen2 k b g a) B st"
| bx_passed: "bar_trans i (BGen2 k b g a) B st (BTime b a) B st"
| bx_early: "r = BIdx (a - 1) \<or> r = BFalse \<Longrightarrow> bar_trans i (BGen2 k b g a) B st (BRet r) B st"
| bx_break: "bar_trans i BBreak B st (BWake BDone WPop) (B\<lparr>broken := True\<rparr>) st"
| bx_reset0: "bar_trans i BReset0 B st BReset1 (B\<lparr>broken := False\<rparr>) st"
| bx_reset1: "bar_trans i BReset1 B st BReset2 (B\<lparr>arrived := 0\<rparr>) st"

lemmas bar_step_defs = bar_step_def Barrier_Wait_step_def Barrier_WaitTimeout_step_def
  Barrier_WaitContext_step_def Break_step_def Reset_step_def undo_step_def bar_wakeAll_step_def
  WaitContext_def WaitTimeout_def Wait_def orelse_simps

lemma bar_step_trans:
  "bar_step i pc B st = Some (pc', B', st') \<Longrightarrow> bar_trans i pc B st pc' B' st'"
  by (cases pc)
     (auto simp: bar_step_defs Let_def not_less intro: bar_trans.intros
       split: if_splits prod.splits option.splits sum.splits bkind.splits wres.splits)

lemma bar_exec_cases [consumes 1, case_names call go]:
  assumes "bar_exec e s = Some s'"
  obtains (call) t i op r where "e = Invoke t i op" "bpcs s t = BRet r"
      "bar s' = bar s" "bst s' = bst s" "bpcs s' = (bpcs s)(t := bar_entry (now i) op)"
  | (go) t i pc where "e = Go t i" "bar_trans i (bpcs s t) (bar s) (bst s) pc (bar s') (bst s')"
      "bpcs s' = (bpcs s)(t := pc)"
proof (cases e)
  case (Invoke t i op)
  with assms show ?thesis by (auto split: bpc.splits intro: call)
next
  case (Go t i)
  with assms show ?thesis by (auto split: option.splits dest!: bar_step_trans intro: go)
qed

subsection \<open>The waiter discipline\<close>

fun undo_own :: "after \<Rightarrow> (wid \<times> ophase) option" where
  "undo_own (ARet r) = None"
| "undo_own (ACancel w) = Some (w, Queued)"

fun b_own :: "bpc \<Rightarrow> (wid \<times> ophase) option" where
  "b_own (BEnq k b g a p) = e_own p"
| "b_own (BRecheck k b g a w) = Some (w, Queued)"
| "b_own (BCancel b a w) = Some (w, Queued)"
| "b_own (BPark k b g a w) = Some (w, Queued)"
| "b_own (BTGen g w) = Some (w, Queued)"
| "b_own (BUndoLoad x) = undo_own x"
| "b_own (BUndoCas x c) = undo_own x"
| "b_own (BTCancel w) = Some (w, Queued)"
| "b_own (BPut k b g a w) = Some (w, Woken)"
| "b_own _ = None"

fun b_hold :: "bpc \<Rightarrow> (wid \<times> hphase) option" where
  "b_hold (BWake r p) = w_hold p"
| "b_hold _ = None"

definition babs :: "bsys \<Rightarrow> pstate" where
  "babs s = \<lparr>own = b_own \<circ> bpcs s, hold = b_hold \<circ> bpcs s,
             queues = queues1 (items (bwaiters (bar s))), store = bst s\<rparr>"

lemma babs_simps [simp]:
  "own (babs s) t = b_own (bpcs s t)" "hold (babs s) t = b_hold (bpcs s t)"
  "queues (babs s) = queues1 (items (bwaiters (bar s)))" "store (babs s) = bst s"
  by (simp_all add: babs_def)

lemma babs_own: "own (babs s) = b_own \<circ> bpcs s" and babs_hold: "hold (babs s) = b_hold \<circ> bpcs s"
  by (simp_all add: babs_def)

lemmas babs_upd = babs_own babs_hold fun_upd_comp

lemma bar_entry_roles [simp]: "b_own (bar_entry t op) = None" "b_hold (bar_entry t op) = None"
  by (cases op; simp)+

lemma undo_done_roles [simp]: "b_own (undo_done x) = undo_own x" "b_hold (undo_done x) = None"
  by (cases x; simp)+

lemma bar_trans_discipline:
  assumes "bar_trans i (bpcs s t) (bar s) (bst s) pc (bar s') (bst s')" "bpcs s' = (bpcs s)(t := pc)"
  shows "babs s' = babs s \<or> pstep (babs s) (babs s')"
  using assms(1)
proof (cases rule: bar_trans.cases)
  case (bx_enq p p' q k b g a)
  show ?thesis
    by (rule enter_step_discipline [of i p "bwaiters (bar s)" _ "Inl p'" q _ t 0])
       (use bx_enq assms(2) in \<open>auto simp: babs_upd\<close>)
next
  case (bx_enqd p w q k b g a)
  show ?thesis
    by (rule enter_step_discipline [of i p "bwaiters (bar s)" _ "Inr w" q _ t 0])
       (use bx_enqd assms(2) in \<open>auto simp: babs_upd\<close>)
next
  case (bx_waking p r q p' x)
  show ?thesis
    by (rule wake_step_discipline [of p "bwaiters (bar s)" _ r q _ t 0])
       (use bx_waking assms(2) in \<open>auto simp: babs_upd\<close>)
next
  case (bx_woken p q x)
  show ?thesis
    by (rule wake_step_discipline [of p "bwaiters (bar s)" _ WNone q _ t 0])
       (use bx_woken assms(2) in \<open>auto simp: babs_upd\<close>)
next
  case (bx_cancel b a w)
  show ?thesis by (rule disjI2, rule pstep_cancelI [of _ t w]) (use bx_cancel assms(2) in \<open>auto simp: babs_upd\<close>)
next
  case (bx_ctx k b g a w)
  show ?thesis by (rule disjI2, rule pstep_cancelI [of _ t w]) (use bx_ctx assms(2) in \<open>auto simp: babs_upd\<close>)
next
  case (bx_tcancel w)
  show ?thesis by (rule disjI2, rule pstep_cancelI [of _ t w]) (use bx_tcancel assms(2) in \<open>auto simp: babs_upd\<close>)
next
  case (bx_wake w k b g a)
  show ?thesis by (rule disjI2, rule pstep_recvI [of _ t w]) (use bx_wake assms(2) in \<open>auto simp: babs_upd\<close>)
next
  case (bx_put k b g a w)
  show ?thesis by (rule disjI2, rule pstep_putI [of _ t w]) (use bx_put assms(2) in \<open>auto simp: babs_upd\<close>)
qed (auto intro!: pstate_eqI simp: babs_upd assms(2) fun_upd_idem_iff)

lemma bar_discipline_step:
  assumes "bar_exec e s = Some s'"
  shows "babs s' = babs s \<or> pstep (babs s) (babs s')"
  using assms
proof (cases rule: bar_exec_cases)
  case (call t i op r)
  then have "babs s' = babs s" by (auto intro!: pstate_eqI simp: babs_upd fun_upd_idem_iff)
  then show ?thesis ..
next
  case (go t i pc)
  then show ?thesis by (intro bar_trans_discipline) auto
qed

definition fresh_barrier :: "Barrier \<Rightarrow> bool" where
  "fresh_barrier B \<longleftrightarrow> (\<exists>t n. NewBarrier t n = Inr B)"

lemma fresh_barrierD:
  assumes "fresh_barrier B"
  shows "0 < sint (parties B)" "arrived B = 0" "generation B = 0" "bwaiters B = NewWaiterQueue"
    "\<not> broken B"
  using assms by (auto simp: fresh_barrier_def NewBarrier_def split: if_splits)

lemma babs_init: "fresh_barrier B \<Longrightarrow> babs (bar_init B) = pinit"
  by (auto intro!: pstate_eqI
      simp: fresh_barrierD babs_def bar_init_def pinit_def NewWaiterQueue_def queues1_def)

interpretation bar_abs: abstraction bar_exec "bar_init B" pstep babs
  "\<lambda>a. fresh_barrier B \<longrightarrow> disciplined a"
  by unfold_locales
     (auto dest!: bar_discipline_step intro: pstep_disciplined simp: babs_init disciplined_pinit)

subsection \<open>A trip wakes everybody\<close>

fun b_waking :: "bpc \<Rightarrow> bool" where
  "b_waking (BWake r p) = True"
| "b_waking _ = False"

definition bar_live :: "bsys \<Rightarrow> bool" where
  "bar_live s \<longleftrightarrow>
     (\<exists>t k b g a w. bpcs s t = BPark k b g a w \<and> sint g < sint (generation (bar s)) \<and>
        w \<in> set (items (bwaiters (bar s)))) \<longrightarrow>
     (\<exists>u. b_waking (bpcs s u))"

lemma bar_liveI: "b_waking (bpcs s u) \<Longrightarrow> bar_live s"
  by (auto simp: bar_live_def)

lemma bar_live_frame:
  assumes "bar_live s" "generation (bar s') = generation (bar s)"
    "\<And>u k b g a w. bpcs s' u = BPark k b g a w \<Longrightarrow> w \<in> set (items (bwaiters (bar s'))) \<Longrightarrow>
       sint g < sint (generation (bar s)) \<Longrightarrow>
       bpcs s u = BPark k b g a w \<and> w \<in> set (items (bwaiters (bar s)))"
    "\<And>u. b_waking (bpcs s u) \<Longrightarrow> b_waking (bpcs s' u)"
  shows "bar_live s'"
  using assms unfolding bar_live_def by (metis (no_types, lifting))

lemma bar_entry_facts [simp]: "bar_entry t op \<noteq> BPark k b g a w" "bar_entry t op \<noteq> BRet r"
  by (cases op; simp)+

lemma undo_done_facts [simp]: "undo_done x \<noteq> BPark k b g a w" "BTrips n \<noteq> undo_done x" "\<not> b_waking (undo_done x)"
  by (cases x; simp)+

lemma bar_live_trans:
  assumes l: "bar_live s" and d: "disciplined (babs s)"
    and t: "bar_trans i (bpcs s t) (bar s) (bst s) pc (bar s') (bst s')"
    and p: "bpcs s' = (bpcs s)(t := pc)"
  shows "bar_live s'"
  using t
proof (cases rule: bar_trans.cases)
  case (bx_woken p q x)
  then show ?thesis using wake_step_none [OF bx_woken(4)] by (auto simp: bar_live_def)
next
  case (bx_waking p r q p' x)
  then show ?thesis using assms(4) by (intro bar_liveI [of s' t]) simp
next
  case (bx_gen_add a r)
  then show ?thesis using p by (intro bar_liveI [of s' t]) simp
next
  case (bx_enq p p' q k b g a)
  have "v \<in> set (items (bwaiters (bar s)))"
    if "bpcs s u = BPark k' b' g' a' v" "v \<in> set (items q)" for u k' b' g' a' v
    using disciplined_own_inj [OF d, of u v Queued t Fresh] that bx_enq(1)
      enter_step_items [OF bx_enq(4)] by fastforce
  then show ?thesis using bx_enq assms(4)
    by (intro bar_live_frame [OF l]) (auto split: if_splits)
next
  case (bx_enqd p w q k b g a)
  have "p \<noteq> ELink w'" for w' using bx_enqd(4) by auto
  then show ?thesis using bx_enqd assms(4) enter_step_items [OF bx_enqd(4)]
    by (intro bar_live_frame [OF l]) (auto split: if_splits)
qed (use p in \<open>auto intro!: bar_live_frame [OF l] split: if_splits\<close>)

definition bar_good :: "bsys \<Rightarrow> bool" where
  "bar_good s \<longleftrightarrow> disciplined (babs s) \<and> bar_live s"

lemma bar_good_step:
  assumes g: "bar_good s" and x: "bar_exec e s = Some s'"
  shows "bar_good s'"
proof -
  have d: "disciplined (babs s)" "disciplined (babs s')" and l: "bar_live s"
    using g bar_discipline_step [OF x] pstep_disciplined by (auto simp: bar_good_def)
  from x have "bar_live s'"
  proof (cases rule: bar_exec_cases)
    case (call t i op r)
    have "b_waking (bpcs s u) \<Longrightarrow> b_waking (bpcs s' u)" for u using call by (cases "u = t") auto
    then show ?thesis using call by (intro bar_live_frame [OF l]) (auto split: if_splits)
  next
    case (go t i pc)
    then show ?thesis by (intro bar_live_trans [OF l d(1)]) auto
  qed
  with d(2) show ?thesis by (simp add: bar_good_def)
qed

lemma bar_good_init: "fresh_barrier B \<Longrightarrow> bar_good (bar_init B)"
proof -
  assume "fresh_barrier B"
  moreover have "bar_live (bar_init B)" by (simp add: bar_live_def bar_init_def)
  ultimately show ?thesis by (simp add: bar_good_def babs_init disciplined_pinit)
qed

interpretation bar_inv: invariant_machine bar_exec "bar_init B" "\<lambda>s. fresh_barrier B \<longrightarrow> bar_good s"
  by unfold_locales (auto intro: bar_good_init bar_good_step)

lemma b_hold_waking: "b_hold pc = Some x \<Longrightarrow> b_waking pc"
  by (cases pc) auto

lemma b_waking_enabled:
  assumes "b_waking (bpcs s u)"
  shows "bar_exec (Go u i) s \<noteq> None"
  using assms by (cases "bpcs s u") (auto simp: bar_step_defs split: prod.splits wres.splits)

subsection \<open>The first generation\<close>

text \<open>The runs before the first trip, as a proof device (\<^verbatim>\<open>barrier.go\<close> has no such check): \<open>bar_pre\<close> is the
  part of \<open>bar_exec\<close> in which the last arrival has not yet taken its first tripping
  action, nobody breaks or resets the barrier, and fewer than \<open>2 ^ 31\<close> goroutines are inside.\<close>

fun bar_pre :: "bop event \<Rightarrow> bsys \<Rightarrow> bsys option" where
  "bar_pre (Invoke t i op) s =
     (if op = OpBreak \<or> op = OpReset then None else bar_exec (Invoke t i op) s)"
| "bar_pre (Go t i) s =
     (case bpcs s t of
        BTrips a \<Rightarrow> None
      | BArrive k b g \<Rightarrow> if sint (arrived (bar s)) < 2 ^ 31 - 1 then bar_exec (Go t i) s else None
      | _ \<Rightarrow> bar_exec (Go t i) s)"

text \<open>Whether a goroutine has been counted in \<^verbatim>\<open>arrived\<close> and has not taken its arrival back.\<close>

fun b_inside :: "bpc \<Rightarrow> int" where
  "b_inside (BEnq k b g a p) = 1"
| "b_inside (BRecheck k b g a w) = 1"
| "b_inside (BPark k b g a w) = 1"
| "b_inside (BTGen g w) = 1"
| "b_inside (BCGen g) = 1"
| "b_inside (BUndoLoad x) = 1"
| "b_inside (BUndoCas x c) = 1"
| "b_inside (BTrips a) = 1"
| "b_inside _ = 0"

text \<open>A result is given away only to goroutines in excess of the parties.\<close>

fun ret_first :: "int32 \<Rightarrow> bret \<Rightarrow> bool" where
  "ret_first n (BIdx j) = (sint n \<le> sint j)"
| "ret_first n _ = True"

fun after_first :: "int32 \<Rightarrow> after \<Rightarrow> bool" where
  "after_first n (ARet r) = ret_first n r"
| "after_first n (ACancel w) = True"

fun b_first :: "int32 \<Rightarrow> bpc \<Rightarrow> bool" where
  "b_first n (BRet r) = ret_first n r"
| "b_first n (BBroken0 k b) = True"
| "b_first n (BGen k b) = True"
| "b_first n (BArrive k b g) = (g = 0)"
| "b_first n (BEnq k b g a p) = (g = 0)"
| "b_first n (BRecheck k b g a w) = (g = 0)"
| "b_first n (BPark k b g a w) = (g = 0)"
| "b_first n (BTGen g w) = (g = 0)"
| "b_first n (BCGen g) = (g = 0)"
| "b_first n (BUndoLoad x) = after_first n x"
| "b_first n (BUndoCas x c) = (after_first n x \<and> 0 < sint c)"
| "b_first n (BTCancel w) = True"
| "b_first n (BTrips a) = True"
| "b_first n _ = False"

definition bar_first :: "Barrier \<Rightarrow> bsys \<Rightarrow> bool" where
  "bar_first B s \<longleftrightarrow> parties (bar s) = parties B \<and> generation (bar s) = 0 \<and>
     sums_to (b_inside \<circ> bpcs s) (sint (arrived (bar s))) \<and>
     (\<forall>t w x. b_own (bpcs s t) = Some (w, x) \<longrightarrow> \<not> Ready (objs (bst s) w)) \<and>
     (\<forall>t. b_first (parties B) (bpcs s t))"

lemma b_inside_nonneg: "0 \<le> b_inside pc"
  by (cases pc) auto

lemma b_inside_le: "sums_to (b_inside \<circ> f) n \<Longrightarrow> b_inside (f t) \<le> n"
  using sums_to_elem [of "b_inside \<circ> f" n t] b_inside_nonneg by simp

lemma bar_first_move:
  assumes f: "bar_first B s" and p: "bpcs s' = (bpcs s)(t := pc)"
    and n: "parties (bar s') = parties (bar s)" and g: "generation (bar s') = generation (bar s)"
    and a: "sint (arrived (bar s')) = sint (arrived (bar s)) - b_inside (bpcs s t) + b_inside pc"
    and r: "\<And>w. Ready (objs (bst s') w) \<Longrightarrow> Ready (objs (bst s) w)"
    and o: "\<And>w x. b_own pc = Some (w, x) \<Longrightarrow> \<not> Ready (objs (bst s') w)"
    and l: "b_first (parties B) pc"
  shows "bar_first B s'"
proof -
  have tot: "sums_to (b_inside \<circ> bpcs s) (sint (arrived (bar s)))" using f by (simp add: bar_first_def)
  have "b_inside \<circ> bpcs s' = (b_inside \<circ> bpcs s)(t := b_inside pc)" using p by (simp add: fun_upd_comp)
  then have "sums_to (b_inside \<circ> bpcs s') (sint (arrived (bar s')))"
    by (rule sums_to_upd [OF tot]) (use a in simp)
  moreover have "\<not> Ready (objs (bst s') w)" if "b_own (bpcs s' u) = Some (w, x)" for u w x
  proof (cases "u = t")
    case False
    then have "b_own (bpcs s u) = Some (w, x)" using that p by simp
    then have "\<not> Ready (objs (bst s) w)" using f unfolding bar_first_def by blast
    then show ?thesis using r by blast
  qed (use that p o in auto)
  ultimately show ?thesis using f n g p l by (auto simp: bar_first_def)
qed

lemma after_first_done [simp]: "b_first n (undo_done x) = after_first n x" "b_inside (undo_done x) = 0"
  by (cases x; simp)+

lemma bar_first_trans:
  assumes f: "bar_first B s" and t: "bar_trans i (bpcs s t) (bar s) (bst s) pc (bar s') (bst s')"
    and p: "bpcs s' = (bpcs s)(t := pc)" and nt: "\<And>a. bpcs s t \<noteq> BTrips a"
    and small: "\<And>k b g. bpcs s t = BArrive k b g \<Longrightarrow> sint (arrived (bar s)) < 2 ^ 31 - 1"
  shows "bar_first B s'"
proof -
  have l: "b_first (parties B) (bpcs s t)" and n: "parties (bar s) = parties B"
    and g0: "generation (bar s) = 0"
    and own: "\<And>w x. b_own (bpcs s t) = Some (w, x) \<Longrightarrow> \<not> Ready (objs (bst s) w)"
    and tot: "sums_to (b_inside \<circ> bpcs s) (sint (arrived (bar s)))"
    using f by (auto simp: bar_first_def)
  have pos: "b_inside (bpcs s t) \<le> sint (arrived (bar s))" by (rule b_inside_le [OF tot])
  have inc: "sint (arrived (bar s) + 1) = sint (arrived (bar s)) + 1" if "bpcs s t = BArrive k b g" for k b g
    using small [OF that] sint32_range(1) [of "arrived (bar s)"] by (subst sint32_add) auto
  note move = bar_first_move [OF f p]
  from t show ?thesis
  proof (cases rule: bar_trans.cases)
    case (bx_over r k b g)
    then show ?thesis using inc n by (intro move) auto
  next
    case (bx_last k b g)
    then show ?thesis using inc n by (intro move) auto
  next
    case (bx_arrive k b g)
    then show ?thesis using inc l by (intro move) auto
  next
    case (bx_undo_cas cur x)
    then have "sint (cur - 1) = sint cur - 1"
      using l sint32_range(2) [of cur] by (subst sint32_sub) auto
    then show ?thesis using bx_undo_cas l own by (intro move) auto
  next
    case (bx_undo_none x)
    then show ?thesis using pos by simp
  next
    case (bx_enq p p' q k b g a)
    show ?thesis
    proof (rule move)
      show "\<not> Ready (objs (bst s') w)" if "b_own pc = Some (w, x)" for w x
        using that bx_enq own enter_step_ready [OF bx_enq(4)] NewWaiter_objs(1)
        by (cases p) (auto split: prod.splits)
    qed (use bx_enq l enter_step_ready [OF bx_enq(4)] in auto)
  next
    case (bx_enqd p w q k b g a)
    then show ?thesis using l own enter_step_ready [OF bx_enqd(4)]
      by (intro move) (cases p; auto split: prod.splits)+
  next
    case (bx_late g w)
    then show ?thesis using l g0 by auto
  qed (use l own g0 nt in \<open>auto intro!: move\<close>)
qed

lemma bar_pre_exec: "bar_pre e s = Some s' \<Longrightarrow> bar_exec e s = Some s'"
  by (cases "(e, s)" rule: bar_pre.cases) (auto simp del: bar_exec.simps split: if_splits bpc.splits)

lemma bar_first_step:
  assumes f: "bar_first B s" and x: "bar_pre e s = Some s'"
  shows "bar_first B s'"
  using bar_pre_exec [OF x]
proof (cases rule: bar_exec_cases)
  case (call t i op r)
  have "op = OpBWait \<or> op = OpBWaitTimeout \<or> op = OpBWaitContext"
    using x call(1) by (cases op) (auto simp del: bar_exec.simps)
  then show ?thesis using call f by (intro bar_first_move [OF f, of s' t]) auto
next
  case (go t i pc)
  have "bpcs s t \<noteq> BTrips a" "bpcs s t = BArrive k b g \<Longrightarrow> sint (arrived (bar s)) < 2 ^ 31 - 1" for a k b g
    using x go(1) by (auto simp del: bar_exec.simps split: if_splits)
  then show ?thesis using go by (intro bar_first_trans [OF f]) auto
qed

lemma bar_first_init: "fresh_barrier B \<Longrightarrow> bar_first B (bar_init B)"
proof -
  assume f: "fresh_barrier B"
  have "b_inside \<circ> bpcs (bar_init B) = (\<lambda>_. 0)" by (simp add: bar_init_def fun_eq_iff)
  then show ?thesis using fresh_barrierD [OF f] by (simp add: bar_first_def bar_init_def sums_to_0)
qed

interpretation bar_pre_inv: invariant_machine bar_pre "bar_init B" "\<lambda>s. fresh_barrier B \<longrightarrow> bar_first B s"
  by unfold_locales (auto intro: bar_first_init bar_first_step)

subsection \<open>Properties\<close>

lemmas bar_eval = bar_init_def bar_step_defs Let_def waiter_eval

definition barrier_of :: "int32 \<Rightarrow> Barrier" where
  "barrier_of n = \<lparr>parties = n, arrived = 0, generation = 0, bwaiters = NewWaiterQueue, broken = False,
     trips = 0, btotalWaitTime = 0, bcreatedAt = 0\<rparr>"

lemma fresh_barrier_of: "0 < sint n \<Longrightarrow> fresh_barrier (barrier_of n)"
  unfolding fresh_barrier_def
  by (rule exI [of _ 0], rule exI [of _ n]) (simp add: NewBarrier_def barrier_of_def)

text \<open>Goroutine 0 waits, goroutine 1 trips the barrier and wakes it; goroutine 0 comes back for
  the next generation while goroutine 1 is still draining the queue.\<close>

definition bar_early_run :: "bop event list" where
  "bar_early_run =
     Invoke 0 inp0 OpBWait # replicate 7 (Go 0 inp0) @
     Invoke 1 inp0 OpBWait # replicate 10 (Go 1 inp0) @
     replicate 5 (Go 0 inp0) @
     Invoke 0 inp0 OpBWait # replicate 7 (Go 0 inp0) @
     replicate 4 (Go 1 inp0) @ replicate 4 (Go 0 inp0)"

definition bar_break_run :: "bop event list" where
  "bar_break_run =
     Invoke 0 inp0 OpBWait # Go 0 inp0 #
     Invoke 1 inp0 OpBreak # replicate 2 (Go 1 inp0) @ replicate 6 (Go 0 inp0)"

text \<open>Goroutine 0 times out, sees its own generation and is about to take its arrival back; the
  barrier trips and goroutine 2 arrives for the next generation.\<close>

definition bar_steal_run :: "bop event list" where
  "bar_steal_run =
     Invoke 0 inp0 OpBWaitTimeout # replicate 7 (Go 0 inp0) @ [Go 0 inpDone, Go 0 inp0] @
     Invoke 1 inp0 OpBWait # replicate 11 (Go 1 inp0) @
     Invoke 2 inp0 OpBWait # replicate 7 (Go 2 inp0) @
     replicate 3 (Go 0 inp0) @
     Invoke 3 inp0 OpBWait # replicate 7 (Go 3 inp0)"

text \<open>The first generation: until the last
  arrival starts to trip the barrier, no waiting call has returned an index below the number of
  parties, no waiter has a token, and \<^verbatim>\<open>arrived\<close> is exactly the number of goroutines inside,
  whatever times out or is cancelled.\<close>

lemma barrier_first_generation:
  assumes "fresh_barrier B" "reachable bar_pre (bar_init B) s"
  shows "(\<forall>t j. \<not> (bpcs s t = BRet (BIdx j) \<and> sint j < sint (parties B))) \<and>
     (\<forall>t k b g a w. \<not> (bpcs s t = BPark k b g a w \<and> Ready (objs (bst s) w))) \<and>
     sums_to (b_inside \<circ> bpcs s) (sint (arrived (bar s)))"
proof -
  have f: "bar_first B s" using bar_pre_inv.reachable_inv [OF assms(2)] assms(1) by blast
  have "ret_first (parties B) r" if "bpcs s t = BRet r" for t r
    using f that unfolding bar_first_def by (metis b_first.simps(1))
  moreover have "\<not> Ready (objs (bst s) w)" if "bpcs s t = BPark k b g a w" for t k b g a w
    using f that unfolding bar_first_def by (metis b_own.simps(4))
  ultimately show ?thesis using f by (fastforce simp: bar_first_def)
qed

lemma barrier_first_generation_witness:
  "\<exists>s. run bar_pre (Invoke 0 inp0 OpBWait # replicate 7 (Go 0 inp0)) (bar_init (barrier_of 2)) = Some s \<and>
     bpcs s 0 = BPark BPlain 0 0 1 0 \<and> sums_to (b_inside \<circ> bpcs s) 1"
proof -
  obtain s where r: "run bar_pre (Invoke 0 inp0 OpBWait # replicate 7 (Go 0 inp0)) (bar_init (barrier_of 2)) = Some s"
    and p: "bpcs s 0 = BPark BPlain 0 0 1 0" "arrived (bar s) = 1"
    by (simp add: bar_eval barrier_of_def)
  have "fresh_barrier (barrier_of 2)" by (rule fresh_barrier_of) simp
  from barrier_first_generation [OF this run_reachable [OF r]]
  have "sums_to (b_inside \<circ> bpcs s) 1" using p(2) by simp
  with r p show ?thesis by blast
qed

text \<open>The barrier trips for the first time exactly when as many goroutines are inside as it has
  parties.\<close>

lemma barrier_trips_when_full:
  assumes "fresh_barrier B" "reachable bar_pre (bar_init B) s" "bar_pre (Go t i) s = Some s'"
    "bpcs s' t = BTrips a"
  shows "sums_to (b_inside \<circ> bpcs s') (sint (parties B)) \<and> a = parties B"
proof -
  have f: "bar_first B s" "bar_first B s'"
    using bar_pre_inv.reachable_inv [OF assms(2)] bar_pre_inv.reachable_inv [OF reachable_step [OF assms(2,3)]]
      assms(1) by blast+
  have "arrived (bar s') = parties B \<and> a = parties B"
    using bar_pre_exec [OF assms(3)]
  proof (cases rule: bar_exec_cases)
    case (go t' i' pc)
    then have "bar_trans i (bpcs s t) (bar s) (bst s) (BTrips a) (bar s') (bst s')" using assms(4) by simp
    then show ?thesis
      by (cases rule: bar_trans.cases) (use f(1) in \<open>auto simp: bar_first_def\<close>)
  qed simp
  then show ?thesis using f(2) by (simp add: bar_first_def)
qed

lemma barrier_trips_when_full_witness:
  "\<exists>s'. run bar_pre (Invoke 0 inp0 OpBWait # replicate 7 (Go 0 inp0) @
        Invoke 1 inp0 OpBWait # replicate 3 (Go 1 inp0)) (bar_init (barrier_of 2)) = Some s' \<and>
     sums_to (b_inside \<circ> bpcs s') 2"
proof -
  obtain s s' where r: "run bar_pre (Invoke 0 inp0 OpBWait # replicate 7 (Go 0 inp0) @
        Invoke 1 inp0 OpBWait # replicate 2 (Go 1 inp0)) (bar_init (barrier_of 2)) = Some s"
    and r': "run bar_pre (Invoke 0 inp0 OpBWait # replicate 7 (Go 0 inp0) @
        Invoke 1 inp0 OpBWait # replicate 3 (Go 1 inp0)) (bar_init (barrier_of 2)) = Some s'"
    and x: "bar_pre (Go 1 inp0) s = Some s'" and p: "bpcs s' 1 = BTrips 2"
    by (simp add: bar_eval barrier_of_def)
  have "fresh_barrier (barrier_of 2)" by (rule fresh_barrier_of) simp
  from barrier_trips_when_full [OF this run_reachable [OF r] x p]
  have "sums_to (b_inside \<circ> bpcs s') 2" by (simp add: barrier_of_def)
  with r' show ?thesis by blast
qed

text \<open>The runs without \<^verbatim>\<open>Break\<close> and \<^verbatim>\<open>Reset\<close> in which fewer than \<open>2 ^ 31\<close> arrivals are counted at a
  time; trips are part of them.\<close>

fun bar_waits :: "bop event \<Rightarrow> bsys \<Rightarrow> bsys option" where
  "bar_waits (Invoke t i op) s =
     (if op = OpBreak \<or> op = OpReset then None else bar_exec (Invoke t i op) s)"
| "bar_waits (Go t i) s =
     (case bpcs s t of
        BArrive k b g \<Rightarrow> if sint (arrived (bar s)) < 2 ^ 31 - 1 then bar_exec (Go t i) s else None
      | _ \<Rightarrow> bar_exec (Go t i) s)"

lemma bar_waits_pre: "bar_pre e s = Some s' \<Longrightarrow> bar_waits e s = Some s'"
  by (cases "(e, s)" rule: bar_pre.cases) (auto simp del: bar_exec.simps split: if_splits bpc.splits)

lemma bar_waits_cases:
  "bar_waits e s = Some s' \<Longrightarrow> bar_pre e s = Some s' \<or> (\<exists>t i a. e = Go t i \<and> bpcs s t = BTrips a)"
  by (cases "(e, s)" rule: bar_pre.cases) (auto simp del: bar_exec.simps split: if_splits bpc.splits)

text \<open>A goroutine that is about to trip the barrier for the first time was the last to arrive.\<close>

lemma bar_tripper_full:
  assumes "reachable bar_pre (bar_init B) s" "fresh_barrier B" "bpcs s t = BTrips a"
  shows "\<exists>s1. reachable bar_pre (bar_init B) s1 \<and> reachable bar_pre s1 s \<and>
    sums_to (b_inside \<circ> bpcs s1) (sint (parties B))"
  using assms
proof (induction rule: reachable.induct)
  case reachable_init
  then show ?case by (simp add: bar_init_def)
next
  case (reachable_step s e s')
  show ?case
  proof (cases "\<exists>a. bpcs s t = BTrips a")
    case True
    have "bpcs s t = BTrips a"
      using bar_pre_exec [OF reachable_step.hyps(2)] True reachable_step.prems(2) reachable_step.hyps(2)
      by (cases rule: bar_exec_cases) (auto simp del: bar_exec.simps split: if_splits)
    then show ?thesis
      using reachable_step.IH reachable_step.prems(1) reachable.reachable_step [of bar_pre _ s e s'] reachable_step.hyps(2)
      by blast
  next
    case False
    obtain i where "e = Go t i"
      using bar_pre_exec [OF reachable_step.hyps(2)] False reachable_step.prems(2)
      by (cases rule: bar_exec_cases) (auto elim: bar_entry.elims split: if_splits)
    then have "bar_pre (Go t i) s = Some s'" using reachable_step.hyps(2) by simp
    note full = barrier_trips_when_full [OF reachable_step.prems(1) reachable_step.hyps(1) this reachable_step.prems(2)]
    have "reachable bar_pre (bar_init B) s'"
      using reachable.reachable_step [of bar_pre _ s e s'] reachable_step.hyps by blast
    then show ?thesis using full reachable.reachable_init [of bar_pre s'] by blast
  qed
qed

lemma bar_waits_split:
  assumes "reachable bar_waits (bar_init B) s" "fresh_barrier B"
  shows "reachable bar_pre (bar_init B) s \<or>
    (\<exists>s1. reachable bar_waits (bar_init B) s1 \<and> reachable bar_waits s1 s \<and>
      sums_to (b_inside \<circ> bpcs s1) (sint (parties B)))"
  using assms
proof (induction rule: reachable.induct)
  case reachable_init
  then show ?case by (simp add: reachable.reachable_init)
next
  case (reachable_step s e s')
  have more: "reachable bar_waits s1 s'" if "reachable bar_waits s1 s" for s1
    using that reachable.reachable_step [of bar_waits _ s e s'] reachable_step.hyps(2) by blast
  have mono: "reachable bar_waits a b" if "reachable bar_pre a b" for a b
    using reachable_mono [OF that bar_waits_pre] .
  from reachable_step.IH [OF reachable_step.prems] show ?case
  proof
    assume pre: "reachable bar_pre (bar_init B) s"
    from bar_waits_cases [OF reachable_step.hyps(2)] show ?case
    proof
      assume "bar_pre e s = Some s'"
      then show ?case using pre reachable.reachable_step [of bar_pre _ s e s'] by blast
    next
      assume "\<exists>t i a. e = Go t i \<and> bpcs s t = BTrips a"
      then show ?case using bar_tripper_full [OF pre reachable_step.prems] mono more by blast
    qed
  qed (use more in blast)
qed

text \<open>C26. Nobody passes a new barrier before everybody has arrived: when a waiting call has returned an
  index below the number of parties, then at some earlier moment exactly as many goroutines as the
  barrier has parties had arrived without having taken their arrival back, whatever timed out or
  was cancelled. This is about runs in which nobody calls \<^verbatim>\<open>Break\<close> or \<^verbatim>\<open>Reset\<close> and fewer
  than \<open>2 ^ 31\<close> arrivals are counted at a time. It cannot be said of every generation of a reused barrier, see
  \<open>barrier_reuse_releases_early\<close> below; an index of at least the number of parties is what \<^verbatim>\<open>Wait\<close> returns
  to a goroutine in excess.\<close>

theorem barrier_passes_after_all_arrived:
  assumes "fresh_barrier B" "reachable bar_waits (bar_init B) s" "bpcs s t = BRet (BIdx j)"
    "sint j < sint (parties B)"
  shows "\<exists>s1. reachable bar_waits (bar_init B) s1 \<and> reachable bar_waits s1 s \<and>
    sums_to (b_inside \<circ> bpcs s1) (sint (parties B))"
proof -
  have "\<not> reachable bar_pre (bar_init B) s"
    using barrier_first_generation [OF assms(1)] assms(3,4) by blast
  then show ?thesis using bar_waits_split [OF assms(2,1)] by blast
qed

theorem barrier_passes_after_all_arrived_witness:
  "\<exists>s. run bar_waits (Invoke 0 inp0 OpBWait # replicate 7 (Go 0 inp0) @
        Invoke 1 inp0 OpBWait # replicate 11 (Go 1 inp0)) (bar_init (barrier_of 2)) = Some s \<and>
     bpcs s 1 = BRet (BIdx 1) \<and> (\<exists>s1. reachable bar_waits s1 s \<and> sums_to (b_inside \<circ> bpcs s1) 2)"
proof -
  obtain s where r: "run bar_waits (Invoke 0 inp0 OpBWait # replicate 7 (Go 0 inp0) @
        Invoke 1 inp0 OpBWait # replicate 11 (Go 1 inp0)) (bar_init (barrier_of 2)) = Some s"
    and p: "bpcs s 1 = BRet (BIdx 1)"
    by (simp add: bar_eval barrier_of_def)
  have "fresh_barrier (barrier_of 2)" by (rule fresh_barrier_of) simp
  from barrier_passes_after_all_arrived [OF this run_reachable [OF r] p]
  have "\<exists>s1. reachable bar_waits s1 s \<and> sums_to (b_inside \<circ> bpcs s1) 2" by (auto simp: barrier_of_def)
  with r p show ?thesis by blast
qed

text \<open>C30. No trip is missed: a goroutine that is parked although the generation has advanced past
  the one it captured has its token already, or a goroutine is still draining the queue and can
  take its next step. This holds with timeouts, cancellations, \<^verbatim>\<open>Break\<close> and \<^verbatim>\<open>Reset\<close>.\<close>

theorem barrier_no_missed_trip:
  assumes "fresh_barrier B" "reachable bar_exec (bar_init B) s" "bpcs s t = BPark k b g a w"
    "sint g < sint (generation (bar s))"
  shows "Ready (objs (bst s) w) \<or>
     (\<exists>u. b_waking (bpcs s u) \<and> (\<forall>i. bar_exec (Go u i) s \<noteq> None))"
proof -
  have g: "disciplined (babs s)" "bar_live s"
    using bar_inv.reachable_inv [OF assms(2)] assms(1) by (auto simp: bar_good_def)
  have "queued (babs s) w \<or> held (babs s) w \<or> Ready (objs (bst s) w)"
    using disciplined_parked [OF g(1), of t w] assms(3) by simp
  moreover have "\<exists>u. b_waking (bpcs s u)" if "held (babs s) w"
    using that b_hold_waking by (auto simp: held_def holdW_def)
  moreover have "\<exists>u. b_waking (bpcs s u)" if "queued (babs s) w"
  proof -
    have "w \<in> set (items (bwaiters (bar s)))"
      using that by (auto simp: queued_def queues1_def split: if_splits)
    then show ?thesis using assms(3,4) g(2) unfolding bar_live_def by blast
  qed
  ultimately show ?thesis using b_waking_enabled by blast
qed

theorem barrier_no_missed_trip_witness:
  "\<exists>s. run bar_exec (Invoke 0 inp0 OpBWait # replicate 7 (Go 0 inp0) @
        Invoke 1 inp0 OpBWait # replicate 6 (Go 1 inp0)) (bar_init (barrier_of 2)) = Some s \<and>
     bpcs s 0 = BPark BPlain 0 0 1 0 \<and> (\<exists>u. b_waking (bpcs s u))"
proof -
  obtain s where r: "run bar_exec (Invoke 0 inp0 OpBWait # replicate 7 (Go 0 inp0) @
        Invoke 1 inp0 OpBWait # replicate 6 (Go 1 inp0)) (bar_init (barrier_of 2)) = Some s"
    and p: "bpcs s 0 = BPark BPlain 0 0 1 0" and g: "sint (0 :: int64) < sint (generation (bar s))"
    and n: "\<not> Ready (objs (bst s) 0)"
    by (simp add: bar_eval barrier_of_def)
  have "fresh_barrier (barrier_of 2)" by (rule fresh_barrier_of) simp
  from barrier_no_missed_trip [OF this run_reachable [OF r] p g] n
  have "\<exists>u. b_waking (bpcs s u)" by blast
  with r p show ?thesis by blast
qed

text \<open>Reuse releases a goroutine too early: the goroutine that tripped generation 0 also wakes a
  goroutine that has meanwhile arrived for generation 1, which returns index 0 without an error
  although it is the only arrival of its generation.\<close>

lemma barrier_reuse_releases_early:
  "\<exists>s. run bar_exec bar_early_run (bar_init (barrier_of 2)) = Some s \<and>
     bpcs s 0 = BRet (BIdx 0) \<and> generation (bar s) = 1 \<and> arrived (bar s) = 1 \<and>
     bpcs s 1 = BWake (BIdx 1) WPop"
  by (simp add: bar_early_run_def bar_eval barrier_of_def)

text \<open>\<^verbatim>\<open>Break\<close> can strand a goroutine: it passed the check of \<^verbatim>\<open>broken\<close> before \<^verbatim>\<open>Break\<close> and enqueued
  itself after the drain. The barrier is broken, the goroutine is parked without a token, and
  nobody is inside a call that could wake it.\<close>

lemma barrier_break_strands_waiter:
  "\<exists>s. run bar_exec bar_break_run (bar_init (barrier_of 2)) = Some s \<and> broken (bar s) \<and>
     bpcs s 0 = BPark BPlain 0 0 1 0 \<and> (\<forall>i. bar_exec (Go 0 i) s = None) \<and>
     (\<forall>t. t = 0 \<or> (\<exists>r. bpcs s t = BRet r))"
  by (simp add: bar_break_run_def bar_eval barrier_of_def)

text \<open>A timed-out goroutine can take back an arrival of the next generation: it compared the
  generations before the trip and decrements after it. Two goroutines have then arrived at a
  barrier for two, both are parked, the count says 1 and nobody will wake them.\<close>

lemma barrier_timeout_steals_arrival:
  "\<exists>s. run bar_exec bar_steal_run (bar_init (barrier_of 2)) = Some s \<and> arrived (bar s) = 1 \<and>
     generation (bar s) = 1 \<and> bpcs s 2 = BPark BPlain 0 1 1 1 \<and> bpcs s 3 = BPark BPlain 0 1 1 2 \<and>
     (\<forall>i. bar_exec (Go 2 i) s = None) \<and> (\<forall>i. bar_exec (Go 3 i) s = None) \<and>
     (\<forall>t. t = 2 \<or> t = 3 \<or> (\<exists>r. bpcs s t = BRet r))"
  by (simp add: bar_steal_run_def bar_eval barrier_of_def)

end
