(* ===== verification/WaitGroup.thy ===== *)
theory WaitGroup
  imports Waking
begin

text \<open>
  \<^verbatim>\<open>internal/primitives/waitgroup.go\<close>, action by action. \<open>gseen t\<close> is not part of the code: it
  records whether the counter has been 0 at some moment since goroutine \<open>t\<close> called \<^verbatim>\<open>Wait\<close> or
  \<^verbatim>\<open>WaitContext\<close>, which is what these calls promise when they return.

  The field \<^verbatim>\<open>mu\<close> of the struct is never used by the code and has no counterpart here.
\<close>

record WaitGroup =
  gcounter :: int32
  gwaiters :: WaiterQueue
  gcreatedAt :: int
  addCount :: int64
  doneCount :: int64
  waitCount :: int64

definition NewWaitGroup :: "int \<Rightarrow> WaitGroup" where
  "NewWaitGroup t = \<lparr>gcounter = 0, gwaiters = NewWaiterQueue, gcreatedAt = t, addCount = 0,
     doneCount = 0, waitCount = 0\<rparr>"

datatype gret = GInit | GAdded | GWaited | GCtxErr | GNegative int32

text \<open>\<open>c\<close> tells \<^verbatim>\<open>WaitContext\<close> from \<^verbatim>\<open>Wait\<close>.\<close>

datatype gpc =
    GRet gret
  | GAdd int64
  | GAddCount int64 int32
  | GDone
  | GDoneCount int32
  | GWake wpc
  | GLoad bool
  | GWaitCount bool
  | GEnq bool epc
  | GLoad2 bool wid
  | GCancel wid
  | GPark bool wid
  | GPut wid

type_synonym gresult = "(gpc \<times> WaitGroup \<times> wstore) option"

definition wg_wakeAll_step :: "wpc \<Rightarrow> WaitGroup \<Rightarrow> wstore \<Rightarrow> gresult" where
  "wg_wakeAll_step p g st =
     (case wake_step p (gwaiters g) st of
        (r, q, st') \<Rightarrow> Some (case r of
            WMore p' \<Rightarrow> GWake p' | WOne \<Rightarrow> GWake WPop | WNone \<Rightarrow> GRet GAdded,
          g\<lparr>gwaiters := q\<rparr>, st'))"

text \<open>\<^verbatim>\<open>int32(delta)\<close> keeps the low 32 bits of the 64-bit \<^verbatim>\<open>delta\<close>.\<close>

definition WG_Add_step :: "gpc \<Rightarrow> WaitGroup \<Rightarrow> wstore \<Rightarrow> gresult" where
  "WG_Add_step pc g st = (case pc of
     GAdd delta \<Rightarrow>
       (let n = gcounter g + ucast delta
        in Some (if sint n < 0 then GRet (GNegative n) else GAddCount delta n,
                 g\<lparr>gcounter := n\<rparr>, st))
   | GAddCount delta n \<Rightarrow>
       Some (if n = 0 then GWake WPop else GRet GAdded, g\<lparr>addCount := addCount g + delta\<rparr>, st)
   | GWake p \<Rightarrow> wg_wakeAll_step p g st
   | _ \<Rightarrow> None)"

definition WG_Done_step :: "gpc \<Rightarrow> WaitGroup \<Rightarrow> wstore \<Rightarrow> gresult" where
  "WG_Done_step pc g st = (case pc of
     GDone \<Rightarrow>
       (let n = gcounter g + (- 1)
        in Some (if sint n < 0 then GRet (GNegative n) else GDoneCount n, g\<lparr>gcounter := n\<rparr>, st))
   | GDoneCount n \<Rightarrow>
       Some (if n = 0 then GWake WPop else GRet GAdded, g\<lparr>doneCount := doneCount g + 1\<rparr>, st)
   | GWake p \<Rightarrow> wg_wakeAll_step p g st
   | _ \<Rightarrow> None)"

definition WG_Wait_step :: "inp \<Rightarrow> gpc \<Rightarrow> WaitGroup \<Rightarrow> wstore \<Rightarrow> gresult" where
  "WG_Wait_step i pc g st = (case pc of
     GLoad False \<Rightarrow> Some (if gcounter g = 0 then GRet GWaited else GWaitCount False, g, st)
   | GWaitCount False \<Rightarrow> Some (GEnq False ENew, g\<lparr>waitCount := waitCount g + 1\<rparr>, st)
   | GEnq False p \<Rightarrow>
       (case enter_step i p (gwaiters g) st of
          (r, q, st') \<Rightarrow> Some (case r of Inl p' \<Rightarrow> GEnq False p' | Inr w \<Rightarrow> GLoad2 False w,
                             g\<lparr>gwaiters := q\<rparr>, st'))
   | GLoad2 False w \<Rightarrow> Some (if gcounter g = 0 then GCancel w else GPark False w, g, st)
   | GCancel w \<Rightarrow> Some (GRet GWaited, g, setCancelled w st)
   | GPark False w \<Rightarrow> (case Wait w st of None \<Rightarrow> None | Some st' \<Rightarrow> Some (GPut w, g, st'))
   | GPut w \<Rightarrow> Some (GRet GWaited, g, putWaiter (Some w) st)
   | _ \<Rightarrow> None)"

definition WG_WaitContext_step :: "inp \<Rightarrow> gpc \<Rightarrow> WaitGroup \<Rightarrow> wstore \<Rightarrow> gresult" where
  "WG_WaitContext_step i pc g st = (case pc of
     GLoad True \<Rightarrow> Some (if gcounter g = 0 then GRet GWaited else GWaitCount True, g, st)
   | GWaitCount True \<Rightarrow> Some (GEnq True ENew, g\<lparr>waitCount := waitCount g + 1\<rparr>, st)
   | GEnq True p \<Rightarrow>
       (case enter_step i p (gwaiters g) st of
          (r, q, st') \<Rightarrow> Some (case r of Inl p' \<Rightarrow> GEnq True p' | Inr w \<Rightarrow> GLoad2 True w,
                             g\<lparr>gwaiters := q\<rparr>, st'))
   | GLoad2 True w \<Rightarrow> Some (if gcounter g = 0 then GCancel w else GPark True w, g, st)
   | GCancel w \<Rightarrow> Some (GRet GWaited, g, setCancelled w st)
   | GPark True w \<Rightarrow>
       (case WaitContext i w st of
          None \<Rightarrow> None
        | Some (r, st') \<Rightarrow> Some (if r then GPut w else GRet GCtxErr, g, st'))
   | GPut w \<Rightarrow> Some (GRet GWaited, g, putWaiter (Some w) st)
   | _ \<Rightarrow> None)"

definition wg_step :: "inp \<Rightarrow> gpc \<Rightarrow> WaitGroup \<Rightarrow> wstore \<Rightarrow> gresult" where
  "wg_step i pc g st =
     orelse (WG_Add_step pc g st) (orelse (WG_Done_step pc g st)
    (orelse (WG_Wait_step i pc g st) (WG_WaitContext_step i pc g st)))"

datatype gop = OpAdd int64 | OpDone | OpWait | OpWaitContext

fun wg_entry :: "gop \<Rightarrow> gpc" where
  "wg_entry (OpAdd d) = GAdd d"
| "wg_entry OpDone = GDone"
| "wg_entry OpWait = GLoad False"
| "wg_entry OpWaitContext = GLoad True"

fun wg_idle :: "gpc \<Rightarrow> bool" where
  "wg_idle (GRet (GNegative n)) = False"
| "wg_idle (GRet r) = True"
| "wg_idle _ = False"

record gsys =
  wg :: WaitGroup
  gst :: wstore
  gpcs :: "tid \<Rightarrow> gpc"
  gseen :: "tid \<Rightarrow> bool"

definition wg_init :: "int \<Rightarrow> gsys" where
  "wg_init t = \<lparr>wg = NewWaitGroup t, gst = empty_store, gpcs = (\<lambda>_. GRet GInit),
     gseen = (\<lambda>_. True)\<rparr>"

fun wg_exec :: "gop event \<Rightarrow> gsys \<Rightarrow> gsys option" where
  "wg_exec (Invoke t i op) s =
     (if wg_idle (gpcs s t)
      then Some (s\<lparr>gpcs := (gpcs s)(t := wg_entry op),
                   gseen := (gseen s)(t := gcounter (wg s) = 0)\<rparr>) else None)"
| "wg_exec (Go t i) s =
     (case wg_step i (gpcs s t) (wg s) (gst s) of
        None \<Rightarrow> None
      | Some (pc, g, st) \<Rightarrow> Some \<lparr>wg = g, gst = st, gpcs = (gpcs s)(t := pc),
                                 gseen = (\<lambda>u. gseen s u \<or> gcounter g = 0)\<rparr>)"

definition WG_GetCount :: "WaitGroup \<Rightarrow> int32" where
  "WG_GetCount g = gcounter g"

record WaitGroupStats =
  gs_Count :: int32
  gs_AddCount :: int64
  gs_DoneCount :: int64
  gs_WaitCount :: int64
  gs_Age :: int

definition WaitGroup_GetStats :: "int \<Rightarrow> WaitGroup \<Rightarrow> WaitGroupStats" where
  "WaitGroup_GetStats t g = \<lparr>gs_Count = gcounter g, gs_AddCount = addCount g,
     gs_DoneCount = doneCount g, gs_WaitCount = waitCount g, gs_Age = t - gcreatedAt g\<rparr>"

subsection \<open>The step relation\<close>

inductive wg_trans :: "inp \<Rightarrow> gpc \<Rightarrow> WaitGroup \<Rightarrow> wstore \<Rightarrow> gpc \<Rightarrow> WaitGroup \<Rightarrow> wstore \<Rightarrow> bool" where
  gx_add: "pc = GAdd d \<and> n = gcounter g + ucast d \<and> pc' = GAddCount d n \<or>
      pc = GDone \<and> n = gcounter g - 1 \<and> pc' = GDoneCount n \<Longrightarrow>
    wg_trans i pc g st pc' (g\<lparr>gcounter := n\<rparr>) st"
| gx_negative: "pc = GAdd d \<and> n = gcounter g + ucast d \<or> pc = GDone \<and> n = gcounter g - 1 \<Longrightarrow>
    sint n < 0 \<Longrightarrow> wg_trans i pc g st (GRet (GNegative n)) (g\<lparr>gcounter := n\<rparr>) st"
| gx_zero: "pc = GAddCount d 0 \<and> g' = g\<lparr>addCount := addCount g + d\<rparr> \<or>
      pc = GDoneCount 0 \<and> g' = g\<lparr>doneCount := doneCount g + 1\<rparr> \<Longrightarrow>
    wg_trans i pc g st (GWake WPop) g' st"
| gx_nonzero: "n \<noteq> 0 \<Longrightarrow> pc = GAddCount d n \<and> g' = g\<lparr>addCount := addCount g + d\<rparr> \<or>
      pc = GDoneCount n \<and> g' = g\<lparr>doneCount := doneCount g + 1\<rparr> \<Longrightarrow>
    wg_trans i pc g st (GRet GAdded) g' st"
| gx_waking: "wake_step p (gwaiters g) st = (r, q, st') \<Longrightarrow>
    r = WMore p' \<or> r = WOne \<and> p' = WPop \<Longrightarrow>
    wg_trans i (GWake p) g st (GWake p') (g\<lparr>gwaiters := q\<rparr>) st'"
| gx_woken: "wake_step p (gwaiters g) st = (WNone, q, st') \<Longrightarrow>
    wg_trans i (GWake p) g st (GRet GAdded) (g\<lparr>gwaiters := q\<rparr>) st'"
| gx_load0: "gcounter g = 0 \<Longrightarrow> wg_trans i (GLoad c) g st (GRet GWaited) g st"
| gx_load: "gcounter g \<noteq> 0 \<Longrightarrow> wg_trans i (GLoad c) g st (GWaitCount c) g st"
| gx_count: "wg_trans i (GWaitCount c) g st (GEnq c ENew) (g\<lparr>waitCount := waitCount g + 1\<rparr>) st"
| gx_enq: "enter_step i p (gwaiters g) st = (Inl p', q, st') \<Longrightarrow>
    wg_trans i (GEnq c p) g st (GEnq c p') (g\<lparr>gwaiters := q\<rparr>) st'"
| gx_enqd: "enter_step i p (gwaiters g) st = (Inr w, q, st') \<Longrightarrow>
    wg_trans i (GEnq c p) g st (GLoad2 c w) (g\<lparr>gwaiters := q\<rparr>) st'"
| gx_recheck0: "gcounter g = 0 \<Longrightarrow> wg_trans i (GLoad2 c w) g st (GCancel w) g st"
| gx_park: "gcounter g \<noteq> 0 \<Longrightarrow> wg_trans i (GLoad2 c w) g st (GPark c w) g st"
| gx_cancel: "wg_trans i (GCancel w) g st (GRet GWaited) g (setCancelled w st)"
| gx_wake: "Ready (objs st w) \<Longrightarrow> wg_trans i (GPark c w) g st (GPut w) g (recvReady w st)"
| gx_ctx: "ctxArm i \<Longrightarrow> wg_trans i (GPark True w) g st (GRet GCtxErr) g (setCancelled w st)"
| gx_put: "wg_trans i (GPut w) g st (GRet GWaited) g (putWaiter (Some w) st)"

lemmas wg_step_defs = wg_step_def WG_Add_step_def WG_Done_step_def WG_Wait_step_def
  WG_WaitContext_step_def wg_wakeAll_step_def WaitContext_def Wait_def orelse_simps

lemma wg_step_trans:
  "wg_step i pc g st = Some (pc', g', st') \<Longrightarrow> wg_trans i pc g st pc' g' st'"
  by (cases pc)
     (auto simp: wg_step_defs Let_def intro: wg_trans.intros
       split: if_splits prod.splits option.splits sum.splits bool.splits wres.splits)

lemma wg_exec_cases [consumes 1, case_names call go]:
  assumes "wg_exec e s = Some s'"
  obtains (call) t i op r where "e = Invoke t i op" "gpcs s t = GRet r"
      "wg s' = wg s" "gst s' = gst s" "gpcs s' = (gpcs s)(t := wg_entry op)"
      "gseen s' = (gseen s)(t := gcounter (wg s) = 0)"
  | (go) t i pc where "e = Go t i" "wg_trans i (gpcs s t) (wg s) (gst s) pc (wg s') (gst s')"
      "gpcs s' = (gpcs s)(t := pc)" "gseen s' = (\<lambda>u. gseen s u \<or> gcounter (wg s') = 0)"
proof (cases e)
  case (Invoke t i op)
  with assms have m: "wg_idle (gpcs s t)"
    and s': "s' = s\<lparr>gpcs := (gpcs s)(t := wg_entry op), gseen := (gseen s)(t := gcounter (wg s) = 0)\<rparr>"
    by (auto split: if_splits)
  from m obtain r where "gpcs s t = GRet r" by (cases "gpcs s t") auto
  with Invoke s' show ?thesis by (intro call) auto
next
  case (Go t i)
  with assms show ?thesis by (auto split: option.splits dest!: wg_step_trans intro: go)
qed

subsection \<open>The waiter discipline\<close>

fun g_own :: "gpc \<Rightarrow> (wid \<times> ophase) option" where
  "g_own (GEnq c p) = e_own p"
| "g_own (GLoad2 c w) = Some (w, Queued)"
| "g_own (GCancel w) = Some (w, Queued)"
| "g_own (GPark c w) = Some (w, Queued)"
| "g_own (GPut w) = Some (w, Woken)"
| "g_own _ = None"

fun g_hold :: "gpc \<Rightarrow> (wid \<times> hphase) option" where
  "g_hold (GWake p) = w_hold p"
| "g_hold _ = None"

definition gabs :: "gsys \<Rightarrow> pstate" where
  "gabs s = \<lparr>own = g_own \<circ> gpcs s, hold = g_hold \<circ> gpcs s,
             queues = queues1 (items (gwaiters (wg s))), store = gst s\<rparr>"

lemma gabs_simps [simp]:
  "own (gabs s) t = g_own (gpcs s t)" "hold (gabs s) t = g_hold (gpcs s t)"
  "queues (gabs s) = queues1 (items (gwaiters (wg s)))" "store (gabs s) = gst s"
  by (simp_all add: gabs_def)

lemma gabs_own: "own (gabs s) = g_own \<circ> gpcs s" and gabs_hold: "hold (gabs s) = g_hold \<circ> gpcs s"
  by (simp_all add: gabs_def)

lemmas gabs_upd = gabs_own gabs_hold fun_upd_comp

lemma wg_entry_roles [simp]: "g_own (wg_entry op) = None" "g_hold (wg_entry op) = None"
  by (cases op; simp)+

lemma wg_trans_discipline:
  assumes "wg_trans i (gpcs s t) (wg s) (gst s) pc (wg s') (gst s')" "gpcs s' = (gpcs s)(t := pc)"
  shows "gabs s' = gabs s \<or> pstep (gabs s) (gabs s')"
  using assms(1)
proof (cases rule: wg_trans.cases)
  case (gx_enq p p' q c)
  show ?thesis
    by (rule enter_step_discipline [of i p "gwaiters (wg s)" _ "Inl p'" q _ t 0])
       (use gx_enq assms(2) in \<open>auto simp: gabs_upd\<close>)
next
  case (gx_enqd p w q c)
  show ?thesis
    by (rule enter_step_discipline [of i p "gwaiters (wg s)" _ "Inr w" q _ t 0])
       (use gx_enqd assms(2) in \<open>auto simp: gabs_upd\<close>)
next
  case (gx_waking p r q p')
  show ?thesis
    by (rule wake_step_discipline [of p "gwaiters (wg s)" _ r q _ t 0])
       (use gx_waking assms(2) in \<open>auto simp: gabs_upd\<close>)
next
  case (gx_woken p q)
  show ?thesis
    by (rule wake_step_discipline [of p "gwaiters (wg s)" _ WNone q _ t 0])
       (use gx_woken assms(2) in \<open>auto simp: gabs_upd\<close>)
next
  case (gx_cancel w)
  show ?thesis by (rule disjI2, rule pstep_cancelI [of _ t w]) (use gx_cancel assms(2) in \<open>auto simp: gabs_upd\<close>)
next
  case (gx_ctx w)
  show ?thesis by (rule disjI2, rule pstep_cancelI [of _ t w]) (use gx_ctx assms(2) in \<open>auto simp: gabs_upd\<close>)
next
  case (gx_wake w c)
  show ?thesis by (rule disjI2, rule pstep_recvI [of _ t w]) (use gx_wake assms(2) in \<open>auto simp: gabs_upd\<close>)
next
  case (gx_put w)
  show ?thesis by (rule disjI2, rule pstep_putI [of _ t w]) (use gx_put assms(2) in \<open>auto simp: gabs_upd\<close>)
qed (auto intro!: pstate_eqI simp: gabs_upd assms(2) fun_upd_idem_iff)

lemma wg_discipline_step:
  assumes "wg_exec e s = Some s'"
  shows "gabs s' = gabs s \<or> pstep (gabs s) (gabs s')"
  using assms
proof (cases rule: wg_exec_cases)
  case (call t i op r)
  then have "gabs s' = gabs s" by (auto intro!: pstate_eqI simp: gabs_upd fun_upd_idem_iff)
  then show ?thesis ..
next
  case (go t i pc)
  then show ?thesis by (intro wg_trans_discipline) auto
qed

lemma gabs_init: "gabs (wg_init t0) = pinit"
  by (auto intro!: pstate_eqI
      simp: gabs_def wg_init_def pinit_def NewWaitGroup_def NewWaiterQueue_def queues1_def)

interpretation wg_abs: abstraction wg_exec "wg_init t0" pstep gabs disciplined
  by unfold_locales
     (auto dest!: wg_discipline_step intro: pstep_disciplined simp: gabs_init disciplined_pinit)

subsection \<open>No wakeup is lost\<close>

text \<open>A goroutine that has brought the counter to 0 and has not finished draining the queue.\<close>

fun g_waking :: "gpc \<Rightarrow> bool" where
  "g_waking (GAddCount d n) = (n = 0)"
| "g_waking (GDoneCount n) = (n = 0)"
| "g_waking (GWake p) = True"
| "g_waking _ = False"

definition wg_live :: "gsys \<Rightarrow> bool" where
  "wg_live s \<longleftrightarrow> (gcounter (wg s) = 0 \<longrightarrow>
     (\<exists>t c w. gpcs s t = GPark c w \<and> w \<in> set (items (gwaiters (wg s)))) \<longrightarrow>
     (\<exists>u. g_waking (gpcs s u)))"

lemma wg_liveI: "g_waking (gpcs s u) \<Longrightarrow> wg_live s"
  by (auto simp: wg_live_def)

lemma wg_live_frame:
  assumes "wg_live s" "gcounter (wg s') = 0 \<Longrightarrow> gcounter (wg s) = 0"
    "\<And>u c w. gpcs s' u = GPark c w \<Longrightarrow> w \<in> set (items (gwaiters (wg s'))) \<Longrightarrow>
       gcounter (wg s') = 0 \<Longrightarrow> gpcs s u = GPark c w \<and> w \<in> set (items (gwaiters (wg s)))"
    "\<And>u. g_waking (gpcs s u) \<Longrightarrow> g_waking (gpcs s' u)"
  shows "wg_live s'"
  using assms unfolding wg_live_def by blast

lemma wg_live_trans:
  assumes l: "wg_live s" and d: "disciplined (gabs s)"
    and t: "wg_trans i (gpcs s t) (wg s) (gst s) pc (wg s') (gst s')"
    and p: "gpcs s' = (gpcs s)(t := pc)"
  shows "wg_live s'"
  using t
proof (cases rule: wg_trans.cases)
  case (gx_add d' n)
  then show ?thesis
    using p by (cases "n = 0") (auto intro!: wg_liveI [of s' t] simp: wg_live_def)
next
  case (gx_negative d' n)
  then have "n \<noteq> 0" by auto
  then show ?thesis using gx_negative p by (auto simp: wg_live_def)
next
  case (gx_woken p q)
  then show ?thesis using wake_step_none [OF gx_woken(4)] by (auto simp: wg_live_def)
next
  case (gx_waking p r q p')
  then show ?thesis using assms(4) by (intro wg_liveI [of s' t]) simp
next
  case (gx_enq p p' q c)
  have "p \<noteq> ELink w" if "gpcs s u = GPark c' w" for u c' w
    using disciplined_own_inj [OF d, of u w Queued t Fresh] that gx_enq(1) by auto
  then show ?thesis using gx_enq assms(4) enter_step_items [OF gx_enq(4)]
    by (intro wg_live_frame [OF l]) (auto split: if_splits)
next
  case (gx_enqd p w q c)
  have "p \<noteq> ELink w'" for w' using gx_enqd(4) by auto
  then show ?thesis using gx_enqd assms(4) enter_step_items [OF gx_enqd(4)]
    by (intro wg_live_frame [OF l]) (auto split: if_splits)
qed (use p in \<open>auto intro!: wg_live_frame [OF l] split: if_splits\<close>)

definition wg_good :: "gsys \<Rightarrow> bool" where
  "wg_good s \<longleftrightarrow> disciplined (gabs s) \<and> wg_live s"

lemma wg_disciplined_step:
  "disciplined (gabs s) \<Longrightarrow> wg_exec e s = Some s' \<Longrightarrow> disciplined (gabs s')"
  using wg_discipline_step pstep_disciplined by metis

lemma wg_good_step:
  assumes g: "wg_good s" and x: "wg_exec e s = Some s'"
  shows "wg_good s'"
proof -
  have d: "disciplined (gabs s)" "disciplined (gabs s')" and l: "wg_live s"
    using g x wg_disciplined_step by (auto simp: wg_good_def)
  from x have "wg_live s'"
  proof (cases rule: wg_exec_cases)
    case (call t i op r)
    have "g_waking (gpcs s u) \<Longrightarrow> g_waking (gpcs s' u)" for u using call by (cases "u = t") auto
    moreover have "wg_entry op \<noteq> GPark c w" for c w by (cases op) auto
    ultimately show ?thesis using call by (intro wg_live_frame [OF l]) (auto split: if_splits)
  next
    case (go t i pc)
    then show ?thesis by (intro wg_live_trans [OF l d(1)]) auto
  qed
  with d(2) show ?thesis by (simp add: wg_good_def)
qed

lemma wg_good_init: "wg_good (wg_init t0)"
proof -
  have "wg_live (wg_init t0)" by (simp add: wg_live_def wg_init_def)
  then show ?thesis by (simp add: wg_good_def gabs_init disciplined_pinit)
qed

interpretation wg_inv: invariant_machine wg_exec "wg_init t0" wg_good
  by unfold_locales (auto intro: wg_good_init wg_good_step)

lemma g_hold_waking: "g_hold pc = Some x \<Longrightarrow> g_waking pc"
  by (cases pc) auto

lemma g_waking_enabled:
  assumes "g_waking (gpcs s u)"
  shows "wg_exec (Go u i) s \<noteq> None"
  using assms
  by (cases "gpcs s u") (auto simp: wg_step_defs split: prod.splits wres.splits)

subsection \<open>Wait returns only after the counter was zero\<close>

text \<open>The rule of reuse: the counter does not leave 0 while a goroutine is still draining the
  queue.\<close>

fun g_adding :: "gpc \<Rightarrow> bool" where
  "g_adding (GAdd d) = True"
| "g_adding GDone = True"
| "g_adding _ = False"

definition wg_rounds :: "gop event \<Rightarrow> gsys \<Rightarrow> gsys option" where
  "wg_rounds e s =
     (case e of
        Go t i \<Rightarrow> if g_adding (gpcs s t) \<and> (\<exists>u. g_waking (gpcs s u)) then None else wg_exec e s
      | _ \<Rightarrow> wg_exec e s)"

definition wg_honest :: "gsys \<Rightarrow> bool" where
  "wg_honest s \<longleftrightarrow>
     (\<forall>u. g_waking (gpcs s u) \<longrightarrow> gcounter (wg s) = 0) \<and>
     (\<forall>t. gcounter (wg s) = 0 \<longrightarrow> gseen s t) \<and>
     (\<forall>t w x. g_own (gpcs s t) = Some (w, x) \<longrightarrow> Ready (objs (gst s) w) \<longrightarrow> gseen s t) \<and>
     (\<forall>t. gpcs s t = GRet GWaited \<or> (\<exists>w. gpcs s t = GCancel w \<or> gpcs s t = GPut w) \<longrightarrow> gseen s t)"

lemma wg_honest_zero:
  assumes "wg_honest s" "gcounter (wg s') = 0" "gseen s' = (\<lambda>u. gseen s u \<or> gcounter (wg s') = 0)"
  shows "wg_honest s'"
  using assms by (auto simp: wg_honest_def)

lemma wg_honest_frame:
  assumes h: "wg_honest s" and p: "gpcs s' = (gpcs s)(t := pc)"
    and seen: "gseen s' = (\<lambda>u. gseen s u \<or> gcounter (wg s') = 0)"
    and c: "gcounter (wg s') = gcounter (wg s)" and w: "\<not> g_waking pc"
    and r: "\<And>w. Ready (objs (gst s') w) \<Longrightarrow> Ready (objs (gst s) w)"
    and o: "\<And>w x. g_own pc = Some (w, x) \<Longrightarrow> Ready (objs (gst s') w) \<Longrightarrow> gseen s t"
    and b: "pc = GRet GWaited \<or> (\<exists>w. pc = GCancel w \<or> pc = GPut w) \<Longrightarrow> gseen s t"
  shows "wg_honest s'"
proof -
  have "g_waking (gpcs s' u) \<Longrightarrow> g_waking (gpcs s u)" for u using p w by (auto split: if_splits)
  moreover have "gseen s' u" if "g_own (gpcs s' u) = Some (v, x)" "Ready (objs (gst s') v)" for u v x
  proof (cases "u = t")
    case True
    then show ?thesis using that p o seen by auto
  next
    case False
    then have "gseen s u" using that p r h by (auto simp: wg_honest_def)
    then show ?thesis using seen by simp
  qed
  moreover have "gseen s' u"
    if "gpcs s' u = GRet GWaited \<or> (\<exists>w. gpcs s' u = GCancel w \<or> gpcs s' u = GPut w)" for u
    using that p b h seen by (cases "u = t") (auto simp: wg_honest_def)
  ultimately show ?thesis using h c seen unfolding wg_honest_def by metis
qed

lemma wg_honest_trans:
  assumes h: "wg_honest s" and t: "wg_trans i (gpcs s t) (wg s) (gst s) pc (wg s') (gst s')"
    and p: "gpcs s' = (gpcs s)(t := pc)"
    and seen: "gseen s' = (\<lambda>u. gseen s u \<or> gcounter (wg s') = 0)"
    and guard: "g_adding (gpcs s t) \<Longrightarrow> \<forall>u. \<not> g_waking (gpcs s u)"
  shows "wg_honest s'"
proof -
  have z: "gcounter (wg s) = 0" if "g_waking (gpcs s t)" using h that by (auto simp: wg_honest_def)
  have own: "gseen s t" if "g_own (gpcs s t) = Some (w, x)" "Ready (objs (gst s) w)" for w x
    using h that unfolding wg_honest_def by blast
  have at: "gseen s t" if "\<exists>w. gpcs s t = GCancel w \<or> gpcs s t = GPut w"
    using h that unfolding wg_honest_def by blast
  have at0: "gseen s t" if "gcounter (wg s) = 0" using h that unfolding wg_honest_def by blast
  note frame = wg_honest_frame [OF h p seen]
  from t show ?thesis
  proof (cases rule: wg_trans.cases)
    case (gx_add d n)
    then have a: "g_adding (gpcs s t)" by auto
    show ?thesis
    proof (cases "n = 0")
      case True
      then show ?thesis using gx_add by (intro wg_honest_zero [OF h _ seen]) simp
    next
      case False
      then have "\<not> g_waking (gpcs s' v)" for v using gx_add p guard [OF a] by auto
      then show ?thesis using False gx_add p seen h by (auto simp: wg_honest_def split: if_splits)
    qed
  next
    case (gx_negative d n)
    then have a: "g_adding (gpcs s t)" by auto
    have "n \<noteq> 0" using gx_negative by auto
    moreover have "\<not> g_waking (gpcs s' v)" for v using gx_negative p guard [OF a] by auto
    ultimately show ?thesis using gx_negative p seen h by (auto simp: wg_honest_def split: if_splits)
  next
    case (gx_zero d)
    then have "gcounter (wg s) = 0" by (intro z) auto
    then show ?thesis using gx_zero by (intro wg_honest_zero [OF h _ seen]) auto
  next
    case (gx_waking p r q p')
    then show ?thesis using z by (intro wg_honest_zero [OF h _ seen]) auto
  next
    case (gx_woken p q)
    then show ?thesis using z by (intro wg_honest_zero [OF h _ seen]) auto
  next
    case (gx_enq p p' q c)
    show ?thesis
    proof (rule frame)
      show "gseen s t" if "g_own pc = Some (w, x)" "Ready (objs (gst s') w)" for w x
        using that gx_enq enter_step_ready [OF gx_enq(4)] own NewWaiter_objs(1)
        by (cases p) (auto split: prod.splits)
    qed (use gx_enq enter_step_ready [OF gx_enq(4)] in auto)
  next
    case (gx_enqd p w q c)
    then show ?thesis using enter_step_ready [OF gx_enqd(4)] own
      by (intro frame) (cases p; auto split: prod.splits)+
  next
    case (gx_put w)
    then show ?thesis using at by (intro frame) auto
  qed (use own at at0 in \<open>auto intro!: frame\<close>)
qed

lemma wg_rounds_exec: "wg_rounds e s = Some s' \<Longrightarrow> wg_exec e s = Some s'"
  by (auto simp: wg_rounds_def split: event.splits if_splits)

lemma wg_honest_step:
  assumes h: "wg_honest s" and x: "wg_rounds e s = Some s'"
  shows "wg_honest s'"
  using wg_rounds_exec [OF x]
proof (cases rule: wg_exec_cases)
  case (call t i op r)
  have n: "\<not> g_waking (wg_entry op)" "wg_entry op \<noteq> GRet r'" "wg_entry op \<noteq> GCancel w"
    "wg_entry op \<noteq> GPut w" for r' w by (cases op; simp)+
  have "g_waking (gpcs s' u) \<Longrightarrow> g_waking (gpcs s u)" for u using call n by (auto split: if_splits)
  moreover have "gseen s' u = gseen s u \<or> gcounter (wg s) = 0 \<or> u = t" for u using call by auto
  ultimately show ?thesis using h call n unfolding wg_honest_def
    by (auto split: if_splits)
next
  case (go t i pc)
  have "\<forall>u. \<not> g_waking (gpcs s u)" if "g_adding (gpcs s t)"
    using x go(1) that by (auto simp: wg_rounds_def split: if_splits)
  then show ?thesis using go by (intro wg_honest_trans [OF h]) auto
qed

lemma wg_honest_init: "wg_honest (wg_init t0)"
  by (simp add: wg_honest_def wg_init_def)

interpretation wg_hon: invariant_machine wg_rounds "wg_init t0" wg_honest
  by unfold_locales (auto intro: wg_honest_init wg_honest_step)

subsection \<open>Properties\<close>

lemmas wg_eval = wg_init_def NewWaitGroup_def wg_step_defs waiter_eval

definition wg_early_run :: "gop event list" where
  "wg_early_run =
     Invoke 0 inp0 (OpAdd 1) # replicate 2 (Go 0 inp0) @
     Invoke 0 inp0 OpDone # replicate 2 (Go 0 inp0) @
     Invoke 2 inp0 (OpAdd 1) # replicate 2 (Go 2 inp0) @
     Invoke 1 inp0 OpWait # replicate 6 (Go 1 inp0) @
     replicate 4 (Go 0 inp0) @ replicate 2 (Go 1 inp0)"

text \<open>C22. No wake-up is lost, with or without cancelled contexts: when the counter is 0 and a
  goroutine is still parked in \<^verbatim>\<open>Wait\<close> or \<^verbatim>\<open>WaitContext\<close>, its token is in its channel already, or a
  goroutine that brought the counter to 0 is still draining the queue and can take its next
  step.\<close>

theorem waitgroup_no_lost_wakeup:
  assumes "reachable wg_exec (wg_init t0) s" "gcounter (wg s) = 0" "gpcs s t = GPark c w"
  shows "Ready (objs (gst s) w) \<or>
     (\<exists>u. g_waking (gpcs s u) \<and> (\<forall>i. wg_exec (Go u i) s \<noteq> None))"
proof -
  have g: "disciplined (gabs s)" "wg_live s"
    using wg_inv.reachable_inv [OF assms(1)] by (auto simp: wg_good_def)
  have "queued (gabs s) w \<or> held (gabs s) w \<or> Ready (objs (gst s) w)"
    using disciplined_parked [OF g(1), of t w] assms(3) by simp
  moreover have "\<exists>u. g_waking (gpcs s u)" if "held (gabs s) w"
    using that g_hold_waking by (auto simp: held_def holdW_def)
  moreover have "\<exists>u. g_waking (gpcs s u)" if "queued (gabs s) w"
    using that assms(2,3) g(2) unfolding wg_live_def queued_def by (auto simp: queues1_def split: if_splits)
  ultimately show ?thesis using g_waking_enabled by blast
qed

theorem waitgroup_no_lost_wakeup_witness:
  "\<exists>s. run wg_exec (Invoke 0 inp0 (OpAdd 1) # replicate 2 (Go 0 inp0) @
        Invoke 1 inp0 OpWait # replicate 6 (Go 1 inp0) @ [Invoke 0 inp0 OpDone, Go 0 inp0])
        (wg_init 0) = Some s \<and> gpcs s 1 = GPark False 0 \<and> (\<exists>u. g_waking (gpcs s u))"
proof -
  obtain s where r: "run wg_exec (Invoke 0 inp0 (OpAdd 1) # replicate 2 (Go 0 inp0) @
        Invoke 1 inp0 OpWait # replicate 6 (Go 1 inp0) @ [Invoke 0 inp0 OpDone, Go 0 inp0])
        (wg_init 0) = Some s"
    and h: "gcounter (wg s) = 0" "gpcs s 1 = GPark False 0" and n: "\<not> Ready (objs (gst s) 0)"
    by (simp add: wg_eval)
  have "\<exists>u. g_waking (gpcs s u)" using waitgroup_no_lost_wakeup [OF run_reachable [OF r] h] n by blast
  with r h show ?thesis by blast
qed

text \<open>C25. \<^verbatim>\<open>Wait\<close> and \<^verbatim>\<open>WaitContext\<close> return without an error only if the counter has been 0 at some
  moment of the call, provided the counter is not raised again while a goroutine is still
  draining the queue of the previous round.\<close>

theorem waitgroup_wait_saw_zero:
  assumes "reachable wg_rounds (wg_init t0) s" "gpcs s t = GRet GWaited"
  shows "gseen s t"
  using wg_hon.reachable_inv [OF assms(1)] assms(2) by (auto simp: wg_honest_def)

theorem waitgroup_wait_saw_zero_witness:
  "\<exists>s. run wg_rounds [Invoke 0 inp0 OpWait, Go 0 inp0] (wg_init 0) = Some s \<and>
     gpcs s 0 = GRet GWaited \<and> gseen s 0"
proof -
  obtain s where r: "run wg_rounds [Invoke 0 inp0 OpWait, Go 0 inp0] (wg_init 0) = Some s"
    and h: "gpcs s 0 = GRet GWaited"
    by (simp add: wg_rounds_def wg_eval)
  with waitgroup_wait_saw_zero [OF run_reachable [OF r] h] show ?thesis by blast
qed

text \<open>Reuse without that care lets \<^verbatim>\<open>Wait\<close> return early: goroutine 0 brings the counter to 0 and
  is about to drain the queue, goroutine 2 adds 1 for the next round, goroutine 1 starts to wait
  for it and is woken by the drain of the previous round. Its \<^verbatim>\<open>Wait\<close> returns although the counter
  has been 1 during the whole call.\<close>

lemma waitgroup_reuse_returns_early:
  "\<exists>s. run wg_exec wg_early_run (wg_init 0) = Some s \<and> gpcs s 1 = GRet GWaited \<and>
     \<not> gseen s 1 \<and> gcounter (wg s) = 1"
  by (simp add: wg_early_run_def wg_eval)

text \<open>\<^verbatim>\<open>Add\<close> keeps only the low 32 bits of its argument for the counter but counts all of it:
  after \<^verbatim>\<open>Add(4294967296)\<close> the counter is 0 and \<^verbatim>\<open>addCount\<close> is 4294967296.\<close>

lemma waitgroup_add_truncates:
  "\<exists>s. run wg_exec [Invoke 0 inp0 (OpAdd 4294967296), Go 0 inp0, Go 0 inp0] (wg_init 0) = Some s \<and>
     gcounter (wg s) = 0 \<and> addCount (wg s) = 4294967296"
  by (simp add: wg_eval)

end
