(* ===== verification/Once.thy ===== *)
theory Once
  imports Prelude
begin

text \<open>
  \<^verbatim>\<open>internal/primitives/once.go\<close>, action by action. \<^verbatim>\<open>sync.Mutex\<close> is the standard library's lock: its
  state is whether it is held, \<^verbatim>\<open>Lock\<close> blocks while it is. The function passed to \<^verbatim>\<open>Do\<close> may panic
  (the input decides): the deferred calls run all the same, the store of 1 first and the unlock
  after it.

  \<open>oruns\<close> and \<open>oclears\<close> are not part of the code: how often a function has been executed and how
  often \<^verbatim>\<open>Reset\<close> has stored 0.
\<close>

record Once =
  omu :: bool
  odone :: "32 word"
  doCalls :: int64
  resetCalls :: int64
  ocreatedAt :: int

definition NewOnce :: "int \<Rightarrow> Once" where
  "NewOnce t = \<lparr>omu = False, odone = 0, doCalls = 0, resetCalls = 0, ocreatedAt = t\<rparr>"

datatype oret = OInit | ODidReturn | OPanicked | OReset

datatype opc =
    ORet oret
  | OLoad
  | OLock
  | OLoad2
  | OCount
  | OCall
  | OStore bool
  | OUnlock oret
  | RsLock
  | RsStore
  | RsCount

definition Once_Do_step :: "inp \<Rightarrow> opc \<Rightarrow> Once \<Rightarrow> (opc \<times> Once) option" where
  "Once_Do_step i pc x = (case pc of
     OLoad \<Rightarrow> Some (if odone x = 1 then ORet ODidReturn else OLock, x)
   | OLock \<Rightarrow> (if omu x then None else Some (OLoad2, x\<lparr>omu := True\<rparr>))
   | OLoad2 \<Rightarrow> Some (if odone x = 0 then OCount else OUnlock ODidReturn, x)
   | OCount \<Rightarrow> Some (OCall, x\<lparr>doCalls := doCalls x + 1\<rparr>)
   | OCall \<Rightarrow> Some (OStore (pick i \<noteq> 0), x)
   | OStore panicked \<Rightarrow>
       Some (OUnlock (if panicked then OPanicked else ODidReturn), x\<lparr>odone := 1\<rparr>)
   | OUnlock r \<Rightarrow> Some (ORet r, x\<lparr>omu := False\<rparr>)
   | _ \<Rightarrow> None)"

definition Once_Reset_step :: "opc \<Rightarrow> Once \<Rightarrow> (opc \<times> Once) option" where
  "Once_Reset_step pc x = (case pc of
     RsLock \<Rightarrow> (if omu x then None else Some (RsStore, x\<lparr>omu := True\<rparr>))
   | RsStore \<Rightarrow> Some (RsCount, x\<lparr>odone := 0\<rparr>)
   | RsCount \<Rightarrow> Some (OUnlock OReset, x\<lparr>resetCalls := resetCalls x + 1\<rparr>)
   | OUnlock r \<Rightarrow> Some (ORet r, x\<lparr>omu := False\<rparr>)
   | _ \<Rightarrow> None)"

definition once_step :: "inp \<Rightarrow> opc \<Rightarrow> Once \<Rightarrow> (opc \<times> Once) option" where
  "once_step i pc x = orelse (Once_Do_step i pc x) (Once_Reset_step pc x)"

definition Once_Done :: "Once \<Rightarrow> bool" where
  "Once_Done x \<longleftrightarrow> odone x = 1"

record OnceStats =
  os_Done :: bool
  os_DoCalls :: int64
  os_ResetCalls :: int64
  os_Age :: int

definition Once_GetStats :: "int \<Rightarrow> Once \<Rightarrow> OnceStats" where
  "Once_GetStats t x = \<lparr>os_Done = (odone x = 1), os_DoCalls = doCalls x,
     os_ResetCalls = resetCalls x, os_Age = t - ocreatedAt x\<rparr>"

datatype oop = OpDo | OpOnceReset

fun once_entry :: "oop \<Rightarrow> opc" where
  "once_entry OpDo = OLoad"
| "once_entry OpOnceReset = RsLock"

record osys =
  once :: Once
  opcs :: "tid \<Rightarrow> opc"
  oruns :: nat
  oclears :: nat

definition once_init :: "int \<Rightarrow> osys" where
  "once_init t = \<lparr>once = NewOnce t, opcs = (\<lambda>_. ORet OInit), oruns = 0, oclears = 0\<rparr>"

fun once_exec :: "oop event \<Rightarrow> osys \<Rightarrow> osys option" where
  "once_exec (Invoke t i op) s =
     (case opcs s t of
        ORet r \<Rightarrow> if r = OPanicked then None else Some (s\<lparr>opcs := (opcs s)(t := once_entry op)\<rparr>)
      | _ \<Rightarrow> None)"
| "once_exec (Go t i) s =
     (case once_step i (opcs s t) (once s) of
        None \<Rightarrow> None
      | Some (pc, x) \<Rightarrow> Some \<lparr>once = x, opcs = (opcs s)(t := pc),
          oruns = oruns s + (if opcs s t = OCall then 1 else 0),
          oclears = oclears s + (if opcs s t = RsStore then 1 else 0)\<rparr>)"

text \<open>The callers that never reset.\<close>

fun once_noreset :: "oop event \<Rightarrow> osys \<Rightarrow> osys option" where
  "once_noreset (Invoke t i OpOnceReset) s = None"
| "once_noreset e s = once_exec e s"

subsection \<open>The critical section\<close>

fun o_inside :: "opc \<Rightarrow> bool" where
  "o_inside OLoad2 = True"
| "o_inside OCount = True"
| "o_inside OCall = True"
| "o_inside (OStore b) = True"
| "o_inside (OUnlock r) = True"
| "o_inside RsStore = True"
| "o_inside RsCount = True"
| "o_inside _ = False"

fun o_storing :: "opc \<Rightarrow> bool" where
  "o_storing (OStore b) = True"
| "o_storing _ = False"

fun o_local :: "Once \<Rightarrow> opc \<Rightarrow> bool" where
  "o_local x OCount = (odone x = 0)"
| "o_local x OCall = (odone x = 0)"
| "o_local x (OStore b) = (odone x = 0)"
| "o_local x _ = True"

text \<open>\<open>credit\<close> is 1 from the execution of the function to the next reset.\<close>

definition credit :: "osys \<Rightarrow> nat" where
  "credit s = (if odone (once s) = 1 \<or> (\<exists>t. o_storing (opcs s t)) then 1 else 0)"

definition once_inv :: "osys \<Rightarrow> bool" where
  "once_inv s \<longleftrightarrow> omu (once s) = (\<exists>t. o_inside (opcs s t)) \<and>
     (\<forall>t u. o_inside (opcs s t) \<longrightarrow> o_inside (opcs s u) \<longrightarrow> t = u) \<and>
     (odone (once s) = 0 \<or> odone (once s) = 1) \<and> (\<forall>t. o_local (once s) (opcs s t)) \<and>
     oruns s \<le> oclears s + credit s"

text \<open>A move outside the section, and one of the goroutine inside it, of which the others know that
  they are outside.\<close>

lemma o_outside_local: "\<not> o_inside pc \<Longrightarrow> o_local x pc" "\<not> o_inside pc \<Longrightarrow> \<not> o_storing pc"
  by (cases pc; simp)+

lemma once_inv_inside:
  assumes "once_inv s" "o_inside (opcs s t)" "u \<noteq> t"
  shows "\<not> o_inside (opcs s u)"
  using assms by (auto simp: once_inv_def)

lemma once_inv_outer:
  assumes inv: "once_inv s" and p: "opcs s' = (opcs s)(t := pc)" and x: "once s' = once s"
    and o: "\<not> o_inside (opcs s t)" "\<not> o_inside pc" and c: "oruns s' = oruns s" "oclears s' = oclears s"
  shows "once_inv s'"
proof -
  have "o_inside (opcs s' u) = o_inside (opcs s u)" "o_storing (opcs s' u) = o_storing (opcs s u)"
    "o_local (once s') (opcs s' u)" for u
    using p o x inv o_outside_local by (auto simp: once_inv_def)
  then show ?thesis using inv x c by (simp add: once_inv_def credit_def)
qed

lemma once_inv_section:
  assumes out: "\<And>u. u \<noteq> t \<Longrightarrow> \<not> o_inside (opcs s u)" and p: "opcs s' = (opcs s)(t := pc)"
    and mu: "omu (once s') = o_inside pc" and d: "odone (once s') = 0 \<or> odone (once s') = 1"
    and l: "o_local (once s') pc"
    and r: "oruns s' \<le> oclears s' + (if odone (once s') = 1 \<or> o_storing pc then 1 else 0)"
  shows "once_inv s'"
proof -
  have i: "o_inside (opcs s' u) = (u = t \<and> o_inside pc)" for u using out p by auto
  have s: "o_storing (opcs s' u) = (u = t \<and> o_storing pc)" for u
    using out p o_outside_local(2) by auto
  have "o_local (once s') (opcs s' u)" for u using out p l o_outside_local(1) by auto
  then show ?thesis using i s mu d r by (simp add: once_inv_def credit_def)
qed

lemma once_inv_credit:
  assumes inv: "once_inv s" and in': "o_inside (opcs s t)"
  shows "oruns s \<le> oclears s + (if odone (once s) = 1 \<or> o_storing (opcs s t) then 1 else 0)"
proof -
  have "o_storing (opcs s u) \<Longrightarrow> u = t" for u
    using once_inv_inside [OF inv in'] o_outside_local(2) by blast
  then have "(\<exists>u. o_storing (opcs s u)) = o_storing (opcs s t)" by blast
  then show ?thesis using inv by (simp add: once_inv_def credit_def)
qed

text \<open>The step relation: a goroutine outside stays outside and changes nothing, or enters when the
  mutex is free, or moves inside.\<close>

inductive once_trans :: "opc \<Rightarrow> Once \<Rightarrow> opc \<Rightarrow> Once \<Rightarrow> bool" where
  ox_fast: "odone x = 1 \<Longrightarrow> once_trans OLoad x (ORet ODidReturn) x"
| ox_slow: "once_trans OLoad x OLock x"
| ox_enter: "\<not> omu x \<Longrightarrow> pc = OLock \<and> pc' = OLoad2 \<or> pc = RsLock \<and> pc' = RsStore \<Longrightarrow>
    once_trans pc x pc' (x\<lparr>omu := True\<rparr>)"
| ox_load0: "odone x = 0 \<Longrightarrow> once_trans OLoad2 x OCount x"
| ox_load1: "odone x \<noteq> 0 \<Longrightarrow> once_trans OLoad2 x (OUnlock ODidReturn) x"
| ox_count: "once_trans OCount x OCall (x\<lparr>doCalls := doCalls x + 1\<rparr>)"
| ox_call: "once_trans OCall x (OStore p) x"
| ox_store: "once_trans (OStore p) x (OUnlock r) (x\<lparr>odone := 1\<rparr>)"
| ox_clear: "once_trans RsStore x RsCount (x\<lparr>odone := 0\<rparr>)"
| ox_resets: "once_trans RsCount x (OUnlock OReset) (x\<lparr>resetCalls := resetCalls x + 1\<rparr>)"
| ox_unlock: "once_trans (OUnlock r) x (ORet r) (x\<lparr>omu := False\<rparr>)"

lemmas once_step_defs = once_step_def Once_Do_step_def Once_Reset_step_def orelse_simps

lemma once_step_trans: "once_step i pc x = Some (pc', x') \<Longrightarrow> once_trans pc x pc' x'"
  by (cases pc) (auto simp: once_step_defs intro: once_trans.intros split: if_splits)

lemma once_exec_cases [consumes 1, case_names call go]:
  assumes "once_exec e s = Some s'"
  obtains (call) t i op r where "e = Invoke t i op" "opcs s t = ORet r" "once s' = once s"
      "opcs s' = (opcs s)(t := once_entry op)" "oruns s' = oruns s" "oclears s' = oclears s"
  | (go) t i pc where "e = Go t i" "once_trans (opcs s t) (once s) pc (once s')"
      "opcs s' = (opcs s)(t := pc)" "oruns s' = oruns s + (if opcs s t = OCall then 1 else 0)"
      "oclears s' = oclears s + (if opcs s t = RsStore then 1 else 0)"
proof (cases e)
  case (Invoke t i op)
  with assms show ?thesis by (auto split: opc.splits if_splits intro: call)
next
  case (Go t i)
  with assms show ?thesis
    by (auto simp del: One_nat_def split: option.splits dest!: once_step_trans intro!: go)
qed

lemma once_inv_trans:
  assumes inv: "once_inv s" and t: "once_trans (opcs s t) (once s) pc (once s')"
    and p: "opcs s' = (opcs s)(t := pc)"
    and r: "oruns s' = oruns s + (if opcs s t = OCall then 1 else 0)"
      "oclears s' = oclears s + (if opcs s t = RsStore then 1 else 0)"
  shows "once_inv s'"
proof -
  have l: "o_local (once s) (opcs s t)" and d: "odone (once s) = 0 \<or> odone (once s) = 1"
    and mu: "omu (once s) = (\<exists>t. o_inside (opcs s t))"
    using inv by (auto simp: once_inv_def)
  have inside: "once_inv s'" if "o_inside (opcs s t)" "omu (once s') = o_inside pc"
    "odone (once s') = 0 \<or> odone (once s') = 1" "o_local (once s') pc"
    "oruns s' \<le> oclears s' + (if odone (once s') = 1 \<or> o_storing pc then 1 else 0)"
    using once_inv_section [OF once_inv_inside [OF inv that(1)] p that(2-5)] .
  have held: "omu (once s)" if "o_inside (opcs s t)" using mu that by blast
  note credit' = once_inv_credit [OF inv, of t]
  from t show ?thesis
  proof (cases rule: once_trans.cases)
    case ox_fast
    then show ?thesis using r by (intro once_inv_outer [OF inv p]) auto
  next
    case ox_slow
    then show ?thesis using r by (intro once_inv_outer [OF inv p]) auto
  next
    case ox_enter
    then have out: "\<not> o_inside (opcs s u)" for u using mu by auto
    then have "\<not> o_storing (opcs s u)" for u using o_outside_local(2) by blast
    then have "oruns s \<le> oclears s + (if odone (once s) = 1 then 1 else 0)"
      using inv by (simp add: once_inv_def credit_def)
    then show ?thesis using ox_enter out d r by (intro once_inv_section [OF _ p]) auto
  qed (use l d r held credit' in \<open>auto intro!: inside\<close>)
qed

lemma once_inv_step:
  assumes inv: "once_inv s" and x: "once_exec e s = Some s'"
  shows "once_inv s'"
  using x
proof (cases rule: once_exec_cases)
  case (call t i op r)
  have "\<not> o_inside (once_entry op)" by (cases op) auto
  then show ?thesis using call by (intro once_inv_outer [OF inv, of s' t "once_entry op"]) auto
next
  case (go t i pc)
  then show ?thesis by (intro once_inv_trans [OF inv]) auto
qed

lemma once_inv_init: "once_inv (once_init t0)"
  by (simp add: once_inv_def once_init_def NewOnce_def credit_def)

interpretation once_mc: invariant_machine once_exec "once_init t0" once_inv
  by unfold_locales (auto intro: once_inv_init once_inv_step)

subsection \<open>Without resets\<close>

fun o_finished :: "Once \<Rightarrow> opc \<Rightarrow> bool" where
  "o_finished x (ORet r) = (r = OInit \<or> odone x = 1)"
| "o_finished x (OUnlock r) = (odone x = 1)"
| "o_finished x RsLock = False"
| "o_finished x RsStore = False"
| "o_finished x RsCount = False"
| "o_finished x _ = True"

definition once_first :: "osys \<Rightarrow> bool" where
  "once_first s \<longleftrightarrow> once_inv s \<and> oclears s = 0 \<and> (\<forall>t. o_finished (once s) (opcs s t)) \<and>
     (odone (once s) = 1 \<or> (\<exists>t. o_storing (opcs s t)) \<longrightarrow> 1 \<le> oruns s)"

lemma once_noreset_exec: "once_noreset e s = Some s' \<Longrightarrow> once_exec e s = Some s'"
  by (cases "(e, s)" rule: once_noreset.cases) auto

lemma o_finished_mono: "o_finished x pc \<Longrightarrow> (odone x = 1 \<Longrightarrow> odone y = 1) \<Longrightarrow> o_finished y pc"
  by (cases pc) auto

lemma once_first_step:
  assumes f: "once_first s" and x: "once_noreset e s = Some s'"
  shows "once_first s'"
proof -
  have inv: "once_inv s'" using f once_noreset_exec [OF x] once_inv_step by (auto simp: once_first_def)
  have fin: "o_finished (once s) (opcs s t)" and c: "oclears s = 0"
    and runs: "odone (once s) = 1 \<or> o_storing (opcs s t) \<Longrightarrow> 1 \<le> oruns s" for t
    using f by (auto simp: once_first_def)
  from once_noreset_exec [OF x] show ?thesis
  proof (cases rule: once_exec_cases)
    case (call t i op r)
    then have "op = OpDo" using x by (cases op) auto
    then show ?thesis using call inv fin c runs by (auto simp: once_first_def split: if_splits)
  next
    case (go t i pc)
    have d: "odone (once s) = 0 \<or> odone (once s) = 1" using f by (auto simp: once_first_def once_inv_def)
    from go(2) have "o_finished (once s') pc \<and> (odone (once s) = 1 \<longrightarrow> odone (once s') = 1) \<and>
        opcs s t \<noteq> RsStore \<and> (odone (once s') = 1 \<or> o_storing pc \<longrightarrow> 1 \<le> oruns s')"
      by (cases rule: once_trans.cases) (use fin [of t] runs [of t] d go in auto)
    moreover have "o_finished (once s') (opcs s u)" if "odone (once s) = 1 \<longrightarrow> odone (once s') = 1" for u
      using o_finished_mono [OF fin] that by blast
    moreover have "oruns s \<le> oruns s'" using go by simp
    ultimately show ?thesis using inv go c runs by (auto simp: once_first_def split: if_splits)
  qed
qed

lemma once_first_init: "once_first (once_init t0)"
  using once_inv_init [of t0] by (simp add: once_first_def) (simp add: once_init_def NewOnce_def)

interpretation once_fst: invariant_machine once_noreset "once_init t0" once_first
  by unfold_locales (auto intro: once_first_init once_first_step)

subsection \<open>Properties\<close>

lemmas once_eval = once_init_def NewOnce_def once_step_defs inp0_def

text \<open>\<^verbatim>\<open>Do\<close> executes functions one at a time, and at most once more than \<^verbatim>\<open>Reset\<close> has cleared the
  flag: two goroutines inside the critical section are the same, and the number of executions
  (completed or panicked) is at most the number of resets plus one.\<close>

lemma once_runs_bounded:
  assumes "reachable once_exec (once_init t0) s"
  shows "(\<forall>t u. \<not> (opcs s t = OCall \<and> opcs s u = OCall \<and> t \<noteq> u)) \<and> oruns s \<le> oclears s + 1"
proof -
  have inv: "once_inv s" by (rule once_mc.reachable_inv [OF assms])
  have "t = u" if "opcs s t = OCall" "opcs s u = OCall" for t u
    using inv that unfolding once_inv_def by (metis o_inside.simps(3))
  moreover have "oruns s \<le> oclears s + 1" using inv by (auto simp: once_inv_def credit_def split: if_splits)
  ultimately show ?thesis by blast
qed

lemma once_runs_bounded_witness:
  "\<exists>s. run once_exec (Invoke 0 inp0 OpDo # replicate 7 (Go 0 inp0)) (once_init 0) = Some s \<and>
     oruns s = 1 \<and> oruns s \<le> oclears s + 1"
proof -
  obtain s where r: "run once_exec (Invoke 0 inp0 OpDo # replicate 7 (Go 0 inp0)) (once_init 0) = Some s"
    and o: "oruns s = 1" by (simp add: once_eval)
  with once_runs_bounded [OF run_reachable [OF r]] show ?thesis by blast
qed

text \<open>C27. Without \<^verbatim>\<open>Reset\<close>, when any \<^verbatim>\<open>Do\<close> has returned or panicked, its function or that of another
  caller has been executed, exactly once, and \<^verbatim>\<open>Done\<close> reports it.\<close>

theorem once_do_returns_after_run:
  assumes "reachable once_noreset (once_init t0) s" "opcs s t = ORet r" "r \<noteq> OInit"
  shows "oruns s = 1 \<and> Once_Done (once s)"
proof -
  have f: "once_first s" by (rule once_fst.reachable_inv [OF assms(1)])
  then have "o_finished (once s) (opcs s t)" by (simp add: once_first_def)
  then have d: "odone (once s) = 1" using assms(2,3) by simp
  moreover have "oruns s \<le> 1"
    using f by (auto simp: once_first_def once_inv_def credit_def split: if_splits)
  moreover have "1 \<le> oruns s" using f d by (auto simp: once_first_def)
  ultimately show ?thesis by (simp add: Once_Done_def)
qed

theorem once_do_returns_after_run_witness:
  "\<exists>s. run once_noreset (Invoke 0 inp0 OpDo # replicate 7 (Go 0 inp0)) (once_init 0) = Some s \<and>
     opcs s 0 = ORet ODidReturn \<and> oruns s = 1"
proof -
  obtain s where r: "run once_noreset (Invoke 0 inp0 OpDo # replicate 7 (Go 0 inp0)) (once_init 0) = Some s"
    and o: "opcs s 0 = ORet ODidReturn" by (simp add: once_eval)
  have "ODidReturn \<noteq> OInit" by simp
  with once_do_returns_after_run [OF run_reachable [OF r] o] r o show ?thesis by blast
qed

end
