(* ===== verification/Singleflight.thy ===== *)
theory Singleflight
  imports Prelude
begin

text \<open>
  \<^verbatim>\<open>internal/primitives/singleflight.go\<close>. The map \<^verbatim>\<open>g.calls\<close> is only touched under \<^verbatim>\<open>g.mu\<close>, so each
  critical section of that mutex is one action here; the atomic counters, the execution of \<^verbatim>\<open>fn\<close>,
  \<^verbatim>\<open>wg.Done\<close> and \<^verbatim>\<open>wg.Wait\<close> are actions of their own.

  A call object lives at an address; its wait group is a flag, since it counts from 1 to 0 once.
  What \<^verbatim>\<open>fn\<close> will return is given with the invocation: \<open>Some v\<close> for the pair of a value and an
  error, \<open>None\<close> if it panics. The fields \<^verbatim>\<open>val\<close> and \<^verbatim>\<open>err\<close> of a call are \<open>cval\<close>, \<open>None\<close> while they
  have their zero values, so that \<^verbatim>\<open>Do\<close> may read them before they are set. The field \<open>ckey\<close> (the key a call was made for) and the log \<open>sflog\<close> of
  the completed executions (key, call object, result) are not part of the code.
\<close>

record 'v scall =
  cdone :: bool
  cval :: "'v option"
  ckey :: string

record Group =
  calls :: "string \<rightharpoonup> nat"
  totalCalls :: int64
  sharedCalls :: int64
  sfcreatedAt :: int

definition NewGroup :: "int \<Rightarrow> Group" where
  "NewGroup t = \<lparr>calls = Map.empty, totalCalls = 0, sharedCalls = 0, sfcreatedAt = t\<rparr>"

text \<open>What \<^verbatim>\<open>Do\<close> returns: the result and whether it was shared. A panic of \<^verbatim>\<open>fn\<close> leaves \<^verbatim>\<open>Do\<close>.\<close>

datatype 'v sfret = SfInit | SfResult string "'v option" bool | SfPanicked | SfForgot

datatype 'v sfpc =
    SfRet "'v sfret"
  | SfEnter string "'v option"
  | SfCountShared string nat
  | SfWait string nat
  | SfCountTotal string nat "'v option"
  | SfRun string nat "'v option"
  | SfDone string nat
  | SfDelete string nat
  | SfForget string

record 'v sfsys =
  sfg :: Group
  sfcalls :: "nat \<Rightarrow> 'v scall"
  sfnext :: nat
  sfpcs :: "tid \<Rightarrow> 'v sfpc"
  sflog :: "(string \<times> nat \<times> 'v) list"

definition new_call :: "string \<Rightarrow> 'v scall" where
  "new_call k = \<lparr>cdone = False, cval = None, ckey = k\<rparr>"

definition sf_init :: "int \<Rightarrow> 'v sfsys" where
  "sf_init t = \<lparr>sfg = NewGroup t, sfcalls = (\<lambda>_. new_call []), sfnext = 0,
     sfpcs = (\<lambda>_. SfRet SfInit), sflog = []\<rparr>"

definition SF_Do_step :: "'v sfpc \<Rightarrow> 'v sfsys \<Rightarrow> ('v sfpc \<times> 'v sfsys) option" where
  "SF_Do_step pc s = (case pc of
     SfEnter k fn \<Rightarrow>
       (case calls (sfg s) k of
          Some c \<Rightarrow> Some (SfCountShared k c, s)
        | None \<Rightarrow>
            (let c = sfnext s
             in Some (SfCountTotal k c fn,
                      s\<lparr>sfcalls := (sfcalls s)(c := new_call k), sfnext := Suc c,
                        sfg := (sfg s)\<lparr>calls := (calls (sfg s))(k \<mapsto> c)\<rparr>\<rparr>)))
   | SfCountShared k c \<Rightarrow>
       Some (SfWait k c, s\<lparr>sfg := (sfg s)\<lparr>sharedCalls := sharedCalls (sfg s) + 1\<rparr>\<rparr>)
   | SfWait k c \<Rightarrow>
       (if cdone (sfcalls s c) then Some (SfRet (SfResult k (cval (sfcalls s c)) True), s) else None)
   | SfCountTotal k c fn \<Rightarrow>
       Some (SfRun k c fn, s\<lparr>sfg := (sfg s)\<lparr>totalCalls := totalCalls (sfg s) + 1\<rparr>\<rparr>)
   | SfRun k c fn \<Rightarrow>
       (case fn of
          None \<Rightarrow> Some (SfRet SfPanicked, s)
        | Some v \<Rightarrow>
            Some (SfDone k c,
                  s\<lparr>sfcalls := (sfcalls s)(c := (sfcalls s c)\<lparr>cval := Some v\<rparr>)\<rparr>))
   | SfDone k c \<Rightarrow>
       Some (SfDelete k c, s\<lparr>sfcalls := (sfcalls s)(c := (sfcalls s c)\<lparr>cdone := True\<rparr>)\<rparr>)
   | SfDelete k c \<Rightarrow>
       Some (SfRet (SfResult k (cval (sfcalls s c)) False),
             s\<lparr>sfg := (sfg s)\<lparr>calls := (calls (sfg s))(k := None)\<rparr>\<rparr>)
   | _ \<Rightarrow> None)"

definition SF_Forget_step :: "'v sfpc \<Rightarrow> 'v sfsys \<Rightarrow> ('v sfpc \<times> 'v sfsys) option" where
  "SF_Forget_step pc s = (case pc of
     SfForget k \<Rightarrow>
       Some (SfRet SfForgot, s\<lparr>sfg := (sfg s)\<lparr>calls := (calls (sfg s))(k := None)\<rparr>\<rparr>)
   | _ \<Rightarrow> None)"

datatype 'v sfop = OpSfDo string "'v option" | OpSfForget string | OpSfDoChan string "'v option"

fun sf_idle :: "'v sfpc \<Rightarrow> bool" where
  "sf_idle (SfRet SfPanicked) = False"
| "sf_idle (SfRet r) = True"
| "sf_idle _ = False"

text \<open>\<^verbatim>\<open>DoChan\<close> starts \<^verbatim>\<open>Do\<close> in a new goroutine (the input names it) and returns at once; what that
  goroutine returns is what the channel will deliver.\<close>

definition DoChan_start :: "tid \<Rightarrow> string \<Rightarrow> 'v option \<Rightarrow> 'v sfsys \<Rightarrow> 'v sfsys option" where
  "DoChan_start u k fn s =
     (case sfpcs s u of
        SfRet SfInit \<Rightarrow> Some (s\<lparr>sfpcs := (sfpcs s)(u := SfEnter k fn)\<rparr>)
      | _ \<Rightarrow> None)"

fun executed :: "'v sfpc \<Rightarrow> (string \<times> nat \<times> 'v) list" where
  "executed (SfRun k c (Some v)) = [(k, c, v)]"
| "executed _ = []"

fun sf_exec :: "'v sfop event \<Rightarrow> 'v sfsys \<Rightarrow> 'v sfsys option" where
  "sf_exec (Invoke t i (OpSfDo k fn)) s =
     (if sf_idle (sfpcs s t) then Some (s\<lparr>sfpcs := (sfpcs s)(t := SfEnter k fn)\<rparr>) else None)"
| "sf_exec (Invoke t i (OpSfForget k)) s =
     (if sf_idle (sfpcs s t) then Some (s\<lparr>sfpcs := (sfpcs s)(t := SfForget k)\<rparr>) else None)"
| "sf_exec (Invoke t i (OpSfDoChan k fn)) s =
     (if sf_idle (sfpcs s t) \<and> pick i \<noteq> t then DoChan_start (pick i) k fn s else None)"
| "sf_exec (Go t i) s =
     (case orelse (SF_Do_step (sfpcs s t) s) (SF_Forget_step (sfpcs s t) s) of
        None \<Rightarrow> None
      | Some (pc, s') \<Rightarrow>
          Some (s'\<lparr>sfpcs := (sfpcs s)(t := pc), sflog := sflog s @ executed (sfpcs s t)\<rparr>))"

record SingleflightStats =
  sfs_TotalCalls :: int64
  sfs_SharedCalls :: int64
  sfs_Age :: int

definition Singleflight_GetStats :: "int \<Rightarrow> Group \<Rightarrow> SingleflightStats" where
  "Singleflight_GetStats t g = \<lparr>sfs_TotalCalls = totalCalls g, sfs_SharedCalls = sharedCalls g,
     sfs_Age = t - sfcreatedAt g\<rparr>"

subsection \<open>The step relation\<close>

inductive sf_trans :: "'v sfpc \<Rightarrow> 'v sfsys \<Rightarrow> 'v sfpc \<Rightarrow> 'v sfsys \<Rightarrow> bool" where
  fx_join: "calls (sfg s) k = Some c \<Longrightarrow> sf_trans (SfEnter k fn) s (SfCountShared k c) s"
| fx_lead: "calls (sfg s) k = None \<Longrightarrow> c = sfnext s \<Longrightarrow>
    sf_trans (SfEnter k fn) s (SfCountTotal k c fn)
      (s\<lparr>sfcalls := (sfcalls s)(c := new_call k), sfnext := Suc c,
         sfg := (sfg s)\<lparr>calls := (calls (sfg s))(k \<mapsto> c)\<rparr>\<rparr>)"
| fx_shared: "sf_trans (SfCountShared k c) s (SfWait k c)
    (s\<lparr>sfg := (sfg s)\<lparr>sharedCalls := sharedCalls (sfg s) + 1\<rparr>\<rparr>)"
| fx_wait: "cdone (sfcalls s c) \<Longrightarrow>
    sf_trans (SfWait k c) s (SfRet (SfResult k (cval (sfcalls s c)) True)) s"
| fx_total: "sf_trans (SfCountTotal k c fn) s (SfRun k c fn)
    (s\<lparr>sfg := (sfg s)\<lparr>totalCalls := totalCalls (sfg s) + 1\<rparr>\<rparr>)"
| fx_panic: "sf_trans (SfRun k c None) s (SfRet SfPanicked) s"
| fx_run: "sf_trans (SfRun k c (Some v)) s (SfDone k c)
    (s\<lparr>sfcalls := (sfcalls s)(c := (sfcalls s c)\<lparr>cval := Some v\<rparr>)\<rparr>)"
| fx_done: "sf_trans (SfDone k c) s (SfDelete k c)
    (s\<lparr>sfcalls := (sfcalls s)(c := (sfcalls s c)\<lparr>cdone := True\<rparr>)\<rparr>)"
| fx_delete: "sf_trans (SfDelete k c) s (SfRet (SfResult k (cval (sfcalls s c)) False))
    (s\<lparr>sfg := (sfg s)\<lparr>calls := (calls (sfg s))(k := None)\<rparr>\<rparr>)"
| fx_forget: "sf_trans (SfForget k) s (SfRet SfForgot)
    (s\<lparr>sfg := (sfg s)\<lparr>calls := (calls (sfg s))(k := None)\<rparr>\<rparr>)"

lemmas sf_step_defs = SF_Do_step_def SF_Forget_step_def orelse_simps

lemma sf_step_trans:
  "orelse (SF_Do_step pc s) (SF_Forget_step pc s) = Some (pc', s') \<Longrightarrow> sf_trans pc s pc' s'"
  by (cases pc)
     (auto simp: sf_step_defs Let_def intro: sf_trans.intros split: option.splits if_splits)

lemma sf_exec_cases [consumes 1, case_names call go]:
  assumes "sf_exec e s = Some s'"
  obtains (call) t i op u r pc where "e = Invoke t i op" "sfpcs s u = SfRet r"
      "s' = s\<lparr>sfpcs := (sfpcs s)(u := pc)\<rparr>" "(\<exists>k fn. pc = SfEnter k fn) \<or> (\<exists>k. op = OpSfForget k \<and> pc = SfForget k)"
  | (go) t i pc s1 where "e = Go t i" "sf_trans (sfpcs s t) s pc s1"
      "s' = s1\<lparr>sfpcs := (sfpcs s)(t := pc), sflog := sflog s @ executed (sfpcs s t)\<rparr>"
proof (cases "(e, s)" rule: sf_exec.cases)
  case (1 t i k fn s)
  with assms show ?thesis by (cases "sfpcs s t") (auto intro: call split: if_splits)
next
  case (2 t i k s)
  with assms show ?thesis by (cases "sfpcs s t") (auto intro: call split: if_splits)
next
  case (3 t i k fn s)
  with assms show ?thesis
    by (auto simp: DoChan_start_def intro: call split: if_splits sfpc.splits sfret.splits)
next
  case (4 t i s)
  with assms show ?thesis by (auto dest!: sf_step_trans intro: go split: option.splits)
qed

subsection \<open>The shared result\<close>

text \<open>A goroutine refers to a call object of its key.\<close>

fun sf_refs :: "'v sfpc \<Rightarrow> (string \<times> nat) option" where
  "sf_refs (SfCountShared k c) = Some (k, c)"
| "sf_refs (SfWait k c) = Some (k, c)"
| "sf_refs (SfCountTotal k c fn) = Some (k, c)"
| "sf_refs (SfRun k c fn) = Some (k, c)"
| "sf_refs (SfDone k c) = Some (k, c)"
| "sf_refs (SfDelete k c) = Some (k, c)"
| "sf_refs _ = None"

text \<open>The goroutine that executed the function, once it has set the result of its call.\<close>

fun sf_ended :: "'v sfpc \<Rightarrow> nat option" where
  "sf_ended (SfDone k c) = Some c"
| "sf_ended (SfDelete k c) = Some c"
| "sf_ended _ = None"

text \<open>What a goroutine returned: nothing yet, or a result of a logged execution for its key.\<close>

fun sf_returned :: "(string \<times> nat \<times> 'v) list \<Rightarrow> 'v sfpc \<Rightarrow> bool" where
  "sf_returned l (SfRet (SfResult k r b)) = list_ex (\<lambda>(k', c, w). k' = k \<and> r = Some w) l"
| "sf_returned l _ = True"

definition sf_sound :: "'v sfsys \<Rightarrow> bool" where
  "sf_sound s \<longleftrightarrow>
     (\<forall>t k c. sf_refs (sfpcs s t) = Some (k, c) \<longrightarrow> c < sfnext s \<and> ckey (sfcalls s c) = k) \<and>
     (\<forall>k c. calls (sfg s) k = Some c \<longrightarrow> c < sfnext s \<and> ckey (sfcalls s c) = k) \<and>
     (\<forall>c v. c < sfnext s \<longrightarrow> cval (sfcalls s c) = Some v \<longrightarrow> (ckey (sfcalls s c), c, v) \<in> set (sflog s)) \<and>
     (\<forall>c. c < sfnext s \<longrightarrow> cdone (sfcalls s c) \<longrightarrow> cval (sfcalls s c) \<noteq> None) \<and>
     (\<forall>t c. sf_ended (sfpcs s t) = Some c \<longrightarrow> cval (sfcalls s c) \<noteq> None) \<and>
     (\<forall>t. sf_returned (sflog s) (sfpcs s t))"

lemma sf_soundD:
  assumes "sf_sound s"
  shows "sf_refs (sfpcs s t) = Some (k, c) \<Longrightarrow> c < sfnext s \<and> ckey (sfcalls s c) = k"
    and "calls (sfg s) k = Some c \<Longrightarrow> c < sfnext s \<and> ckey (sfcalls s c) = k"
    and "c < sfnext s \<Longrightarrow> cval (sfcalls s c) = Some v \<Longrightarrow> (ckey (sfcalls s c), c, v) \<in> set (sflog s)"
    and "c < sfnext s \<Longrightarrow> cdone (sfcalls s c) \<Longrightarrow> cval (sfcalls s c) \<noteq> None"
    and "sf_ended (sfpcs s t) = Some c \<Longrightarrow> cval (sfcalls s c) \<noteq> None"
    and "sf_returned (sflog s) (sfpcs s t)"
  using assms unfolding sf_sound_def by blast+

lemma sf_ended_refs: "sf_ended pc = Some c \<Longrightarrow> \<exists>k. sf_refs pc = Some (k, c)"
  by (cases pc rule: sf_ended.cases) auto

lemma sf_returned_mono:
  "sf_returned l pc \<Longrightarrow> set l \<subseteq> set l' \<Longrightarrow> sf_returned l' pc"
  by (cases "(l, pc)" rule: sf_returned.cases) (auto simp: list_ex_iff)

lemma sf_sound_move:
  assumes f: "sf_sound s" and p: "sfpcs s' = (sfpcs s)(t := pc)"
    and next': "sfnext s \<le> sfnext s'" and log: "set (sflog s) \<subseteq> set (sflog s')"
    and keys: "\<And>c. c < sfnext s \<Longrightarrow> ckey (sfcalls s' c) = ckey (sfcalls s c)"
    and vals: "\<And>c v. c < sfnext s' \<Longrightarrow> cval (sfcalls s' c) = Some v \<Longrightarrow>
       c < sfnext s \<and> cval (sfcalls s c) = Some v \<or> (ckey (sfcalls s' c), c, v) \<in> set (sflog s')"
    and stay: "\<And>c. c < sfnext s \<Longrightarrow> cval (sfcalls s c) \<noteq> None \<Longrightarrow> cval (sfcalls s' c) \<noteq> None"
    and fin: "\<And>c. c < sfnext s' \<Longrightarrow> cdone (sfcalls s' c) \<Longrightarrow>
       c < sfnext s \<and> cdone (sfcalls s c) \<or> cval (sfcalls s' c) \<noteq> None"
    and tab: "\<And>k c. calls (sfg s') k = Some c \<Longrightarrow>
       calls (sfg s) k = Some c \<or> c < sfnext s' \<and> ckey (sfcalls s' c) = k"
    and refs: "\<And>k c. sf_refs pc = Some (k, c) \<Longrightarrow> c < sfnext s' \<and> ckey (sfcalls s' c) = k"
    and ended: "\<And>c. sf_ended pc = Some c \<Longrightarrow> cval (sfcalls s' c) \<noteq> None"
    and ret: "sf_returned (sflog s') pc"
  shows "sf_sound s'"
proof -
  note D = sf_soundD [OF f]
  have pc: "sfpcs s' u = (if u = t then pc else sfpcs s u)" for u using p by simp
  have old: "c < sfnext s' \<and> ckey (sfcalls s' c) = k" if "c < sfnext s \<and> ckey (sfcalls s c) = k" for c k
    using that next' keys by auto
  have "c < sfnext s' \<and> ckey (sfcalls s' c) = k" if "sf_refs (sfpcs s' u) = Some (k, c)" for u k c
    using that refs [of k c] D(1) [of u k c] old pc [of u] by (cases "u = t") auto
  moreover have "c < sfnext s' \<and> ckey (sfcalls s' c) = k" if "calls (sfg s') k = Some c" for k c
    using tab [OF that] D(2) old by blast
  moreover have "(ckey (sfcalls s' c), c, v) \<in> set (sflog s')"
    if "c < sfnext s'" "cval (sfcalls s' c) = Some v" for c v
    using vals [OF that] D(3) [of c v] keys [of c] log by auto
  moreover have "cval (sfcalls s' c) \<noteq> None" if "c < sfnext s'" "cdone (sfcalls s' c)" for c
    using fin [OF that] D(4) stay by blast
  moreover have "cval (sfcalls s' c) \<noteq> None" if e: "sf_ended (sfpcs s' u) = Some c" for u c
  proof (cases "u = t")
    case False
    then have e': "sf_ended (sfpcs s u) = Some c" using e pc by simp
    then show ?thesis using D(5) stay D(1) sf_ended_refs [OF e'] by blast
  qed (use e pc ended in simp)
  moreover have "sf_returned (sflog s') (sfpcs s' u)" for u
    using ret pc [of u] sf_returned_mono [OF D(6) log] by simp
  ultimately show ?thesis unfolding sf_sound_def by blast
qed

lemma sf_sound_trans:
  assumes f: "sf_sound s" and t: "sf_trans (sfpcs s t) s pc s1"
    and s': "s' = s1\<lparr>sfpcs := (sfpcs s)(t := pc), sflog := sflog s @ executed (sfpcs s t)\<rparr>"
  shows "sf_sound s'"
proof -
  note D = sf_soundD [OF f]
  have result: "sf_returned (sflog s) (SfRet (SfResult k (cval (sfcalls s c)) b))"
    if "sf_refs (sfpcs s t) = Some (k, c)" "cval (sfcalls s c) \<noteq> None" for k c b
    using that D(1) [OF that(1)] D(3) [of c] by (force simp: list_ex_iff)
  show ?thesis
  proof (rule sf_sound_move [OF f, of s' t pc])
    show "sfpcs s' = (sfpcs s)(t := pc)" using s' by simp
    show "sf_returned (sflog s') pc"
      using t
    proof (cases rule: sf_trans.cases)
      case (fx_wait c k)
      then have "cval (sfcalls s c) \<noteq> None" using D(1) [of t k c] D(4) [of c] by simp
      then show ?thesis using fx_wait s' result [of k c True] by simp
    next
      case (fx_delete k c)
      then show ?thesis using D(5) [of t c] s' result [of k c False] by simp
    qed (use s' in auto)
  qed (use t D(1) [of t] D(2) D(5) [of t] s' in
        \<open>cases rule: sf_trans.cases; auto simp: new_call_def split: if_splits\<close>)+
qed

lemma sf_sound_step:
  assumes f: "sf_sound s" and x: "sf_exec e s = Some s'"
  shows "sf_sound s'"
  using x
proof (cases rule: sf_exec_cases)
  case (call t i op u r pc)
  then show ?thesis using f by (intro sf_sound_move [OF f, of s' u pc]) (auto simp: sf_sound_def)
next
  case (go t i pc s1)
  then show ?thesis by (intro sf_sound_trans [OF f]) auto
qed

lemma sf_sound_init: "sf_sound (sf_init t0)"
  by (simp add: sf_sound_def sf_init_def NewGroup_def)

interpretation sf_snd: invariant_machine sf_exec "sf_init t0" sf_sound
  by unfold_locales (auto intro: sf_sound_init sf_sound_step)

subsection \<open>One execution at a time\<close>

text \<open>The callers that never call \<^verbatim>\<open>Forget\<close>.\<close>

fun sf_noforget :: "'v sfop event \<Rightarrow> 'v sfsys \<Rightarrow> 'v sfsys option" where
  "sf_noforget (Invoke t i (OpSfForget k)) s = None"
| "sf_noforget e s = sf_exec e s"

fun sf_leads :: "'v sfpc \<Rightarrow> (string \<times> nat) option" where
  "sf_leads (SfCountTotal k c fn) = Some (k, c)"
| "sf_leads (SfRun k c fn) = Some (k, c)"
| "sf_leads (SfDone k c) = Some (k, c)"
| "sf_leads (SfDelete k c) = Some (k, c)"
| "sf_leads _ = None"

definition sf_single :: "'v sfsys \<Rightarrow> bool" where
  "sf_single s \<longleftrightarrow> (\<forall>t k. sfpcs s t \<noteq> SfForget k) \<and>
     (\<forall>t k c. sf_leads (sfpcs s t) = Some (k, c) \<longrightarrow> calls (sfg s) k = Some c) \<and>
     (\<forall>t u k c d. sf_leads (sfpcs s t) = Some (k, c) \<longrightarrow> sf_leads (sfpcs s u) = Some (k, d) \<longrightarrow> t = u)"

lemma sf_single_keep:
  assumes f: "sf_single s" and p: "sfpcs s' = (sfpcs s)(t := pc)"
    and l: "sf_leads pc = sf_leads (sfpcs s t) \<or> sf_leads pc = None"
    and c: "calls (sfg s') = calls (sfg s)" and n: "\<And>k. pc \<noteq> SfForget k"
  shows "sf_single s'"
proof -
  have "sf_leads (sfpcs s' u) = Some x \<Longrightarrow> sf_leads (sfpcs s u) = Some x" for u x
    using p l by (auto split: if_splits)
  moreover have "sfpcs s' u \<noteq> SfForget k" for u k using p n f by (auto simp: sf_single_def)
  ultimately show ?thesis using f c unfolding sf_single_def by metis
qed

lemma sf_single_trans:
  assumes f: "sf_single s" and t: "sf_trans (sfpcs s t) s pc s1"
    and s': "s' = s1\<lparr>sfpcs := (sfpcs s)(t := pc), sflog := sflog s @ executed (sfpcs s t)\<rparr>"
  shows "sf_single s'"
proof -
  have lead: "calls (sfg s) k = Some c" if "sf_leads (sfpcs s u) = Some (k, c)" for u k c
    using f that unfolding sf_single_def by blast
  have uniq: "v = u" if "sf_leads (sfpcs s u) = Some (k, c)" "sf_leads (sfpcs s v) = Some (k, d)" for u v k c d
    using f that unfolding sf_single_def by blast
  have nof: "sfpcs s u \<noteq> SfForget k" for u k using f by (auto simp: sf_single_def)
  have p: "sfpcs s' = (sfpcs s)(t := pc)" using s' by simp
  from t show ?thesis
  proof (cases rule: sf_trans.cases)
    case (fx_lead k c fn)
    then have "sf_leads (sfpcs s u) \<noteq> Some (k, d)" for u d using lead [of u k d] by auto
    then show ?thesis using fx_lead p s' lead uniq nof unfolding sf_single_def by (auto split: if_splits)
  next
    case (fx_delete k c)
    have other: "k' \<noteq> k" if "sf_leads (sfpcs s u) = Some (k', d)" "u \<noteq> t" for u k' d
      using uniq [of t k c u d] that fx_delete(1) by auto
    then show ?thesis using fx_delete p s' lead uniq nof unfolding sf_single_def by (auto split: if_splits)
  next
    case (fx_forget k)
    then show ?thesis using nof by metis
  qed (rule sf_single_keep [OF f p]; simp add: s')+
qed

lemma sf_noforget_exec: "sf_noforget e s = Some s' \<Longrightarrow> sf_exec e s = Some s'"
  by (cases "(e, s)" rule: sf_noforget.cases) auto

lemma sf_single_step:
  assumes f: "sf_single s" and x: "sf_noforget e s = Some s'"
  shows "sf_single s'"
  using sf_noforget_exec [OF x]
proof (cases rule: sf_exec_cases)
  case (call t i op u r pc)
  then have "\<exists>k fn. pc = SfEnter k fn" using x by auto
  then show ?thesis using call by (intro sf_single_keep [OF f, of s' u pc]) auto
next
  case (go t i pc s1)
  then show ?thesis by (intro sf_single_trans [OF f]) auto
qed

lemma sf_single_init: "sf_single (sf_init t0)"
  by (simp add: sf_single_def sf_init_def)

interpretation sf_sng: invariant_machine sf_noforget "sf_init t0" sf_single
  by unfold_locales (auto intro: sf_single_init sf_single_step)

subsection \<open>Properties\<close>

lemmas sf_eval = sf_init_def NewGroup_def sf_step_defs Let_def new_call_def inp0_def

definition sf_forget_run :: "nat sfop event list" where
  "sf_forget_run =
     Invoke 0 inp0 (OpSfDo ''k'' (Some 0)) # replicate 2 (Go 0 inp0) @
     [Invoke 1 inp0 (OpSfForget ''k''), Go 1 inp0] @
     Invoke 2 inp0 (OpSfDo ''k'' (Some 2)) # replicate 2 (Go 2 inp0) @
     replicate 3 (Go 0 inp0) @
     Invoke 3 inp0 (OpSfDo ''k'' (Some 3)) # replicate 2 (Go 3 inp0)"

definition sf_shared_run :: "nat sfop event list" where
  "sf_shared_run =
     Invoke 0 inp0 (OpSfDo ''k'' (Some 7)) # replicate 2 (Go 0 inp0) @
     Invoke 1 inp0 (OpSfDo ''k'' (Some 8)) # replicate 2 (Go 1 inp0) @
     replicate 2 (Go 0 inp0) @ [Go 1 inp0]"

definition sf_panic_run :: "nat sfop event list" where
  "sf_panic_run =
     Invoke 0 inp0 (OpSfDo ''k'' None) # replicate 3 (Go 0 inp0) @
     Invoke 1 inp0 (OpSfDo ''k'' (Some 1)) # replicate 2 (Go 1 inp0)"

text \<open>C29. Every result \<^verbatim>\<open>Do\<close> returns, shared or not, is the result of a completed execution of a
  function for the same key; it is never the zero value of a call whose function has not
  returned.\<close>

theorem singleflight_result_from_execution:
  assumes "reachable sf_exec (sf_init t0) s" "sfpcs s t = SfRet (SfResult k r shared)"
  shows "\<exists>c w. r = Some w \<and> (k, c, w) \<in> set (sflog s)"
  using sf_soundD(6) [OF sf_snd.reachable_inv [OF assms(1)], of t] assms(2)
  by (auto simp: list_ex_iff)

theorem singleflight_result_from_execution_witness:
  "\<exists>s. run sf_exec sf_shared_run (sf_init 0) = Some s \<and>
     sfpcs s 1 = SfRet (SfResult ''k'' (Some 7) True) \<and> (\<exists>c w. Some 7 = Some w \<and> (''k'', c, w) \<in> set (sflog s))"
proof -
  obtain s where r: "run sf_exec sf_shared_run (sf_init 0) = Some s"
    and p: "sfpcs s 1 = SfRet (SfResult ''k'' (Some 7) True)" by (simp add: sf_shared_run_def sf_eval)
  with singleflight_result_from_execution [OF run_reachable [OF r] p] show ?thesis by blast
qed

text \<open>C28. Without \<^verbatim>\<open>Forget\<close>, at most one goroutine executes a function for a given key at a time, even
  when functions panic.\<close>

theorem singleflight_one_in_flight:
  assumes "reachable sf_noforget (sf_init t0) s" "sfpcs s t = SfRun k c fn" "sfpcs s u = SfRun k d fn'"
  shows "t = u"
proof -
  have "sf_single s" by (rule sf_sng.reachable_inv [OF assms(1)])
  then show ?thesis using assms(2,3) unfolding sf_single_def by (metis sf_leads.simps(2))
qed

theorem singleflight_one_in_flight_witness:
  "\<exists>s. run sf_noforget (Invoke 0 inp0 (OpSfDo ''k'' (Some (7 :: nat))) # replicate 2 (Go 0 inp0)) (sf_init 0) = Some s \<and>
     sfpcs s 0 = SfRun ''k'' 0 (Some 7) \<and> (\<forall>u d fn. u = 0 \<or> sfpcs s u \<noteq> SfRun ''k'' d fn)"
proof -
  obtain s where r: "run sf_noforget (Invoke 0 inp0 (OpSfDo ''k'' (Some (7 :: nat))) # replicate 2 (Go 0 inp0)) (sf_init 0) = Some s"
    and p: "sfpcs s 0 = SfRun ''k'' 0 (Some 7)" by (simp add: sf_eval)
  have "u = 0 \<or> sfpcs s u \<noteq> SfRun ''k'' d fn" for u d fn
    using singleflight_one_in_flight [OF run_reachable [OF r] p, of u d fn] by auto
  with r p show ?thesis by blast
qed

text \<open>\<^verbatim>\<open>Forget\<close> breaks the deduplication of later calls: goroutine 0's call is forgotten, goroutine
  2 starts a new one, and when goroutine 0 returns it deletes the entry of goroutine 2's call.
  Goroutine 3 then executes its function while goroutine 2's, which nobody forgot, is in
  flight.\<close>

lemma singleflight_forget_deletes_newer_call:
  "\<exists>s. run sf_exec sf_forget_run (sf_init 0) = Some s \<and> sfpcs s 2 = SfRun ''k'' 1 (Some 2) \<and>
     sfpcs s 3 = SfRun ''k'' 2 (Some 3)"
  by (simp add: sf_forget_run_def sf_eval)

text \<open>A function that panics blocks its key: the entry stays in the map and its wait group is
  never done, so a later \<^verbatim>\<open>Do\<close> for the key waits although no call is in flight.\<close>

lemma singleflight_panic_blocks_key:
  "\<exists>s. run sf_exec sf_panic_run (sf_init 0) = Some s \<and> sfpcs s 1 = SfWait ''k'' 0 \<and>
     (\<forall>i. sf_exec (Go 1 i) s = None) \<and> (\<forall>t. t = 1 \<or> (\<exists>r. sfpcs s t = SfRet r))"
  by (simp add: sf_panic_run_def sf_eval)

end
