(* ===== verification/ServerState.thy ===== *)
theory ServerState
  imports ServerRules JsonVal AuditLog JWT RWLock FairRWLock Semaphore CondVar Barrier WaitGroup Once Singleflight
begin

text \<open>
  The state of \<^verbatim>\<open>web/server.go\<close> and the operations its handlers share.

  Primitives are objects in a \<open>heap\<close>: the maps of a namespace hold their addresses, so that a
  goroutine that has looked one up keeps it after it was deleted from the map. Contexts are nodes of
  a tree, named by their index in \<open>ctxs\<close>. A connection is a number. A pointer to a \<^verbatim>\<open>connPrims\<close> is the
  name of its namespace: namespaces are created once and never replaced or removed. \<open>outbox\<close> is what
  was written to the connections, in order; logging to \<^verbatim>\<open>slog\<close> is left out.
\<close>

subsection \<open>Contexts\<close>

datatype ctxErr = Canceled | DeadlineExceeded

record ctxNode =
  cparent :: "nat option"
  cerr :: "ctxErr option"

type_synonym ctx = nat

text \<open>\<^verbatim>\<open>ctx.Err()\<close>: its own cause, or that of its parent. Parents are older than their children.\<close>

fun Err :: "ctxNode list \<Rightarrow> ctx \<Rightarrow> ctxErr option" where
  "Err cs c =
     (if c < length cs
      then (case cerr (cs ! c) of
              Some e \<Rightarrow> Some e
            | None \<Rightarrow> (case cparent (cs ! c) of
                        None \<Rightarrow> None | Some p \<Rightarrow> if p < c then Err cs p else None))
      else None)"

declare Err.simps [simp del]

definition WithCancel :: "ctx \<Rightarrow> ctxNode list \<Rightarrow> ctx \<times> ctxNode list" where
  "WithCancel parent cs = (length cs, cs @ [\<lparr>cparent = Some parent, cerr = None\<rparr>])"

definition Background :: "ctxNode list \<Rightarrow> ctx \<times> ctxNode list" where
  "Background cs = (length cs, cs @ [\<lparr>cparent = None, cerr = None\<rparr>])"

text \<open>The first cause stays.\<close>

definition cancelCtx :: "ctxErr \<Rightarrow> ctx \<Rightarrow> ctxNode list \<Rightarrow> ctxNode list" where
  "cancelCtx e c cs =
     (if c < length cs \<and> Err cs c = None then cs[c := (cs ! c)\<lparr>cerr := Some e\<rparr>] else cs)"

subsection \<open>Primitives and their statistics\<close>

type_synonym addr = nat

datatype prim =
    PRWLock RWLock
  | PFairRWLock FairRWLock
  | PSemaphore Semaphore
  | PMutex Mutex
  | PCondVar CondVar
  | PBarrier Barrier
  | PWaitGroup WaitGroup
  | POnce Once
  | PGroup Group

datatype primStats =
    StRWLock RWLockStats
  | StFairRWLock FairRWLockStats
  | StSemaphore SemaphoreStats
  | StMutex MutexStats
  | StCondVar CondVarStats
  | StBarrier BarrierStats
  | StWaitGroup WaitGroupStats
  | StOnce OnceStats
  | StGroup SingleflightStats

fun GetStats :: "int \<Rightarrow> prim \<Rightarrow> primStats" where
  "GetStats t (PRWLock x) = StRWLock (RWLock_GetStats t x)"
| "GetStats t (PFairRWLock x) = StFairRWLock (FairRWLock_GetStats t x)"
| "GetStats t (PSemaphore x) = StSemaphore (Semaphore_GetStats t x)"
| "GetStats t (PMutex x) = StMutex (Mutex_GetStats t x)"
| "GetStats t (PCondVar x) = StCondVar (CondVar_GetStats t x)"
| "GetStats t (PBarrier x) = StBarrier (Barrier_GetStats t x)"
| "GetStats t (PWaitGroup x) = StWaitGroup (WaitGroup_GetStats t x)"
| "GetStats t (POnce x) = StOnce (Once_GetStats t x)"
| "GetStats t (PGroup x) = StGroup (Singleflight_GetStats t x)"

fun primType :: "prim \<Rightarrow> PrimitiveType" where
  "primType (PRWLock x) = TypeRWLock"
| "primType (PFairRWLock x) = TypeFairRWLock"
| "primType (PSemaphore x) = TypeSemaphore"
| "primType (PMutex x) = TypeMutex"
| "primType (PCondVar x) = TypeCondVar"
| "primType (PBarrier x) = TypeBarrier"
| "primType (PWaitGroup x) = TypeWaitGroup"
| "primType (POnce x) = TypeOnce"
| "primType (PGroup x) = TypeSingleflight"

subsection \<open>The records of the server\<close>

type_synonym conn = nat

record Config =
  AllowedOrigins :: "string list"
  TLSCertFile :: string
  TLSKeyFile :: string
  APIKey :: string
  JWTSecret :: string
  DefaultNamespace :: string
  MaxConns :: int
  SnapshotPath :: string
  DisableCompression :: bool
  HistogramBuckets :: "int64 list"
  AuditLogPath :: string
  AuditLogMaxBytes :: int64
  AuditLogKeepFiles :: int

record connState =
  msgTimes :: "int list"
  opTimes :: "int list"
  csConnID :: string
  csUser :: string
  csRole :: string
  csNamespace :: string
  opCtx :: ctx

record deltaState =
  lastPrimJSON :: "(string, json) gomap"
  lastFullRefreshAt :: "int option"

record connPrims =
  rwlocks :: "(string, addr) gomap"
  fairrwlocks :: "(string, addr) gomap"
  semaphores :: "(string, addr) gomap"
  mutexes :: "(string, addr) gomap"
  condvars :: "(string, addr) gomap"
  barriers :: "(string, addr) gomap"
  waitgroups :: "(string, addr) gomap"
  onces :: "(string, addr) gomap"
  singleflights :: "(string, addr) gomap"
  primCtxs :: "(string, ctx) gomap"

definition newConnPrims :: connPrims where
  "newConnPrims = \<lparr>rwlocks = [], fairrwlocks = [], semaphores = [], mutexes = [], condvars = [],
     barriers = [], waitgroups = [], onces = [], singleflights = [], primCtxs = []\<rparr>"

definition primExists :: "connPrims \<Rightarrow> string \<Rightarrow> bool" where
  "primExists cp pid \<longleftrightarrow>
     map_of (rwlocks cp) pid \<noteq> None \<or> map_of (fairrwlocks cp) pid \<noteq> None \<or>
     map_of (semaphores cp) pid \<noteq> None \<or> map_of (mutexes cp) pid \<noteq> None \<or>
     map_of (condvars cp) pid \<noteq> None \<or> map_of (barriers cp) pid \<noteq> None \<or>
     map_of (waitgroups cp) pid \<noteq> None \<or> map_of (onces cp) pid \<noteq> None \<or>
     map_of (singleflights cp) pid \<noteq> None"

text \<open>What is sent to clients: the type of the message and its payload.\<close>

record statePayload =
  stPrimitives :: "(string, primStats PrimitiveInfo) gomap"
  stGoroutines :: "(64 word, GoroutineInfo) gomap"
  stEvents :: "Event list"
  stMetrics :: SchedulerMetrics
  stSequence :: "64 word"

record deltaUpdatePayload =
  duPrimitives :: "(string, primStats PrimitiveInfo) gomap"
  duDeleted :: "string list"
  duGoroutines :: "(64 word, GoroutineInfo) gomap"
  duEvents :: "Event list"
  duMetrics :: SchedulerMetrics
  duSequence :: "64 word"

datatype outMsg =
    OSuccess string "string option"
  | OError string
  | OInitialState statePayload
  | OState statePayload
  | OMetrics GlobalMetrics "(string, PrimitiveMetricsSnapshot) gomap"
  | OUpdate deltaUpdatePayload
  | OClose

record wsMessage =
  mType :: string
  mPayload :: "json option"

record Server =
  cfg :: Config
  scheduler :: "primStats Scheduler"
  metricsCollector :: MetricsCollector
  connPrimsMap :: "(conn, string) gomap"
  namespaces :: "(string, connPrims) gomap"
  clients :: "(conn, bool) gomap"
  writeMu :: "(conn, unit) gomap"
  connStates :: "(conn, connState) gomap"
  deltaStates :: "(conn, deltaState) gomap"
  broadcastCh :: "primStats SchedulerUpdate list"
  droppedBroadcasts :: int64
  msgRateLimitHits :: int64
  opRateLimitHits :: int64
  fullRefreshRequests :: int64
  updateSequence :: "64 word"
  authFailuresExpired :: int64
  authFailuresInvalid :: int64
  authFailuresMalformed :: int64
  maxConns :: int
  activeConns :: int64
  draining :: bool
  stopClosed :: bool
  shutdownCtx :: ctx
  goroutineCounter :: "64 word"
  connCounter :: "64 word"
  snapshotPath :: string
  auditLogger :: "Logger option"
  heap :: "prim list"
  ctxs :: "ctxNode list"
  outbox :: "(conn \<times> outMsg) list"

subsection \<open>Lookups\<close>

definition getOrCreateNamespacePrims :: "string \<Rightarrow> Server \<Rightarrow> Server" where
  "getOrCreateNamespacePrims namespace s =
     (if map_of (namespaces s) namespace = None
      then s\<lparr>namespaces := AList.update namespace newConnPrims (namespaces s)\<rparr> else s)"

definition namespaceForConn :: "conn \<Rightarrow> Server \<Rightarrow> string" where
  "namespaceForConn conn s = (case map_of (connStates s) conn of
      Some cs \<Rightarrow> if csNamespace cs \<noteq> [] then csNamespace cs else defaultNamespace (DefaultNamespace (cfg s))
    | None \<Rightarrow> defaultNamespace (DefaultNamespace (cfg s)))"

text \<open>The container a connection works on, and what is in it.\<close>

definition connPrimsFor :: "conn \<Rightarrow> Server \<Rightarrow> string option" where
  "connPrimsFor conn s = map_of (connPrimsMap s) conn"

definition primsIn :: "string \<Rightarrow> Server \<Rightarrow> connPrims" where
  "primsIn ns s = (case map_of (namespaces s) ns of Some cp \<Rightarrow> cp | None \<Rightarrow> newConnPrims)"

definition setPrims :: "string \<Rightarrow> connPrims \<Rightarrow> Server \<Rightarrow> Server" where
  "setPrims ns cp s = s\<lparr>namespaces := AList.update ns cp (namespaces s)\<rparr>"

definition roleForConn :: "conn \<Rightarrow> Server \<Rightarrow> string" where
  "roleForConn conn s = roleFor (map_option csRole (map_of (connStates s) conn))"

definition authorizeMessage :: "conn \<Rightarrow> string \<Rightarrow> Server \<Rightarrow> string option" where
  "authorizeMessage conn msgType s = authorizeRole (roleForConn conn s) msgType"

subsection \<open>Answers and the audit log\<close>

definition sendToClient :: "conn \<Rightarrow> outMsg \<Rightarrow> Server \<Rightarrow> Server" where
  "sendToClient conn msg s =
     (if map_of (writeMu s) conn = None then s else s\<lparr>outbox := outbox s @ [(conn, msg)]\<rparr>)"

definition sendSuccess :: "conn \<Rightarrow> string \<Rightarrow> Server \<Rightarrow> Server" where
  "sendSuccess conn message s = sendToClient conn (OSuccess message None) s"

definition sendError :: "conn \<Rightarrow> string \<Rightarrow> Server \<Rightarrow> Server" where
  "sendError conn message s = sendToClient conn (OError message) s"

text \<open>The zero \<^verbatim>\<open>time.Time\<close> is the first day of year 1.\<close>

definition zeroTime :: int where
  "zeroTime = - 62135596800000000000"

definition entry0 :: Entry where
  "entry0 = \<lparr>eTimestamp = zeroTime, eEvent = [], ConnID = [], eUser = [], ePrimitiveID = [],
     ePrimitiveType = [], eOp = [], HoldMs = 0, eResult = [], DurationNs = 0, eError = []\<rparr>"

definition logAudit :: "int \<Rightarrow> conn \<Rightarrow> Entry \<Rightarrow> Server \<Rightarrow> Server" where
  "logAudit t conn entry s = (case auditLogger s of
      None \<Rightarrow> s
    | Some l \<Rightarrow>
        (let e1 = (if eTimestamp entry = zeroTime then entry\<lparr>eTimestamp := t\<rparr> else entry);
             e2 = (case map_of (connStates s) conn of
                     None \<Rightarrow> e1
                   | Some st \<Rightarrow>
                       e1\<lparr>ConnID := (if ConnID e1 = [] then csConnID st else ConnID e1),
                          eUser := (if eUser e1 = [] then csUser st else eUser e1)\<rparr>)
         in s\<lparr>auditLogger := Some (Log e2 l)\<rparr>))"

subsection \<open>Rate limits\<close>

definition checkRateLimit :: "int \<Rightarrow> conn \<Rightarrow> Server \<Rightarrow> bool \<times> Server" where
  "checkRateLimit t conn s = (case map_of (connStates s) conn of
      None \<Rightarrow> (True, s)
    | Some cs \<Rightarrow>
        (case rateWindow 200 t (msgTimes cs) of
           (ok, ts) \<Rightarrow> (ok, s\<lparr>connStates := AList.update conn (cs\<lparr>msgTimes := ts\<rparr>) (connStates s)\<rparr>)))"

definition checkOpRateLimit :: "int \<Rightarrow> conn \<Rightarrow> Server \<Rightarrow> bool \<times> Server" where
  "checkOpRateLimit t conn s = (case map_of (connStates s) conn of
      None \<Rightarrow> (True, s)
    | Some cs \<Rightarrow>
        (case rateWindow 50 t (opTimes cs) of
           (ok, ts) \<Rightarrow> (ok, s\<lparr>connStates := AList.update conn (cs\<lparr>opTimes := ts\<rparr>) (connStates s)\<rparr>)))"

subsection \<open>Connections\<close>

definition registerClient :: "int \<Rightarrow> conn \<Rightarrow> string \<Rightarrow> Server \<Rightarrow> Server" where
  "registerClient t conn namespace s =
     (let s1 = s\<lparr>clients := AList.update conn True (clients s), writeMu := AList.update conn () (writeMu s),
                connCounter := connCounter s + 1\<rparr>;
          connID = ''conn-'' @ decimal (unat (connCounter s1));
          s2 = getOrCreateNamespacePrims namespace s1;
          (c, cs) = WithCancel (shutdownCtx s2) (ctxs s2);
          s3 = s2\<lparr>ctxs := cs,
                  connStates := AList.update conn
                    \<lparr>msgTimes = [], opTimes = [], csConnID = connID, csUser = [], csRole = RoleAdmin,
                     csNamespace = namespace, opCtx = c\<rparr> (connStates s2),
                  deltaStates := AList.update conn \<lparr>lastPrimJSON = [], lastFullRefreshAt = None\<rparr> (deltaStates s2),
                  connPrimsMap := AList.update conn namespace (connPrimsMap s2)\<rparr>
      in logAudit t conn (entry0\<lparr>eTimestamp := t, eEvent := ''conn_opened'', eResult := ''success''\<rparr>) s3)"

definition unregisterClient :: "int \<Rightarrow> conn \<Rightarrow> Server \<Rightarrow> Server" where
  "unregisterClient t conn s =
     (let s1 = s\<lparr>clients := AList.delete conn (clients s), writeMu := AList.delete conn (writeMu s),
                ctxs := (case map_of (connStates s) conn of
                           None \<Rightarrow> ctxs s | Some st \<Rightarrow> cancelCtx Canceled (opCtx st) (ctxs s)),
                connStates := AList.delete conn (connStates s),
                deltaStates := AList.delete conn (deltaStates s),
                connPrimsMap := AList.delete conn (connPrimsMap s),
                activeConns := activeConns s - 1\<rparr>
      in logAudit t conn (entry0\<lparr>eTimestamp := t, eEvent := ''conn_closed'', eResult := ''success''\<rparr>) s1)"

subsection \<open>A new server\<close>

text \<open>The struct that \<^verbatim>\<open>NewServerWithConfig\<close> builds, with the background goroutines of the scheduler
  started.\<close>

definition newServer :: "int \<Rightarrow> Config \<Rightarrow> Server" where
  "newServer t c =
     (let (root, cs) = Background []
      in \<lparr>cfg = c, scheduler = Start (NewScheduler t),
          metricsCollector = NewMetricsCollectorWithBuckets t (HistogramBuckets c),
          connPrimsMap = [], namespaces = [], clients = [], writeMu = [], connStates = [], deltaStates = [],
          broadcastCh = [], droppedBroadcasts = 0, msgRateLimitHits = 0, opRateLimitHits = 0,
          fullRefreshRequests = 0, updateSequence = 0, authFailuresExpired = 0, authFailuresInvalid = 0,
          authFailuresMalformed = 0, maxConns = (if MaxConns c \<le> 0 then 1000 else MaxConns c),
          activeConns = 0, draining = False, stopClosed = False, shutdownCtx = root, goroutineCounter = 0,
          connCounter = 0, snapshotPath = SnapshotPath c, auditLogger = None, heap = [], ctxs = cs,
          outbox = []\<rparr>)"

definition demoConfig :: Config where
  "demoConfig = \<lparr>AllowedOrigins = [], TLSCertFile = [], TLSKeyFile = [], APIKey = [], JWTSecret = [],
     DefaultNamespace = [], MaxConns = 0, SnapshotPath = [], DisableCompression = False, HistogramBuckets = [],
     AuditLogPath = [], AuditLogMaxBytes = 0, AuditLogKeepFiles = 0\<rparr>"

end
