(* ===== verification/ServerHandlers.thy ===== *)
theory ServerHandlers
  imports ServerState
begin

text \<open>
  The message handlers of \<^verbatim>\<open>web/server.go\<close>.

  A handler runs in the goroutine of its connection and takes one lock after the other, so other
  goroutines can run in between. A handler is therefore a function from the state to the state after
  its first critical section and the list of actions it still has to do, each of them atomic;
  \<open>perform\<close> does one of them, \<open>complete\<close> does them all without interference.
\<close>

datatype act =
    ActRegister string PrimitiveType string addr
  | ActMetricsRegister string PrimitiveType string
  | ActCancelPrim string string
  | ActUnregister string
  | ActMetricsUnregister string
  | ActAudit conn Entry
  | ActSend conn outMsg
  | ActReadState conn bool
  | ActSeedState conn bool "(string, primStats PrimitiveInfo) gomap"
  | ActSendState conn bool "(string, primStats PrimitiveInfo) gomap"
  | ActGo conn string string int

subsection \<open>State messages\<close>

text \<open>The JSON form of a primitive, field by field. A time is given by its nanoseconds.\<close>

definition jword :: "'a::len word \<Rightarrow> json" where
  "jword w = JNum (sint w)"

fun statsJSON :: "primStats \<Rightarrow> json" where
  "statsJSON (StRWLock x) = JObj [(''ReaderAcquires'', jword (rs_ReaderAcquires x)),
     (''WriterAcquires'', jword (rs_WriterAcquires x)), (''ReaderWaits'', jword (rs_ReaderWaits x)),
     (''WriterWaits'', jword (rs_WriterWaits x)), (''TotalWaitTimeNs'', jword (rs_TotalWaitTimeNs x)),
     (''CurrentReaders'', jword (rs_CurrentReaders x)), (''WriterHeld'', JBool (rs_WriterHeld x)),
     (''ReadersWaiting'', jword (rs_ReadersWaiting x)), (''WritersWaiting'', jword (rs_WritersWaiting x)),
     (''Age'', JNum (rs_Age x))]"
| "statsJSON (StFairRWLock x) = JObj [(''Policy'', JStr (fs_Policy x)),
     (''ReaderAcquires'', jword (fs_ReaderAcquires x)), (''WriterAcquires'', jword (fs_WriterAcquires x)),
     (''ReaderWaits'', jword (fs_ReaderWaits x)), (''WriterWaits'', jword (fs_WriterWaits x)),
     (''TotalWaitTimeNs'', jword (fs_TotalWaitTimeNs x)), (''CurrentReaders'', jword (fs_CurrentReaders x)),
     (''WriterHeld'', JBool (fs_WriterHeld x)), (''WaitersQueued'', jword (fs_WaitersQueued x)),
     (''Age'', JNum (fs_Age x))]"
| "statsJSON (StSemaphore x) = JObj [(''Capacity'', jword (ss_Capacity x)),
     (''CurrentCount'', jword (ss_CurrentCount x)), (''Acquires'', jword (ss_Acquires x)),
     (''Releases'', jword (ss_Releases x)), (''Waits'', jword (ss_Waits x)),
     (''Timeouts'', jword (ss_Timeouts x)), (''TotalWaitTimeNs'', jword (ss_TotalWaitTimeNs x)),
     (''WaitersQueued'', jword (ss_WaitersQueued x)), (''Age'', JNum (ss_Age x))]"
| "statsJSON (StMutex x) = JObj [(''Locks'', jword (ms_Locks x)), (''Unlocks'', jword (ms_Unlocks x)),
     (''Waits'', jword (ms_Waits x)), (''TotalWaitTimeNs'', jword (ms_TotalWaitTimeNs x)),
     (''IsLocked'', JBool (ms_IsLocked x)), (''WaitersQueued'', jword (ms_WaitersQueued x)),
     (''Age'', JNum (ms_Age x))]"
| "statsJSON (StCondVar x) = JObj [(''Waits'', jword (cs_Waits x)), (''Signals'', jword (cs_Signals x)),
     (''Broadcasts'', jword (cs_Broadcasts x)), (''TotalWaitTimeNs'', jword (cs_TotalWaitTimeNs x)),
     (''WaitersQueued'', jword (cs_WaitersQueued x)), (''Age'', JNum (cs_Age x))]"
| "statsJSON (StBarrier x) = JObj [(''Parties'', jword (bs_Parties x)), (''Arrived'', jword (bs_Arrived x)),
     (''Generation'', jword (bs_Generation x)), (''Trips'', jword (bs_Trips x)),
     (''TotalWaitTimeNs'', jword (bs_TotalWaitTimeNs x)), (''WaitersQueued'', jword (bs_WaitersQueued x)),
     (''Age'', JNum (bs_Age x))]"
| "statsJSON (StWaitGroup x) = JObj [(''Count'', jword (gs_Count x)), (''AddCount'', jword (gs_AddCount x)),
     (''DoneCount'', jword (gs_DoneCount x)), (''WaitCount'', jword (gs_WaitCount x)),
     (''Age'', JNum (gs_Age x))]"
| "statsJSON (StOnce x) = JObj [(''Done'', JBool (os_Done x)), (''DoCalls'', jword (os_DoCalls x)),
     (''ResetCalls'', jword (os_ResetCalls x)), (''Age'', JNum (os_Age x))]"
| "statsJSON (StGroup x) = JObj [(''TotalCalls'', jword (sfs_TotalCalls x)),
     (''SharedCalls'', jword (sfs_SharedCalls x)), (''Age'', JNum (sfs_Age x))]"

definition primitiveJSON :: "primStats PrimitiveInfo \<Rightarrow> json" where
  "primitiveJSON p = JObj [(''ID'', JStr (pID p)), (''Type'', JStr (pType p)), (''Name'', JStr (pName p)),
     (''CreatedAt'', JStr (itoa (pCreatedAt p))), (''BlockedCount'', jword (BlockedCount p)),
     (''Stats'', statsJSON (pStats p))]"

text \<open>The key is compared only for equality; it is kept as a value instead of its text.\<close>

definition primitiveSnapshotKey :: "primStats PrimitiveInfo \<Rightarrow> json" where
  "primitiveSnapshotKey prim = onMember ''Stats'' (dropMember ''Age'') (untyped (primitiveJSON prim))"

definition emptyDelta :: deltaState where
  "emptyDelta = \<lparr>lastPrimJSON = [], lastFullRefreshAt = None\<rparr>"

definition deltaFor :: "conn \<Rightarrow> Server \<Rightarrow> deltaState" where
  "deltaFor conn s = (case map_of (deltaStates s) conn of Some ds \<Rightarrow> ds | None \<Rightarrow> emptyDelta)"

definition seedDeltaState :: "conn \<Rightarrow> (string, primStats PrimitiveInfo) gomap \<Rightarrow> Server \<Rightarrow> Server" where
  "seedDeltaState conn prims s =
     s\<lparr>deltaStates := AList.update conn
         ((deltaFor conn s)\<lparr>lastPrimJSON := map (\<lambda>(pid, prim). (pid, primitiveSnapshotKey prim)) prims\<rparr>)
         (deltaStates s)\<rparr>"

text \<open>\<^verbatim>\<open>sendInitialState\<close> and \<^verbatim>\<open>sendState\<close> differ in the type of the message: \<open>init\<close> is the former.\<close>

definition stateFor :: "int \<Rightarrow> conn \<Rightarrow> (string, primStats PrimitiveInfo) gomap \<Rightarrow> Server \<Rightarrow> statePayload" where
  "stateFor t conn prims s =
     (let namespace = namespaceForConn conn s
      in \<lparr>stPrimitives = prims,
          stGoroutines = filterGoroutinesForNamespace (GetGoroutines (scheduler s)) namespace,
          stEvents = filterEventsForNamespace (GetEvents 100 (scheduler s)) namespace,
          stMetrics = Scheduler_GetMetrics t (scheduler s), stSequence = updateSequence s\<rparr>)"

definition sendState :: "conn \<Rightarrow> act list" where
  "sendState conn = [ActReadState conn False]"

definition sendInitialState :: "conn \<Rightarrow> act list" where
  "sendInitialState conn = [ActReadState conn True]"

subsection \<open>One action\<close>

definition cancelPrim :: "string \<Rightarrow> string \<Rightarrow> Server \<Rightarrow> Server" where
  "cancelPrim ns pid s =
     (let cp = primsIn ns s
      in case map_of (primCtxs cp) pid of
           None \<Rightarrow> s
         | Some c \<Rightarrow> setPrims ns (cp\<lparr>primCtxs := AList.delete pid (primCtxs cp)\<rparr>)
                      (s\<lparr>ctxs := cancelCtx Canceled c (ctxs s)\<rparr>))"

fun perform :: "int \<Rightarrow> act \<Rightarrow> Server \<Rightarrow> Server \<times> act list" where
  "perform t (ActRegister q ty name a) s =
     (s\<lparr>scheduler := RegisterPrimitive t q ty name (GetStats t (heap s ! a)) (scheduler s)\<rparr>, [])"
| "perform t (ActMetricsRegister q ty name) s =
     (s\<lparr>metricsCollector := Metrics_RegisterPrimitive t q ty name (metricsCollector s)\<rparr>, [])"
| "perform t (ActCancelPrim ns pid) s = (cancelPrim ns pid s, [])"
| "perform t (ActUnregister q) s = (s\<lparr>scheduler := UnregisterPrimitive t q (scheduler s)\<rparr>, [])"
| "perform t (ActMetricsUnregister q) s =
     (s\<lparr>metricsCollector := Metrics_UnregisterPrimitive q (metricsCollector s)\<rparr>, [])"
| "perform t (ActAudit conn e) s = (logAudit t conn e s, [])"
| "perform t (ActSend conn msg) s = (sendToClient conn msg s, [])"
| "perform t (ActReadState conn init) s =
     (s, [ActSeedState conn init
            (filterPrimitivesForNamespace (GetPrimitives (scheduler s)) (namespaceForConn conn s))])"
| "perform t (ActSeedState conn init prims) s = (seedDeltaState conn prims s, [ActSendState conn init prims])"
| "perform t (ActSendState conn init prims) s =
     (sendToClient conn ((if init then OInitialState else OState) (stateFor t conn prims s)) s, [])"
| "perform t (ActGo conn pid op ms) s = (s, [])"

text \<open>The last action starts the goroutine of an operation, which is all that the handler does about
  it: the state of the server stays the same at that moment. What the goroutine does, action by action and
  interleaved with everything else, is the machine of the theory \<open>ServerOps\<close>, which starts one for each
  such action. So \<open>complete\<close> below is the handler's own work, without the operation's.\<close>

fun act_weight :: "act \<Rightarrow> nat" where
  "act_weight (ActReadState conn init) = 3"
| "act_weight (ActSeedState conn init prims) = 2"
| "act_weight _ = 1"

lemma perform_weight:
  "perform t a s = (s', bs) \<Longrightarrow> sum_list (map act_weight bs) < act_weight a"
  by (cases a) auto

function complete :: "int \<Rightarrow> Server \<times> act list \<Rightarrow> Server" where
  "complete t (s, []) = s"
| "complete t (s, a # as) = (case perform t a s of (s', bs) \<Rightarrow> complete t (s', bs @ as))"
  by pat_completeness auto
termination
  by (relation "measure (\<lambda>(t, s, as). sum_list (map act_weight as))") (auto dest: perform_weight [OF sym])

subsection \<open>Creating primitives\<close>

definition decodeCreate :: "json option \<Rightarrow> (string \<times> string) option" where
  "decodeCreate j = (case structMembers j of
      None \<Rightarrow> None
    | Some kvs \<Rightarrow> (case (fieldString ''id'' kvs, fieldString ''name'' kvs) of
                    (Some pid, Some name) \<Rightarrow> Some (pid, name) | _ \<Rightarrow> None))"

definition decodeSized :: "string \<Rightarrow> json option \<Rightarrow> (string \<times> string \<times> int32) option" where
  "decodeSized field j = (case structMembers j of
      None \<Rightarrow> None
    | Some kvs \<Rightarrow> (case (fieldString ''id'' kvs, fieldString ''name'' kvs, fieldInt32 field kvs) of
                    (Some pid, Some name, Some n) \<Rightarrow> Some (pid, name, n) | _ \<Rightarrow> None))"

definition refuse :: "conn \<Rightarrow> string \<Rightarrow> Server \<Rightarrow> Server \<times> act list" where
  "refuse conn message s = (s, [ActSend conn (OError message)])"

text \<open>What the nine create handlers do once the payload is decoded and valid: \<open>put\<close> enters the address
  into the map of the handler's type. The handler of \<^verbatim>\<open>FairRWLock\<close> is the only one that does not write
  an audit entry.\<close>

definition createPrimitive ::
    "conn \<Rightarrow> string \<Rightarrow> string \<Rightarrow> prim \<Rightarrow> (addr \<Rightarrow> connPrims \<Rightarrow> connPrims) \<Rightarrow> bool \<Rightarrow> string \<Rightarrow>
     Server \<Rightarrow> Server \<times> act list" where
  "createPrimitive conn pid name obj put audited message s =
     (case connPrimsFor conn s of
        None \<Rightarrow> refuse conn ''connection not registered'' s
      | Some ns \<Rightarrow>
          (let cp = primsIn ns s
           in if primExists cp pid then refuse conn (''primitive with ID already exists: '' @ pid) s
              else let a = length (heap s); (primCtx, cs) = WithCancel (shutdownCtx s) (ctxs s);
                       cp1 = put a cp; cp2 = cp1\<lparr>primCtxs := AList.update pid primCtx (primCtxs cp1)\<rparr>;
                       s1 = setPrims ns cp2 (s\<lparr>heap := heap s @ [obj], ctxs := cs\<rparr>);
                       internalID = qualifiedPrimID (namespaceForConn conn s1) pid; ty = primType obj
                   in (s1, [ActRegister internalID ty name a, ActMetricsRegister internalID ty name] @
                           (if audited
                            then [ActAudit conn (entry0\<lparr>eEvent := ''primitive_created'', ePrimitiveID := pid,
                                                       ePrimitiveType := ty, eResult := ''success''\<rparr>)]
                            else []) @
                           [ActSend conn (OSuccess message None)])))"

definition createWith ::
    "conn \<Rightarrow> wsMessage \<Rightarrow> prim \<Rightarrow> (string \<Rightarrow> addr \<Rightarrow> connPrims \<Rightarrow> connPrims) \<Rightarrow> bool \<Rightarrow> string \<Rightarrow>
     Server \<Rightarrow> Server \<times> act list" where
  "createWith conn msg obj put audited message s =
     (case decodeCreate (mPayload msg) of
        None \<Rightarrow> refuse conn ''Invalid payload'' s
      | Some (pid, name) \<Rightarrow>
          if validatePrimID pid \<noteq> [] then refuse conn (validatePrimID pid) s
          else if validatePrimName name \<noteq> [] then refuse conn (validatePrimName name) s
          else createPrimitive conn pid name obj (put pid) audited message s)"

definition handleCreateRWLock :: "int \<Rightarrow> conn \<Rightarrow> wsMessage \<Rightarrow> Server \<Rightarrow> Server \<times> act list" where
  "handleCreateRWLock t conn msg s =
     createWith conn msg (PRWLock (NewRWLock t))
       (\<lambda>pid a cp. cp\<lparr>rwlocks := AList.update pid a (rwlocks cp)\<rparr>) True ''RWLock created'' s"

definition handleCreateFairRWLock :: "int \<Rightarrow> conn \<Rightarrow> wsMessage \<Rightarrow> Server \<Rightarrow> Server \<times> act list" where
  "handleCreateFairRWLock t conn msg s =
     createWith conn msg (PFairRWLock (NewFairRWLock t))
       (\<lambda>pid a cp. cp\<lparr>fairrwlocks := AList.update pid a (fairrwlocks cp)\<rparr>) False ''FairRWLock created'' s"

text \<open>The constructor panics only for sizes the handler has refused before.\<close>

definition handleCreateSemaphore :: "int \<Rightarrow> conn \<Rightarrow> wsMessage \<Rightarrow> Server \<Rightarrow> Server \<times> act list" where
  "handleCreateSemaphore t conn msg s =
     (case decodeSized ''capacity'' (mPayload msg) of
        None \<Rightarrow> refuse conn ''Invalid payload'' s
      | Some (pid, name, cap) \<Rightarrow>
          if validatePrimID pid \<noteq> [] then refuse conn (validatePrimID pid) s
          else if validatePrimName name \<noteq> [] then refuse conn (validatePrimName name) s
          else if sint cap \<le> 0 then refuse conn ''capacity must be a positive integer'' s
          else (case NewSemaphore t cap of
                  Inl panic \<Rightarrow> (s, [])
                | Inr x \<Rightarrow> createPrimitive conn pid name (PSemaphore x)
                    (\<lambda>a cp. cp\<lparr>semaphores := AList.update pid a (semaphores cp)\<rparr>) True ''Semaphore created'' s))"

definition handleCreateMutex :: "int \<Rightarrow> conn \<Rightarrow> wsMessage \<Rightarrow> Server \<Rightarrow> Server \<times> act list" where
  "handleCreateMutex t conn msg s =
     createWith conn msg (PMutex (NewMutex t))
       (\<lambda>pid a cp. cp\<lparr>mutexes := AList.update pid a (mutexes cp)\<rparr>) True ''Mutex created'' s"

definition handleCreateCondVar :: "int \<Rightarrow> conn \<Rightarrow> wsMessage \<Rightarrow> Server \<Rightarrow> Server \<times> act list" where
  "handleCreateCondVar t conn msg s =
     createWith conn msg (PCondVar (NewCondVar t))
       (\<lambda>pid a cp. cp\<lparr>condvars := AList.update pid a (condvars cp)\<rparr>) True ''CondVar created'' s"

definition handleCreateBarrier :: "int \<Rightarrow> conn \<Rightarrow> wsMessage \<Rightarrow> Server \<Rightarrow> Server \<times> act list" where
  "handleCreateBarrier t conn msg s =
     (case decodeSized ''parties'' (mPayload msg) of
        None \<Rightarrow> refuse conn ''Invalid payload'' s
      | Some (pid, name, n) \<Rightarrow>
          if validatePrimID pid \<noteq> [] then refuse conn (validatePrimID pid) s
          else if validatePrimName name \<noteq> [] then refuse conn (validatePrimName name) s
          else if sint n \<le> 0 then refuse conn ''parties must be a positive integer'' s
          else (case NewBarrier t n of
                  Inl panic \<Rightarrow> (s, [])
                | Inr x \<Rightarrow> createPrimitive conn pid name (PBarrier x)
                    (\<lambda>a cp. cp\<lparr>barriers := AList.update pid a (barriers cp)\<rparr>) True ''Barrier created'' s))"

definition handleCreateWaitGroup :: "int \<Rightarrow> conn \<Rightarrow> wsMessage \<Rightarrow> Server \<Rightarrow> Server \<times> act list" where
  "handleCreateWaitGroup t conn msg s =
     createWith conn msg (PWaitGroup (NewWaitGroup t))
       (\<lambda>pid a cp. cp\<lparr>waitgroups := AList.update pid a (waitgroups cp)\<rparr>) True ''WaitGroup created'' s"

definition handleCreateOnce :: "int \<Rightarrow> conn \<Rightarrow> wsMessage \<Rightarrow> Server \<Rightarrow> Server \<times> act list" where
  "handleCreateOnce t conn msg s =
     createWith conn msg (POnce (NewOnce t))
       (\<lambda>pid a cp. cp\<lparr>onces := AList.update pid a (onces cp)\<rparr>) True ''Once created'' s"

definition handleCreateSingleflight :: "int \<Rightarrow> conn \<Rightarrow> wsMessage \<Rightarrow> Server \<Rightarrow> Server \<times> act list" where
  "handleCreateSingleflight t conn msg s =
     createWith conn msg (PGroup (NewGroup t))
       (\<lambda>pid a cp. cp\<lparr>singleflights := AList.update pid a (singleflights cp)\<rparr>) True ''Singleflight created'' s"

subsection \<open>The other handlers\<close>

definition removePrim :: "string \<Rightarrow> connPrims \<Rightarrow> connPrims" where
  "removePrim pid cp = cp\<lparr>rwlocks := AList.delete pid (rwlocks cp),
     fairrwlocks := AList.delete pid (fairrwlocks cp), semaphores := AList.delete pid (semaphores cp),
     mutexes := AList.delete pid (mutexes cp), condvars := AList.delete pid (condvars cp),
     barriers := AList.delete pid (barriers cp), waitgroups := AList.delete pid (waitgroups cp),
     onces := AList.delete pid (onces cp), singleflights := AList.delete pid (singleflights cp)\<rparr>"

definition handleDeletePrimitive :: "conn \<Rightarrow> wsMessage \<Rightarrow> Server \<Rightarrow> Server \<times> act list" where
  "handleDeletePrimitive conn msg s =
     (case structMembers (mPayload msg) of
        None \<Rightarrow> refuse conn ''Invalid payload'' s
      | Some kvs \<Rightarrow> (case fieldString ''id'' kvs of
          None \<Rightarrow> refuse conn ''Invalid payload'' s
        | Some pid \<Rightarrow> (case connPrimsFor conn s of
            None \<Rightarrow> refuse conn ''connection not registered'' s
          | Some ns \<Rightarrow>
              if \<not> primExists (primsIn ns s) pid then refuse conn (''Primitive not found: '' @ pid) s
              else let internalID = qualifiedPrimID (namespaceForConn conn s) pid
                   in (setPrims ns (removePrim pid (primsIn ns s)) s,
                       [ActCancelPrim ns pid, ActUnregister internalID, ActMetricsUnregister internalID,
                        ActAudit conn (entry0\<lparr>eEvent := ''primitive_deleted'', ePrimitiveID := pid,
                                             eResult := ''success''\<rparr>),
                        ActSend conn (OSuccess ''Primitive deleted'' None)]))))"

definition handleGetMetrics :: "int \<Rightarrow> conn \<Rightarrow> Server \<Rightarrow> Server \<times> act list" where
  "handleGetMetrics t conn s =
     (s, [ActSend conn (OMetrics (GetGlobalMetrics t (metricsCollector s))
           (filterMetricSnapshotsForNamespace (GetAllMetrics t (metricsCollector s)) (namespaceForConn conn s)))])"

text \<open>At most one full refresh per second and connection.\<close>

definition handleRequestFullRefresh :: "int \<Rightarrow> conn \<Rightarrow> Server \<Rightarrow> Server \<times> act list" where
  "handleRequestFullRefresh t conn s =
     (let ds = deltaFor conn s
      in case lastFullRefreshAt ds of
           Some u \<Rightarrow>
             if t - u < 1000000000
             then refuse conn ''full refresh rate limit exceeded: max 1 request/second''
                    (s\<lparr>deltaStates := AList.update conn ds (deltaStates s)\<rparr>)
             else (s\<lparr>deltaStates := AList.update conn (ds\<lparr>lastFullRefreshAt := Some t\<rparr>) (deltaStates s),
                     fullRefreshRequests := fullRefreshRequests s + 1\<rparr>, sendState conn)
         | None \<Rightarrow>
             (s\<lparr>deltaStates := AList.update conn (ds\<lparr>lastFullRefreshAt := Some t\<rparr>) (deltaStates s),
                fullRefreshRequests := fullRefreshRequests s + 1\<rparr>, sendState conn))"

definition decodeOp :: "json option \<Rightarrow> (string \<times> string \<times> int) option" where
  "decodeOp j = (case structMembers j of
      None \<Rightarrow> None
    | Some kvs \<Rightarrow> (case (fieldString ''id'' kvs, fieldString ''op'' kvs, fieldInt ''holdMs'' kvs) of
                    (Some pid, Some op, Some ms) \<Rightarrow> Some (pid, op, ms) | _ \<Rightarrow> None))"

text \<open>\<^verbatim>\<open>primitiveOp\<close> messages start a goroutine of their own; what it does is in the theory \<open>ServerOps\<close>.\<close>

definition handlePrimitiveOp :: "conn \<Rightarrow> wsMessage \<Rightarrow> Server \<Rightarrow> Server \<times> act list" where
  "handlePrimitiveOp conn msg s =
     (case decodeOp (mPayload msg) of
        None \<Rightarrow> refuse conn ''Invalid payload for primitiveOp'' s
      | Some (pid, op, ms) \<Rightarrow> (s, [ActGo conn pid op ms]))"

definition handleMessage :: "int \<Rightarrow> conn \<Rightarrow> wsMessage \<Rightarrow> Server \<Rightarrow> Server \<times> act list" where
  "handleMessage t conn msg s =
     (case authorizeMessage conn (mType msg) s of
        Some err \<Rightarrow> refuse conn err s
      | None \<Rightarrow>
          if mType msg = ''createRWLock'' then handleCreateRWLock t conn msg s
          else if mType msg = ''createFairRWLock'' then handleCreateFairRWLock t conn msg s
          else if mType msg = ''createSemaphore'' then handleCreateSemaphore t conn msg s
          else if mType msg = ''createMutex'' then handleCreateMutex t conn msg s
          else if mType msg = ''createCondVar'' then handleCreateCondVar t conn msg s
          else if mType msg = ''createBarrier'' then handleCreateBarrier t conn msg s
          else if mType msg = ''createWaitGroup'' then handleCreateWaitGroup t conn msg s
          else if mType msg = ''createOnce'' then handleCreateOnce t conn msg s
          else if mType msg = ''createSingleflight'' then handleCreateSingleflight t conn msg s
          else if mType msg = ''deletePrimitive'' then handleDeletePrimitive conn msg s
          else if mType msg = ''getMetrics'' then handleGetMetrics t conn s
          else if mType msg = ''primitiveOp'' then handlePrimitiveOp conn msg s
          else if mType msg = ''requestFullRefresh'' then handleRequestFullRefresh t conn s
          else refuse conn (''Unknown message type: '' @ mType msg) s)"

subsection \<open>Field names\<close>

lemma field_matches:
  "fieldMatches ''id'' ''id''" "\<not> fieldMatches ''id'' ''type''" "\<not> fieldMatches ''id'' ''name''"
  "\<not> fieldMatches ''id'' ''capacity''" "\<not> fieldMatches ''id'' ''parties''"
  "fieldMatches ''type'' ''type''" "\<not> fieldMatches ''type'' ''id''" "\<not> fieldMatches ''type'' ''name''"
  "\<not> fieldMatches ''type'' ''capacity''" "\<not> fieldMatches ''type'' ''parties''"
  "fieldMatches ''name'' ''name''" "\<not> fieldMatches ''name'' ''id''" "\<not> fieldMatches ''name'' ''type''"
  "\<not> fieldMatches ''name'' ''capacity''" "\<not> fieldMatches ''name'' ''parties''"
  "fieldMatches ''capacity'' ''capacity''" "\<not> fieldMatches ''capacity'' ''id''"
  "\<not> fieldMatches ''capacity'' ''type''" "\<not> fieldMatches ''capacity'' ''name''"
  "\<not> fieldMatches ''capacity'' ''parties''"
  "fieldMatches ''parties'' ''parties''" "\<not> fieldMatches ''parties'' ''id''"
  "\<not> fieldMatches ''parties'' ''type''" "\<not> fieldMatches ''parties'' ''name''"
  "\<not> fieldMatches ''parties'' ''capacity''"
  "fieldMatches ''version'' ''version''" "\<not> fieldMatches ''version'' ''namespace''"
  "\<not> fieldMatches ''version'' ''primitives''" "fieldMatches ''namespace'' ''namespace''"
  "\<not> fieldMatches ''namespace'' ''version''" "\<not> fieldMatches ''namespace'' ''primitives''"
  "fieldMatches ''primitives'' ''primitives''" "\<not> fieldMatches ''primitives'' ''version''"
  "\<not> fieldMatches ''primitives'' ''namespace''"
  by code_simp+

subsection \<open>What the parts leave alone\<close>

lemma sendToClient_frame [simp]:
  "namespaces (sendToClient c m s) = namespaces s" "scheduler (sendToClient c m s) = scheduler s"
  "metricsCollector (sendToClient c m s) = metricsCollector s" "heap (sendToClient c m s) = heap s"
  "ctxs (sendToClient c m s) = ctxs s" "connStates (sendToClient c m s) = connStates s"
  "connPrimsMap (sendToClient c m s) = connPrimsMap s" "deltaStates (sendToClient c m s) = deltaStates s"
  "auditLogger (sendToClient c m s) = auditLogger s" "cfg (sendToClient c m s) = cfg s"
  "writeMu (sendToClient c m s) = writeMu s" "clients (sendToClient c m s) = clients s"
  "shutdownCtx (sendToClient c m s) = shutdownCtx s" "updateSequence (sendToClient c m s) = updateSequence s"
  by (simp_all add: sendToClient_def)

lemma logAudit_frame [simp]:
  "namespaces (logAudit t c e s) = namespaces s" "scheduler (logAudit t c e s) = scheduler s"
  "metricsCollector (logAudit t c e s) = metricsCollector s" "heap (logAudit t c e s) = heap s"
  "ctxs (logAudit t c e s) = ctxs s" "connStates (logAudit t c e s) = connStates s"
  "connPrimsMap (logAudit t c e s) = connPrimsMap s" "deltaStates (logAudit t c e s) = deltaStates s"
  "outbox (logAudit t c e s) = outbox s" "cfg (logAudit t c e s) = cfg s"
  "writeMu (logAudit t c e s) = writeMu s" "clients (logAudit t c e s) = clients s"
  "shutdownCtx (logAudit t c e s) = shutdownCtx s" "updateSequence (logAudit t c e s) = updateSequence s"
  by (simp_all add: logAudit_def Let_def split: option.splits)

lemma setPrims_frame [simp]:
  "scheduler (setPrims ns cp s) = scheduler s" "metricsCollector (setPrims ns cp s) = metricsCollector s"
  "heap (setPrims ns cp s) = heap s" "ctxs (setPrims ns cp s) = ctxs s"
  "connStates (setPrims ns cp s) = connStates s" "connPrimsMap (setPrims ns cp s) = connPrimsMap s"
  "auditLogger (setPrims ns cp s) = auditLogger s" "cfg (setPrims ns cp s) = cfg s"
  "namespaces (setPrims ns cp s) = AList.update ns cp (namespaces s)"
  "writeMu (setPrims ns cp s) = writeMu s" "shutdownCtx (setPrims ns cp s) = shutdownCtx s"
  by (simp_all add: setPrims_def)

lemma seedDeltaState_frame [simp]:
  "namespaces (seedDeltaState c p s) = namespaces s" "scheduler (seedDeltaState c p s) = scheduler s"
  "metricsCollector (seedDeltaState c p s) = metricsCollector s" "heap (seedDeltaState c p s) = heap s"
  "ctxs (seedDeltaState c p s) = ctxs s" "connStates (seedDeltaState c p s) = connStates s"
  "connPrimsMap (seedDeltaState c p s) = connPrimsMap s" "outbox (seedDeltaState c p s) = outbox s"
  "auditLogger (seedDeltaState c p s) = auditLogger s" "cfg (seedDeltaState c p s) = cfg s"
  "writeMu (seedDeltaState c p s) = writeMu s" "clients (seedDeltaState c p s) = clients s"
  by (simp_all add: seedDeltaState_def)

lemma primsIn_simps [simp]:
  "primsIn ns (setPrims ns' cp s) = (if ns = ns' then cp else primsIn ns s)"
  "primsIn ns (sendToClient c m s) = primsIn ns s" "primsIn ns (logAudit t c e s) = primsIn ns s"
  "primsIn ns (s\<lparr>scheduler := sc\<rparr>) = primsIn ns s" "primsIn ns (s\<lparr>metricsCollector := mc\<rparr>) = primsIn ns s"
  "primsIn ns (s\<lparr>ctxs := cs\<rparr>) = primsIn ns s" "primsIn ns (s\<lparr>heap := h\<rparr>) = primsIn ns s"
  "primsIn ns (seedDeltaState c p s) = primsIn ns s"
  by (simp_all add: primsIn_def)

lemma namespaceForConn_cong:
  "connStates s' = connStates s \<Longrightarrow> cfg s' = cfg s \<Longrightarrow> namespaceForConn c s' = namespaceForConn c s"
  by (simp add: namespaceForConn_def split: option.splits)

lemma namespaceForConn_simps [simp]:
  "namespaceForConn c (setPrims ns cp s) = namespaceForConn c s"
  "namespaceForConn c (s\<lparr>heap := h\<rparr>) = namespaceForConn c s"
  "namespaceForConn c (s\<lparr>scheduler := sc\<rparr>) = namespaceForConn c s"
  "namespaceForConn c (s\<lparr>metricsCollector := mc\<rparr>) = namespaceForConn c s"
  "namespaceForConn c (s\<lparr>ctxs := cs\<rparr>) = namespaceForConn c s"
  "namespaceForConn c (s\<lparr>deltaStates := ds\<rparr>) = namespaceForConn c s"
  "namespaceForConn c (seedDeltaState d p s) = namespaceForConn c s"
  "namespaceForConn c (sendToClient d m s) = namespaceForConn c s"
  "namespaceForConn c (logAudit t d e s) = namespaceForConn c s"
  by (simp_all add: namespaceForConn_def split: option.splits)

lemma complete_send [simp]: "complete t (s, [ActSend conn m]) = sendToClient conn m s"
  by simp

lemma complete_refuse [simp]: "complete t (refuse conn e s) = sendError conn e s"
  by (simp add: refuse_def sendError_def)

subsection \<open>Roles\<close>

text \<open>A message of a connection that may neither create nor operate changes nothing that other
  connections can see.\<close>

definition same_for_others :: "conn \<Rightarrow> Server \<Rightarrow> Server \<Rightarrow> bool" where
  "same_for_others conn s s' \<longleftrightarrow>
     namespaces s' = namespaces s \<and> heap s' = heap s \<and> ctxs s' = ctxs s \<and>
     scheduler s' = scheduler s \<and> metricsCollector s' = metricsCollector s \<and>
     connStates s' = connStates s \<and> connPrimsMap s' = connPrimsMap s \<and> auditLogger s' = auditLogger s \<and>
     (\<forall>c. c \<noteq> conn \<longrightarrow> map_of (deltaStates s') c = map_of (deltaStates s) c \<and>
        filter (\<lambda>m. fst m = c) (outbox s') = filter (\<lambda>m. fst m = c) (outbox s))"

lemma same_for_others_send: "same_for_others conn s (sendToClient conn m s)"
  by (simp add: same_for_others_def) (simp add: sendToClient_def)

lemma same_for_others_trans:
  "same_for_others conn s s' \<Longrightarrow> same_for_others conn s' s'' \<Longrightarrow> same_for_others conn s s''"
  by (simp add: same_for_others_def)

lemma same_for_others_seed: "same_for_others conn s (seedDeltaState conn prims s)"
  by (simp add: same_for_others_def seedDeltaState_def)

lemma same_for_others_refresh: "same_for_others conn s (complete t (handleRequestFullRefresh t conn s))"
proof -
  have d: "same_for_others conn s (s\<lparr>deltaStates := AList.update conn ds (deltaStates s), fullRefreshRequests := n\<rparr>)"
    "same_for_others conn s (s\<lparr>deltaStates := AList.update conn ds (deltaStates s)\<rparr>)" for ds n
    by (simp_all add: same_for_others_def)
  have st: "same_for_others conn u (complete t (u, sendState conn))" for u
    by (simp add: sendState_def)
      (rule same_for_others_trans [OF same_for_others_seed same_for_others_send])
  show ?thesis
    by (auto simp: handleRequestFullRefresh_def Let_def refuse_def split: option.splits
        intro: same_for_others_trans [OF d(1) st] same_for_others_trans [OF d(2) same_for_others_send])
qed

text \<open>Only \<^verbatim>\<open>primitiveOp\<close> starts a goroutine.\<close>

lemma no_goroutine:
  "ActGo c pid op ms \<notin> set (snd (refuse conn e s))"
  "ActGo c pid op ms \<notin> set (snd (handleRequestFullRefresh t conn s))"
  by (auto simp: refuse_def handleRequestFullRefresh_def sendState_def Let_def split: option.splits)

lemma authorizeRole_cases:
  "authorizeRole role ty = None \<longleftrightarrow>
     (ty \<in> set createTypes \<or> ty = ''deletePrimitive'' \<longrightarrow> role = RoleAdmin) \<and>
     (ty = ''primitiveOp'' \<longrightarrow> role \<noteq> RoleViewer)"
  by (auto simp: authorizeRole_def createTypes_def)

lemma admin_allowed: "authorizeRole RoleAdmin ty = None"
  by (simp add: authorizeRole_cases RoleAdmin_def RoleViewer_def)

text \<open>C14. Roles are enforced. Whatever a connection sends whose role is not admin, a message other than
  \<^verbatim>\<open>primitiveOp\<close> changes no primitive, context, table, other connection or audit entry: only answers
  to the connection itself and its own refresh state; and it starts no goroutine of an operation. For the
  role viewer this holds of \<^verbatim>\<open>primitiveOp\<close> as well, so a viewer cannot operate on a primitive.\<close>

theorem roles_enforced:
  assumes "roleForConn conn s \<noteq> RoleAdmin" "mType msg \<noteq> ''primitiveOp'' \<or> roleForConn conn s = RoleViewer"
  shows "same_for_others conn s (complete t (handleMessage t conn msg s)) \<and>
    (\<forall>c pid op ms. ActGo c pid op ms \<notin> set (snd (handleMessage t conn msg s)))"
proof (cases "authorizeMessage conn (mType msg) s")
  case (Some e)
  then show ?thesis by (simp add: handleMessage_def sendError_def same_for_others_send no_goroutine)
next
  case None
  then have "mType msg \<notin> set createTypes" "mType msg \<noteq> ''deletePrimitive''" "mType msg \<noteq> ''primitiveOp''"
    using assms authorizeRole_cases by (auto simp: authorizeMessage_def)
  then have "handleMessage t conn msg s =
      (if mType msg = ''getMetrics'' then handleGetMetrics t conn s
       else if mType msg = ''requestFullRefresh'' then handleRequestFullRefresh t conn s
       else refuse conn (''Unknown message type: '' @ mType msg) s)"
    using None unfolding handleMessage_def by (simp add: createTypes_def)
  then show ?thesis
    by (simp add: handleGetMetrics_def sendError_def same_for_others_send same_for_others_refresh
        no_goroutine)
qed

definition demoViewer :: Server where
  "demoViewer = (newServer 0 demoConfig)\<lparr>connStates := [(2, \<lparr>msgTimes = [], opTimes = [], csConnID = ''conn-1'',
     csUser = ''eve'', csRole = RoleViewer, csNamespace = ''default'', opCtx = 0\<rparr>)]\<rparr>"

definition demoOpMsg :: wsMessage where
  "demoOpMsg = \<lparr>mType = ''primitiveOp'',
     mPayload = Some (JObj [(''id'', JStr ''m''), (''operation'', JStr ''lock'')])\<rparr>"

theorem roles_enforced_witness:
  "heap (complete 0 (handleMessage 0 2 demoOpMsg demoViewer)) = [] \<and>
   (\<forall>c pid op ms. ActGo c pid op ms \<notin> set (snd (handleMessage 0 2 demoOpMsg demoViewer)))"
proof -
  have "roleForConn 2 demoViewer = RoleViewer"
    by (simp add: roleForConn_def roleFor_def demoViewer_def RoleAdmin_def RoleViewer_def RoleOperator_def)
  then have "same_for_others 2 demoViewer (complete 0 (handleMessage 0 2 demoOpMsg demoViewer)) \<and>
      (\<forall>c pid op ms. ActGo c pid op ms \<notin> set (snd (handleMessage 0 2 demoOpMsg demoViewer)))"
    by (intro roles_enforced) (simp_all add: RoleAdmin_def RoleViewer_def)
  then show ?thesis by (auto simp: same_for_others_def demoViewer_def newServer_def Background_def)
qed

end
