(* ===== verification/ServerDelta.thy ===== *)
theory ServerDelta
  imports ServerHandlers
begin

text \<open>
  The background goroutines of \<^verbatim>\<open>web/server.go\<close>: scheduler updates are forwarded to the broadcast
  channel, and from there every client gets what changed since it was last told
  (\<^verbatim>\<open>buildDeltaUpdatePayload\<close>).

  The theorem is that this is as good as sending everything: the dashboard (\<open>handleInitialState\<close> and
  \<open>handleUpdate\<close>, after \<^verbatim>\<open>web/static/js/app.js\<close>), starting from a full state and applying the updates, shows
  the primitives of its namespace as they were in the last update, up to the age of their statistics.
\<close>

subsection \<open>Delta updates\<close>

fun diffPrims ::
    "(string, primStats PrimitiveInfo) gomap \<Rightarrow> (string, json) gomap \<Rightarrow> (string, primStats PrimitiveInfo) gomap \<Rightarrow>
     (string, primStats PrimitiveInfo) gomap \<times> (string, json) gomap" where
  "diffPrims [] known changed = (changed, known)"
| "diffPrims ((pid, prim) # ps) known changed =
     (let snapshot = primitiveSnapshotKey prim
      in if map_of known pid \<noteq> Some snapshot
         then diffPrims ps (AList.update pid snapshot known) (AList.update pid prim changed)
         else diffPrims ps known changed)"

definition buildDeltaUpdatePayload ::
    "conn \<Rightarrow> primStats SchedulerUpdate \<Rightarrow> 64 word \<Rightarrow> Server \<Rightarrow> deltaUpdatePayload \<times> Server" where
  "buildDeltaUpdatePayload conn update sequence s =
     (let namespace = namespaceForConn conn s;
          filteredPrims = filterPrimitivesForNamespace (uPrimitives update) namespace;
          ds = deltaFor conn s;
          (changed, known) = diffPrims filteredPrims (lastPrimJSON ds) [];
          gone = map fst (filter (\<lambda>(pid, key). map_of filteredPrims pid = None) known);
          left = filter (\<lambda>(pid, key). map_of filteredPrims pid \<noteq> None) known
      in (\<lparr>duPrimitives = changed, duDeleted = gone,
           duGoroutines = filterGoroutinesForNamespace (uGoroutines update) namespace,
           duEvents = filterEventsForNamespace (uEvents update) namespace,
           duMetrics = uMetrics update, duSequence = sequence\<rparr>,
          s\<lparr>deltaStates := AList.update conn (ds\<lparr>lastPrimJSON := left\<rparr>) (deltaStates s)\<rparr>))"

subsection \<open>The goroutines\<close>

text \<open>\<^verbatim>\<open>broadcastMessages\<close> waits for an update, notes the clients, and then builds and sends one payload
  after the other. \<open>ctxArm\<close> says that its \<^verbatim>\<open>select\<close> takes the arm of \<^verbatim>\<open>stop\<close>.\<close>

datatype bcast =
    BcLoop
  | BcBuild "primStats SchedulerUpdate" "64 word" "conn list"
  | BcSend conn deltaUpdatePayload "primStats SchedulerUpdate" "64 word" "conn list"
  | BcReturned

definition broadcastMessages_step :: "inp \<Rightarrow> bcast \<Rightarrow> Server \<Rightarrow> (bcast \<times> Server) option" where
  "broadcastMessages_step i b s = (case b of
     BcLoop \<Rightarrow>
       if ctxArm i \<and> stopClosed s then Some (BcReturned, s)
       else (case broadcastCh s of
               [] \<Rightarrow> None
             | u # us \<Rightarrow>
                 Some (BcBuild u (updateSequence s + 1) (map fst (clients s)),
                       s\<lparr>broadcastCh := us, updateSequence := updateSequence s + 1\<rparr>))
   | BcBuild u q [] \<Rightarrow> Some (BcLoop, s)
   | BcBuild u q (c # cs) \<Rightarrow>
       (case buildDeltaUpdatePayload c u q s of (p, s') \<Rightarrow> Some (BcSend c p u q cs, s'))
   | BcSend c p u q cs \<Rightarrow> Some (BcBuild u q cs, sendToClient c (OUpdate p) s)
   | BcReturned \<Rightarrow> None)"

text \<open>\<^verbatim>\<open>forwardSchedulerUpdates\<close>: one update from the scheduler's channel to the broadcast channel, which
  has room for 100; a full channel counts a drop. \<^verbatim>\<open>done\<close> ends it (\<open>False\<close>).\<close>

definition forwardSchedulerUpdates_step :: "inp \<Rightarrow> Server \<Rightarrow> (bool \<times> Server) option" where
  "forwardSchedulerUpdates_step i s =
     (if ctxArm i then (if sdone (scheduler s) then Some (False, s) else None)
      else case updateChan (scheduler s) of
             [] \<Rightarrow> None
           | u # us \<Rightarrow>
               (let s1 = s\<lparr>scheduler := (scheduler s)\<lparr>updateChan := us\<rparr>\<rparr>
                in case try_send 100 u (broadcastCh s1) of
                     Some buf \<Rightarrow> Some (True, s1\<lparr>broadcastCh := buf\<rparr>)
                   | None \<Rightarrow> Some (True, s1\<lparr>droppedBroadcasts := droppedBroadcasts s1 + 1\<rparr>)))"

text \<open>One tick of \<^verbatim>\<open>updatePrimitiveStats\<close>.\<close>

definition pushStats ::
    "int \<Rightarrow> prim list \<Rightarrow> string \<Rightarrow> (string, addr) gomap \<Rightarrow> primStats Scheduler \<Rightarrow> primStats Scheduler" where
  "pushStats t h namespace m sc =
     fold (\<lambda>(pid, a). UpdatePrimitiveStats (qualifiedPrimID namespace pid) (GetStats t (h ! a))) m sc"

definition pushNamespaceStats :: "int \<Rightarrow> prim list \<Rightarrow> string \<Rightarrow> connPrims \<Rightarrow> primStats Scheduler \<Rightarrow> primStats Scheduler" where
  "pushNamespaceStats t h namespace cp sc =
     fold (pushStats t h namespace)
       [rwlocks cp, fairrwlocks cp, semaphores cp, mutexes cp, condvars cp, barriers cp, waitgroups cp,
        onces cp, singleflights cp] sc"

definition updatePrimitiveStats_tick :: "int \<Rightarrow> Server \<Rightarrow> Server" where
  "updatePrimitiveStats_tick t s =
     s\<lparr>scheduler := fold (\<lambda>(namespace, cp). pushNamespaceStats t (heap s) namespace cp) (namespaces s) (scheduler s)\<rparr>"

subsection \<open>The dashboard\<close>

text \<open>What \<^verbatim>\<open>static/js/app.js\<close> keeps of the messages: a JSON value for each primitive, the goroutines,
  events and metrics of the last message, and the last sequence number; \<open>dRefreshes\<close> counts the
  \<^verbatim>\<open>requestFullRefresh\<close> messages it has sent. (The selected primitive and the paused view of the events are
  left out.) \<^verbatim>\<open>JSON.parse\<close> reads a number as a double, \<open>untyped\<close>, and a sequence number of 0 is no number to
  \<^verbatim>\<open>payload.sequence || payload.Sequence\<close>. The server never sends \<^verbatim>\<open>null\<close> for one of the collections, so the
  alternatives \<^verbatim>\<open>|| {}\<close> and \<^verbatim>\<open>|| []\<close> are never taken.\<close>

record dashboard =
  dPrimitives :: "string \<rightharpoonup> json"
  dGoroutines :: "(64 word, GoroutineInfo) gomap"
  dEvents :: "Event list"
  dMetrics :: "SchedulerMetrics option"
  dLastSequence :: int
  dRefreshes :: nat

definition newDashboard :: dashboard where
  "newDashboard = \<lparr>dPrimitives = Map.empty, dGoroutines = [], dEvents = [], dMetrics = None,
     dLastSequence = 0, dRefreshes = 0\<rparr>"

definition parsedPrims :: "(string, primStats PrimitiveInfo) gomap \<Rightarrow> string \<rightharpoonup> json" where
  "parsedPrims ps = (\<lambda>pid. map_option (\<lambda>p. untyped (primitiveJSON p)) (map_of ps pid))"

definition jsSequence :: "64 word \<Rightarrow> int option" where
  "jsSequence q = (if q = 0 then None else Some (float64 (uint q)))"

definition handleInitialState :: "statePayload \<Rightarrow> dashboard \<Rightarrow> dashboard" where
  "handleInitialState p d =
     d\<lparr>dPrimitives := parsedPrims (stPrimitives p), dGoroutines := stGoroutines p, dEvents := stEvents p,
       dMetrics := Some (stMetrics p),
       dLastSequence := (case jsSequence (stSequence p) of Some q \<Rightarrow> q | None \<Rightarrow> dLastSequence d)\<rparr>"

definition requestFullRefresh :: "dashboard \<Rightarrow> dashboard" where
  "requestFullRefresh d = d\<lparr>dRefreshes := dRefreshes d + 1\<rparr>"

definition handleUpdate :: "deltaUpdatePayload \<Rightarrow> dashboard \<Rightarrow> dashboard" where
  "handleUpdate p d =
     (let d1 = (case jsSequence (duSequence p) of
                  None \<Rightarrow> d
                | Some q \<Rightarrow>
                    (let d0 = (if dLastSequence d \<noteq> 0 \<and> float64 (dLastSequence d + 1) < q
                               then requestFullRefresh d else d)
                     in if dLastSequence d < q then d0\<lparr>dLastSequence := q\<rparr> else d0));
          d2 = d1\<lparr>dPrimitives := dPrimitives d1 ++ parsedPrims (duPrimitives p)\<rparr>;
          d3 = d2\<lparr>dPrimitives := dPrimitives d2 |` (- set (duDeleted p))\<rparr>
      in d3\<lparr>dGoroutines := duGoroutines p, dEvents := duEvents p, dMetrics := Some (duMetrics p)\<rparr>)"

text \<open>The other messages change none of this.\<close>

definition dashboardMessage :: "outMsg \<Rightarrow> dashboard \<Rightarrow> dashboard" where
  "dashboardMessage m d = (case m of
      OInitialState p \<Rightarrow> handleInitialState p d
    | OState p \<Rightarrow> handleInitialState p d
    | OUpdate p \<Rightarrow> handleUpdate p d
    | _ \<Rightarrow> d)"

text \<open>What one client is told and shows, one message after the other: full states (\<^verbatim>\<open>sendInitialState\<close>,
  \<^verbatim>\<open>sendState\<close>) and updates (\<^verbatim>\<open>broadcastMessages\<close>).\<close>

datatype delivery =
    DFull bool int "(string, primStats PrimitiveInfo) gomap"
  | DDelta "primStats SchedulerUpdate" "64 word"

fun deliver :: "conn \<Rightarrow> delivery \<Rightarrow> Server \<times> dashboard \<Rightarrow> Server \<times> dashboard" where
  "deliver conn (DFull init t ps) (s, d) =
     (let prims = filterPrimitivesForNamespace ps (namespaceForConn conn s);
          s' = seedDeltaState conn prims s
      in (s', dashboardMessage ((if init then OInitialState else OState) (stateFor t conn prims s')) d))"
| "deliver conn (DDelta u q) (s, d) =
     (case buildDeltaUpdatePayload conn u q s of (p, s') \<Rightarrow> (s', dashboardMessage (OUpdate p) d))"

fun latestPrims :: "delivery \<Rightarrow> (string, primStats PrimitiveInfo) gomap" where
  "latestPrims (DFull init t ps) = ps"
| "latestPrims (DDelta u q) = uPrimitives u"

text \<open>Two primitives as the dashboard has them that differ in the age of the statistics at most.\<close>

definition same_but_age :: "json \<Rightarrow> json \<Rightarrow> bool" where
  "same_but_age j j' \<longleftrightarrow>
     (\<forall>k. k \<noteq> ''Stats'' \<longrightarrow> member k j = member k j') \<and>
     (\<forall>k. k \<noteq> ''Age'' \<longrightarrow> Option.bind (member ''Stats'' j) (member k) = Option.bind (member ''Stats'' j') (member k))"

subsection \<open>Differences\<close>

lemma diffPrims_known:
  "gomap_ok ps \<Longrightarrow> map_of (snd (diffPrims ps known changed)) pid =
     (case map_of ps pid of Some prim \<Rightarrow> Some (primitiveSnapshotKey prim) | None \<Rightarrow> map_of known pid)"
proof (induction ps known changed rule: diffPrims.induct)
  case (2 q prim ps known changed)
  have ok: "gomap_ok ps" "map_of ps q = None"
    using "2.prems" by (simp_all add: gomap_ok_def map_of_eq_None_iff)
  show ?case
  proof (cases "map_of known q = Some (primitiveSnapshotKey prim)")
    case True
    then show ?thesis using "2.IH"(2) [OF refl _ ok(1)] ok(2) by (auto simp: Let_def)
  next
    case False
    then show ?thesis using "2.IH"(1) [OF refl _ ok(1)] ok(2) by (auto simp: Let_def split: option.splits)
  qed
qed simp

lemma diffPrims_changed:
  "gomap_ok ps \<Longrightarrow> map_of (fst (diffPrims ps known changed)) pid =
     (case map_of ps pid of
        Some prim \<Rightarrow> if map_of known pid \<noteq> Some (primitiveSnapshotKey prim) then Some prim else map_of changed pid
      | None \<Rightarrow> map_of changed pid)"
proof (induction ps known changed rule: diffPrims.induct)
  case (2 q prim ps known changed)
  have ok: "gomap_ok ps" "map_of ps q = None"
    using "2.prems" by (simp_all add: gomap_ok_def map_of_eq_None_iff)
  show ?case
  proof (cases "map_of known q = Some (primitiveSnapshotKey prim)")
    case True
    then show ?thesis using "2.IH"(2) [OF refl _ ok(1)] ok(2) by (auto simp: Let_def)
  next
    case False
    then show ?thesis using "2.IH"(1) [OF refl _ ok(1)] ok(2) by (auto simp: Let_def split: option.splits)
  qed
qed simp

lemma forNamespace_ok: "gomap_ok acc \<Longrightarrow> gomap_ok (forNamespace ns f m acc)"
  by (induction ns f m acc rule: forNamespace.induct) (auto split: prod.splits)

lemma map_of_filter_fst:
  "map_of (filter (\<lambda>(pid, key). P pid) m) q = (if P q then map_of m q else None)"
  by (induction m) auto

text \<open>What the key leaves out, on the JSON value, and what equal keys say.\<close>

definition ageless :: "json \<Rightarrow> json" where
  "ageless = onMember ''Stats'' (dropMember ''Age'')"

lemma member_onMember: "member k (onMember k' f j) = (if k = k' then map_option f (member k j) else member k j)"
proof (cases j)
  case (JObj kvs)
  then show ?thesis by (induction kvs arbitrary: j) (auto simp: member_def onMember_def)
qed (simp_all add: member_def onMember_def)

lemma member_dropMember: "member k (dropMember k' j) = (if k = k' then None else member k j)"
proof (cases j)
  case (JObj kvs)
  then show ?thesis by (induction kvs arbitrary: j) (auto simp: member_def dropMember_def)
qed (simp_all add: member_def dropMember_def)

lemma ageless_eq_same:
  assumes "ageless j = ageless j'"
  shows "same_but_age j j'"
  unfolding same_but_age_def
proof (intro conjI allI impI)
  fix k :: string assume "k \<noteq> ''Stats''"
  then show "member k j = member k j'"
    using arg_cong [OF assms, of "member k"] by (simp add: ageless_def member_onMember)
next
  fix k :: string assume k: "k \<noteq> ''Age''"
  have "Option.bind (member ''Stats'' i) (member k) = Option.bind (member ''Stats'' (ageless i)) (member k)" for i
    using k by (cases "member ''Stats'' i") (simp_all add: ageless_def member_onMember member_dropMember)
  then show "Option.bind (member ''Stats'' j) (member k) = Option.bind (member ''Stats'' j') (member k)"
    using assms by metis
qed

lemma parsedPrims_key:
  "map_option ageless (parsedPrims ps pid) = map_option primitiveSnapshotKey (map_of ps pid)"
  by (cases "map_of ps pid") (simp_all add: parsedPrims_def primitiveSnapshotKey_def ageless_def)

text \<open>What the server remembers of a client is what the client shows.\<close>

definition in_step :: "conn \<Rightarrow> Server \<Rightarrow> dashboard \<Rightarrow> bool" where
  "in_step conn s d \<longleftrightarrow>
     (\<forall>pid. map_option ageless (dPrimitives d pid) = map_of (lastPrimJSON (deltaFor conn s)) pid)"

text \<open>The dashboard shows these primitives.\<close>

definition shows_prims :: "(string, primStats PrimitiveInfo) gomap \<Rightarrow> dashboard \<Rightarrow> bool" where
  "shows_prims ps d \<longleftrightarrow> (\<forall>pid. map_option ageless (dPrimitives d pid) = map_option ageless (parsedPrims ps pid))"

lemma full_step:
  assumes "deliver conn (DFull init t ps) (s, d) = (s', d')"
  shows "in_step conn s' d' \<and> shows_prims (filterPrimitivesForNamespace ps (namespaceForConn conn s)) d' \<and>
    namespaceForConn conn s' = namespaceForConn conn s"
proof -
  let ?ps = "filterPrimitivesForNamespace ps (namespaceForConn conn s)"
  have m: "map_of (map (\<lambda>(pid, prim). (pid, primitiveSnapshotKey prim)) qs) pid =
      map_option primitiveSnapshotKey (map_of qs pid)" for qs pid
    by (induction qs) auto
  have d: "dPrimitives d' = parsedPrims ?ps" and s': "s' = seedDeltaState conn ?ps s"
    using assms by (auto simp: Let_def dashboardMessage_def handleInitialState_def stateFor_def split: if_splits)
  have "in_step conn s' d'"
    unfolding in_step_def d by (simp add: s' seedDeltaState_def deltaFor_def m parsedPrims_key)
  then show ?thesis by (simp add: shows_prims_def d) (simp add: s' seedDeltaState_def)
qed

lemma handleUpdate_fields:
  "dPrimitives (handleUpdate p d) pid =
     (if pid \<in> set (duDeleted p) then None
      else case parsedPrims (duPrimitives p) pid of Some j \<Rightarrow> Some j | None \<Rightarrow> dPrimitives d pid)"
  "dGoroutines (handleUpdate p d) = duGoroutines p" "dEvents (handleUpdate p d) = duEvents p"
  "dMetrics (handleUpdate p d) = Some (duMetrics p)"
  by (auto simp: handleUpdate_def Let_def requestFullRefresh_def restrict_map_def map_add_def split: option.splits)

lemma delta_step:
  assumes "in_step conn s d" "deliver conn (DDelta u q) (s, d) = (s', d')"
  shows "in_step conn s' d' \<and> shows_prims (filterPrimitivesForNamespace (uPrimitives u) (namespaceForConn conn s)) d' \<and>
    namespaceForConn conn s' = namespaceForConn conn s"
proof -
  let ?f = "filterPrimitivesForNamespace (uPrimitives u) (namespaceForConn conn s)"
  let ?known = "lastPrimJSON (deltaFor conn s)"
  obtain changed known where df: "diffPrims ?f ?known [] = (changed, known)"
    by (cases "diffPrims ?f ?known []")
  obtain p where b: "buildDeltaUpdatePayload conn u q s = (p, s')" and d': "d' = handleUpdate p d"
    using assms(2) by (auto simp: dashboardMessage_def split: prod.splits)
  have ok: "gomap_ok ?f" by (simp add: filterPrimitivesForNamespace_def forNamespace_ok)
  have k: "map_of known pid = (case map_of ?f pid of Some prim \<Rightarrow> Some (primitiveSnapshotKey prim) | None \<Rightarrow> map_of ?known pid)" for pid
    using diffPrims_known [OF ok, of ?known "[]" pid] df by simp
  have c: "map_of changed pid = (case map_of ?f pid of
      Some prim \<Rightarrow> if map_of ?known pid \<noteq> Some (primitiveSnapshotKey prim) then Some prim else None | None \<Rightarrow> None)" for pid
    using diffPrims_changed [OF ok, of ?known "[]" pid] df by (simp split: option.splits)
  have v: "map_option ageless (dPrimitives d pid) = map_of ?known pid" for pid
    using assms(1) by (simp add: in_step_def)
  have p: "duPrimitives p = changed" "duDeleted p = map fst (filter (\<lambda>(pid, key). map_of ?f pid = None) known)"
    and s': "lastPrimJSON (deltaFor conn s') = filter (\<lambda>(pid, key). map_of ?f pid \<noteq> None) known"
      "namespaceForConn conn s' = namespaceForConn conn s"
    using b df by (auto simp: buildDeltaUpdatePayload_def Let_def deltaFor_def)
  have gone: "pid \<in> set (duDeleted p) \<longleftrightarrow> map_of ?f pid = None \<and> map_of known pid \<noteq> None" for pid
    by (force simp: p map_of_eq_None_iff)
  have new: "map_option ageless (parsedPrims (duPrimitives p) pid) = map_option primitiveSnapshotKey (map_of changed pid)" for pid
    by (simp add: parsedPrims_key p)
  have key: "map_option ageless (dPrimitives d' pid) = map_option primitiveSnapshotKey (map_of ?f pid)" for pid
    using v [of pid] k [of pid] c [of pid] gone [of pid] new [of pid]
    by (auto simp: d' handleUpdate_fields split: option.splits if_splits)
  have "map_of (filter (\<lambda>(pid, key). map_of ?f pid \<noteq> None) known) pid =
      map_option primitiveSnapshotKey (map_of ?f pid)" for pid
    using map_of_filter_fst [of "\<lambda>pid. map_of ?f pid \<noteq> None" known pid] k [of pid]
    by (auto split: option.splits)
  then show ?thesis by (simp add: in_step_def shows_prims_def s' key parsedPrims_key)
qed

lemma deliver_step:
  assumes "in_step conn s d \<or> (\<exists>init t ps. m = DFull init t ps)" "deliver conn m (s, d) = (s', d')"
  shows "in_step conn s' d' \<and> shows_prims (filterPrimitivesForNamespace (latestPrims m) (namespaceForConn conn s)) d' \<and>
    namespaceForConn conn s' = namespaceForConn conn s"
proof (cases m)
  case (DFull init t ps)
  then show ?thesis using full_step [of conn init t ps s d s' d'] assms(2) by simp
next
  case (DDelta u q)
  then show ?thesis using delta_step [of conn s d u q s' d'] assms by simp
qed

lemma deliveries_show:
  assumes "in_step conn s d \<or> (\<exists>init t ps. hd ms = DFull init t ps)" "ms \<noteq> []"
    "fold (deliver conn) ms (s, d) = (s', d')"
  shows "shows_prims (filterPrimitivesForNamespace (latestPrims (last ms)) (namespaceForConn conn s)) d'"
  using assms
proof (induction ms arbitrary: s d)
  case (Cons m ms)
  obtain s1 d1 where m: "deliver conn m (s, d) = (s1, d1)" by fastforce
  have "in_step conn s d \<or> (\<exists>init t ps. m = DFull init t ps)" using Cons.prems(1) by simp
  note st = deliver_step [OF this m]
  show ?case
  proof (cases "ms = []")
    case True
    then show ?thesis using st m Cons.prems(3) by simp
  next
    case False
    then have "shows_prims (filterPrimitivesForNamespace (latestPrims (last ms)) (namespaceForConn conn s1)) d'"
      using Cons.IH [of s1 d1] st m Cons.prems(3) by simp
    then show ?thesis using st False by simp
  qed
qed simp

lemma shows_prims_same:
  assumes "shows_prims ps d"
  shows "rel_option same_but_age (dPrimitives d pid) (parsedPrims ps pid)"
proof -
  have "map_option ageless (dPrimitives d pid) = map_option ageless (parsedPrims ps pid)"
    using assms by (simp add: shows_prims_def)
  then show ?thesis
    by (cases "dPrimitives d pid"; cases "parsedPrims ps pid") (auto intro: ageless_eq_same)
qed

text \<open>What the last message leaves of the rest.\<close>

lemma delivered_namespace:
  "fold (deliver conn) ms (s, d) = (s', d') \<Longrightarrow> namespaceForConn conn s' = namespaceForConn conn s"
proof (induction ms arbitrary: s d)
  case (Cons m ms)
  obtain s1 d1 where m: "deliver conn m (s, d) = (s1, d1)" by fastforce
  have "namespaceForConn conn s1 = namespaceForConn conn s"
    using m by (cases m) (auto simp: Let_def seedDeltaState_def buildDeltaUpdatePayload_def split: prod.splits)
  then show ?case using Cons.IH [of s1 d1] Cons.prems m by simp
qed simp

lemma last_update:
  assumes "fold (deliver conn) ms (s, d0) = (s', d)" "ms \<noteq> []" "last ms = DDelta u q"
  shows "dGoroutines d = filterGoroutinesForNamespace (uGoroutines u) (namespaceForConn conn s) \<and>
    dEvents d = filterEventsForNamespace (uEvents u) (namespaceForConn conn s) \<and> dMetrics d = Some (uMetrics u)"
proof -
  obtain s1 d1 where f: "fold (deliver conn) (butlast ms) (s, d0) = (s1, d1)" by fastforce
  have "ms = butlast ms @ [DDelta u q]" using assms(2,3) by (metis append_butlast_last_id)
  then have "deliver conn (DDelta u q) (s1, d1) = (s', d)"
    using f assms(1) by (metis fold_append comp_apply fold_simps)
  then show ?thesis using delivered_namespace [OF f]
    by (auto simp: dashboardMessage_def handleUpdate_fields buildDeltaUpdatePayload_def Let_def split: prod.splits)
qed

text \<open>A gap in the sequence numbers makes the dashboard ask for a full state.\<close>

lemma missed_update_requests_refresh:
  assumes "0 < dLastSequence d" "dLastSequence d + 1 < uint (duSequence p)" "uint (duSequence p) < 2 ^ 53"
  shows "dRefreshes (handleUpdate p d) = dRefreshes d + 1"
  using assms
  by (auto simp: handleUpdate_def jsSequence_def float64_exact requestFullRefresh_def Let_def)

lemma next_update_requests_nothing:
  assumes "uint (duSequence p) \<le> dLastSequence d + 1" "0 \<le> dLastSequence d" "dLastSequence d + 1 < 2 ^ 53"
  shows "dRefreshes (handleUpdate p d) = dRefreshes d"
  using assms
  by (auto simp: handleUpdate_def jsSequence_def float64_exact requestFullRefresh_def Let_def)

text \<open>C15. Delta updates are equivalent to sending everything. A client is sent a full state and then any
  messages, full states and updates, each delivered before the next one is built. After the last one its
  dashboard shows exactly the primitives of its namespace that the server had then: under every
  identifier the same JSON object (identifier, type, name, creation time, blocked count and every member of
  the statistics, numbers as JavaScript reads them) as in a full state, except that the age of the
  statistics may be older. The goroutines, events and metrics are those of the last message.\<close>

theorem delta_updates_equivalent:
  "let ms = DFull init t ps # us; ns = namespaceForConn conn s;
       d = snd (fold (deliver conn) ms (s, d0));
       full = parsedPrims (filterPrimitivesForNamespace (latestPrims (last ms)) ns)
   in (\<forall>pid. rel_option same_but_age (dPrimitives d pid) (full pid)) \<and>
      (\<forall>u q. last ms = DDelta u q \<longrightarrow>
         dGoroutines d = filterGoroutinesForNamespace (uGoroutines u) ns \<and>
         dEvents d = filterEventsForNamespace (uEvents u) ns \<and> dMetrics d = Some (uMetrics u))"
proof -
  let ?ms = "DFull init t ps # us"
  obtain s' d where f: "fold (deliver conn) ?ms (s, d0) = (s', d)" by fastforce
  have "shows_prims (filterPrimitivesForNamespace (latestPrims (last ?ms)) (namespaceForConn conn s)) d"
    by (rule deliveries_show [OF _ _ f]) simp_all
  note same = shows_prims_same [OF this]
  have "dGoroutines d = filterGoroutinesForNamespace (uGoroutines u) (namespaceForConn conn s) \<and>
      dEvents d = filterEventsForNamespace (uEvents u) (namespaceForConn conn s) \<and> dMetrics d = Some (uMetrics u)"
    if "last ?ms = DDelta u q" for u q
    using last_update [OF f _ that] by simp
  then show ?thesis using same f by (simp only: Let_def snd_conv) blast
qed

definition demo_info :: "int64 \<Rightarrow> primStats PrimitiveInfo" where
  "demo_info n = \<lparr>pID = ''default/m'', pType = TypeMutex, pName = ''m'', pCreatedAt = 0, BlockedCount = 0,
     pStats = StMutex (Mutex_GetStats 5 ((NewMutex 0)\<lparr>mlocks := n\<rparr>))\<rparr>"

definition demo_update :: "(string, primStats PrimitiveInfo) gomap \<Rightarrow> primStats SchedulerUpdate" where
  "demo_update ps = \<lparr>uPrimitives = ps, uGoroutines = [], uEvents = [],
     uMetrics = Scheduler_GetMetrics 0 (NewScheduler 0 :: primStats Scheduler)\<rparr>"

definition demo_deliveries :: "delivery list" where
  "demo_deliveries = [DDelta (demo_update [(''default/m'', demo_info 0)]) 1,
     DDelta (demo_update [(''default/m'', demo_info 1)]) 2]"

text \<open>A mutex is created and locked: the number of locks on the dashboard is 1.\<close>

theorem delta_updates_equivalent_witness:
  "Option.bind (Option.bind (dPrimitives (snd (fold (deliver 0) (DFull True 0 [] # demo_deliveries)
      (newServer 0 demoConfig, newDashboard))) ''m'') (member ''Stats'')) (member ''Locks'') = Some (JNum 1)"
proof -
  let ?d = "snd (fold (deliver 0) (DFull True 0 [] # demo_deliveries) (newServer 0 demoConfig, newDashboard))"
  have ns: "namespaceForConn 0 (newServer 0 demoConfig) = ''default''" by code_simp
  have full: "parsedPrims (filterPrimitivesForNamespace [(''default/m'', demo_info 1)] ''default'') ''m'' =
      Some (untyped (primitiveJSON ((demo_info 1)\<lparr>pID := ''m''\<rparr>)))" by code_simp
  have locks: "Option.bind (member ''Stats'' (untyped (primitiveJSON ((demo_info 1)\<lparr>pID := ''m''\<rparr>)))) (member ''Locks'') =
      Some (JNum 1)" by code_simp
  have "rel_option same_but_age (dPrimitives ?d ''m'')
      (parsedPrims (filterPrimitivesForNamespace [(''default/m'', demo_info 1)] ''default'') ''m'')"
    using delta_updates_equivalent [of True 0 "[]" demo_deliveries 0 "newServer 0 demoConfig" newDashboard]
    by (simp add: Let_def demo_deliveries_def demo_update_def ns)
  then obtain j where "dPrimitives ?d ''m'' = Some j" "same_but_age j (untyped (primitiveJSON ((demo_info 1)\<lparr>pID := ''m''\<rparr>)))"
    unfolding full by (auto simp: option_rel_Some2)
  then show ?thesis using locks by (simp add: same_but_age_def)
qed

end
