(* ===== verification/ServerRegistry.thy ===== *)
theory ServerRegistry
  imports ServerHandlers
begin

text \<open>
  The tables of the server fit together: the nine maps of a namespace, the heap, the scheduler and
  the metrics collector.

  \<open>server_typed\<close> is the typing of the heap: every address in a map of locks points to a lock, and so
  on, an identifier is in at most one map, and no two names share an object. It holds however the
  actions of handlers interleave. \<open>server_consistent\<close> says that the scheduler and the collector know
  exactly the primitives that exist, with their types; it holds when handlers do not interleave, and
  the last lemmas of the theory show schedules of two handlers that break it.
\<close>

datatype kind = KRWLock | KFairRWLock | KSemaphore | KMutex | KCondVar | KBarrier | KWaitGroup | KOnce | KGroup

fun kindOf :: "prim \<Rightarrow> kind" where
  "kindOf (PRWLock x) = KRWLock"
| "kindOf (PFairRWLock x) = KFairRWLock"
| "kindOf (PSemaphore x) = KSemaphore"
| "kindOf (PMutex x) = KMutex"
| "kindOf (PCondVar x) = KCondVar"
| "kindOf (PBarrier x) = KBarrier"
| "kindOf (PWaitGroup x) = KWaitGroup"
| "kindOf (POnce x) = KOnce"
| "kindOf (PGroup x) = KGroup"

fun kmap :: "kind \<Rightarrow> connPrims \<Rightarrow> (string, addr) gomap" where
  "kmap KRWLock cp = rwlocks cp"
| "kmap KFairRWLock cp = fairrwlocks cp"
| "kmap KSemaphore cp = semaphores cp"
| "kmap KMutex cp = mutexes cp"
| "kmap KCondVar cp = condvars cp"
| "kmap KBarrier cp = barriers cp"
| "kmap KWaitGroup cp = waitgroups cp"
| "kmap KOnce cp = onces cp"
| "kmap KGroup cp = singleflights cp"

fun kput :: "kind \<Rightarrow> string \<Rightarrow> addr \<Rightarrow> connPrims \<Rightarrow> connPrims" where
  "kput KRWLock pid a cp = cp\<lparr>rwlocks := AList.update pid a (rwlocks cp)\<rparr>"
| "kput KFairRWLock pid a cp = cp\<lparr>fairrwlocks := AList.update pid a (fairrwlocks cp)\<rparr>"
| "kput KSemaphore pid a cp = cp\<lparr>semaphores := AList.update pid a (semaphores cp)\<rparr>"
| "kput KMutex pid a cp = cp\<lparr>mutexes := AList.update pid a (mutexes cp)\<rparr>"
| "kput KCondVar pid a cp = cp\<lparr>condvars := AList.update pid a (condvars cp)\<rparr>"
| "kput KBarrier pid a cp = cp\<lparr>barriers := AList.update pid a (barriers cp)\<rparr>"
| "kput KWaitGroup pid a cp = cp\<lparr>waitgroups := AList.update pid a (waitgroups cp)\<rparr>"
| "kput KOnce pid a cp = cp\<lparr>onces := AList.update pid a (onces cp)\<rparr>"
| "kput KGroup pid a cp = cp\<lparr>singleflights := AList.update pid a (singleflights cp)\<rparr>"

lemma kmap_kput [simp]:
  "kmap k (kput k' pid a cp) = (if k = k' then AList.update pid a (kmap k cp) else kmap k cp)"
  by (cases k; cases k'; simp)

lemma kmap_remove [simp]: "kmap k (removePrim pid cp) = AList.delete pid (kmap k cp)"
  by (cases k) (simp_all add: removePrim_def)

lemma kmap_ctxs [simp]: "kmap k (cp\<lparr>primCtxs := x\<rparr>) = kmap k cp"
  by (cases k) simp_all

lemma kmap_new [simp]: "kmap k newConnPrims = []"
  by (cases k) (simp_all add: newConnPrims_def)

lemma primExists_kmap: "primExists cp pid \<longleftrightarrow> (\<exists>k. map_of (kmap k cp) pid \<noteq> None)"
proof
  assume "\<exists>k. map_of (kmap k cp) pid \<noteq> None"
  then obtain k where "map_of (kmap k cp) pid \<noteq> None" ..
  then show "primExists cp pid" by (cases k) (simp_all add: primExists_def)
qed (auto simp: primExists_def intro: exI [of _ KRWLock] exI [of _ KFairRWLock] exI [of _ KSemaphore]
      exI [of _ KMutex] exI [of _ KCondVar] exI [of _ KBarrier] exI [of _ KWaitGroup] exI [of _ KOnce]
      exI [of _ KGroup])

text \<open>The container of a namespace is a registry, like the scheduler and the collector.\<close>

lemma primExists_kput: "primExists (kput k pid a cp) q \<longleftrightarrow> pid = q \<or> primExists cp q"
proof (cases "pid = q")
  case False
  then have "map_of (kmap k' (kput k pid a cp)) q = map_of (kmap k' cp) q" for k' by simp
  then show ?thesis using False by (simp add: primExists_kmap)
qed (auto simp: primExists_kmap intro: exI [of _ k])

lemma primExists_remove: "primExists (removePrim pid cp) q \<longleftrightarrow> pid \<noteq> q \<and> primExists cp q"
  by (auto simp: primExists_kmap)

interpretation cp_reg: registry "\<lambda>pid (k, a). kput k pid a" removePrim primExists
  by unfold_locales (auto simp: primExists_kput primExists_remove)

text \<open>The scheduler and the collector are told the same things, so they agree.\<close>

interpretation sched_metrics: registry_pair
  "\<lambda>pid (t, ty, nm, st). RegisterPrimitive t pid ty nm st" "\<lambda>pid. UnregisterPrimitive t pid"
  "\<lambda>s pid. map_of (primitives s) pid \<noteq> None"
  "\<lambda>pid (t, ty, nm). Metrics_RegisterPrimitive t pid ty nm" "Metrics_UnregisterPrimitive"
  "\<lambda>c pid. map_of (primitiveMetrics c) pid \<noteq> None"
  by unfold_locales

subsection \<open>Typing of the heap\<close>

definition binding :: "Server \<Rightarrow> string \<Rightarrow> kind \<Rightarrow> string \<Rightarrow> addr option" where
  "binding s ns k pid = map_of (kmap k (primsIn ns s)) pid"

fun size_ok :: "prim \<Rightarrow> bool" where
  "size_ok (PSemaphore x) = (0 < sint (capacity x))"
| "size_ok (PBarrier x) = (0 < sint (parties x))"
| "size_ok _ = True"

definition heap_typed :: "Server \<Rightarrow> bool" where
  "heap_typed s \<longleftrightarrow> (\<forall>ns k pid a. binding s ns k pid = Some a \<longrightarrow>
     a < length (heap s) \<and> kindOf (heap s ! a) = k \<and> size_ok (heap s ! a) \<and> pid \<noteq> [])"

definition one_map :: "Server \<Rightarrow> bool" where
  "one_map s \<longleftrightarrow> (\<forall>ns k k' pid. binding s ns k pid \<noteq> None \<and> binding s ns k' pid \<noteq> None \<longrightarrow> k = k')"

definition no_alias :: "Server \<Rightarrow> bool" where
  "no_alias s \<longleftrightarrow> (\<forall>ns k pid ns' k' pid' a. binding s ns k pid = Some a \<and> binding s ns' k' pid' = Some a \<longrightarrow>
     ns = ns' \<and> k = k' \<and> pid = pid')"

definition maps_ok :: "Server \<Rightarrow> bool" where
  "maps_ok s \<longleftrightarrow> gomap_ok (namespaces s) \<and> (\<forall>ns k. gomap_ok (kmap k (primsIn ns s)))"

definition server_typed :: "Server \<Rightarrow> bool" where
  "server_typed s \<longleftrightarrow> heap_typed s \<and> one_map s \<and> no_alias s \<and> maps_ok s"

lemma server_typedI:
  assumes "\<And>ns k pid a. binding s ns k pid = Some a \<Longrightarrow> a < length (heap s) \<and> kindOf (heap s ! a) = k \<and>
       size_ok (heap s ! a) \<and> pid \<noteq> []"
    "\<And>ns k k' pid a a'. binding s ns k pid = Some a \<Longrightarrow> binding s ns k' pid = Some a' \<Longrightarrow> k = k'"
    "\<And>ns k pid ns' k' pid' a. binding s ns k pid = Some a \<Longrightarrow> binding s ns' k' pid' = Some a \<Longrightarrow>
       ns = ns' \<and> k = k' \<and> pid = pid'"
    "maps_ok s"
  shows "server_typed s"
  using assms unfolding server_typed_def heap_typed_def one_map_def no_alias_def by blast

lemma server_typedD:
  assumes "server_typed s"
  shows "binding s ns k pid = Some a \<Longrightarrow> a < length (heap s) \<and> kindOf (heap s ! a) = k \<and>
      size_ok (heap s ! a) \<and> pid \<noteq> []"
    "binding s ns k pid = Some a \<Longrightarrow> binding s ns k' pid = Some a' \<Longrightarrow> k = k'"
    "binding s ns k pid = Some a \<Longrightarrow> binding s ns' k' pid' = Some a \<Longrightarrow> ns = ns' \<and> k = k' \<and> pid = pid'"
    "maps_ok s"
  using assms unfolding server_typed_def heap_typed_def one_map_def no_alias_def by blast+

text \<open>Only the namespaces and the heap matter.\<close>

lemma server_typed_cong:
  assumes "namespaces s' = namespaces s" "heap s' = heap s"
  shows "server_typed s' = server_typed s"
  using assms
  by (simp add: server_typed_def heap_typed_def one_map_def no_alias_def maps_ok_def binding_def primsIn_def)

lemma server_typed_same:
  "server_typed s \<Longrightarrow> namespaces s' = namespaces s \<Longrightarrow> heap s' = heap s \<Longrightarrow> server_typed s'"
  using server_typed_cong [of s' s] by simp

lemma server_typed_create:
  assumes "server_typed s" "\<not> primExists (primsIn ns s) pid" "kindOf obj = k" "size_ok obj" "pid \<noteq> []"
  shows "server_typed (setPrims ns ((kput k pid (length (heap s)) (primsIn ns s))\<lparr>primCtxs := cs\<rparr>)
    (s\<lparr>heap := heap s @ [obj], ctxs := x\<rparr>))" (is "server_typed ?s")
proof -
  have b: "binding ?s ns' k' q = (if ns' = ns \<and> k' = k \<and> q = pid then Some (length (heap s)) else binding s ns' k' q)"
    for ns' k' q
    by (auto simp: binding_def)
  have new: "binding s ns k' pid = None" for k'
    using assms(2) by (auto simp: primExists_kmap binding_def)
  have old: "a \<noteq> length (heap s)" if "binding s ns' k' q = Some a" for ns' k' q a
    using server_typedD(1) [OF assms(1) that] by simp
  show ?thesis
  proof (rule server_typedI)
    show "maps_ok ?s" using server_typedD(4) [OF assms(1)] by (auto simp: maps_ok_def)
  next
    fix ns1 k1 q1 a assume x: "binding ?s ns1 k1 q1 = Some a"
    then show "a < length (heap ?s) \<and> kindOf (heap ?s ! a) = k1 \<and> size_ok (heap ?s ! a) \<and> q1 \<noteq> []"
      using server_typedD(1) [OF assms(1), of ns1 k1 q1 a] assms(3-5)
      by (auto simp: b nth_append split: if_splits)
  next
    fix ns1 k1 k2 q a a' assume "binding ?s ns1 k1 q = Some a" "binding ?s ns1 k2 q = Some a'"
    then show "k1 = k2" using server_typedD(2) [OF assms(1)] new by (auto simp: b split: if_splits)
  next
    fix ns1 k1 q1 ns2 k2 q2 a assume "binding ?s ns1 k1 q1 = Some a" "binding ?s ns2 k2 q2 = Some a"
    then show "ns1 = ns2 \<and> k1 = k2 \<and> q1 = q2"
      using server_typedD(3) [OF assms(1), of ns1 k1 q1 a ns2 k2 q2] old
      by (auto simp: b split: if_splits)
  qed
qed

lemma server_typed_shrink:
  assumes "server_typed s" "heap s' = heap s" "maps_ok s'"
    "\<And>ns k pid a. binding s' ns k pid = Some a \<Longrightarrow> binding s ns k pid = Some a"
  shows "server_typed s'"
proof (rule server_typedI)
  show "maps_ok s'" by (rule assms(3))
qed (use server_typedD [OF assms(1)] assms in \<open>(metis)+\<close>)

lemma server_typed_delete:
  assumes "server_typed s"
  shows "server_typed (setPrims ns (removePrim pid (primsIn ns s)) s)"
  by (rule server_typed_shrink [OF assms])
    (use server_typedD(4) [OF assms] in \<open>auto simp: maps_ok_def binding_def split: if_splits\<close>)

lemma perform_typed:
  assumes "server_typed s"
  shows "server_typed (fst (perform t a s))"
proof (cases a)
  case (ActCancelPrim ns pid)
  have "server_typed (cancelPrim ns pid s)"
    by (rule server_typed_shrink [OF assms])
      (use server_typedD(4) [OF assms] in \<open>auto simp: cancelPrim_def maps_ok_def binding_def Let_def
         split: if_splits option.splits\<close>)
  then show ?thesis using ActCancelPrim by simp
qed (simp_all add: server_typed_same [OF assms])

text \<open>The handlers enter what they create with \<open>kput\<close>.\<close>

lemma create_puts:
  "(\<lambda>pid a cp. cp\<lparr>rwlocks := AList.update pid a (rwlocks cp)\<rparr>) = kput KRWLock"
  "(\<lambda>pid a cp. cp\<lparr>fairrwlocks := AList.update pid a (fairrwlocks cp)\<rparr>) = kput KFairRWLock"
  "(\<lambda>a cp. cp\<lparr>semaphores := AList.update pid a (semaphores cp)\<rparr>) = kput KSemaphore pid"
  "(\<lambda>pid a cp. cp\<lparr>mutexes := AList.update pid a (mutexes cp)\<rparr>) = kput KMutex"
  "(\<lambda>pid a cp. cp\<lparr>condvars := AList.update pid a (condvars cp)\<rparr>) = kput KCondVar"
  "(\<lambda>a cp. cp\<lparr>barriers := AList.update pid a (barriers cp)\<rparr>) = kput KBarrier pid"
  "(\<lambda>pid a cp. cp\<lparr>waitgroups := AList.update pid a (waitgroups cp)\<rparr>) = kput KWaitGroup"
  "(\<lambda>pid a cp. cp\<lparr>onces := AList.update pid a (onces cp)\<rparr>) = kput KOnce"
  "(\<lambda>pid a cp. cp\<lparr>singleflights := AList.update pid a (singleflights cp)\<rparr>) = kput KGroup"
  by (intro ext; simp)+

text \<open>What a handler can have done when its first critical section is over: nothing to the maps and
  the heap, one creation, or one deletion. Each goes with its list of actions.\<close>

definition created :: "conn \<Rightarrow> string \<Rightarrow> string \<Rightarrow> string \<Rightarrow> prim \<Rightarrow> Server \<Rightarrow> Server" where
  "created conn ns pid name obj s =
     setPrims ns ((kput (kindOf obj) pid (length (heap s)) (primsIn ns s))\<lparr>primCtxs :=
         AList.update pid (length (ctxs s)) (primCtxs (primsIn ns s))\<rparr>)
       (s\<lparr>heap := heap s @ [obj], ctxs := ctxs s @ [\<lparr>cparent = Some (shutdownCtx s), cerr = None\<rparr>]\<rparr>)"

definition createActs :: "conn \<Rightarrow> string \<Rightarrow> string \<Rightarrow> string \<Rightarrow> prim \<Rightarrow> Server \<Rightarrow> act list" where
  "createActs conn ns pid name obj s =
     [ActRegister (qualifiedPrimID (namespaceForConn conn s) pid) (primType obj) name (length (heap s)),
      ActMetricsRegister (qualifiedPrimID (namespaceForConn conn s) pid) (primType obj) name]"

definition deleteActs :: "conn \<Rightarrow> string \<Rightarrow> string \<Rightarrow> Server \<Rightarrow> act list" where
  "deleteActs conn ns pid s =
     [ActCancelPrim ns pid, ActUnregister (qualifiedPrimID (namespaceForConn conn s) pid),
      ActMetricsUnregister (qualifiedPrimID (namespaceForConn conn s) pid)]"

text \<open>What the constructors give.\<close>

definition new_prim :: "prim \<Rightarrow> bool" where
  "new_prim p = (case p of
      PRWLock x \<Rightarrow> \<exists>t. x = NewRWLock t
    | PFairRWLock x \<Rightarrow> \<exists>t. x = NewFairRWLock t
    | PSemaphore x \<Rightarrow> \<exists>t n. NewSemaphore t n = Inr x
    | PMutex x \<Rightarrow> \<exists>t. x = NewMutex t
    | PCondVar x \<Rightarrow> \<exists>t. x = NewCondVar t
    | PBarrier x \<Rightarrow> \<exists>t n. NewBarrier t n = Inr x
    | PWaitGroup x \<Rightarrow> \<exists>t. x = NewWaitGroup t
    | POnce x \<Rightarrow> \<exists>t. x = NewOnce t
    | PGroup x \<Rightarrow> \<exists>t. x = NewGroup t)"

fun answer_act :: "act \<Rightarrow> bool" where
  "answer_act (ActAudit c e) = True"
| "answer_act (ActSend c m) = True"
| "answer_act (ActReadState c i) = True"
| "answer_act (ActSeedState c i p) = True"
| "answer_act (ActSendState c i p) = True"
| "answer_act (ActGo c i p m) = True"
| "answer_act _ = False"

inductive handler_effect :: "conn \<Rightarrow> Server \<Rightarrow> Server \<Rightarrow> act list \<Rightarrow> bool" where
  he_none: "namespaces s' = namespaces s \<Longrightarrow> heap s' = heap s \<Longrightarrow> scheduler s' = scheduler s \<Longrightarrow>
    metricsCollector s' = metricsCollector s \<Longrightarrow> connStates s' = connStates s \<Longrightarrow>
    connPrimsMap s' = connPrimsMap s \<Longrightarrow> cfg s' = cfg s \<Longrightarrow> ctxs s' = ctxs s \<Longrightarrow>
    shutdownCtx s' = shutdownCtx s \<Longrightarrow> stopClosed s' = stopClosed s \<Longrightarrow>
    auditLogger s' = auditLogger s \<Longrightarrow> list_all answer_act as \<Longrightarrow> handler_effect conn s s' as"
| he_create: "map_of (connPrimsMap s) conn = Some ns \<Longrightarrow> \<not> primExists (primsIn ns s) pid \<Longrightarrow>
    size_ok obj \<Longrightarrow> new_prim obj \<Longrightarrow> pid \<noteq> [] \<Longrightarrow> list_all answer_act as \<Longrightarrow>
    handler_effect conn s (created conn ns pid name obj s) (createActs conn ns pid name obj s @ as)"
| he_delete: "map_of (connPrimsMap s) conn = Some ns \<Longrightarrow> primExists (primsIn ns s) pid \<Longrightarrow>
    list_all answer_act as \<Longrightarrow>
    handler_effect conn s (setPrims ns (removePrim pid (primsIn ns s)) s) (deleteActs conn ns pid s @ as)"

lemma he_refuse: "handler_effect conn s (fst (refuse conn e s)) (snd (refuse conn e s))"
  by (simp add: refuse_def he_none)

lemma he_refuse_eq: "refuse conn e s = (s', as) \<Longrightarrow> handler_effect conn s s' as"
  using he_refuse [of conn s e] by simp

lemma primCtxs_kput [simp]: "primCtxs (kput k pid a cp) = primCtxs cp"
  by (cases k) simp_all

lemma validID_not_Nil: "validatePrimID pid = [] \<Longrightarrow> pid \<noteq> []"
  by (auto simp: validatePrimID_def)

lemma new_prim_simps [simp]:
  "new_prim (PRWLock (NewRWLock t))" "new_prim (PFairRWLock (NewFairRWLock t))" "new_prim (PMutex (NewMutex t))"
  "new_prim (PCondVar (NewCondVar t))" "new_prim (PWaitGroup (NewWaitGroup t))" "new_prim (POnce (NewOnce t))"
  "new_prim (PGroup (NewGroup t))"
  by (auto simp: new_prim_def)

lemma sized_new:
  "NewSemaphore t n = Inr x \<Longrightarrow> size_ok (PSemaphore x) \<and> new_prim (PSemaphore x)"
  "NewBarrier t n = Inr y \<Longrightarrow> size_ok (PBarrier y) \<and> new_prim (PBarrier y)"
  "0 < sint n \<Longrightarrow> NewSemaphore t n \<noteq> Inl e" "0 < sint n \<Longrightarrow> NewBarrier t n \<noteq> Inl e"
  by (auto simp: new_prim_def NewSemaphore_def NewBarrier_def split: if_splits)

lemma createPrimitive_effect:
  assumes "createPrimitive conn pid name obj (kput (kindOf obj) pid) au m s = (s', as)"
    and "size_ok obj" "validatePrimID pid = []" "new_prim obj"
  shows "handler_effect conn s s' as"
proof (cases "connPrimsFor conn s")
  case None
  then show ?thesis using assms by (auto simp: createPrimitive_def intro: he_refuse_eq)
next
  case (Some ns)
  show ?thesis
  proof (cases "primExists (primsIn ns s) pid")
    case True
    then show ?thesis using assms(1) Some by (auto simp: createPrimitive_def Let_def intro: he_refuse_eq)
  next
    case False
    have "s' = created conn ns pid name obj s"
      using assms Some False by (simp add: createPrimitive_def Let_def WithCancel_def created_def)
    moreover have "as = createActs conn ns pid name obj s @ drop 2 as" "list_all answer_act (drop 2 as)"
      using assms Some False
      by (auto simp: createPrimitive_def Let_def WithCancel_def createActs_def)
    ultimately show ?thesis using Some False assms(2,4) validID_not_Nil [OF assms(3)] he_create [of s conn ns pid obj "drop 2 as" name]
      by (simp add: connPrimsFor_def)
  qed
qed

lemma createWith_effect:
  assumes "createWith conn msg obj (kput (kindOf obj)) au m s = (s', as)" "size_ok obj" "new_prim obj"
  shows "handler_effect conn s s' as"
  using assms
  by (auto simp: createWith_def split: option.splits if_splits
      intro: he_refuse_eq createPrimitive_effect)

lemma handleMessage_effect:
  assumes "handleMessage t conn msg s = (s', as)"
  shows "handler_effect conn s s' as"
proof -
  have put: "createPrimitive conn pid name (PSemaphore x) (kput KSemaphore pid) au m s = (s', as) \<Longrightarrow>
      NewSemaphore t n = Inr x \<Longrightarrow> validatePrimID pid = [] \<Longrightarrow> handler_effect conn s s' as"
    "createPrimitive conn pid name (PBarrier y) (kput KBarrier pid) au m s = (s', as) \<Longrightarrow>
      NewBarrier t n = Inr y \<Longrightarrow> validatePrimID pid = [] \<Longrightarrow> handler_effect conn s s' as" for pid name x y au m n
    using createPrimitive_effect [of conn pid name "PSemaphore x"] createPrimitive_effect [of conn pid name "PBarrier y"]
      sized_new(1,2) by auto
  have sized: "handleCreateSemaphore t conn msg s = (s', as) \<Longrightarrow> handler_effect conn s s' as"
    "handleCreateBarrier t conn msg s = (s', as) \<Longrightarrow> handler_effect conn s s' as"
    by (auto simp: handleCreateSemaphore_def handleCreateBarrier_def create_puts sized_new(3,4)
        split: option.splits if_splits sum.splits intro: he_refuse_eq put)
  have create: "createWith conn msg obj (kput (kindOf obj)) au m s = (s', as) \<Longrightarrow> size_ok obj \<Longrightarrow> new_prim obj \<Longrightarrow> handler_effect conn s s' as"
    for obj au m by (rule createWith_effect)
  note creates = create [of "PRWLock (NewRWLock t)"] create [of "PFairRWLock (NewFairRWLock t)"]
    create [of "PMutex (NewMutex t)"] create [of "PCondVar (NewCondVar t)"]
    create [of "PWaitGroup (NewWaitGroup t)"] create [of "POnce (NewOnce t)"] create [of "PGroup (NewGroup t)"]
  have delete: "handleDeletePrimitive conn msg s = (s', as) \<Longrightarrow> handler_effect conn s s' as"
    using he_delete [of s conn _ _ "drop 3 as"]
    by (auto simp: handleDeletePrimitive_def deleteActs_def Let_def connPrimsFor_def
        split: option.splits if_splits intro: he_refuse_eq)
  have others: "handleGetMetrics t conn s = (s', as) \<Longrightarrow> handler_effect conn s s' as"
    "handleRequestFullRefresh t conn s = (s', as) \<Longrightarrow> handler_effect conn s s' as"
    "handlePrimitiveOp conn msg s = (s', as) \<Longrightarrow> handler_effect conn s s' as"
    by (auto simp: handleGetMetrics_def handleRequestFullRefresh_def handlePrimitiveOp_def sendState_def refuse_def Let_def
        split: option.splits if_splits intro!: he_none)
  show ?thesis
    using assms
    by (auto simp: handleMessage_def handleCreateRWLock_def handleCreateFairRWLock_def handleCreateMutex_def
        handleCreateCondVar_def handleCreateWaitGroup_def handleCreateOnce_def handleCreateSingleflight_def
        create_puts split: option.splits if_splits
        intro: he_refuse_eq sized delete others creates [simplified])
qed

lemma handler_effect_typed: "handler_effect conn s s' as \<Longrightarrow> server_typed s \<Longrightarrow> server_typed s'"
proof (induction rule: handler_effect.induct)
  case (he_create s conn ns pid obj as name)
  then show ?case using server_typed_create [of s ns pid obj] by (simp add: created_def)
qed (auto intro: server_typed_same server_typed_delete)

subsection \<open>Running a handler to its end\<close>

lemma complete_append: "complete t (s, as @ bs) = complete t (complete t (s, as), bs)"
proof (induction t "(s, as)" arbitrary: s as rule: complete.induct)
  case (2 t s a as)
  obtain s' cs where p: "perform t a s = (s', cs)" by (cases "perform t a s")
  show ?case using 2 [OF p [symmetric]] p by simp
qed simp

lemma answer_perform:
  assumes "answer_act a" "perform t a s = (s', bs)"
  shows "list_all answer_act bs \<and> namespaces s' = namespaces s \<and> heap s' = heap s \<and> scheduler s' = scheduler s \<and>
    metricsCollector s' = metricsCollector s \<and> connStates s' = connStates s \<and>
    connPrimsMap s' = connPrimsMap s \<and> cfg s' = cfg s"
  using assms by (cases a) auto

lemma complete_answers:
  assumes "list_all answer_act as"
  shows "namespaces (complete t (s, as)) = namespaces s" "heap (complete t (s, as)) = heap s"
    "scheduler (complete t (s, as)) = scheduler s" "metricsCollector (complete t (s, as)) = metricsCollector s"
    "connStates (complete t (s, as)) = connStates s" "connPrimsMap (complete t (s, as)) = connPrimsMap s"
    "cfg (complete t (s, as)) = cfg s"
proof -
  have "namespaces (complete t (s, as)) = namespaces s \<and> heap (complete t (s, as)) = heap s \<and>
    scheduler (complete t (s, as)) = scheduler s \<and> metricsCollector (complete t (s, as)) = metricsCollector s \<and>
    connStates (complete t (s, as)) = connStates s \<and> connPrimsMap (complete t (s, as)) = connPrimsMap s \<and>
    cfg (complete t (s, as)) = cfg s"
    using assms
  proof (induction t "(s, as)" arbitrary: s as rule: complete.induct)
    case (2 t s a as)
    obtain s' cs where p: "perform t a s = (s', cs)" by (cases "perform t a s")
    show ?case using 2(1) [OF p [symmetric]] 2(2) answer_perform [OF _ p] p by simp
  qed simp
  then show "namespaces (complete t (s, as)) = namespaces s" "heap (complete t (s, as)) = heap s"
    "scheduler (complete t (s, as)) = scheduler s" "metricsCollector (complete t (s, as)) = metricsCollector s"
    "connStates (complete t (s, as)) = connStates s" "connPrimsMap (complete t (s, as)) = connPrimsMap s"
    "cfg (complete t (s, as)) = cfg s" by simp_all
qed

subsection \<open>Consistency of the tables\<close>

fun kindType :: "kind \<Rightarrow> PrimitiveType" where
  "kindType KRWLock = TypeRWLock"
| "kindType KFairRWLock = TypeFairRWLock"
| "kindType KSemaphore = TypeSemaphore"
| "kindType KMutex = TypeMutex"
| "kindType KCondVar = TypeCondVar"
| "kindType KBarrier = TypeBarrier"
| "kindType KWaitGroup = TypeWaitGroup"
| "kindType KOnce = TypeOnce"
| "kindType KGroup = TypeSingleflight"

lemma primType_kind: "primType p = kindType (kindOf p)"
  by (cases p) simp_all

text \<open>The qualified name of a primitive that exists, and the map it is in.\<close>

definition named :: "Server \<Rightarrow> string \<Rightarrow> kind \<Rightarrow> bool" where
  "named s q k \<longleftrightarrow> CHR ''/'' \<in> set q \<and>
     binding s (fst (splitQualifiedPrimID q)) k (snd (splitQualifiedPrimID q)) \<noteq> None"

definition names :: "Server \<Rightarrow> string \<Rightarrow> bool" where
  "names s q \<longleftrightarrow> (\<exists>k. named s q k)"

definition server_consistent :: "Server \<Rightarrow> bool" where
  "server_consistent s \<longleftrightarrow>
     (\<forall>q. map_of (primitives (scheduler s)) q \<noteq> None \<longleftrightarrow> names s q) \<and>
     (\<forall>q. map_of (primitiveMetrics (metricsCollector s)) q \<noteq> None \<longleftrightarrow> names s q) \<and>
     (\<forall>q k info. named s q k \<and> map_of (primitives (scheduler s)) q = Some info \<longrightarrow> pType info = kindType k) \<and>
     (\<forall>q k pm. named s q k \<and> map_of (primitiveMetrics (metricsCollector s)) q = Some pm \<longrightarrow>
        PrimitiveMetrics.mType pm = kindType k) \<and>
     (\<forall>c ns. map_of (connPrimsMap s) c = Some ns \<longrightarrow> namespaceForConn c s = ns \<and> CHR ''/'' \<notin> set ns)"

lemma slash_qualified [simp]: "CHR ''/'' \<in> set (qualifiedPrimID ns pid)"
  by (simp add: qualifiedPrimID_def)

lemma named_setPrims:
  assumes "CHR ''/'' \<notin> set ns"
  shows "named (setPrims ns cp s) q k \<longleftrightarrow>
    (if \<exists>pid. q = qualifiedPrimID ns pid
     then map_of (kmap k cp) (snd (splitQualifiedPrimID q)) \<noteq> None else named s q k)"
proof (cases "\<exists>pid. q = qualifiedPrimID ns pid")
  case True
  then show ?thesis using assms by (auto simp: named_def binding_def)
next
  case False
  then have "CHR ''/'' \<in> set q \<Longrightarrow> fst (splitQualifiedPrimID q) \<noteq> ns"
    using split_is_qualified [of q] by metis
  then show ?thesis using False by (auto simp: named_def binding_def)
qed

lemma named_same:
  "namespaces s' = namespaces s \<Longrightarrow> named s' q k = named s q k"
  by (simp add: named_def binding_def primsIn_def)

lemma consistent_same:
  assumes "server_consistent s" "namespaces s' = namespaces s" "scheduler s' = scheduler s"
    "metricsCollector s' = metricsCollector s" "connStates s' = connStates s"
    "connPrimsMap s' = connPrimsMap s" "cfg s' = cfg s"
  shows "server_consistent s'"
  using assms(1) unfolding server_consistent_def
  by (simp add: named_same [OF assms(2)] names_def namespaceForConn_cong [OF assms(5,7)] assms(3,4,6))

lemma named_kput:
  assumes "CHR ''/'' \<notin> set ns"
  shows "named (setPrims ns ((kput k pid a (primsIn ns s))\<lparr>primCtxs := cs\<rparr>) s') q k' \<longleftrightarrow>
    q = qualifiedPrimID ns pid \<and> k' = k \<or> named (setPrims ns (primsIn ns s) s') q k'"
  using assms by (auto simp: named_setPrims qualified_inject)

lemma named_removePrim:
  assumes "CHR ''/'' \<notin> set ns"
  shows "named (setPrims ns (removePrim pid (primsIn ns s)) s') q k \<longleftrightarrow>
    q \<noteq> qualifiedPrimID ns pid \<and> named (setPrims ns (primsIn ns s) s') q k"
  using assms by (auto simp: named_setPrims qualified_inject)

lemma named_setPrims_id [simp]:
  assumes "namespaces s' = namespaces s"
  shows "named (setPrims ns (primsIn ns s) s') q k = named s q k"
proof -
  have "named (setPrims ns (primsIn ns s) s') q k = named (setPrims ns (primsIn ns s) s) q k"
    by (rule named_same) (simp add: assms)
  then show ?thesis by (simp add: named_def binding_def)
qed

lemma server_consistentD:
  assumes "server_consistent s"
  shows "map_of (primitives (scheduler s)) q \<noteq> None \<longleftrightarrow> names s q"
    "map_of (primitiveMetrics (metricsCollector s)) q \<noteq> None \<longleftrightarrow> names s q"
    "named s q k \<Longrightarrow> map_of (primitives (scheduler s)) q = Some info \<Longrightarrow> pType info = kindType k"
    "map_of (connPrimsMap s) c = Some ns \<Longrightarrow> namespaceForConn c s = ns"
    "map_of (connPrimsMap s) c = Some ns \<Longrightarrow> CHR ''/'' \<notin> set ns"
    "named s q k \<Longrightarrow> map_of (primitiveMetrics (metricsCollector s)) q = Some pm \<Longrightarrow>
       PrimitiveMetrics.mType pm = kindType k"
  using assms unfolding server_consistent_def by blast+

lemma server_consistentI:
  assumes "\<And>q. map_of (primitives (scheduler s)) q \<noteq> None \<longleftrightarrow> names s q"
    "\<And>q. map_of (primitiveMetrics (metricsCollector s)) q \<noteq> None \<longleftrightarrow> names s q"
    "\<And>q k info. named s q k \<Longrightarrow> map_of (primitives (scheduler s)) q = Some info \<Longrightarrow> pType info = kindType k"
    "\<And>q k pm. named s q k \<Longrightarrow> map_of (primitiveMetrics (metricsCollector s)) q = Some pm \<Longrightarrow>
       PrimitiveMetrics.mType pm = kindType k"
    "\<And>c ns. map_of (connPrimsMap s) c = Some ns \<Longrightarrow> namespaceForConn c s = ns \<and> CHR ''/'' \<notin> set ns"
  shows "server_consistent s"
  using assms unfolding server_consistent_def by blast

lemma metrics_put:
  "map_of (primitiveMetrics (Metrics_RegisterPrimitive t p ty nm mc)) q \<noteq> None \<longleftrightarrow>
     q = p \<or> map_of (primitiveMetrics mc) q \<noteq> None"
  using metrics_reg.has_put [of p "(t, ty, nm)" mc q] by auto

lemma metrics_del:
  "map_of (primitiveMetrics (Metrics_UnregisterPrimitive p mc)) q \<noteq> None \<longleftrightarrow>
     q \<noteq> p \<and> map_of (primitiveMetrics mc) q \<noteq> None"
  using metrics_reg.has_del [of p mc q] by auto

text \<open>Registering a new primitive with the scheduler and the collector restores consistency.\<close>

lemma consistent_register:
  assumes c: "server_consistent s" and ns: "CHR ''/'' \<notin> set ns"
    and new: "\<not> primExists (primsIn ns s) pid"
    and s': "\<And>q k. named s' q k \<longleftrightarrow> q = qualifiedPrimID ns pid \<and> k = kindOf obj \<or> named s q k"
      "scheduler s' = RegisterPrimitive t (qualifiedPrimID ns pid) (primType obj) name st (scheduler s)"
      "metricsCollector s' = Metrics_RegisterPrimitive t (qualifiedPrimID ns pid) (primType obj) name (metricsCollector s)"
      "connPrimsMap s' = connPrimsMap s" "\<And>c. namespaceForConn c s' = namespaceForConn c s"
  shows "server_consistent s'"
proof (rule server_consistentI)
  have n: "names s' q \<longleftrightarrow> q = qualifiedPrimID ns pid \<or> names s q" for q
    by (auto simp: names_def s'(1))
  have notold: "\<not> named s (qualifiedPrimID ns pid) k" for k
    using new ns by (auto simp: named_def binding_def primExists_kmap)
  show "map_of (primitives (scheduler s')) q \<noteq> None \<longleftrightarrow> names s' q" for q
    using server_consistentD(1) [OF c, of q] by (simp add: n s'(2))
  show "map_of (primitiveMetrics (metricsCollector s')) q \<noteq> None \<longleftrightarrow> names s' q" for q
    using server_consistentD(2) [OF c, of q] by (simp only: n s'(3) metrics_put)
  show "pType info = kindType k"
    if "named s' q k" "map_of (primitives (scheduler s')) q = Some info" for q k info
    using that notold server_consistentD(3) [OF c, of q k info]
    by (auto simp: s'(1,2) primType_kind split: if_splits)
  show "PrimitiveMetrics.mType pm = kindType k"
    if "named s' q k" "map_of (primitiveMetrics (metricsCollector s')) q = Some pm" for q k pm
    using that notold server_consistentD(6) [OF c, of q k pm]
    by (auto simp: s'(1,3) primType_kind Register_get split: if_splits)
  show "namespaceForConn d s' = ns' \<and> CHR ''/'' \<notin> set ns'" if "map_of (connPrimsMap s') d = Some ns'" for d ns'
    using that server_consistentD(4,5) [OF c, of d ns'] by (simp add: s'(4,5))
qed

lemma consistent_unregister:
  assumes c: "server_consistent s"
    and s': "\<And>q k. named s' q k \<longleftrightarrow> q \<noteq> q0 \<and> named s q k"
      "scheduler s' = UnregisterPrimitive t q0 (scheduler s)"
      "metricsCollector s' = Metrics_UnregisterPrimitive q0 (metricsCollector s)"
      "connPrimsMap s' = connPrimsMap s" "\<And>c. namespaceForConn c s' = namespaceForConn c s"
  shows "server_consistent s'"
proof (rule server_consistentI)
  have n: "names s' q \<longleftrightarrow> q \<noteq> q0 \<and> names s q" for q
    by (auto simp: names_def s'(1))
  show "map_of (primitives (scheduler s')) q \<noteq> None \<longleftrightarrow> names s' q" for q
    using server_consistentD(1) [OF c, of q] by (simp add: n s'(2))
  show "map_of (primitiveMetrics (metricsCollector s')) q \<noteq> None \<longleftrightarrow> names s' q" for q
    using server_consistentD(2) [OF c, of q] by (simp only: n s'(3) metrics_del)
  show "pType info = kindType k"
    if "named s' q k" "map_of (primitives (scheduler s')) q = Some info" for q k info
    using that server_consistentD(3) [OF c, of q k info] by (auto simp: s'(1,2) split: if_splits)
  show "PrimitiveMetrics.mType pm = kindType k"
    if "named s' q k" "map_of (primitiveMetrics (metricsCollector s')) q = Some pm" for q k pm
    using that server_consistentD(6) [OF c, of q k pm]
    by (auto simp: s'(1,3) Metrics_UnregisterPrimitive_def split: if_splits)
  show "namespaceForConn d s' = ns' \<and> CHR ''/'' \<notin> set ns'" if "map_of (connPrimsMap s') d = Some ns'" for d ns'
    using that server_consistentD(4,5) [OF c, of d ns'] by (simp add: s'(4,5))
qed

lemma named_fields [simp]:
  "named (s\<lparr>scheduler := x\<rparr>) q k = named s q k" "named (s\<lparr>metricsCollector := y\<rparr>) q k = named s q k"
  "named (s\<lparr>ctxs := z\<rparr>) q k = named s q k"
  by (simp_all add: named_def binding_def)

lemma named_cancelPrim [simp]: "named (cancelPrim ns pid s) q k = named s q k"
  by (simp add: cancelPrim_def named_def binding_def Let_def split: option.splits)

lemma cancelPrim_frame [simp]:
  "scheduler (cancelPrim ns pid s) = scheduler s" "metricsCollector (cancelPrim ns pid s) = metricsCollector s"
  "connPrimsMap (cancelPrim ns pid s) = connPrimsMap s" "namespaceForConn c (cancelPrim ns pid s) = namespaceForConn c s"
  by (simp_all add: cancelPrim_def Let_def split: option.splits)

lemma handler_effect_consistent:
  "handler_effect conn s s' as \<Longrightarrow> server_consistent s \<Longrightarrow> server_consistent (complete t (s', as))"
proof (induction rule: handler_effect.induct)
  case (he_none s' s as conn)
  show ?case by (rule consistent_same [OF he_none(13)]) (simp_all add: complete_answers he_none)
next
  case (he_create s conn ns pid obj as name)
  note c = server_consistentD [OF he_create(7)]
  have ns: "CHR ''/'' \<notin> set ns" "namespaceForConn conn s = ns" using c(4,5) he_create(1) by auto
  let ?u = "complete t (created conn ns pid name obj s, createActs conn ns pid name obj s)"
  have "server_consistent ?u"
    by (rule consistent_register [OF he_create(7) ns(1) he_create(2), where obj = obj and name = name and t = t])
      (simp_all add: createActs_def created_def named_kput [OF ns(1)] ns(2) named_setPrims_id nth_append)
  then show ?case unfolding complete_append
    by (rule consistent_same) (simp_all add: complete_answers he_create)
next
  case (he_delete s conn ns pid as)
  note c = server_consistentD [OF he_delete(4)]
  have ns: "CHR ''/'' \<notin> set ns" "namespaceForConn conn s = ns" using c(4,5) he_delete(1) by auto
  let ?u = "complete t (setPrims ns (removePrim pid (primsIn ns s)) s, deleteActs conn ns pid s)"
  have "server_consistent ?u"
    by (rule consistent_unregister [OF he_delete(4), where ?q0.0 = "qualifiedPrimID ns pid" and t = t])
      (simp_all add: deleteActs_def named_removePrim [OF ns(1)] ns(2))
  then show ?case unfolding complete_append
    by (rule consistent_same) (simp_all add: complete_answers he_delete)
qed

subsection \<open>Connections come and go\<close>

lemma primsIn_getOrCreate [simp]: "primsIn ns (getOrCreateNamespacePrims ns' s) = primsIn ns s"
  by (simp add: primsIn_def getOrCreateNamespacePrims_def)

lemma getOrCreate_frame [simp]:
  "heap (getOrCreateNamespacePrims ns s) = heap s" "scheduler (getOrCreateNamespacePrims ns s) = scheduler s"
  "metricsCollector (getOrCreateNamespacePrims ns s) = metricsCollector s"
  "connStates (getOrCreateNamespacePrims ns s) = connStates s"
  "connPrimsMap (getOrCreateNamespacePrims ns s) = connPrimsMap s" "cfg (getOrCreateNamespacePrims ns s) = cfg s"
  "gomap_ok (namespaces s) \<Longrightarrow> gomap_ok (namespaces (getOrCreateNamespacePrims ns s))"
  by (simp_all add: getOrCreateNamespacePrims_def)

lemma newServer_fields [simp]:
  "namespaces (newServer t c) = []" "heap (newServer t c) = []" "connPrimsMap (newServer t c) = []"
  "cfg (newServer t c) = c" "primitives (scheduler (newServer t c)) = []"
  "primitiveMetrics (metricsCollector (newServer t c)) = []" "connStates (newServer t c) = []"
  "snapshotPath (newServer t c) = SnapshotPath c" "writeMu (newServer t c) = []"
  by (simp_all add: newServer_def Background_def NewScheduler_def Start_def
      NewMetricsCollectorWithBuckets_def Let_def)

lemma binding_new [simp]: "binding (newServer t c) ns k pid = None"
  by (simp add: binding_def primsIn_def)

lemma server_typed_new: "server_typed (newServer t c)"
  by (rule server_typedI) (simp_all add: maps_ok_def primsIn_def)

lemma server_consistent_new: "server_consistent (newServer t c)"
  by (rule server_consistentI)
    (simp_all add: names_def named_def)

lemma registerClient_fields:
  "heap (registerClient t conn ns s) = heap s" "scheduler (registerClient t conn ns s) = scheduler s"
  "metricsCollector (registerClient t conn ns s) = metricsCollector s" "cfg (registerClient t conn ns s) = cfg s"
  "primsIn ns' (registerClient t conn ns s) = primsIn ns' s"
  "connPrimsMap (registerClient t conn ns s) = AList.update conn ns (connPrimsMap s)"
  "map_option csNamespace (map_of (connStates (registerClient t conn ns s)) c) =
     (if c = conn then Some ns else map_option csNamespace (map_of (connStates s) c))"
  "gomap_ok (namespaces s) \<Longrightarrow> gomap_ok (namespaces (registerClient t conn ns s))"
  by (simp_all add: registerClient_def Let_def WithCancel_def)
    (simp_all add: primsIn_def getOrCreateNamespacePrims_def)

lemma unregisterClient_fields:
  "heap (unregisterClient t conn s) = heap s" "scheduler (unregisterClient t conn s) = scheduler s"
  "metricsCollector (unregisterClient t conn s) = metricsCollector s" "cfg (unregisterClient t conn s) = cfg s"
  "namespaces (unregisterClient t conn s) = namespaces s"
  "connPrimsMap (unregisterClient t conn s) = AList.delete conn (connPrimsMap s)"
  "connStates (unregisterClient t conn s) = AList.delete conn (connStates s)"
  by (simp_all add: unregisterClient_def Let_def)

lemma namespaceForConn_map:
  "namespaceForConn c s = (case map_option csNamespace (map_of (connStates s) c) of
     Some ns \<Rightarrow> if ns \<noteq> [] then ns else defaultNamespace (DefaultNamespace (cfg s))
   | None \<Rightarrow> defaultNamespace (DefaultNamespace (cfg s)))"
  by (simp add: namespaceForConn_def split: option.splits)

lemma namespaceForConn_register:
  "ns \<noteq> [] \<Longrightarrow> namespaceForConn c (registerClient t conn ns s) = (if c = conn then ns else namespaceForConn c s)"
  by (auto simp: namespaceForConn_map registerClient_fields split: option.splits)

lemma namespaceForConn_unregister:
  "c \<noteq> conn \<Longrightarrow> namespaceForConn c (unregisterClient t conn s) = namespaceForConn c s"
  by (auto simp: namespaceForConn_map unregisterClient_fields split: option.splits)

lemma registerClient_typed: "server_typed s \<Longrightarrow> server_typed (registerClient t conn ns s)"
  by (rule server_typed_shrink [of s])
    (auto simp: registerClient_fields binding_def maps_ok_def dest: server_typedD(4))

lemma registerClient_consistent:
  assumes "server_consistent s" "CHR ''/'' \<notin> set ns" "ns \<noteq> []"
  shows "server_consistent (registerClient t conn ns s)"
proof -
  have n: "named (registerClient t conn ns s) q k = named s q k" for q k
    by (simp add: named_def binding_def registerClient_fields)
  show ?thesis
    using assms server_consistentD [OF assms(1)]
    by (intro server_consistentI)
      (auto simp: n names_def registerClient_fields namespaceForConn_register split: if_splits)
qed

lemma unregisterClient_consistent:
  assumes "server_consistent s"
  shows "server_consistent (unregisterClient t conn s)"
proof -
  have n: "named (unregisterClient t conn s) q k = named s q k" for q k
    by (rule named_same) (simp add: unregisterClient_fields)
  show ?thesis
    using server_consistentD [OF assms]
    by (intro server_consistentI)
      (auto simp: n names_def unregisterClient_fields namespaceForConn_unregister split: if_splits)
qed

subsection \<open>One handler at a time\<close>

text \<open>The calls the connections make, each handler running to its end before the next one starts. A
  connection is opened with a name that \<^verbatim>\<open>extractNamespace\<close> can return; \<^verbatim>\<open>primitiveOp\<close> only starts a
  goroutine, whose work is in the theory \<open>ServerOps\<close>.\<close>

datatype srv_call = CallOpen conn string | CallClose conn | CallMessage conn wsMessage

fun srv_exec :: "int \<times> srv_call \<Rightarrow> Server \<Rightarrow> Server option" where
  "srv_exec (t, CallOpen conn ns) s =
     (if CHR ''/'' \<in> set ns \<or> ns = [] then None else Some (registerClient t conn ns s))"
| "srv_exec (t, CallClose conn) s = Some (unregisterClient t conn s)"
| "srv_exec (t, CallMessage conn msg) s = Some (complete t (handleMessage t conn msg s))"

lemma complete_typed: "server_typed s \<Longrightarrow> server_typed (complete t (s, as))"
proof (induction t "(s, as)" arbitrary: s as rule: complete.induct)
  case (2 t s a as)
  obtain s' cs where p: "perform t a s = (s', cs)" by (cases "perform t a s")
  show ?case using 2(1) [OF p [symmetric]] perform_typed [OF 2(2), of t a] p by simp
qed simp

lemma srv_exec_inv:
  assumes "server_typed s \<and> server_consistent s" "srv_exec e s = Some s'"
  shows "server_typed s' \<and> server_consistent s'"
proof -
  obtain t call where e: "e = (t, call)" by (cases e)
  show ?thesis
  proof (cases call)
    case (CallOpen conn ns)
    then show ?thesis using assms e registerClient_typed registerClient_consistent
      by (auto split: if_splits)
  next
    case (CallClose conn)
    then have "s' = unregisterClient t conn s" using assms(2) e by simp
    then show ?thesis using assms(1) unregisterClient_consistent
      by (auto intro: server_typed_same [of s] simp: unregisterClient_fields)
  next
    case (CallMessage conn msg)
    obtain u as where h: "handleMessage t conn msg s = (u, as)"
      by (cases "handleMessage t conn msg s")
    note eff = handleMessage_effect [OF h]
    show ?thesis using CallMessage assms e h handler_effect_consistent [OF eff]
        complete_typed [OF handler_effect_typed [OF eff]] by auto
  qed
qed

interpretation srv_inv: invariant_machine srv_exec "newServer t c" "\<lambda>s. server_typed s \<and> server_consistent s"
proof
  show "server_typed (newServer t c) \<and> server_consistent (newServer t c)"
    by (simp add: server_typed_new server_consistent_new)
qed (rule srv_exec_inv)

text \<open>C12. The tables agree: after any sequence of connections and messages whose handlers do not overlap,
  the scheduler and the metrics collector know exactly the primitives that exist in the namespaces,
  under their qualified names, and both have the type of the object for every one of them.\<close>

theorem server_tables_agree:
  assumes "reachable srv_exec (newServer t c) s" "CHR ''/'' \<notin> set ns"
  shows "(map_of (primitives (scheduler s)) (qualifiedPrimID ns pid) \<noteq> None \<longleftrightarrow> primExists (primsIn ns s) pid) \<and>
    (map_of (primitiveMetrics (metricsCollector s)) (qualifiedPrimID ns pid) \<noteq> None \<longleftrightarrow> primExists (primsIn ns s) pid) \<and>
    (\<forall>k a info. binding s ns k pid = Some a \<and> map_of (primitives (scheduler s)) (qualifiedPrimID ns pid) = Some info \<longrightarrow>
       pType info = primType (heap s ! a)) \<and>
    (\<forall>k a pm. binding s ns k pid = Some a \<and>
       map_of (primitiveMetrics (metricsCollector s)) (qualifiedPrimID ns pid) = Some pm \<longrightarrow>
       PrimitiveMetrics.mType pm = primType (heap s ! a))"
proof -
  have inv: "server_typed s" "server_consistent s" using srv_inv.reachable_inv [OF assms(1)] by simp_all
  have q: "named s (qualifiedPrimID ns pid) k \<longleftrightarrow> binding s ns k pid \<noteq> None" for k
    using assms(2) by (simp add: named_def)
  then have "names s (qualifiedPrimID ns pid) \<longleftrightarrow> primExists (primsIn ns s) pid"
    by (simp add: names_def primExists_kmap binding_def)
  moreover have "pType info = primType (heap s ! a)"
    if "binding s ns k pid = Some a" "map_of (primitives (scheduler s)) (qualifiedPrimID ns pid) = Some info" for k a info
    using server_consistentD(3) [OF inv(2), of "qualifiedPrimID ns pid" k info] q [of k] that
      server_typedD(1) [OF inv(1) that(1)] by (simp add: primType_kind)
  moreover have "PrimitiveMetrics.mType pm = primType (heap s ! a)"
    if "binding s ns k pid = Some a"
      "map_of (primitiveMetrics (metricsCollector s)) (qualifiedPrimID ns pid) = Some pm" for k a pm
    using server_consistentD(6) [OF inv(2), of "qualifiedPrimID ns pid" k pm] q [of k] that
      server_typedD(1) [OF inv(1) that(1)] by (simp add: primType_kind)
  ultimately show ?thesis using server_consistentD(1,2) [OF inv(2), of "qualifiedPrimID ns pid"] by blast
qed

definition createMsg :: "string \<Rightarrow> wsMessage" where
  "createMsg pid = \<lparr>mType = ''createMutex'', mPayload = Some (JObj [(''id'', JStr pid)])\<rparr>"

definition deleteMsg :: "string \<Rightarrow> wsMessage" where
  "deleteMsg pid = \<lparr>mType = ''deletePrimitive'', mPayload = Some (JObj [(''id'', JStr pid)])\<rparr>"

definition twoClients :: Server where
  "twoClients = registerClient 0 3 ''default'' (registerClient 0 2 ''default'' (newServer 0 demoConfig))"

text \<open>What the handlers do with these messages.\<close>

lemma createMsg_result:
  assumes "roleForConn conn s = RoleAdmin" "map_of (connPrimsMap s) conn = Some ns"
    "\<not> primExists (primsIn ns s) pid" "pid \<noteq> []" "length pid \<le> 256"
  shows "\<exists>as. handleMessage t conn (createMsg pid) s =
      (created conn ns pid [] (PMutex (NewMutex t)) s, createActs conn ns pid [] (PMutex (NewMutex t)) s @ as) \<and>
    list_all answer_act as"
  using assms
  by (simp add: handleMessage_def authorizeMessage_def admin_allowed createMsg_def
      handleCreateMutex_def createWith_def decodeCreate_def structMembers_def fieldString_def field_matches
      asString_def validatePrimID_def validatePrimName_def maxIDLen_def maxNameLen_def createPrimitive_def
      connPrimsFor_def Let_def WithCancel_def created_def createActs_def)

lemma deleteMsg_result:
  assumes "roleForConn conn s = RoleAdmin" "map_of (connPrimsMap s) conn = Some ns" "primExists (primsIn ns s) pid"
  shows "\<exists>as. handleMessage t conn (deleteMsg pid) s =
      (setPrims ns (removePrim pid (primsIn ns s)) s, deleteActs conn ns pid s @ as) \<and> list_all answer_act as"
  using assms
  by (simp add: handleMessage_def authorizeMessage_def admin_allowed deleteMsg_def
      handleDeletePrimitive_def structMembers_def fieldString_def field_matches asString_def
      connPrimsFor_def Let_def deleteActs_def)

text \<open>The state in which both clients are connected and nothing exists yet.\<close>

lemma twoClients_fields [simp]:
  "map_of (connPrimsMap twoClients) 2 = Some ''default''" "map_of (connPrimsMap twoClients) 3 = Some ''default''"
  "namespaces twoClients = [(''default'', newConnPrims)]" "heap twoClients = []"
  "primitives (scheduler twoClients) = []" "primitiveMetrics (metricsCollector twoClients) = []"
  "map_option csRole (map_of (connStates twoClients) 2) = Some RoleAdmin"
  "map_option csRole (map_of (connStates twoClients) 3) = Some RoleAdmin"
  "map_option csNamespace (map_of (connStates twoClients) 2) = Some ''default''"
  "map_option csNamespace (map_of (connStates twoClients) 3) = Some ''default''"
  by (simp_all add: twoClients_def registerClient_def Let_def WithCancel_def getOrCreateNamespacePrims_def)

lemma twoClients_conns [simp]:
  "roleForConn 2 twoClients = RoleAdmin" "roleForConn 3 twoClients = RoleAdmin"
  "namespaceForConn 2 twoClients = ''default''" "namespaceForConn 3 twoClients = ''default''"
  by (simp_all add: roleForConn_def roleFor_def)
    (simp_all add: twoClients_def namespaceForConn_register)

lemma primsIn_twoClients [simp]: "primsIn ''default'' twoClients = newConnPrims"
  by (simp add: primsIn_def)

lemma not_primExists_new [simp]: "\<not> primExists newConnPrims pid"
  by (simp add: primExists_kmap)

theorem server_tables_agree_witness:
  "\<exists>s. run srv_exec [(0, CallOpen 2 ''default''), (0, CallOpen 3 ''default''), (5, CallMessage 2 (createMsg ''m''))]
       (newServer 0 demoConfig) = Some s \<and>
     map_of (primitives (scheduler s)) (qualifiedPrimID ''default'' ''m'') \<noteq> None"
proof -
  obtain as where h: "handleMessage 5 2 (createMsg ''m'') twoClients =
      (created 2 ''default'' ''m'' [] (PMutex (NewMutex 5)) twoClients,
       createActs 2 ''default'' ''m'' [] (PMutex (NewMutex 5)) twoClients @ as)" "list_all answer_act as"
    using createMsg_result [of 2 twoClients "''default''" "''m''" 5] by auto
  let ?s = "complete 5 (handleMessage 5 2 (createMsg ''m'') twoClients)"
  have r: "run srv_exec [(0, CallOpen 2 ''default''), (0, CallOpen 3 ''default''), (5, CallMessage 2 (createMsg ''m''))]
       (newServer 0 demoConfig) = Some ?s"
    by (simp add: twoClients_def)
  have "primExists (primsIn ''default'' ?s) ''m''"
    using h(2) by (simp only: h(1) complete_append primsIn_def complete_answers)
      (simp add: createActs_def created_def primExists_def)
  then show ?thesis
    using r server_tables_agree [OF run_reachable [OF r], of "''default''" "''m''"] by auto
qed

subsection \<open>Overlapping handlers\<close>

text \<open>Every connection has its goroutine: it takes the next message when it has finished the actions of
  the last one. The goroutines interleave in any way.\<close>

datatype srv_event = EvCall srv_call | EvAct conn

fun inter_exec :: "int \<times> srv_event \<Rightarrow> Server \<times> (conn \<Rightarrow> act list) \<Rightarrow> (Server \<times> (conn \<Rightarrow> act list)) option" where
  "inter_exec (t, EvCall (CallOpen conn ns)) (s, p) =
     (if p conn = [] \<and> CHR ''/'' \<notin> set ns \<and> ns \<noteq> [] then Some (registerClient t conn ns s, p) else None)"
| "inter_exec (t, EvCall (CallClose conn)) (s, p) =
     (if p conn = [] then Some (unregisterClient t conn s, p) else None)"
| "inter_exec (t, EvCall (CallMessage conn msg)) (s, p) =
     (if p conn = [] then (case handleMessage t conn msg s of (s', as) \<Rightarrow> Some (s', p(conn := as))) else None)"
| "inter_exec (t, EvAct conn) (s, p) = (case p conn of
      [] \<Rightarrow> None
    | a # as \<Rightarrow> (case perform t a s of (s', bs) \<Rightarrow> Some (s', p(conn := bs @ as))))"

lemma inter_exec_typed:
  assumes "server_typed (fst sp)" "inter_exec e sp = Some sp'"
  shows "server_typed (fst sp')"
proof -
  obtain t ev where e: "e = (t, ev)" by (cases e)
  obtain s p where sp: "sp = (s, p)" by (cases sp)
  have ok: "server_typed s" using assms(1) sp by simp
  show ?thesis
  proof (cases ev)
    case (EvAct conn)
    obtain a as where a: "p conn = a # as"
      using assms(2) e sp EvAct by (cases "p conn") auto
    then show ?thesis
      using assms(2) e sp EvAct perform_typed [OF ok, of t a] by (cases "perform t a s") auto
  next
    case (EvCall call)
    show ?thesis
    proof (cases call)
      case (CallMessage conn msg)
      then show ?thesis
        using assms(2) e sp EvCall handler_effect_typed [OF handleMessage_effect _] ok
        by (auto split: if_splits prod.splits)
    next
      case (CallClose conn)
      then show ?thesis
        using assms(2) e sp EvCall server_typed_same [OF ok, of "unregisterClient t conn s"]
        by (auto simp: unregisterClient_fields split: if_splits)
    qed (use assms(2) e sp EvCall registerClient_typed [OF ok] in \<open>auto split: if_splits\<close>)
  qed
qed

interpretation inter_inv: invariant_machine inter_exec "(newServer t c, \<lambda>_. [])" "\<lambda>sp. server_typed (fst sp)"
proof
  show "server_typed (fst (newServer t c, \<lambda>_. []))" by (simp add: server_typed_new)
qed (rule inter_exec_typed)

text \<open>C6. The heap is well typed, however handlers overlap: an address in one of the nine maps of a
  namespace points to an object of that map's type, with positive capacity or parties where it has
  them; an identifier is in at most one map; and two names never share an object, so namespaces are
  isolated from each other.\<close>

theorem server_heap_typed:
  assumes "reachable inter_exec (newServer t c, \<lambda>_. []) (s, p)" "binding s ns k pid = Some a"
  shows "a < length (heap s) \<and> kindOf (heap s ! a) = k \<and> size_ok (heap s ! a) \<and> pid \<noteq> [] \<and>
    (\<forall>k'. binding s ns k' pid \<noteq> None \<longrightarrow> k' = k) \<and>
    (\<forall>ns' k' pid'. binding s ns' k' pid' = Some a \<longrightarrow> ns' = ns \<and> k' = k \<and> pid' = pid)"
proof -
  have ok: "server_typed s" using inter_inv.reachable_inv [OF assms(1)] by simp
  note typed = server_typedD [OF ok]
  have "k' = k" if "binding s ns k' pid \<noteq> None" for k' using typed(2) [OF assms(2)] that by auto
  moreover have "ns' = ns \<and> k' = k \<and> pid' = pid" if "binding s ns' k' pid' = Some a" for ns' k' pid'
    using typed(3) [OF that assms(2)] by simp
  ultimately show ?thesis using typed(1) [OF assms(2)] by blast
qed

theorem server_heap_typed_witness:
  "\<exists>s p a. reachable inter_exec (newServer 0 demoConfig, \<lambda>_. []) (s, p) \<and>
     binding s ''default'' KMutex ''m'' = Some a \<and> kindOf (heap s ! a) = KMutex"
proof -
  obtain as where h: "handleMessage 5 2 (createMsg ''m'') twoClients =
      (created 2 ''default'' ''m'' [] (PMutex (NewMutex 5)) twoClients, as)"
    using createMsg_result [of 2 twoClients "''default''" "''m''" 5] by auto
  let ?s = "created 2 ''default'' ''m'' [] (PMutex (NewMutex 5)) twoClients"
  have "run inter_exec [(0, EvCall (CallOpen 2 ''default'')), (0, EvCall (CallOpen 3 ''default'')),
      (5, EvCall (CallMessage 2 (createMsg ''m'')))] (newServer 0 demoConfig, \<lambda>_. []) = Some (?s, (\<lambda>_. [])(2 := as))"
    using h by (simp add: twoClients_def)
  then have r: "reachable inter_exec (newServer 0 demoConfig, \<lambda>_. []) (?s, (\<lambda>_. [])(2 := as))"
    by (rule run_reachable)
  have b: "binding ?s ''default'' KMutex ''m'' = Some 0" by (simp add: binding_def created_def)
  show ?thesis using r b server_heap_typed [OF r b] by blast
qed

text \<open>The actions that are left when the critical section is over do not touch the nine maps.\<close>

lemma perform_binding: "perform t a s = (s', bs) \<Longrightarrow> binding s' ns k pid = binding s ns k pid"
  by (cases a) (auto simp: binding_def cancelPrim_def Let_def split: option.splits)

lemma complete_binding [simp]: "binding (complete t (s, as)) ns k pid = binding s ns k pid"
proof (induction t "(s, as)" arbitrary: s as rule: complete.induct)
  case (2 t s a as)
  obtain s' cs where p: "perform t a s = (s', cs)" by (cases "perform t a s")
  show ?case using 2 [OF p [symmetric]] perform_binding [OF p] p by simp
qed simp

lemma complete_primExists [simp]: "primExists (primsIn ns (complete t (s, as))) pid = primExists (primsIn ns s) pid"
  by (simp add: primExists_kmap flip: binding_def)

lemma roleForConn_setPrims [simp]: "roleForConn c (setPrims ns cp s) = roleForConn c s"
  by (simp add: roleForConn_def)

lemma created_fields [simp]:
  "roleForConn c (created conn ns pid name obj s) = roleForConn c s"
  "connPrimsMap (created conn ns pid name obj s) = connPrimsMap s"
  "namespaceForConn c (created conn ns pid name obj s) = namespaceForConn c s"
  "scheduler (created conn ns pid name obj s) = scheduler s"
  "primExists (primsIn ns (created conn ns pid name obj s)) q \<longleftrightarrow> q = pid \<or> primExists (primsIn ns s) q"
proof -
  show "primExists (primsIn ns (created conn ns pid name obj s)) q \<longleftrightarrow> q = pid \<or> primExists (primsIn ns s) q"
    using primExists_kput [of "kindOf obj" pid "length (heap s)" "primsIn ns s" q]
    by (auto simp: created_def primExists_kmap)
qed (simp_all add: created_def roleForConn_def)

text \<open>Handlers of two connections can overlap. If a deletion runs between the first critical section of
  a creation and its registration, the scheduler and the collector keep a primitive that does not
  exist; if a creation runs inside a deletion, the new primitive exists but is not registered.\<close>

lemma create_delete_race:
  "\<exists>u as v bs. handleMessage 0 2 (createMsg ''m'') twoClients = (u, as) \<and>
     handleMessage 0 3 (deleteMsg ''m'') u = (v, bs) \<and>
     (let s = complete 0 (complete 0 (v, bs), as)
      in \<not> primExists (primsIn ''default'' s) ''m'' \<and>
         map_of (primitives (scheduler s)) (qualifiedPrimID ''default'' ''m'') \<noteq> None)"
proof -
  let ?u = "created 2 ''default'' ''m'' [] (PMutex (NewMutex 0)) twoClients"
  obtain as where c: "handleMessage 0 2 (createMsg ''m'') twoClients =
      (?u, createActs 2 ''default'' ''m'' [] (PMutex (NewMutex 0)) twoClients @ as)" "list_all answer_act as"
    using createMsg_result [of 2 twoClients "''default''" "''m''" 0] by auto
  obtain bs where d: "handleMessage 0 3 (deleteMsg ''m'') ?u =
      (setPrims ''default'' (removePrim ''m'' (primsIn ''default'' ?u)) ?u, bs)"
    using deleteMsg_result [of 3 ?u "''default''" "''m''" 0] by auto
  show ?thesis
    by (intro exI conjI, rule c(1), rule d)
      (simp add: Let_def complete_append primExists_remove complete_answers(3) [OF c(2)], simp add: createActs_def)
qed

lemma delete_create_race:
  "\<exists>s0 u as v bs. reachable srv_exec (newServer 0 demoConfig) s0 \<and>
     handleMessage 0 2 (deleteMsg ''m'') s0 = (u, as) \<and>
     handleMessage 0 3 (createMsg ''m'') u = (v, bs) \<and>
     (let s = complete 0 (complete 0 (v, bs), as)
      in primExists (primsIn ''default'' s) ''m'' \<and>
         map_of (primitives (scheduler s)) (qualifiedPrimID ''default'' ''m'') = None)"
proof -
  let ?c = "handleMessage 0 2 (createMsg ''m'') twoClients"
  let ?s0 = "complete 0 ?c"
  obtain as where c: "?c = (created 2 ''default'' ''m'' [] (PMutex (NewMutex 0)) twoClients,
      createActs 2 ''default'' ''m'' [] (PMutex (NewMutex 0)) twoClients @ as)" "list_all answer_act as"
    using createMsg_result [of 2 twoClients "''default''" "''m''" 0] by auto
  have r: "reachable srv_exec (newServer 0 demoConfig) ?s0"
    by (rule run_reachable [of _ "[(0, CallOpen 2 ''default''), (0, CallOpen 3 ''default''), (0, CallMessage 2 (createMsg ''m''))]"])
      (simp add: twoClients_def)
  have s0: "roleForConn i ?s0 = roleForConn i twoClients" "connPrimsMap ?s0 = connPrimsMap twoClients"
      "namespaceForConn i ?s0 = namespaceForConn i twoClients" "primExists (primsIn ''default'' ?s0) ''m''" for i
    unfolding c(1) complete_append
    by (simp_all add: roleForConn_def complete_answers [OF c(2)] namespaceForConn_cong [OF complete_answers(5,7) [OF c(2)]])
      (simp_all add: createActs_def created_def)
  let ?u = "setPrims ''default'' (removePrim ''m'' (primsIn ''default'' ?s0)) ?s0"
  obtain ds where d: "handleMessage 0 2 (deleteMsg ''m'') ?s0 = (?u, deleteActs 2 ''default'' ''m'' ?s0 @ ds)"
      "list_all answer_act ds"
    using deleteMsg_result [of 2 ?s0 "''default''" "''m''" 0] s0 by auto
  obtain es where e: "handleMessage 0 3 (createMsg ''m'') ?u =
      (created 3 ''default'' ''m'' [] (PMutex (NewMutex 0)) ?u, es)"
    using createMsg_result [of 3 ?u "''default''" "''m''" 0] s0 by (auto simp: primExists_remove)
  show ?thesis
    by (intro exI conjI, rule r, rule d(1), rule e)
      (simp add: Let_def complete_append complete_answers(3) [OF d(2)], simp add: deleteActs_def s0)
qed

end
