(* ===== verification/ServerSnapshot.thy ===== *)
theory ServerSnapshot
  imports ServerRegistry
begin

text \<open>
  Persistence in \<^verbatim>\<open>web/server.go\<close>: \<^verbatim>\<open>saveSnapshot\<close>, \<^verbatim>\<open>loadSnapshot\<close> with its legacy format,
  \<^verbatim>\<open>restoreSnapshotPrimitives\<close> and the construction of the server, which loads the snapshot.

  The file is its JSON value. A map is iterated in the order of its association list.
\<close>

record primitiveSnapshot =
  psID :: string
  psType :: string
  psName :: string
  psCapacity :: int32
  psParties :: int32

definition snapshotVersion :: int where
  "snapshotVersion = 1"

record snapshotFile =
  snVersion :: int
  snNamespace :: string
  snPrimitives :: "primitiveSnapshot list"

subsection \<open>The file format\<close>

text \<open>Members with \<^verbatim>\<open>omitempty\<close> are left out when they are zero; a nil slice is \<^verbatim>\<open>null\<close>.\<close>

definition encodePrimitive :: "primitiveSnapshot \<Rightarrow> json" where
  "encodePrimitive p = JObj ([(''id'', JStr (psID p)), (''type'', JStr (psType p)), (''name'', JStr (psName p))] @
     (if psCapacity p = 0 then [] else [(''capacity'', jword (psCapacity p))]) @
     (if psParties p = 0 then [] else [(''parties'', jword (psParties p))]))"

definition encodeSnapshot :: "snapshotFile \<Rightarrow> json" where
  "encodeSnapshot sn = JObj ([(''version'', JNum (snVersion sn))] @
     (if snNamespace sn = [] then [] else [(''namespace'', JStr (snNamespace sn))]) @
     [(''primitives'', if snPrimitives sn = [] then JNull else JArr (map encodePrimitive (snPrimitives sn)))])"

definition decodePrimitive :: "json \<Rightarrow> primitiveSnapshot option" where
  "decodePrimitive j = (case structMembers (Some j) of
      None \<Rightarrow> None
    | Some kvs \<Rightarrow>
        (case (fieldString ''id'' kvs, fieldString ''type'' kvs, fieldString ''name'' kvs,
               fieldInt32 ''capacity'' kvs, fieldInt32 ''parties'' kvs) of
           (Some i, Some ty, Some nm, Some cap, Some n) \<Rightarrow>
             Some \<lparr>psID = i, psType = ty, psName = nm, psCapacity = cap, psParties = n\<rparr>
         | _ \<Rightarrow> None))"

fun decodeList :: "(json \<Rightarrow> 'a option) \<Rightarrow> json list \<Rightarrow> 'a list option" where
  "decodeList dec [] = Some []"
| "decodeList dec (j # js) = (case (dec j, decodeList dec js) of (Some x, Some xs) \<Rightarrow> Some (x # xs) | _ \<Rightarrow> None)"

definition asPrimitives :: "json \<Rightarrow> primitiveSnapshot list option" where
  "asPrimitives j = (case j of JArr js \<Rightarrow> decodeList decodePrimitive js | _ \<Rightarrow> None)"

definition decodeSnapshot :: "json \<Rightarrow> snapshotFile option" where
  "decodeSnapshot j = (case structMembers (Some j) of
      None \<Rightarrow> None
    | Some kvs \<Rightarrow>
        (case (fieldInt ''version'' kvs, fieldString ''namespace'' kvs, getField asPrimitives ''primitives'' kvs []) of
           (Some v, Some ns, Some ps) \<Rightarrow> Some \<lparr>snVersion = v, snNamespace = ns, snPrimitives = ps\<rparr>
         | _ \<Rightarrow> None))"

text \<open>The unversioned format: an object from identifiers to the other fields.\<close>

definition decodeLegacyPrimitive :: "string \<Rightarrow> json \<Rightarrow> primitiveSnapshot option" where
  "decodeLegacyPrimitive pid j = (case structMembers (Some j) of
      None \<Rightarrow> None
    | Some kvs \<Rightarrow>
        (case (fieldString ''type'' kvs, fieldString ''name'' kvs, fieldInt32 ''capacity'' kvs, fieldInt32 ''parties'' kvs) of
           (Some ty, Some nm, Some cap, Some n) \<Rightarrow>
             Some \<lparr>psID = pid, psType = ty, psName = nm, psCapacity = cap, psParties = n\<rparr>
         | _ \<Rightarrow> None))"

fun decodeLegacyMembers ::
    "(string \<times> json) list \<Rightarrow> (string, primitiveSnapshot) gomap \<Rightarrow> (string, primitiveSnapshot) gomap option" where
  "decodeLegacyMembers [] m = Some m"
| "decodeLegacyMembers ((pid, j) # kvs) m = (case decodeLegacyPrimitive pid j of
      None \<Rightarrow> None | Some p \<Rightarrow> decodeLegacyMembers kvs (AList.update pid p m))"

definition decodeLegacy :: "json \<Rightarrow> primitiveSnapshot list option" where
  "decodeLegacy j = (case structMembers (Some j) of
      None \<Rightarrow> None | Some kvs \<Rightarrow> map_option (map snd) (decodeLegacyMembers kvs []))"

subsection \<open>Saving\<close>

definition nameFor :: "Server \<Rightarrow> string \<Rightarrow> string" where
  "nameFor s q = (case map_of (GetPrimitives (scheduler s)) q of Some info \<Rightarrow> pName info | None \<Rightarrow> q)"

fun capacityOf :: "prim \<Rightarrow> int32" where
  "capacityOf (PSemaphore x) = ss_Capacity (Semaphore_GetStats 0 x)"
| "capacityOf _ = 0"

fun partiesOf :: "prim \<Rightarrow> int32" where
  "partiesOf (PBarrier x) = bs_Parties (Barrier_GetStats 0 x)"
| "partiesOf _ = 0"

definition snapEntries ::
    "Server \<Rightarrow> string \<Rightarrow> PrimitiveType \<Rightarrow> (prim \<Rightarrow> int32) \<Rightarrow> (prim \<Rightarrow> int32) \<Rightarrow> (string, addr) gomap \<Rightarrow> primitiveSnapshot list" where
  "snapEntries s namespace ty cap n m =
     map (\<lambda>(pid, a). \<lparr>psID = pid, psType = ty, psName = nameFor s (qualifiedPrimID namespace pid),
                      psCapacity = cap (heap s ! a), psParties = n (heap s ! a)\<rparr>) m"

definition takeSnapshot :: "Server \<Rightarrow> snapshotFile" where
  "takeSnapshot s =
     (let namespace = defaultNamespace (DefaultNamespace (cfg s))
      in \<lparr>snVersion = snapshotVersion, snNamespace = namespace,
          snPrimitives = (case map_of (namespaces s) namespace of
              None \<Rightarrow> []
            | Some cp \<Rightarrow>
                snapEntries s namespace TypeRWLock (\<lambda>_. 0) (\<lambda>_. 0) (rwlocks cp) @
                snapEntries s namespace TypeFairRWLock (\<lambda>_. 0) (\<lambda>_. 0) (fairrwlocks cp) @
                snapEntries s namespace TypeSemaphore capacityOf (\<lambda>_. 0) (semaphores cp) @
                snapEntries s namespace TypeMutex (\<lambda>_. 0) (\<lambda>_. 0) (mutexes cp) @
                snapEntries s namespace TypeCondVar (\<lambda>_. 0) (\<lambda>_. 0) (condvars cp) @
                snapEntries s namespace TypeBarrier (\<lambda>_. 0) partiesOf (barriers cp) @
                snapEntries s namespace TypeWaitGroup (\<lambda>_. 0) (\<lambda>_. 0) (waitgroups cp) @
                snapEntries s namespace TypeOnce (\<lambda>_. 0) (\<lambda>_. 0) (onces cp) @
                snapEntries s namespace TypeSingleflight (\<lambda>_. 0) (\<lambda>_. 0) (singleflights cp))\<rparr>)"

text \<open>What is written to the file: nothing where persistence is off or the write fails.\<close>

datatype fileContent = FMissing | FUnreadable | FEmpty | FCorrupt | FJSON json

definition saveSnapshot :: "bool \<Rightarrow> Server \<Rightarrow> fileContent \<Rightarrow> fileContent" where
  "saveSnapshot writeFails s file =
     (if snapshotPath s = [] \<or> writeFails then file else FJSON (encodeSnapshot (takeSnapshot s)))"

subsection \<open>Loading\<close>

definition newByType :: "int \<Rightarrow> primitiveSnapshot \<Rightarrow> prim option" where
  "newByType t p =
     (if psType p = TypeRWLock then Some (PRWLock (NewRWLock t))
      else if psType p = TypeFairRWLock then Some (PFairRWLock (NewFairRWLock t))
      else if psType p = TypeSemaphore then
        (case NewSemaphore t (if sint (psCapacity p) \<le> 0 then 1 else psCapacity p) of
           Inl panic \<Rightarrow> None | Inr x \<Rightarrow> Some (PSemaphore x))
      else if psType p = TypeMutex then Some (PMutex (NewMutex t))
      else if psType p = TypeCondVar then Some (PCondVar (NewCondVar t))
      else if psType p = TypeBarrier then
        (case NewBarrier t (if sint (psParties p) \<le> 0 then 1 else psParties p) of
           Inl panic \<Rightarrow> None | Inr x \<Rightarrow> Some (PBarrier x))
      else if psType p = TypeWaitGroup then Some (PWaitGroup (NewWaitGroup t))
      else if psType p = TypeOnce then Some (POnce (NewOnce t))
      else if psType p = TypeSingleflight then Some (PGroup (NewGroup t))
      else None)"

fun enterPrim :: "prim \<Rightarrow> string \<Rightarrow> addr \<Rightarrow> connPrims \<Rightarrow> connPrims" where
  "enterPrim (PRWLock x) pid a cp = cp\<lparr>rwlocks := AList.update pid a (rwlocks cp)\<rparr>"
| "enterPrim (PFairRWLock x) pid a cp = cp\<lparr>fairrwlocks := AList.update pid a (fairrwlocks cp)\<rparr>"
| "enterPrim (PSemaphore x) pid a cp = cp\<lparr>semaphores := AList.update pid a (semaphores cp)\<rparr>"
| "enterPrim (PMutex x) pid a cp = cp\<lparr>mutexes := AList.update pid a (mutexes cp)\<rparr>"
| "enterPrim (PCondVar x) pid a cp = cp\<lparr>condvars := AList.update pid a (condvars cp)\<rparr>"
| "enterPrim (PBarrier x) pid a cp = cp\<lparr>barriers := AList.update pid a (barriers cp)\<rparr>"
| "enterPrim (PWaitGroup x) pid a cp = cp\<lparr>waitgroups := AList.update pid a (waitgroups cp)\<rparr>"
| "enterPrim (POnce x) pid a cp = cp\<lparr>onces := AList.update pid a (onces cp)\<rparr>"
| "enterPrim (PGroup x) pid a cp = cp\<lparr>singleflights := AList.update pid a (singleflights cp)\<rparr>"

definition restoreOne :: "int \<Rightarrow> string \<Rightarrow> primitiveSnapshot \<Rightarrow> Server \<Rightarrow> Server" where
  "restoreOne t namespace p s =
     (if psID p = [] then s
      else case newByType t p of
             None \<Rightarrow> s
           | Some obj \<Rightarrow>
               (let a = length (heap s); (primCtx, cs) = WithCancel (shutdownCtx s) (ctxs s);
                    cp = enterPrim obj (psID p) a (primsIn namespace s);
                    s1 = setPrims namespace (cp\<lparr>primCtxs := AList.update (psID p) primCtx (primCtxs cp)\<rparr>)
                           (s\<lparr>heap := heap s @ [obj], ctxs := cs\<rparr>);
                    internalID = qualifiedPrimID namespace (psID p)
                in s1\<lparr>scheduler := RegisterPrimitive t internalID (primType obj) (psName p) (GetStats t obj) (scheduler s1),
                      metricsCollector := Metrics_RegisterPrimitive t internalID (psType p) (psName p) (metricsCollector s1)\<rparr>))"

definition restoreSnapshotPrimitives :: "int \<Rightarrow> string \<Rightarrow> primitiveSnapshot list \<Rightarrow> Server \<Rightarrow> Server" where
  "restoreSnapshotPrimitives t namespace prims s =
     fold (restoreOne t namespace) prims (getOrCreateNamespacePrims namespace s)"

definition loadLegacy :: "int \<Rightarrow> json \<Rightarrow> Server \<Rightarrow> Server" where
  "loadLegacy t j s = (case decodeLegacy j of
      None \<Rightarrow> s
    | Some prims \<Rightarrow> restoreSnapshotPrimitives t (defaultNamespace (DefaultNamespace (cfg s))) prims s)"

definition loadSnapshot :: "int \<Rightarrow> fileContent \<Rightarrow> Server \<Rightarrow> Server" where
  "loadSnapshot t file s =
     (if snapshotPath s = [] then s
      else case file of
             FJSON j \<Rightarrow>
               (case decodeSnapshot j of
                  Some snap \<Rightarrow>
                    if 0 < snVersion snap then
                      (if snVersion snap \<noteq> snapshotVersion then s
                       else restoreSnapshotPrimitives t
                              (if snNamespace snap = [] then defaultNamespace (DefaultNamespace (cfg s))
                               else snNamespace snap) (snPrimitives snap) s)
                    else loadLegacy t j s
                | None \<Rightarrow> loadLegacy t j s)
           | _ \<Rightarrow> s)"

subsection \<open>Starting the server\<close>

text \<open>\<open>Inl\<close> is the panic for invalid histogram buckets. A logger that cannot be opened leaves the server
  without one.\<close>

definition NewServerWithConfig ::
    "int \<Rightarrow> osfault \<Rightarrow> Config \<Rightarrow> fileContent \<Rightarrow> files \<Rightarrow> string + (Server \<times> files)" where
  "NewServerWithConfig t f c snapshot fs =
     (case validateHistogramBuckets (HistogramBuckets c) of
        Some panic \<Rightarrow> Inl panic
      | None \<Rightarrow>
          (let s = newServer t c;
               (s1, fs1) = (if AuditLogPath c = [] then (s, fs)
                            else case Audit_New f (AuditLogPath c) (AuditLogMaxBytes c) (AuditLogKeepFiles c) fs of
                                   Inl err \<Rightarrow> (s, fs)
                                 | Inr (logger, fs') \<Rightarrow> (s\<lparr>auditLogger := Some logger\<rparr>, fs'))
           in Inr (loadSnapshot t snapshot s1, fs1)))"

subsection \<open>The file format is read back\<close>

lemma asInt32_jword: "asInt32 (jword w) = Some w"
proof -
  have "- (2 ^ 31) \<le> sint w" "sint w \<le> 2 ^ 31 - 1" using sint_ge [of w] sint_lt [of w] by auto
  then show ?thesis by (simp add: asInt32_def asIntIn_def jword_def)
qed

lemma jword_not_null [simp]: "jword w \<noteq> JNull"
  by (simp add: jword_def)

lemma decode_encode_primitive: "decodePrimitive (encodePrimitive p) = Some p"
  by (cases "psCapacity p = 0"; cases "psParties p = 0")
    (simp_all add: decodePrimitive_def encodePrimitive_def structMembers_def fieldString_def fieldInt32_def
      field_matches asString_def asInt32_jword)

lemma decodeList_map: "(\<And>x. dec (enc x) = Some x) \<Longrightarrow> decodeList dec (map enc xs) = Some xs"
  by (induction xs) simp_all

lemma decode_encode_snapshot:
  assumes "- (2 ^ 63) \<le> snVersion sn" "snVersion sn < 2 ^ 63"
  shows "decodeSnapshot (encodeSnapshot sn) = Some sn"
  using assms decodeList_map [OF decode_encode_primitive, of "snPrimitives sn"]
  by (cases "snNamespace sn = []"; cases "snPrimitives sn = []")
    (simp_all add: decodeSnapshot_def encodeSnapshot_def structMembers_def fieldString_def fieldInt_def
      field_matches asString_def asInt_def asIntIn_def asPrimitives_def)

subsection \<open>Restoring\<close>

lemma enterPrim_kput: "enterPrim obj pid a cp = kput (kindOf obj) pid a cp"
  by (cases obj) simp_all

text \<open>Whether a saved primitive has the shape of an object.\<close>

definition snapOf :: "primitiveSnapshot \<Rightarrow> prim \<Rightarrow> bool" where
  "snapOf p obj \<longleftrightarrow> psType p = primType obj \<and> psCapacity p = capacityOf obj \<and> psParties p = partiesOf obj"

lemma type_distinct:
  "TypeRWLock \<noteq> TypeFairRWLock" "TypeRWLock \<noteq> TypeSemaphore" "TypeRWLock \<noteq> TypeMutex" "TypeRWLock \<noteq> TypeCondVar"
  "TypeRWLock \<noteq> TypeBarrier" "TypeRWLock \<noteq> TypeWaitGroup" "TypeRWLock \<noteq> TypeOnce" "TypeRWLock \<noteq> TypeSingleflight"
  "TypeFairRWLock \<noteq> TypeSemaphore" "TypeFairRWLock \<noteq> TypeMutex" "TypeFairRWLock \<noteq> TypeCondVar"
  "TypeFairRWLock \<noteq> TypeBarrier" "TypeFairRWLock \<noteq> TypeWaitGroup" "TypeFairRWLock \<noteq> TypeOnce"
  "TypeFairRWLock \<noteq> TypeSingleflight" "TypeSemaphore \<noteq> TypeMutex" "TypeSemaphore \<noteq> TypeCondVar"
  "TypeSemaphore \<noteq> TypeBarrier" "TypeSemaphore \<noteq> TypeWaitGroup" "TypeSemaphore \<noteq> TypeOnce"
  "TypeSemaphore \<noteq> TypeSingleflight" "TypeMutex \<noteq> TypeCondVar" "TypeMutex \<noteq> TypeBarrier"
  "TypeMutex \<noteq> TypeWaitGroup" "TypeMutex \<noteq> TypeOnce" "TypeMutex \<noteq> TypeSingleflight"
  "TypeCondVar \<noteq> TypeBarrier" "TypeCondVar \<noteq> TypeWaitGroup" "TypeCondVar \<noteq> TypeOnce"
  "TypeCondVar \<noteq> TypeSingleflight" "TypeBarrier \<noteq> TypeWaitGroup" "TypeBarrier \<noteq> TypeOnce"
  "TypeBarrier \<noteq> TypeSingleflight" "TypeWaitGroup \<noteq> TypeOnce" "TypeWaitGroup \<noteq> TypeSingleflight"
  "TypeOnce \<noteq> TypeSingleflight"
  by (simp_all add: TypeRWLock_def TypeFairRWLock_def TypeSemaphore_def TypeMutex_def TypeCondVar_def
      TypeBarrier_def TypeWaitGroup_def TypeOnce_def TypeSingleflight_def)

text \<open>A saved object of positive size is made again with the same shape.\<close>

lemma newByType_snapOf:
  assumes "snapOf p obj" "size_ok obj"
  shows "\<exists>obj'. newByType t p = Some obj' \<and> kindOf obj' = kindOf obj \<and> snapOf p obj' \<and> size_ok obj'"
  using assms
  by (cases obj) (auto simp: snapOf_def newByType_def type_distinct type_distinct [symmetric]
      NewSemaphore_def NewBarrier_def Semaphore_GetStats_def Barrier_GetStats_def)

lemma restoreOne_fields:
  assumes "psID p \<noteq> []" "newByType t p = Some obj"
  shows "binding (restoreOne t ns p s) ns' k pid =
      (if ns' = ns \<and> k = kindOf obj \<and> pid = psID p then Some (length (heap s)) else binding s ns' k pid)"
    "heap (restoreOne t ns p s) = heap s @ [obj]"
    "map_of (primitives (scheduler (restoreOne t ns p s))) =
       (map_of (primitives (scheduler s)))(qualifiedPrimID ns (psID p) \<mapsto>
          \<lparr>pID = qualifiedPrimID ns (psID p), pType = primType obj, pName = psName p, pCreatedAt = t,
           BlockedCount = 0, pStats = GetStats t obj\<rparr>)"
  using assms by (auto simp: restoreOne_def Let_def WithCancel_def enterPrim_kput binding_def)

definition restorable :: "primitiveSnapshot \<Rightarrow> bool" where
  "restorable p \<longleftrightarrow> psID p \<noteq> [] \<and> (\<exists>obj. snapOf p obj \<and> size_ok obj)"

definition restored :: "string \<Rightarrow> primitiveSnapshot \<Rightarrow> Server \<Rightarrow> bool" where
  "restored ns p s \<longleftrightarrow> (\<exists>k a info. binding s ns k (psID p) = Some a \<and> a < length (heap s) \<and>
     kindOf (heap s ! a) = k \<and> snapOf p (heap s ! a) \<and>
     map_of (primitives (scheduler s)) (qualifiedPrimID ns (psID p)) = Some info \<and> pName info = psName p)"

lemma restoreOne_restored:
  assumes "restorable p"
  shows "restored ns p (restoreOne t ns p s)"
    and "binding (restoreOne t ns p s) ns k pid \<noteq> None \<Longrightarrow>
      binding s ns k pid \<noteq> None \<or> psID p = pid \<and> psType p = kindType k"
    and "restored ns p' s \<Longrightarrow> psID p' \<noteq> psID p \<Longrightarrow> restored ns p' (restoreOne t ns p s)"
proof -
  obtain obj where i: "psID p \<noteq> []" and o: "newByType t p = Some obj" "snapOf p obj"
    using assms newByType_snapOf [of p _ t] by (auto simp: restorable_def)
  note f = restoreOne_fields [OF i o(1)]
  show "restored ns p (restoreOne t ns p s)"
    unfolding restored_def f using o(2) by (intro exI [of _ "kindOf obj"]) simp
  show "binding s ns k pid \<noteq> None \<or> psID p = pid \<and> psType p = kindType k"
    if "binding (restoreOne t ns p s) ns k pid \<noteq> None"
    using that o(2) by (auto simp: f(1) snapOf_def primType_kind split: if_splits)
  show "restored ns p' (restoreOne t ns p s)" if r: "restored ns p' s" "psID p' \<noteq> psID p"
  proof -
    obtain k a info where "binding s ns k (psID p') = Some a" "a < length (heap s)" "kindOf (heap s ! a) = k"
      "snapOf p' (heap s ! a)" "map_of (primitives (scheduler s)) (qualifiedPrimID ns (psID p')) = Some info"
      "pName info = psName p'"
      using r(1) by (auto simp: restored_def)
    then show ?thesis unfolding restored_def f using r(2)
      by (intro exI [of _ k] exI [of _ a] exI [of _ info]) (simp add: nth_append qualifiedPrimID_def)
  qed
qed

lemma fold_restored:
  assumes "\<forall>p\<in>set ps. restorable p" "distinct (map psID ps)"
  shows "(\<forall>p\<in>set ps. restored ns p (fold (restoreOne t ns) ps s)) \<and>
    (\<forall>k pid. binding (fold (restoreOne t ns) ps s) ns k pid \<noteq> None \<longrightarrow>
       binding s ns k pid \<noteq> None \<or> (\<exists>p\<in>set ps. psID p = pid \<and> psType p = kindType k))"
  using assms
proof (induction ps rule: rev_induct)
  case (snoc p ps)
  let ?u = "fold (restoreOne t ns) ps s"
  have IH: "\<forall>p\<in>set ps. restored ns p ?u"
    "\<forall>k pid. binding ?u ns k pid \<noteq> None \<longrightarrow> binding s ns k pid \<noteq> None \<or> (\<exists>p\<in>set ps. psID p = pid \<and> psType p = kindType k)"
    using snoc by simp_all
  have p: "restorable p" "psID p \<notin> psID ` set ps" using snoc.prems by auto
  have new: "restored ns p' (restoreOne t ns p ?u)" if "p' \<in> set ps" for p'
  proof (rule restoreOne_restored(3) [OF p(1)])
    show "restored ns p' ?u" using that IH(1) by simp
    show "psID p' \<noteq> psID p" using that p(2) by (metis image_eqI)
  qed
  have old: "binding s ns k pid \<noteq> None \<or> (\<exists>p\<in>set (ps @ [p]). psID p = pid \<and> psType p = kindType k)"
    if "binding (restoreOne t ns p ?u) ns k pid \<noteq> None" for k pid
    using restoreOne_restored(2) [OF p(1) that] IH(2) by auto
  show ?case using new old restoreOne_restored(1) [OF p(1), of ns t ?u] by auto
qed simp

subsection \<open>What is saved\<close>

definition kinds :: "kind list" where
  "kinds = [KRWLock, KFairRWLock, KSemaphore, KMutex, KCondVar, KBarrier, KWaitGroup, KOnce, KGroup]"

lemma kinds_all: "k \<in> set kinds"
  by (cases k) (simp_all add: kinds_def)

lemma distinct_concat_map:
  assumes "distinct ks" "\<And>k. k \<in> set ks \<Longrightarrow> distinct (f k)"
    "\<And>k k'. k \<in> set ks \<Longrightarrow> k' \<in> set ks \<Longrightarrow> k \<noteq> k' \<Longrightarrow> set (f k) \<inter> set (f k') = {}"
  shows "distinct (concat (map f ks))"
  using assms
proof (induction ks)
  case (Cons k ks)
  have "distinct (concat (map f ks))" by (rule Cons.IH) (use Cons.prems in auto)
  moreover have "set (f k) \<inter> set (concat (map f ks)) = {}" using Cons.prems(1,3) by fastforce
  ultimately show ?case using Cons.prems(2) by simp
qed simp

definition savedOf :: "Server \<Rightarrow> string \<Rightarrow> kind \<Rightarrow> string \<Rightarrow> addr \<Rightarrow> primitiveSnapshot" where
  "savedOf s ns k pid a = \<lparr>psID = pid, psType = kindType k, psName = nameFor s (qualifiedPrimID ns pid),
     psCapacity = capacityOf (heap s ! a), psParties = partiesOf (heap s ! a)\<rparr>"

abbreviation defaultNS :: "Server \<Rightarrow> string" where
  "defaultNS s \<equiv> defaultNamespace (DefaultNamespace (cfg s))"

lemma takeSnapshot_kinds:
  assumes "server_typed s"
  shows "snPrimitives (takeSnapshot s) =
    concat (map (\<lambda>k. map (\<lambda>(pid, a). savedOf s (defaultNS s) k pid a) (kmap k (primsIn (defaultNS s) s))) kinds)"
proof -
  let ?ns = "defaultNS s"
  have sized: "(if k = KSemaphore then 0 else capacityOf (heap s ! a)) = 0"
    "(if k = KBarrier then 0 else partiesOf (heap s ! a)) = 0"
    if "(pid, a) \<in> set (kmap k (primsIn ?ns s))" for k pid a
  proof -
    have "gomap_ok (kmap k (primsIn ?ns s))" using server_typedD(4) [OF assms] by (simp add: maps_ok_def)
    then have "binding s ?ns k pid = Some a" using that by (simp add: binding_def gomap_ok_def)
    then have "kindOf (heap s ! a) = k" using server_typedD(1) [OF assms] by blast
    then show "(if k = KSemaphore then 0 else capacityOf (heap s ! a)) = 0"
      "(if k = KBarrier then 0 else partiesOf (heap s ! a)) = 0"
      by (cases "heap s ! a"; auto)+
  qed
  have e: "snapEntries s ?ns (kindType k) cap n (kmap k (primsIn ?ns s)) =
      map (\<lambda>(pid, a). savedOf s ?ns k pid a) (kmap k (primsIn ?ns s))"
    if "cap = (if k = KSemaphore then capacityOf else (\<lambda>_. 0))" "n = (if k = KBarrier then partiesOf else (\<lambda>_. 0))" for k cap n
    using sized [where k = k] that by (auto simp: snapEntries_def savedOf_def split: if_splits)
  note es = e [where k = KRWLock] e [where k = KFairRWLock] e [where k = KSemaphore] e [where k = KMutex] e [where k = KCondVar]
    e [where k = KBarrier] e [where k = KWaitGroup] e [where k = KOnce] e [where k = KGroup]
  show ?thesis
  proof (cases "map_of (namespaces s) ?ns")
    case None
    then show ?thesis by (simp add: takeSnapshot_def Let_def primsIn_def kinds_def newConnPrims_def)
  next
    case (Some cp)
    then have "primsIn ?ns s = cp" by (simp add: primsIn_def)
    then show ?thesis using es Some by (simp add: takeSnapshot_def Let_def kinds_def)
  qed
qed

lemma kindType_inject: "kindType k = kindType k' \<longleftrightarrow> k = k'"
  by (cases k; cases k'; simp add: type_distinct type_distinct [symmetric])

lemma saved_iff:
  assumes "server_typed s"
  shows "p \<in> set (snPrimitives (takeSnapshot s)) \<longleftrightarrow>
    (\<exists>k pid a. binding s (defaultNS s) k pid = Some a \<and> p = savedOf s (defaultNS s) k pid a)"
proof -
  have "gomap_ok (kmap k (primsIn (defaultNS s) s))" for k
    using server_typedD(4) [OF assms] by (simp add: maps_ok_def)
  then have "(pid, a) \<in> set (kmap k (primsIn (defaultNS s) s)) \<longleftrightarrow> binding s (defaultNS s) k pid = Some a" for k pid a
    by (auto simp: binding_def gomap_ok_def)
  moreover have "p \<in> set (snPrimitives (takeSnapshot s)) \<longleftrightarrow>
      (\<exists>k pid a. (pid, a) \<in> set (kmap k (primsIn (defaultNS s) s)) \<and> p = savedOf s (defaultNS s) k pid a)"
    using kinds_all by (force simp: takeSnapshot_kinds [OF assms])
  ultimately show ?thesis by simp
qed

lemma saved_distinct:
  assumes "server_typed s"
  shows "distinct (map psID (snPrimitives (takeSnapshot s)))"
proof -
  let ?m = "\<lambda>k. kmap k (primsIn (defaultNS s) s)"
  have "map psID (snPrimitives (takeSnapshot s)) = concat (map (\<lambda>k. map fst (?m k)) kinds)"
    by (simp add: takeSnapshot_kinds [OF assms] map_concat comp_def savedOf_def case_prod_beta)
  moreover have "distinct (concat (map (\<lambda>k. map fst (?m k)) kinds))"
  proof (rule distinct_concat_map)
    show "distinct kinds" by (simp add: kinds_def)
    show "distinct (map fst (?m k))" for k
      using server_typedD(4) [OF assms] by (simp add: maps_ok_def gomap_ok_def)
    show "set (map fst (?m k)) \<inter> set (map fst (?m k')) = {}" if "k \<noteq> k'" for k k'
    proof -
      have "pid \<notin> set (map fst (?m k'))" if "pid \<in> set (map fst (?m k))" for pid
        using that \<open>k \<noteq> k'\<close> server_typedD(2) [OF assms, of "defaultNS s" k pid _ k']
        by (auto simp: binding_def map_of_eq_None_iff [symmetric] dom_map_of_conv_image_fst [symmetric])
      then show ?thesis by blast
    qed
  qed
  ultimately show ?thesis by simp
qed

lemma saved_restorable:
  assumes "server_typed s" "p \<in> set (snPrimitives (takeSnapshot s))"
  shows "restorable p"
proof -
  obtain k pid a where b: "binding s (defaultNS s) k pid = Some a" "p = savedOf s (defaultNS s) k pid a"
    using assms saved_iff by blast
  with server_typedD(1) [OF assms(1) b(1)] show ?thesis
    by (auto simp: restorable_def savedOf_def snapOf_def primType_kind intro!: exI [of _ "heap s ! a"])
qed

text \<open>C16. Saving and loading restores the default namespace: a new server with the same configuration
  that loads what \<^verbatim>\<open>saveSnapshot\<close> wrote has exactly the primitives of the default namespace, in the same
  maps, with the same names, semaphores with the same capacities and barriers with the same parties.\<close>

theorem snapshot_roundtrip:
  assumes "server_typed s" "snapshotPath s \<noteq> []" "snapshotPath s' \<noteq> []" "cfg s' = cfg s" "namespaces s' = []"
  shows "let s'' = loadSnapshot t (saveSnapshot False s file) s'; ns = defaultNS s
    in (binding s'' ns k pid \<noteq> None \<longleftrightarrow> binding s ns k pid \<noteq> None) \<and>
       (\<forall>a a''. binding s ns k pid = Some a \<and> binding s'' ns k pid = Some a'' \<longrightarrow>
          capacityOf (heap s'' ! a'') = capacityOf (heap s ! a) \<and> partiesOf (heap s'' ! a'') = partiesOf (heap s ! a) \<and>
          nameFor s'' (qualifiedPrimID ns pid) = nameFor s (qualifiedPrimID ns pid))"
proof -
  let ?ns = "defaultNS s" and ?ps = "snPrimitives (takeSnapshot s)"
  let ?g = "getOrCreateNamespacePrims ?ns s'"
  let ?s = "fold (restoreOne t ?ns) ?ps ?g"
  have ns: "?ns \<noteq> []" by (simp add: defaultNamespace_def)
  have "decodeSnapshot (encodeSnapshot (takeSnapshot s)) = Some (takeSnapshot s)"
    by (rule decode_encode_snapshot) (simp_all add: takeSnapshot_def Let_def snapshotVersion_def)
  then have load: "loadSnapshot t (saveSnapshot False s file) s' = ?s"
    using assms ns by (simp add: loadSnapshot_def saveSnapshot_def restoreSnapshotPrimitives_def)
      (simp add: takeSnapshot_def Let_def snapshotVersion_def)
  have "\<forall>p\<in>set ?ps. restorable p" using saved_restorable [OF assms(1)] by blast
  note r = fold_restored [OF this saved_distinct [OF assms(1)], of ?ns t ?g]
  have empty: "binding ?g ns k pid = None" for ns k pid
    using assms(5) by (simp add: binding_def primsIn_def getOrCreateNamespacePrims_def)
  have there: "\<exists>a''. binding ?s ?ns k pid = Some a'' \<and> snapOf (savedOf s ?ns k pid a) (heap ?s ! a'') \<and>
      nameFor ?s (qualifiedPrimID ?ns pid) = nameFor s (qualifiedPrimID ?ns pid)"
    if b: "binding s ?ns k pid = Some a" for a
  proof -
    have "savedOf s ?ns k pid a \<in> set ?ps" using b saved_iff [OF assms(1)] by blast
    then have "restored ?ns (savedOf s ?ns k pid a) ?s" using r by blast
    then show ?thesis
      by (auto simp: restored_def savedOf_def snapOf_def primType_kind kindType_inject nameFor_def GetPrimitives_def)
  qed
  have only: "binding s ?ns k pid \<noteq> None" if x: "binding ?s ?ns k pid \<noteq> None"
  proof -
    obtain p where "p \<in> set ?ps" "psID p = pid" "psType p = kindType k"
      using r [THEN conjunct2, rule_format, OF x] by (auto simp: empty)
    then show ?thesis using saved_iff [OF assms(1)] by (auto simp: savedOf_def kindType_inject)
  qed
  show ?thesis unfolding load Let_def using there only
    by (auto simp: savedOf_def snapOf_def)
qed

lemma primsIn_newServer: "primsIn ns (newServer t c) = newConnPrims"
  by (simp add: primsIn_def)

definition snapConfig :: Config where
  "snapConfig = demoConfig\<lparr>SnapshotPath := ''snap''\<rparr>"

definition demoSem :: Semaphore where
  "demoSem = (case NewSemaphore 0 3 of Inr x \<Rightarrow> x)"

definition demoSaved :: Server where
  "demoSaved = created 2 ''default'' ''x'' ''pool'' (PSemaphore demoSem)
     (registerClient 0 2 ''default'' (newServer 0 snapConfig))"

lemma demoSaved_typed: "server_typed demoSaved"
  unfolding demoSaved_def created_def
  by (rule server_typed_create [OF registerClient_typed [OF server_typed_new]])
    (simp_all add: registerClient_fields primsIn_newServer demoSem_def NewSemaphore_def)

theorem snapshot_roundtrip_witness:
  "\<exists>a. binding (loadSnapshot 9 (saveSnapshot False demoSaved FMissing) (newServer 9 snapConfig))
       ''default'' KSemaphore ''x'' = Some a \<and>
     capacityOf (heap (loadSnapshot 9 (saveSnapshot False demoSaved FMissing) (newServer 9 snapConfig)) ! a) = 3"
proof -
  have f: "snapshotPath demoSaved \<noteq> []" "cfg (newServer 9 snapConfig) = cfg demoSaved" "defaultNS demoSaved = ''default''"
    "binding demoSaved ''default'' KSemaphore ''x'' = Some 0" "capacityOf (heap demoSaved ! 0) = 3"
    by (simp_all add: demoSaved_def created_def registerClient_fields binding_def)
      (simp_all add: demoSem_def NewSemaphore_def Semaphore_GetStats_def registerClient_def Let_def WithCancel_def
        getOrCreateNamespacePrims_def logAudit_def newServer_def Background_def snapConfig_def demoConfig_def
        setPrims_def defaultNamespace_def TrimSpace_def)
  show ?thesis
    using snapshot_roundtrip [OF demoSaved_typed f(1) _ f(2), of 9 FMissing KSemaphore "''x''"] f(3-5)
    by (auto simp: Let_def snapConfig_def)
qed

end
