(* ===== verification/ServerHTTP.thy ===== *)
theory ServerHTTP
  imports ServerSnapshot
begin

text \<open>
  The life of a connection and of the server in \<^verbatim>\<open>web/server.go\<close>: authentication and admission in
  \<^verbatim>\<open>HandleWebSocket\<close>, its read loop with the rate limits, the check of the origin, the endpoints for
  health and metrics, and \<^verbatim>\<open>Shutdown\<close>.

  The keyed hash and the JSON codecs of tokens are arguments, as in \<open>JWT\<close>; so is the parsing of an
  origin, of which the scheme, the host and whether it is a loopback address matter. The network (the
  upgrade itself, pings, deadlines) is left out.
\<close>

subsection \<open>Routes\<close>

fun Contains :: "string \<Rightarrow> string \<Rightarrow> bool" where
  "Contains [] sub = (sub = [])"
| "Contains (c # cs) sub = (take (length sub) (c # cs) = sub \<or> Contains cs sub)"

datatype endpoint = EpWebSocket | EpMetrics | EpHealthz | EpReadyz | EpStatic

text \<open>The handler that \<^verbatim>\<open>Start\<close> installs: paths with two dots are not found, before the multiplexer sees
  them; the pattern \<^verbatim>\<open>/\<close> takes every other path.\<close>

definition route :: "string \<Rightarrow> endpoint option" where
  "route path = (if Contains path ''..'' then None
     else Some (if path = ''/ws'' then EpWebSocket
                else if path = ''/metrics'' then EpMetrics
                else if path = ''/healthz'' then EpHealthz
                else if path = ''/readyz'' then EpReadyz
                else EpStatic))"

text \<open>The status of a request for a static file; \<open>lookup\<close> is the embedded file system.\<close>

definition HandleStatic :: "(string \<Rightarrow> string option) \<Rightarrow> string \<Rightarrow> string \<Rightarrow> nat \<times> string" where
  "HandleStatic lookup httpMethod path =
     (if httpMethod \<noteq> ''GET'' \<and> httpMethod \<noteq> ''HEAD'' then (405, ''Method Not Allowed'')
      else case lookup path of None \<Rightarrow> (404, ''404 page not found'') | Some body \<Rightarrow> (200, body))"

subsection \<open>Origins\<close>

record parsedURL =
  uScheme :: string
  uHost :: string
  uHostname :: string

definition isLoopbackOrigin :: "(string \<Rightarrow> parsedURL option) \<Rightarrow> (string \<Rightarrow> bool) \<Rightarrow> string \<Rightarrow> bool" where
  "isLoopbackOrigin parseURL loopbackIP origin = (case parseURL origin of
      None \<Rightarrow> False
    | Some u \<Rightarrow>
        if uScheme u \<noteq> ''http'' \<and> uScheme u \<noteq> ''https'' then False
        else let host = (if uHostname u = [] then uHost u else uHostname u)
             in host = ''localhost'' \<or> host = ''127.0.0.1'' \<or> host = ''::1'' \<or> loopbackIP host)"

definition checkOrigin :: "(string \<Rightarrow> parsedURL option) \<Rightarrow> (string \<Rightarrow> bool) \<Rightarrow> Config \<Rightarrow> string \<Rightarrow> bool" where
  "checkOrigin parseURL loopbackIP c origin =
     (if AllowedOrigins c = [] then origin = [] \<or> isLoopbackOrigin parseURL loopbackIP origin
      else list_ex (\<lambda>allowed. allowed = ''*'' \<or> origin = allowed) (AllowedOrigins c))"

subsection \<open>Admission\<close>

record wsRequest =
  rqAuthorization :: string
  rqOrigin :: string
  rqQueryNs :: string

definition TrimPrefix :: "string \<Rightarrow> string \<Rightarrow> string" where
  "TrimPrefix s p = (if take (length p) s = p then drop (length p) s else s)"

text \<open>The texts of the errors of \<^verbatim>\<open>ValidateJWT\<close>, without the detail that some of them wrap.\<close>

fun jwtErrorText :: "jwt_error \<Rightarrow> string" where
  "jwtErrorText InvalidFormat = ''invalid JWT format''"
| "jwtErrorText HeaderEncoding = ''invalid header encoding''"
| "jwtErrorText HeaderJSON = ''invalid header JSON''"
| "jwtErrorText UnsupportedHeader = ''unsupported JWT header''"
| "jwtErrorText InvalidSignature = ''invalid signature''"
| "jwtErrorText PayloadEncoding = ''invalid payload encoding''"
| "jwtErrorText PayloadJSON = ''invalid payload JSON''"
| "jwtErrorText MissingSub = ''missing sub claim''"
| "jwtErrorText MissingExp = ''missing exp claim''"
| "jwtErrorText TokenExpired = ''token expired''"

type_synonym jwtCodec = "(string \<Rightarrow> string \<Rightarrow> string) \<times> (string \<Rightarrow> header option) \<times> (string \<Rightarrow> Claims option)"

text \<open>\<open>Inl\<close> is the HTTP status and the text of a refusal; the counters change either way.\<close>

definition wsAuthenticate ::
    "jwtCodec \<Rightarrow> int \<Rightarrow> wsRequest \<Rightarrow> Server \<Rightarrow> (nat \<times> string + Claims option) \<times> Server" where
  "wsAuthenticate codec nowUnix r s = (case codec of (mac, unmarshalHeader, unmarshalClaims) \<Rightarrow>
     if JWTSecret (cfg s) \<noteq> [] then
       (let token = TrimPrefix (rqAuthorization r) ''Bearer ''
        in if token = [] \<or> token = rqAuthorization r
           then (Inl (401, ''Unauthorized: JWT required''), s\<lparr>authFailuresMalformed := authFailuresMalformed s + 1\<rparr>)
           else case ValidateJWT mac unmarshalHeader unmarshalClaims nowUnix token (JWTSecret (cfg s)) of
                  Inl err \<Rightarrow>
                    (let text = jwtErrorText err
                     in (Inl (401, ''Unauthorized: '' @ text),
                         if Contains text ''expired'' then s\<lparr>authFailuresExpired := authFailuresExpired s + 1\<rparr>
                         else if Contains text ''signature'' then s\<lparr>authFailuresInvalid := authFailuresInvalid s + 1\<rparr>
                         else s\<lparr>authFailuresMalformed := authFailuresMalformed s + 1\<rparr>))
                | Inr claims \<Rightarrow> (Inr (Some (claims\<lparr>Role := normalizeRole (Role claims) True\<rparr>)), s))
     else if APIKey (cfg s) \<noteq> [] then
       (let key = TrimPrefix (rqAuthorization r) ''Bearer ''
        in if key = [] \<or> key = rqAuthorization r \<or> key \<noteq> APIKey (cfg s)
           then (Inl (401, ''Unauthorized''), s) else (Inr None, s))
     else (Inr None, s))"

text \<open>Everything \<^verbatim>\<open>HandleWebSocket\<close> checks before the connection exists.\<close>

definition wsAdmit ::
    "jwtCodec \<Rightarrow> (string \<Rightarrow> parsedURL option) \<Rightarrow> (string \<Rightarrow> bool) \<Rightarrow> int \<Rightarrow> wsRequest \<Rightarrow> Server \<Rightarrow>
     (nat \<times> string + string \<times> Claims option) \<times> Server" where
  "wsAdmit codec parseURL loopbackIP nowUnix r s =
     (case wsAuthenticate codec nowUnix r s of
        (Inl e, s') \<Rightarrow> (Inl e, s')
      | (Inr claims, s') \<Rightarrow>
          if draining s' then (Inl (503, ''Server is shutting down''), s')
          else case extractNamespace (DefaultNamespace (cfg s')) (JWTSecret (cfg s')) (rqQueryNs r)
                      (map_option Namespace claims) of
                 Inl e \<Rightarrow> (Inl (400, ''Bad Request: '' @ e), s')
               | Inr ns \<Rightarrow>
                   if maxConns s' \<le> sint (activeConns s')
                   then (Inl (503, ''Service Unavailable: too many connections''), s')
                   else if \<not> checkOrigin parseURL loopbackIP (cfg s') (rqOrigin r)
                   then (Inl (403, ''Forbidden''), s')
                   else (Inr (ns, claims), s'))"

text \<open>What it does once the upgrade has succeeded, up to the loop.\<close>

definition wsConnect :: "int \<Rightarrow> conn \<Rightarrow> string \<Rightarrow> Claims option \<Rightarrow> Server \<Rightarrow> Server \<times> act list" where
  "wsConnect t conn namespace claims s =
     (let s1 = registerClient t conn namespace (s\<lparr>activeConns := activeConns s + 1\<rparr>);
          s2 = (case (claims, map_of (connStates s1) conn) of
                  (Some c, Some st) \<Rightarrow>
                    s1\<lparr>connStates := AList.update conn (st\<lparr>csUser := Sub c, csRole := Role c\<rparr>) (connStates s1)\<rparr>
                | _ \<Rightarrow> s1)
      in (s2, sendInitialState conn))"

text \<open>One round of the read loop.\<close>

definition wsReceive ::
    "int \<Rightarrow> conn \<Rightarrow> wsMessage \<Rightarrow> Server \<Rightarrow> Server \<times> act list" where
  "wsReceive t conn msg s =
     (case checkRateLimit t conn s of
        (False, s1) \<Rightarrow>
          (s1\<lparr>msgRateLimitHits := msgRateLimitHits s1 + 1\<rparr>,
           [ActSend conn (OError ''rate limit exceeded: max 200 messages/second'')])
      | (True, s1) \<Rightarrow>
          if mType msg = ''primitiveOp'' then
            (case checkOpRateLimit t conn s1 of
               (False, s2) \<Rightarrow>
                 (s2\<lparr>opRateLimitHits := opRateLimitHits s2 + 1\<rparr>,
                  [ActSend conn (OError ''operation rate limit exceeded: max 50 ops/second per connection'')])
             | (True, s2) \<Rightarrow> handleMessage t conn msg s2)
          else handleMessage t conn msg s1)"

subsection \<open>Endpoints\<close>

datatype healthValue = HVText string | HVSeconds int | HVCount int64 | HVTexts "string list"

text \<open>The JSON object of \<^verbatim>\<open>/healthz\<close>; other methods than GET are refused.\<close>

definition handleHealthz :: "int \<Rightarrow> string \<Rightarrow> Server \<Rightarrow> nat \<times> (string \<times> healthValue) list" where
  "handleHealthz t httpMethod s =
     (if httpMethod \<noteq> ''GET'' then (405, [])
      else (200, [(''status'', HVText ''ok''), (''uptime_seconds'', HVSeconds (sm_Uptime (Scheduler_GetMetrics t (scheduler s)))),
        (''dropped_broadcasts'', HVCount (droppedBroadcasts s)),
        (''dropped_audit_events'', HVCount (case auditLogger s of None \<Rightarrow> 0 | Some l \<Rightarrow> Dropped l)),
        (''rate_limit_hits'', HVCount (msgRateLimitHits s)), (''op_rate_limit_hits'', HVCount (opRateLimitHits s)),
        (''histogram_buckets'', HVTexts (map Duration_String (GetHistogramBoundaries (metricsCollector s))))]))"

definition handleReadyz :: "string \<Rightarrow> nat \<times> (string \<times> healthValue) list" where
  "handleReadyz httpMethod = (if httpMethod \<noteq> ''GET'' then (405, []) else (200, [(''status'', HVText ''ready'')]))"

text \<open>A sample of the Prometheus text: name, labels, value. Comment lines are left out; durations stay
  in nanoseconds and bucket bounds as they are.\<close>

datatype promValue = PVInt int | PVSeconds int

record promSample =
  prName :: string
  prLabels :: "(string \<times> string) list"
  prLe :: "le_bound option"
  prValue :: promValue

definition sample :: "string \<Rightarrow> int \<Rightarrow> promSample" where
  "sample name v = \<lparr>prName = name, prLabels = [], prLe = None, prValue = PVInt v\<rparr>"

definition histogramSamples :: "string \<Rightarrow> PrimitiveMetricsSnapshot \<Rightarrow> promSample list" where
  "histogramSamples pid snap =
     map (\<lambda>b. \<lparr>prName = ''syncprim_wait_duration_seconds_bucket'', prLabels = [(''primitive'', pid)],
               prLe = Some (Le b), prValue = PVInt (sint (Count b))\<rparr>) (ps_Histogram snap) @
     [\<lparr>prName = ''syncprim_wait_duration_seconds_sum'', prLabels = [(''primitive'', pid)], prLe = None,
       prValue = PVSeconds (sint (ps_TotalWaitTime snap))\<rparr>,
      \<lparr>prName = ''syncprim_wait_duration_seconds_count'', prLabels = [(''primitive'', pid)], prLe = None,
       prValue = PVInt (sint (ps_Waits snap))\<rparr>]"

definition handlePrometheusMetrics :: "int \<Rightarrow> string \<Rightarrow> Server \<Rightarrow> nat \<times> promSample list" where
  "handlePrometheusMetrics t httpMethod s =
     (if httpMethod \<noteq> ''GET'' then (405, [])
      else let g = GetGlobalMetrics t (metricsCollector s)
      in (200,
        [sample ''syncprim_primitives_total'' (int (gm_TotalPrimitives g)),
         sample ''syncprim_acquires_total'' (sint (gm_TotalAcquires g)),
         sample ''syncprim_releases_total'' (sint (gm_TotalReleases g)),
         sample ''syncprim_waits_total'' (sint (gm_TotalWaits g)),
         sample ''syncprim_timeouts_total'' (sint (gm_TotalTimeouts g)),
         sample ''syncprim_contentions_total'' (sint (gm_TotalContentions g)),
         (sample ''syncprim_uptime_seconds'' 0)\<lparr>prValue := PVSeconds (gm_Uptime g)\<rparr>,
         sample ''syncprim_dropped_broadcasts_total'' (sint (droppedBroadcasts s)),
         sample ''syncprim_rate_limit_hits_total'' (sint (msgRateLimitHits s)),
         sample ''syncprim_op_rate_limit_hits_total'' (sint (opRateLimitHits s)),
         (sample ''syncprim_auth_failures_total'' (sint (authFailuresExpired s)))\<lparr>prLabels := [(''reason'', ''expired'')]\<rparr>,
         (sample ''syncprim_auth_failures_total'' (sint (authFailuresInvalid s)))\<lparr>prLabels := [(''reason'', ''invalid_signature'')]\<rparr>,
         (sample ''syncprim_auth_failures_total'' (sint (authFailuresMalformed s)))\<lparr>prLabels := [(''reason'', ''malformed'')]\<rparr>] @
        (case auditLogger s of
           None \<Rightarrow> [] | Some l \<Rightarrow> [sample ''syncprim_dropped_audit_events_total'' (sint (Dropped l))]) @
        concat (map (\<lambda>(pid, snap). histogramSamples pid snap) (GetAllMetrics t (metricsCollector s)))))"

subsection \<open>Shutdown\<close>

definition notifyClose :: "Server \<Rightarrow> Server" where
  "notifyClose s = fold (\<lambda>(conn, b). sendToClient conn OClose) (clients s) s"

text \<open>Closing a closed channel panics (\<open>Inl\<close>). Waiting for the HTTP server and for the writer of the
  audit log is left out.\<close>

definition Shutdown :: "bool \<Rightarrow> Server \<Rightarrow> fileContent \<Rightarrow> string + (Server \<times> fileContent)" where
  "Shutdown writeFails s file =
     (let s1 = notifyClose (s\<lparr>draining := True\<rparr>);
          file1 = saveSnapshot writeFails s1 file;
          s2 = s1\<lparr>ctxs := cancelCtx Canceled (shutdownCtx s1) (ctxs s1)\<rparr>
      in if stopClosed s2 then Inl ''close of closed channel''
         else case Stop (scheduler s2) of
                Inl panic \<Rightarrow> Inl panic
              | Inr sc \<Rightarrow>
                  (let s3 = s2\<lparr>stopClosed := True, scheduler := sc\<rparr>
                   in case auditLogger s3 of
                        None \<Rightarrow> Inr (s3, file1)
                      | Some l \<Rightarrow>
                          (case Close_done l of
                             Inl panic \<Rightarrow> Inl panic
                           | Inr l' \<Rightarrow> Inr (s3\<lparr>auditLogger := Some l'\<rparr>, file1))))"

subsection \<open>Who gets in\<close>

lemma TrimPrefix_stripped: "TrimPrefix h p \<noteq> h \<Longrightarrow> h = p @ TrimPrefix h p"
  by (simp add: TrimPrefix_def split: if_splits) (metis append_take_drop_id)

lemma dropWhile_hd: "xs \<noteq> [] \<Longrightarrow> \<not> P (hd xs) \<Longrightarrow> dropWhile P xs = xs"
  by (cases xs) simp_all

lemma TrimSpace_idem [simp]: "TrimSpace (TrimSpace s) = TrimSpace s"
proof -
  define u where "u = dropWhile isSpace s"
  define v where "v = dropWhile isSpace (rev u)"
  have t: "TrimSpace s = rev v" by (simp add: TrimSpace_def u_def v_def)
  show ?thesis
  proof (cases "v = []")
    case False
    obtain w where w: "rev u = w @ v" unfolding v_def by (metis takeWhile_dropWhile_id)
    have "rev v \<noteq> []" "hd (rev v) = hd u" "u \<noteq> []"
      using False w by (auto simp: hd_append rev_swap)
    then have "\<not> isSpace (hd (rev v))" using hd_dropWhile [of isSpace s] u_def by metis
    then have "dropWhile isSpace (rev v) = rev v" using \<open>rev v \<noteq> []\<close> by (simp add: dropWhile_hd)
    moreover have "dropWhile isSpace v = v" by (simp add: v_def)
    ultimately show ?thesis by (simp add: t TrimSpace_def [of "rev v"])
  next
    case True
    then have "TrimSpace s = []" by (simp add: t)
    then show ?thesis by (simp only:) (simp add: TrimSpace_def)
  qed
qed

lemma defaultNamespace_trimmed: "TrimSpace (defaultNamespace c) = defaultNamespace c" "defaultNamespace c \<noteq> []"
proof -
  have d: "TrimSpace ''default'' = ''default''" by code_simp
  show "TrimSpace (defaultNamespace c) = defaultNamespace c" by (simp add: defaultNamespace_def d)
  show "defaultNamespace c \<noteq> []" by (simp add: defaultNamespace_def)
qed

lemma validNamespace:
  "validateNamespaceName n = [] \<Longrightarrow> TrimSpace n = n \<Longrightarrow> n \<noteq> [] \<Longrightarrow> length n \<le> maxIDLen \<and> CHR ''/'' \<notin> set n"
  by (auto simp: validateNamespaceName_def Let_def split: if_splits)

lemma extractNamespace_valid:
  assumes "extractNamespace d secret q c = Inr ns"
  shows "ns \<noteq> [] \<and> length ns \<le> maxIDLen \<and> CHR ''/'' \<notin> set ns"
    "TrimSpace (the c) \<noteq> [] \<Longrightarrow> c \<noteq> None \<Longrightarrow> ns = TrimSpace (the c)"
    "secret \<noteq> [] \<Longrightarrow> c = None \<or> TrimSpace (the c) = [] \<Longrightarrow> ns = defaultNamespace d"
proof -
  have "TrimSpace ns = ns \<and> ns \<noteq> [] \<and> validateNamespaceName ns = []"
    using assms defaultNamespace_trimmed
    by (auto simp: extractNamespace_def Let_def split: option.splits if_splits)
  then show "ns \<noteq> [] \<and> length ns \<le> maxIDLen \<and> CHR ''/'' \<notin> set ns" using validNamespace by blast
qed (use assms in \<open>auto simp: extractNamespace_def Let_def split: option.splits if_splits\<close>)

text \<open>What a successful authentication has seen.\<close>

lemma wsAuthenticate_ok:
  assumes "wsAuthenticate (mac, uh, uc) nowUnix r s = (Inr claims, s')"
  shows "s' = s"
    "JWTSecret (cfg s) \<noteq> [] \<Longrightarrow> \<exists>token c. rqAuthorization r = ''Bearer '' @ token \<and>
       ValidateJWT mac uh uc nowUnix token (JWTSecret (cfg s)) = Inr c \<and>
       claims = Some (c\<lparr>Role := normalizeRole (Role c) True\<rparr>)"
    "JWTSecret (cfg s) = [] \<Longrightarrow> claims = None \<and> (APIKey (cfg s) \<noteq> [] \<longrightarrow> rqAuthorization r = ''Bearer '' @ APIKey (cfg s))"
  using assms TrimPrefix_stripped [of "rqAuthorization r" "''Bearer ''"]
  by (auto simp: wsAuthenticate_def Let_def split: if_splits sum.splits)

lemma wsAdmit_ok:
  assumes "wsAdmit codec parseURL lb nowUnix r s = (Inr (ns, claims), s')"
  shows "wsAuthenticate codec nowUnix r s = (Inr claims, s')" "\<not> draining s'" "sint (activeConns s') < maxConns s'"
    "extractNamespace (DefaultNamespace (cfg s')) (JWTSecret (cfg s')) (rqQueryNs r) (map_option Namespace claims) = Inr ns"
    "checkOrigin parseURL lb (cfg s') (rqOrigin r)"
  using assms by (auto simp: wsAdmit_def split: if_splits sum.splits prod.splits)

lemma registerClient_state:
  "\<exists>st. map_of (connStates (registerClient t conn ns s)) conn = Some st \<and> csRole st = RoleAdmin \<and> csNamespace st = ns"
  by (simp add: registerClient_def Let_def WithCancel_def)

lemma wsConnect_role:
  "roleForConn conn (fst (wsConnect t conn ns claims s)) = roleFor (Some (case claims of None \<Rightarrow> RoleAdmin | Some c \<Rightarrow> Role c))"
  "ns \<noteq> [] \<Longrightarrow> namespaceForConn conn (fst (wsConnect t conn ns claims s)) = ns"
  using registerClient_state [of t conn ns "s\<lparr>activeConns := activeConns s + 1\<rparr>"]
  by (auto simp: wsConnect_def Let_def roleForConn_def namespaceForConn_def split: option.splits)

lemma roleFor_normalized: "roleFor (Some (normalizeRole x True)) = normalizeRole x True"
  by (simp add: roleFor_def normalizeRole_def)

text \<open>C13. Admission. A request becomes a connection only if the server is not draining, is below its
  cap and, where a secret is configured, the request carries a token that \<^verbatim>\<open>ValidateJWT\<close> accepts
  (otherwise the API key, if there is one). The connection then has the namespace of the token, or
  the default, never one chosen by the query when tokens are required; the namespace is not empty,
  is bounded and has no slash; and the connection has the role of the token, a viewer's if the token
  names no known role.\<close>

theorem ws_admission:
  assumes "wsAdmit (mac, uh, uc) parseURL lb nowUnix r s = (Inr (ns, claims), s')"
  shows "s' = s \<and> \<not> draining s \<and> sint (activeConns s) < maxConns s \<and>
    ns \<noteq> [] \<and> length ns \<le> maxIDLen \<and> CHR ''/'' \<notin> set ns \<and>
    namespaceForConn conn (fst (wsConnect t conn ns claims s')) = ns \<and>
    (if JWTSecret (cfg s) \<noteq> []
     then \<exists>token c. rqAuthorization r = ''Bearer '' @ token \<and>
            ValidateJWT mac uh uc nowUnix token (JWTSecret (cfg s)) = Inr c \<and>
            ns = (if TrimSpace (Namespace c) \<noteq> [] then TrimSpace (Namespace c)
                  else defaultNamespace (DefaultNamespace (cfg s))) \<and>
            roleForConn conn (fst (wsConnect t conn ns claims s')) =
              (if Role c \<in> {RoleAdmin, RoleOperator} then Role c else RoleViewer)
     else (APIKey (cfg s) = [] \<or> rqAuthorization r = ''Bearer '' @ APIKey (cfg s)) \<and>
          roleForConn conn (fst (wsConnect t conn ns claims s')) = RoleAdmin)"
proof -
  note a = wsAdmit_ok [OF assms]
  note auth = wsAuthenticate_ok [OF a(1)]
  note ns = extractNamespace_valid [OF a(4)]
  have role: "roleFor (Some RoleAdmin) = RoleAdmin" by (simp add: roleFor_def)
  show ?thesis
  proof (cases "JWTSecret (cfg s) = []")
    case True
    then show ?thesis using a auth(1) auth(3) ns(1) by (auto simp: wsConnect_role role)
  next
    case False
    then obtain token c where c: "rqAuthorization r = ''Bearer '' @ token"
        "ValidateJWT mac uh uc nowUnix token (JWTSecret (cfg s)) = Inr c"
        "claims = Some (c\<lparr>Role := normalizeRole (Role c) True\<rparr>)"
      using auth(2) by auto
    have n: "ns = (if TrimSpace (Namespace c) \<noteq> [] then TrimSpace (Namespace c)
          else defaultNamespace (DefaultNamespace (cfg s)))"
      using ns(2,3) c(3) auth(1) False by auto
    have r: "roleForConn conn (fst (wsConnect t conn ns claims s')) =
        (if Role c \<in> {RoleAdmin, RoleOperator} then Role c else RoleViewer)"
      by (simp add: wsConnect_role c(3) roleFor_normalized) (simp add: normalizeRole_def)
    have e: "\<exists>token c. rqAuthorization r = ''Bearer '' @ token \<and>
        ValidateJWT mac uh uc nowUnix token (JWTSecret (cfg s)) = Inr c \<and>
        ns = (if TrimSpace (Namespace c) \<noteq> [] then TrimSpace (Namespace c)
              else defaultNamespace (DefaultNamespace (cfg s))) \<and>
        roleForConn conn (fst (wsConnect t conn ns claims s')) =
          (if Role c \<in> {RoleAdmin, RoleOperator} then Role c else RoleViewer)"
      using c(1,2) n r by blast
    show ?thesis using False a(2,3) auth(1) ns(1) wsConnect_role(2) e by simp
  qed
qed

definition jwtConfig :: Config where
  "jwtConfig = demoConfig\<lparr>JWTSecret := ''k''\<rparr>"

definition demoRequest :: wsRequest where
  "demoRequest = \<lparr>rqAuthorization = ''Bearer SA.Qw.aw'', rqOrigin = [], rqQueryNs = ''other''\<rparr>"

lemma newServer_admits [simp]:
  "\<not> draining (newServer t c)" "activeConns (newServer t c) = 0"
  "maxConns (newServer t c) = (if MaxConns c \<le> 0 then 1000 else MaxConns c)"
  by (simp_all add: newServer_def Background_def Let_def)

theorem ws_admission_witness:
  "\<exists>ns claims. wsAdmit (\<lambda>k m. k, \<lambda>j. Some \<lparr>Alg = ''HS256'', Typ = ''JWT''\<rparr>, \<lambda>j. Some ann) (\<lambda>u. None) (\<lambda>u. False)
       5 demoRequest (newServer 0 jwtConfig) = (Inr (ns, claims), newServer 0 jwtConfig) \<and>
     length ns \<le> maxIDLen \<and> CHR ''/'' \<notin> set ns"
proof -
  let ?codec = "(\<lambda>k m. k, \<lambda>j. Some \<lparr>Alg = ''HS256'', Typ = ''JWT''\<rparr>, \<lambda>j. Some ann)"
  have v: "ValidateJWT (\<lambda>k m. k) (\<lambda>j. Some \<lparr>Alg = ''HS256'', Typ = ''JWT''\<rparr>) (\<lambda>j. Some ann) 5 ''SA.Qw.aw'' ''k'' =
      Inr ann" by code_simp
  have ns: "extractNamespace [] ''k'' ''other'' (Some []) = Inr ''default''" by code_simp
  have "wsAdmit ?codec (\<lambda>u. None) (\<lambda>u. False) 5 demoRequest (newServer 0 jwtConfig) =
      (Inr (''default'', Some (ann\<lparr>Role := normalizeRole (Role ann) True\<rparr>)), newServer 0 jwtConfig)"
    using v ns
    by (simp add: wsAdmit_def wsAuthenticate_def demoRequest_def jwtConfig_def demoConfig_def TrimPrefix_def Let_def
        ann_def checkOrigin_def)
  with ws_admission [OF this] show ?thesis by blast
qed

text \<open>The cap is checked before the upgrade and the counter incremented after it: of two requests that
  overlap there, both are admitted although only one place was left.\<close>

lemma activeConns_logAudit [simp]: "activeConns (logAudit t conn e s) = activeConns s"
  by (simp add: logAudit_def Let_def split: option.splits)

lemma activeConns_register: "activeConns (registerClient t conn ns s) = activeConns s"
  by (simp add: registerClient_def Let_def WithCancel_def getOrCreateNamespacePrims_def)

lemma activeConns_connect: "activeConns (fst (wsConnect t conn ns claims s)) = activeConns s + 1"
  by (simp add: wsConnect_def Let_def activeConns_register split: option.splits)

lemma connection_cap_race:
  assumes "wsAdmit codec parseURL lb nowUnix r s = (Inr (ns, claims), s)" "sint (activeConns s) + 1 = maxConns s"
    "0 \<le> sint (activeConns s)" "maxConns s < 2 ^ 62"
  shows "maxConns s < sint (activeConns (fst (wsConnect t c2 ns claims (fst (wsConnect t c1 ns claims s)))))"
proof -
  have "sint (activeConns s + 1 + 1) = sint (activeConns s) + 2"
    using assms(2-4) by (simp add: signed_take_bit_int_eq_self sint_word_ariths)
  then show ?thesis using assms(2) by (simp add: activeConns_connect)
qed

subsection \<open>Shutdown cancels everything\<close>

definition child_ctx :: "Server \<Rightarrow> ctx \<Rightarrow> bool" where
  "child_ctx s c \<longleftrightarrow> c < length (ctxs s) \<and> cparent (ctxs s ! c) = Some (shutdownCtx s) \<and> shutdownCtx s < c"

definition ctx_ok :: "Server \<Rightarrow> bool" where
  "ctx_ok s \<longleftrightarrow> shutdownCtx s < length (ctxs s) \<and> cparent (ctxs s ! shutdownCtx s) = None \<and>
     (\<forall>ns pid c. map_of (primCtxs (primsIn ns s)) pid = Some c \<longrightarrow> child_ctx s c) \<and>
     (\<forall>conn st. map_of (connStates s) conn = Some st \<longrightarrow> child_ctx s (opCtx st))"

text \<open>Contexts are only ever added, or cancelled, which keeps their parents.\<close>

definition ctx_grows :: "Server \<Rightarrow> Server \<Rightarrow> bool" where
  "ctx_grows s s' \<longleftrightarrow> shutdownCtx s' = shutdownCtx s \<and> length (ctxs s) \<le> length (ctxs s') \<and>
     (\<forall>c < length (ctxs s). cparent (ctxs s' ! c) = cparent (ctxs s ! c))"

lemma child_grows: "ctx_grows s s' \<Longrightarrow> child_ctx s c \<Longrightarrow> child_ctx s' c"
  by (auto simp: ctx_grows_def child_ctx_def)

lemma ctx_ok_step:
  assumes "ctx_ok s" "ctx_grows s s'"
    "\<And>ns pid c. map_of (primCtxs (primsIn ns s')) pid = Some c \<Longrightarrow>
       map_of (primCtxs (primsIn ns s)) pid = Some c \<or> child_ctx s' c"
    "\<And>conn st. map_of (connStates s') conn = Some st \<Longrightarrow>
       map_option opCtx (map_of (connStates s) conn) = Some (opCtx st) \<or> child_ctx s' (opCtx st)"
  shows "ctx_ok s'"
  unfolding ctx_ok_def
proof (intro conjI allI impI)
  show "child_ctx s' c" if "map_of (primCtxs (primsIn ns s')) pid = Some c" for ns pid c
    using assms(1,2) assms(3) [OF that] child_grows unfolding ctx_ok_def by blast
  show "child_ctx s' (opCtx st)" if "map_of (connStates s') conn = Some st" for conn st
    using assms(1,2) assms(4) [OF that] child_grows unfolding ctx_ok_def by (metis map_option_eq_Some)
qed (use assms(1,2) in \<open>auto simp: ctx_ok_def ctx_grows_def\<close>)

lemma cparent_cancelCtx [simp]: "length (cancelCtx e c cs) = length cs" "cparent (cancelCtx e c cs ! i) = cparent (cs ! i)"
  by (auto simp: cancelCtx_def nth_list_update split: if_splits)

lemma ctx_ok_same:
  "ctx_ok s \<Longrightarrow> ctxs s' = ctxs s \<Longrightarrow> shutdownCtx s' = shutdownCtx s \<Longrightarrow> connStates s' = connStates s \<Longrightarrow>
   namespaces s' = namespaces s \<Longrightarrow> ctx_ok s'"
  by (simp add: ctx_ok_def child_ctx_def primsIn_def)

lemma cancelPrim_ctx: "ctx_ok s \<Longrightarrow> ctx_ok (cancelPrim ns pid s)"
  by (rule ctx_ok_step [of s])
    (auto simp: ctx_grows_def cancelPrim_def Let_def delete_conv' split: option.splits if_splits)

lemma perform_ctx:
  assumes "ctx_ok s"
  shows "ctx_ok (fst (perform t a s))"
proof (cases a)
  case (ActCancelPrim ns pid)
  then show ?thesis using cancelPrim_ctx [OF assms] by simp
next
  case (ActSeedState conn init prims)
  then show ?thesis by (simp add: ctx_ok_same [OF assms] seedDeltaState_def)
qed (simp_all add: ctx_ok_same [OF assms])

lemma handler_effect_ctx: "handler_effect conn s s' as \<Longrightarrow> ctx_ok s \<Longrightarrow> ctx_ok s'"
proof (induction rule: handler_effect.induct)
  case (he_none s' s as conn)
  then show ?case by (auto simp: ctx_ok_def child_ctx_def primsIn_def)
next
  case (he_create s conn ns pid obj as name)
  show ?case
    by (rule ctx_ok_step [OF he_create(7)])
      (use he_create(7) in \<open>auto simp: created_def ctx_grows_def child_ctx_def ctx_ok_def nth_append split: if_splits\<close>)
next
  case (he_delete s conn ns pid as)
  show ?case
    by (rule ctx_ok_step [OF he_delete(4)]) (auto simp: ctx_grows_def removePrim_def split: if_splits)
qed

lemma registerClient_ctx:
  assumes "ctx_ok s"
  shows "ctx_ok (registerClient t conn ns s)"
proof (rule ctx_ok_step [OF assms])
  have f: "ctxs (registerClient t conn ns s) = ctxs s @ [\<lparr>cparent = Some (shutdownCtx s), cerr = None\<rparr>]"
    "shutdownCtx (registerClient t conn ns s) = shutdownCtx s"
    "map_option opCtx (map_of (connStates (registerClient t conn ns s)) c) =
      (if c = conn then Some (length (ctxs s)) else map_option opCtx (map_of (connStates s) c))" for c
    by (simp_all add: registerClient_def Let_def WithCancel_def getOrCreateNamespacePrims_def)
  show "ctx_grows s (registerClient t conn ns s)" by (simp add: ctx_grows_def f nth_append)
  fix c st assume "map_of (connStates (registerClient t conn ns s)) c = Some st"
  then have "map_option opCtx (map_of (connStates (registerClient t conn ns s)) c) = Some (opCtx st)" by simp
  then show "map_option opCtx (map_of (connStates s) c) = Some (opCtx st) \<or>
      child_ctx (registerClient t conn ns s) (opCtx st)"
    using assms by (auto simp: f child_ctx_def ctx_ok_def nth_append split: if_splits)
qed (simp add: registerClient_fields)

lemma unregisterClient_ctx:
  assumes "ctx_ok s"
  shows "ctx_ok (unregisterClient t conn s)"
proof (rule ctx_ok_step [OF assms])
  show "ctx_grows s (unregisterClient t conn s)"
    by (simp add: unregisterClient_def Let_def ctx_grows_def split: option.splits)
qed (auto simp: unregisterClient_fields delete_conv' primsIn_def split: if_splits)

text \<open>Until \<^verbatim>\<open>Shutdown\<close> closes them, the channels that stop the background goroutines are open.\<close>

definition running_ok :: "Server \<Rightarrow> bool" where
  "running_ok s \<longleftrightarrow> \<not> stopClosed s \<and> running (scheduler s) \<and> \<not> sdone (scheduler s) \<and>
     pred_option (\<lambda>l. \<not> ldone l) (auditLogger s)"

lemma scheduler_running [simp]:
  "running (RegisterPrimitive t pid ty nm st x) = running x" "sdone (RegisterPrimitive t pid ty nm st x) = sdone x"
  "running (UnregisterPrimitive t pid x) = running x" "sdone (UnregisterPrimitive t pid x) = sdone x"
  by (simp_all add: RegisterPrimitive_def UnregisterPrimitive_def emit_def Let_def split: option.splits)

lemma ldone_Log [simp]: "ldone (Log e l) = ldone l"
  by (simp add: Log_def split: option.splits)

lemma logAudit_running [simp]: "running_ok (logAudit t c e s) = running_ok s"
  by (simp add: running_ok_def logAudit_def Let_def split: option.splits)

lemma running_ok_fields [simp]:
  "running_ok (s\<lparr>outbox := a\<rparr>) = running_ok s" "running_ok (s\<lparr>namespaces := b\<rparr>) = running_ok s"
  "running_ok (s\<lparr>metricsCollector := d\<rparr>) = running_ok s" "running_ok (s\<lparr>ctxs := e\<rparr>) = running_ok s"
  "running_ok (s\<lparr>deltaStates := f\<rparr>) = running_ok s" "running_ok (s\<lparr>heap := g\<rparr>) = running_ok s"
  "running_ok (s\<lparr>clients := h\<rparr>) = running_ok s" "running_ok (s\<lparr>writeMu := i\<rparr>) = running_ok s"
  "running_ok (s\<lparr>connCounter := j\<rparr>) = running_ok s" "running_ok (s\<lparr>connStates := k\<rparr>) = running_ok s"
  "running_ok (s\<lparr>connPrimsMap := l\<rparr>) = running_ok s" "running_ok (s\<lparr>activeConns := m\<rparr>) = running_ok s"
  by (simp_all add: running_ok_def)

lemma perform_running: "running_ok s \<Longrightarrow> running_ok (fst (perform t a s))"
  by (cases a) (simp_all add: sendToClient_def seedDeltaState_def cancelPrim_def setPrims_def Let_def split: option.splits,
     simp_all add: running_ok_def)

lemma handler_effect_running: "handler_effect conn s s' as \<Longrightarrow> running_ok s \<Longrightarrow> running_ok s'"
  by (induction rule: handler_effect.induct) (simp_all add: created_def setPrims_def, simp add: running_ok_def)

lemma client_running:
  "running_ok (registerClient t conn ns s) = running_ok s" "running_ok (unregisterClient t conn s) = running_ok s"
  by (simp_all add: registerClient_def unregisterClient_def Let_def WithCancel_def getOrCreateNamespacePrims_def)

text \<open>Both hold in every state of the interleaved server.\<close>

lemma inter_exec_ctx:
  assumes "ctx_ok (fst sp) \<and> running_ok (fst sp)" "inter_exec e sp = Some sp'"
  shows "ctx_ok (fst sp') \<and> running_ok (fst sp')"
proof -
  obtain t ev where e: "e = (t, ev)" by (cases e)
  obtain s p where sp: "sp = (s, p)" by (cases sp)
  have ok: "ctx_ok s" "running_ok s" using assms(1) sp by simp_all
  show ?thesis
  proof (cases ev)
    case (EvAct conn)
    obtain a as where a: "p conn = a # as"
      using assms(2) e sp EvAct by (cases "p conn") auto
    then show ?thesis
      using assms(2) e sp EvAct perform_ctx [OF ok(1), of t a] perform_running [OF ok(2), of t a]
      by (cases "perform t a s") auto
  next
    case (EvCall call)
    show ?thesis
    proof (cases call)
      case (CallMessage conn msg)
      obtain u as where h: "handleMessage t conn msg s = (u, as)"
        by (cases "handleMessage t conn msg s")
      note eff = handleMessage_effect [OF h]
      show ?thesis using CallMessage assms(2) e sp EvCall h handler_effect_ctx [OF eff ok(1)]
          handler_effect_running [OF eff ok(2)] by (auto split: if_splits)
    qed (use assms(2) e sp EvCall registerClient_ctx [OF ok(1)] unregisterClient_ctx [OF ok(1)] ok(2) in
        \<open>auto simp: client_running split: if_splits\<close>)
  qed
qed

text \<open>The server may have been started with an audit log, whose writer runs.\<close>

definition startedServer :: "int \<Rightarrow> Config \<Rightarrow> Logger option \<Rightarrow> Server" where
  "startedServer t c al = (newServer t c)\<lparr>auditLogger := al\<rparr>"

lemma startedServer_ok:
  "pred_option (\<lambda>l. \<not> ldone l) al \<Longrightarrow> ctx_ok (startedServer t c al) \<and> running_ok (startedServer t c al)"
  by (auto simp: startedServer_def newServer_def Background_def ctx_ok_def running_ok_def primsIn_def newConnPrims_def
      Start_def NewScheduler_def)

interpretation ctx_inv: invariant_machine inter_exec "(startedServer t c al, \<lambda>_. [])"
  "\<lambda>sp. pred_option (\<lambda>l. \<not> ldone l) al \<longrightarrow> ctx_ok (fst sp) \<and> running_ok (fst sp)"
proof
  show "pred_option (\<lambda>l. \<not> ldone l) al \<longrightarrow> ctx_ok (fst (startedServer t c al, \<lambda>_. [])) \<and>
      running_ok (fst (startedServer t c al, \<lambda>_. []))"
    by (simp add: startedServer_ok)
  show "pred_option (\<lambda>l. \<not> ldone l) al \<longrightarrow> ctx_ok (fst sp') \<and> running_ok (fst sp')"
    if "pred_option (\<lambda>l. \<not> ldone l) al \<longrightarrow> ctx_ok (fst sp) \<and> running_ok (fst sp)" "inter_exec e sp = Some sp'" for sp e sp'
    using that inter_exec_ctx [of sp e sp'] by blast
qed

lemma Err_cancelled: "p < length cs \<Longrightarrow> Err (cancelCtx e p cs) p \<noteq> None"
  by (subst Err.simps) (auto simp: cancelCtx_def Err.simps [of cs p] split: option.splits)

lemma Err_child: "c < length cs \<Longrightarrow> cparent (cs ! c) = Some p \<Longrightarrow> p < c \<Longrightarrow> Err cs p \<noteq> None \<Longrightarrow> Err cs c \<noteq> None"
  by (subst Err.simps) (auto split: option.splits)

lemma cancel_child: "ctx_ok s \<Longrightarrow> child_ctx s c \<Longrightarrow> Err (cancelCtx e (shutdownCtx s) (ctxs s)) c \<noteq> None"
  by (rule Err_child [of _ _ "shutdownCtx s"]) (auto simp: child_ctx_def ctx_ok_def Err_cancelled)

lemma notifyClose_outbox:
  "\<exists>ob. notifyClose s = s\<lparr>outbox := outbox s @ ob\<rparr> \<and>
     (\<forall>conn. map_of (clients s) conn \<noteq> None \<and> map_of (writeMu s) conn \<noteq> None \<longrightarrow> (conn, OClose) \<in> set ob)"
proof -
  have "\<exists>ob. fold (\<lambda>(conn, b). sendToClient conn OClose) xs s = s\<lparr>outbox := outbox s @ ob\<rparr> \<and>
     (\<forall>conn b. (conn, b) \<in> set xs \<and> map_of (writeMu s) conn \<noteq> None \<longrightarrow> (conn, OClose) \<in> set ob)" for xs
  proof (induction xs rule: rev_induct)
    case Nil
    show ?case by (intro exI [of _ "[]"]) simp
  next
    case (snoc x xs)
    then obtain ob where ob: "fold (\<lambda>(conn, b). sendToClient conn OClose) xs s = s\<lparr>outbox := outbox s @ ob\<rparr>"
      "\<forall>conn b. (conn, b) \<in> set xs \<and> map_of (writeMu s) conn \<noteq> None \<longrightarrow> (conn, OClose) \<in> set ob" by blast
    have x: "fold (\<lambda>(conn, b). sendToClient conn OClose) (xs @ [x]) s =
        sendToClient (fst x) OClose (s\<lparr>outbox := outbox s @ ob\<rparr>)"
      by (simp add: ob(1) split: prod.splits)
    show ?case unfolding x
      by (rule exI [of _ "ob @ (if map_of (writeMu s) (fst x) = None then [] else [(fst x, OClose)])"], cases x)
        (use ob(2) in \<open>auto simp: sendToClient_def\<close>)
  qed
  from this [of "clients s"] show ?thesis unfolding notifyClose_def by (metis map_of_SomeD option.exhaust)
qed

lemma takeSnapshot_same:
  "takeSnapshot (s\<lparr>draining := d, outbox := ob\<rparr>) = takeSnapshot s"
proof -
  have "snapEntries (s\<lparr>draining := d, outbox := ob\<rparr>) = snapEntries s"
    by (intro ext) (simp add: snapEntries_def nameFor_def)
  then show ?thesis by (simp add: takeSnapshot_def Let_def split: option.splits)
qed

lemma draining_refuses: "draining s \<Longrightarrow> \<exists>e. fst (wsAdmit codec parseURL lb nowUnix r s) = Inl e"
proof -
  assume "draining s"
  then have "draining (snd (wsAuthenticate codec nowUnix r s))"
    by (simp add: wsAuthenticate_def Let_def split: prod.splits sum.splits)
  then show ?thesis by (auto simp: wsAdmit_def split: prod.splits sum.splits)
qed

text \<open>C23. What the first \<^verbatim>\<open>Shutdown\<close> does before it waits. From every state that the handlers reach from
  a server just started, with or without an audit log, as long as \<^verbatim>\<open>Shutdown\<close> was not called before (a
  second call panics, \<open>second_shutdown_panics\<close>), the steps of \<^verbatim>\<open>Shutdown\<close> up to waiting for the HTTP server
  and the audit writer do not panic, and after them: a close frame was sent to every client that has a
  write lock; the contexts of all primitives and of all connections are cancelled; no further connection
  is admitted; the background goroutines, the scheduler and the audit writer are told to stop; and the
  snapshot is that of the state before. The waits themselves are not part of it.\<close>

theorem shutdown_cancels:
  assumes "reachable inter_exec (startedServer t c al, \<lambda>_. []) (s, p)" "pred_option (\<lambda>l. \<not> ldone l) al"
  shows "\<exists>s' file'. Shutdown writeFails s file = Inr (s', file') \<and>
    file' = saveSnapshot writeFails s file \<and> stopClosed s' \<and> \<not> running (scheduler s') \<and> sdone (scheduler s') \<and>
    pred_option ldone (auditLogger s') \<and>
    (\<forall>conn. map_of (clients s) conn \<noteq> None \<and> map_of (writeMu s) conn \<noteq> None \<longrightarrow> (conn, OClose) \<in> set (outbox s')) \<and>
    (\<forall>ns pid x. map_of (primCtxs (primsIn ns s')) pid = Some x \<longrightarrow> Err (ctxs s') x \<noteq> None) \<and>
    (\<forall>conn st. map_of (connStates s') conn = Some st \<longrightarrow> Err (ctxs s') (opCtx st) \<noteq> None) \<and>
    (\<forall>codec parseURL lb nowUnix r. \<exists>e. fst (wsAdmit codec parseURL lb nowUnix r s') = Inl e)"
proof -
  have ok: "ctx_ok s" "running_ok s" using ctx_inv.reachable_inv [OF assms(1)] assms(2) by simp_all
  obtain ob where ob: "notifyClose (s\<lparr>draining := True\<rparr>) = s\<lparr>draining := True, outbox := outbox s @ ob\<rparr>"
      "\<forall>conn. map_of (clients s) conn \<noteq> None \<and> map_of (writeMu s) conn \<noteq> None \<longrightarrow> (conn, OClose) \<in> set ob"
    using notifyClose_outbox [of "s\<lparr>draining := True\<rparr>"] by auto
  let ?s1 = "s\<lparr>draining := True, outbox := outbox s @ ob,
      ctxs := cancelCtx Canceled (shutdownCtx s) (ctxs s), stopClosed := True,
      scheduler := (scheduler s)\<lparr>running := False, sdone := True\<rparr>,
      auditLogger := map_option (\<lambda>l. l\<lparr>ldone := True\<rparr>) (auditLogger s)\<rparr>"
  have sd: "Shutdown writeFails s file = Inr (?s1, saveSnapshot writeFails s file)"
    using ok(2) by (cases "auditLogger s")
      (simp_all add: Shutdown_def ob(1) Let_def running_ok_def Stop_def Close_done_def saveSnapshot_def takeSnapshot_same)
  have prim: "Err (cancelCtx Canceled (shutdownCtx s) (ctxs s)) x \<noteq> None"
    if "map_of (primCtxs (primsIn ns s)) pid = Some x" for ns pid x
    using ok(1) that by (intro cancel_child) (auto simp: ctx_ok_def)
  have conns: "Err (cancelCtx Canceled (shutdownCtx s) (ctxs s)) (opCtx st) \<noteq> None"
    if "map_of (connStates s) conn = Some st" for conn st
    using ok(1) that by (intro cancel_child) (auto simp: ctx_ok_def)
  have same: "primsIn ns ?s1 = primsIn ns s" for ns by (simp add: primsIn_def)
  have stopped: "pred_option ldone (auditLogger ?s1)" by (cases "auditLogger s") simp_all
  have refuses: "\<exists>e. fst (wsAdmit codec parseURL lb nowUnix r ?s1) = Inl e" for codec parseURL lb nowUnix r
    by (rule draining_refuses) simp
  show ?thesis unfolding sd
    by (rule exI [of _ ?s1], rule exI [of _ "saveSnapshot writeFails s file"], intro conjI allI)
      (rule refl refuses | rule stopped | use ob(2) prim conns in \<open>force simp: same\<close>)+
qed

text \<open>A second call panics: it closes \<^verbatim>\<open>s.stop\<close> again.\<close>

lemma second_shutdown_panics:
  "Shutdown w s file = Inr (s', file') \<Longrightarrow> Shutdown w' s' file'' = Inl ''close of closed channel''"
proof -
  assume "Shutdown w s file = Inr (s', file')"
  then have "stopClosed s'"
    by (auto simp: Shutdown_def Let_def split: if_splits sum.splits option.splits)
  then show ?thesis using notifyClose_outbox [of "s'\<lparr>draining := True\<rparr>"] by (auto simp: Shutdown_def Let_def)
qed

theorem shutdown_cancels_witness:
  "\<exists>s' file' st. Shutdown False twoClients FMissing = Inr (s', file') \<and>
     map_of (connStates s') 2 = Some st \<and> Err (ctxs s') (opCtx st) \<noteq> None"
proof -
  have "startedServer 0 demoConfig None = newServer 0 demoConfig"
    by (simp add: startedServer_def newServer_def Background_def)
  then have r: "reachable inter_exec (startedServer 0 demoConfig None, \<lambda>_. []) (twoClients, \<lambda>_. [])"
    by (intro run_reachable [of _ "[(0, EvCall (CallOpen 2 ''default'')), (0, EvCall (CallOpen 3 ''default''))]"])
      (simp add: twoClients_def)
  obtain s' file' where sd: "Shutdown False twoClients FMissing = Inr (s', file')"
    "\<forall>conn st. map_of (connStates s') conn = Some st \<longrightarrow> Err (ctxs s') (opCtx st) \<noteq> None"
    using shutdown_cancels [OF r _, of False FMissing] by auto
  obtain ob where "notifyClose (twoClients\<lparr>draining := True\<rparr>) = twoClients\<lparr>draining := True, outbox := ob\<rparr>"
    using notifyClose_outbox [of "twoClients\<lparr>draining := True\<rparr>"] by auto
  then have "connStates s' = connStates twoClients"
    using sd(1) by (auto simp: Shutdown_def Let_def split: if_splits sum.splits option.splits)
  moreover obtain st where "map_of (connStates twoClients) 2 = Some st"
    using twoClients_fields(7) by blast
  ultimately show ?thesis using sd by metis
qed

end
