(* ===== verification/ServerOps.thy ===== *)
theory ServerOps
  imports ServerRegistry
begin

text \<open>
  The goroutines that \<^verbatim>\<open>handlePrimitiveOp\<close> of \<^verbatim>\<open>web/server.go\<close> starts, running on the primitives of the
  earlier theories.

  A goroutine is a \<open>thread\<close>: its place in the code (\<open>tPc\<close>), its local variables, the call of a primitive
  it is in or was in last (\<open>tCall\<close>, with the program counter inside the method), and the goroutine it
  may start to hold a lock for a while (\<open>tHold\<close>). Every step of a call is the step of the primitive's own
  theory, so all goroutines, the handlers of the connections, timers and cancellations interleave.

  Each object has a pool of waiters of its own here. The pool of the program is shared, but a waiter
  in the pool is not referenced from anywhere and is reset when it is taken out, as the theory
  \<open>Protocol\<close> shows, so that it makes no difference which pool it came from.
\<close>

subsection \<open>Calls\<close>

datatype callpc =
    CMutex mpc
  | CRWLock rwpc
  | CFairRWLock fpc
  | CSemaphore spc
  | CCondVar cvpc
  | CBarrier bpc
  | CWaitGroup gpc
  | COnce opc
  | CGroup "unit sfpc"

text \<open>What belongs to an object outside of its struct: the waiters, and the calls of a \<^verbatim>\<open>Group\<close>.\<close>

record ostore =
  owaiters :: wstore
  ofair :: fstore
  ocalls :: "nat \<Rightarrow> unit scall"
  onext :: nat

definition empty_ostore :: ostore where
  "empty_ostore = \<lparr>owaiters = empty_store, ofair = empty_fstore, ocalls = (\<lambda>_. new_call []), onext = 0\<rparr>"

text \<open>One atomic action inside a method. \<^verbatim>\<open>Signal\<close> and \<^verbatim>\<open>Broadcast\<close> do not touch a mutex; the function given
  to \<^verbatim>\<open>Once.Do\<close> does not panic, the one given to \<^verbatim>\<open>Group.Do\<close> only sleeps.\<close>

definition call_step :: "inp \<Rightarrow> callpc \<Rightarrow> prim \<Rightarrow> ostore \<Rightarrow> (callpc \<times> prim \<times> ostore) option" where
  "call_step i c p st = (case (c, p) of
      (CMutex pc, PMutex x) \<Rightarrow>
        map_option (\<lambda>(pc', x', w). (CMutex pc', PMutex x', st\<lparr>owaiters := w\<rparr>)) (mutex_step i pc x (owaiters st))
    | (CRWLock pc, PRWLock x) \<Rightarrow>
        map_option (\<lambda>(pc', x', w). (CRWLock pc', PRWLock x', st\<lparr>owaiters := w\<rparr>)) (rw_step i pc x (owaiters st))
    | (CFairRWLock pc, PFairRWLock x) \<Rightarrow>
        map_option (\<lambda>(pc', x', f). (CFairRWLock pc', PFairRWLock x', st\<lparr>ofair := f\<rparr>)) (fair_step i pc x (ofair st))
    | (CSemaphore pc, PSemaphore x) \<Rightarrow>
        map_option (\<lambda>(pc', x', w). (CSemaphore pc', PSemaphore x', st\<lparr>owaiters := w\<rparr>)) (sem_step i pc x (owaiters st))
    | (CCondVar pc, PCondVar x) \<Rightarrow>
        map_option (\<lambda>(pc', x', m, w). (CCondVar pc', PCondVar x', st\<lparr>owaiters := w\<rparr>))
          (cv_step i pc x (NewMutex 0) (owaiters st))
    | (CBarrier pc, PBarrier x) \<Rightarrow>
        map_option (\<lambda>(pc', x', w). (CBarrier pc', PBarrier x', st\<lparr>owaiters := w\<rparr>)) (bar_step i pc x (owaiters st))
    | (CWaitGroup pc, PWaitGroup x) \<Rightarrow>
        map_option (\<lambda>(pc', x', w). (CWaitGroup pc', PWaitGroup x', st\<lparr>owaiters := w\<rparr>)) (wg_step i pc x (owaiters st))
    | (COnce pc, POnce x) \<Rightarrow>
        map_option (\<lambda>(pc', x'). (COnce pc', POnce x', st)) (once_step (i\<lparr>pick := 0\<rparr>) pc x)
    | (CGroup pc, PGroup x) \<Rightarrow>
        (let sys = \<lparr>sfg = x, sfcalls = ocalls st, sfnext = onext st, sfpcs = (\<lambda>_. SfRet SfInit), sflog = []\<rparr>
         in map_option (\<lambda>(pc', sys'). (CGroup pc', PGroup (sfg sys'), st\<lparr>ocalls := sfcalls sys', onext := sfnext sys'\<rparr>))
              (orelse (SF_Do_step pc sys) (SF_Forget_step pc sys)))
    | _ \<Rightarrow> None)"

datatype callret = CallOk | CallCtxErr | CallErr string | CallPanic string

text \<open>How a method returns, once it does. Results that the handler ignores count as \<open>CallOk\<close>; panics
  are given without the numbers in their text.\<close>

definition call_ret :: "callpc \<Rightarrow> callret option" where
  "call_ret c = (case c of
      CMutex pc \<Rightarrow> (case pc of
        MRet r \<Rightarrow> Some (case r of RCtxErr \<Rightarrow> CallCtxErr | RPanic m \<Rightarrow> CallPanic m | _ \<Rightarrow> CallOk) | _ \<Rightarrow> None)
    | CRWLock pc \<Rightarrow> (case pc of
        RWRet r \<Rightarrow> Some (case r of RWCtxErr \<Rightarrow> CallCtxErr | RWPanic m \<Rightarrow> CallPanic m | _ \<Rightarrow> CallOk) | _ \<Rightarrow> None)
    | CFairRWLock pc \<Rightarrow> (case pc of
        FRet r \<Rightarrow> Some (case r of FCtxErr \<Rightarrow> CallCtxErr | FPanic m \<Rightarrow> CallPanic m | _ \<Rightarrow> CallOk) | _ \<Rightarrow> None)
    | CSemaphore pc \<Rightarrow> (case pc of
        SRet r \<Rightarrow> Some (case r of
            SCtxErr \<Rightarrow> CallCtxErr
          | SPanic m \<Rightarrow> CallPanic m
          | SOverRelease cnt n cap \<Rightarrow>
              CallErr (''semaphore: release would exceed capacity (count='' @ itoa (sint cnt) @ '', n='' @
                       itoa (sint n) @ '', capacity='' @ itoa (sint cap) @ '')'')
          | _ \<Rightarrow> CallOk)
      | _ \<Rightarrow> None)
    | CCondVar pc \<Rightarrow> (case pc of CM q \<Rightarrow> Some CallOk | _ \<Rightarrow> None)
    | CBarrier pc \<Rightarrow> (case pc of BRet r \<Rightarrow> Some CallOk | _ \<Rightarrow> None)
    | CWaitGroup pc \<Rightarrow> (case pc of
        GRet r \<Rightarrow> Some (case r of GNegative n \<Rightarrow> CallPanic ''waitgroup: negative counter'' | _ \<Rightarrow> CallOk) | _ \<Rightarrow> None)
    | COnce pc \<Rightarrow> (case pc of ORet r \<Rightarrow> Some CallOk | _ \<Rightarrow> None)
    | CGroup pc \<Rightarrow> (case pc of SfRet r \<Rightarrow> Some CallOk | _ \<Rightarrow> None))"

subsection \<open>Operations\<close>

text \<open>The blocking acquisitions, which all have the same form in the code: reader and writer side of the
  two locks, the mutex and the semaphore.\<close>

datatype acq = AcqRRW | AcqRFair | AcqWFair | AcqWRW | AcqMutex | AcqSem

fun acq_kind :: "acq \<Rightarrow> kind" where
  "acq_kind AcqRRW = KRWLock"
| "acq_kind AcqRFair = KFairRWLock"
| "acq_kind AcqWFair = KFairRWLock"
| "acq_kind AcqWRW = KRWLock"
| "acq_kind AcqMutex = KMutex"
| "acq_kind AcqSem = KSemaphore"

definition semCapacity :: "prim \<Rightarrow> int32" where
  "semCapacity p = (case p of PSemaphore x \<Rightarrow> capacity x | _ \<Rightarrow> 0)"

text \<open>Where the acquiring and the releasing method start.\<close>

fun acq_entry :: "acq \<Rightarrow> int \<Rightarrow> prim \<Rightarrow> callpc" where
  "acq_entry AcqRRW t p = CRWLock (rw_entry t OpRLockContext)"
| "acq_entry AcqRFair t p = CFairRWLock (fair_entry t FOpRLockContext)"
| "acq_entry AcqWFair t p = CFairRWLock (fair_entry t FOpLockContext)"
| "acq_entry AcqWRW t p = CRWLock (rw_entry t OpWLockContext)"
| "acq_entry AcqMutex t p = CMutex (mutex_entry t OpLockContext)"
| "acq_entry AcqSem t p = CSemaphore (sem_entry (semCapacity p) t OpAcquireContext)"

fun rel_entry :: "acq \<Rightarrow> int \<Rightarrow> prim \<Rightarrow> callpc" where
  "rel_entry AcqRRW t p = CRWLock (rw_entry t OpRUnlock)"
| "rel_entry AcqRFair t p = CFairRWLock (fair_entry t FOpRUnlock)"
| "rel_entry AcqWFair t p = CFairRWLock (fair_entry t FOpUnlock)"
| "rel_entry AcqWRW t p = CRWLock (rw_entry t OpWUnlock)"
| "rel_entry AcqMutex t p = CMutex (mutex_entry t OpUnlock)"
| "rel_entry AcqSem t p = CSemaphore (sem_entry (semCapacity p) t OpRelease)"

text \<open>What is reported to the metrics collector after an acquisition and after a release: the current
  readers or the count, else 1 and 0; and the number of waiters, for the operations that record a
  wait.\<close>

fun acq_holders :: "acq \<Rightarrow> primStats \<Rightarrow> int32" where
  "acq_holders AcqRRW (StRWLock x) = rs_CurrentReaders x"
| "acq_holders AcqRFair (StFairRWLock x) = fs_CurrentReaders x"
| "acq_holders AcqSem (StSemaphore x) = ss_CurrentCount x"
| "acq_holders _ _ = 1"

fun rel_holders :: "acq \<Rightarrow> primStats \<Rightarrow> int32" where
  "rel_holders AcqRRW (StRWLock x) = rs_CurrentReaders x"
| "rel_holders AcqRFair (StFairRWLock x) = fs_CurrentReaders x"
| "rel_holders _ _ = 0"

fun acq_waiters :: "acq \<Rightarrow> primStats \<Rightarrow> int64 option" where
  "acq_waiters AcqWFair (StFairRWLock x) = Some (fs_WaitersQueued x)"
| "acq_waiters AcqWRW (StRWLock x) = Some (rs_WritersWaiting x)"
| "acq_waiters AcqMutex (StMutex x) = Some (ms_WaitersQueued x)"
| "acq_waiters AcqSem (StSemaphore x) = Some (ss_WaitersQueued x)"
| "acq_waiters _ _ = None"

datatype blk = BAcq acq | BBarrier | BWg

fun blk_kind :: "blk \<Rightarrow> kind" where
  "blk_kind (BAcq q) = acq_kind q"
| "blk_kind BBarrier = KBarrier"
| "blk_kind BWg = KWaitGroup"

fun blk_entry :: "blk \<Rightarrow> int \<Rightarrow> prim \<Rightarrow> callpc" where
  "blk_entry (BAcq q) t p = acq_entry q t p"
| "blk_entry BBarrier t p = CBarrier (bar_entry t OpBWaitContext)"
| "blk_entry BWg t p = CWaitGroup (wg_entry OpWaitContext)"

text \<open>The operations that do not wait in \<^verbatim>\<open>select\<close>.\<close>

datatype nblk = NbUnlock | NbRelease | NbSignal | NbBroadcast | NbReset | NbAdd int | NbDone | NbOnceDo | NbGroupDo string
  | NbForget string

fun nb_kind :: "nblk \<Rightarrow> kind" where
  "nb_kind NbUnlock = KMutex"
| "nb_kind NbRelease = KSemaphore"
| "nb_kind NbSignal = KCondVar"
| "nb_kind NbBroadcast = KCondVar"
| "nb_kind NbReset = KBarrier"
| "nb_kind (NbAdd d) = KWaitGroup"
| "nb_kind NbDone = KWaitGroup"
| "nb_kind NbOnceDo = KOnce"
| "nb_kind (NbGroupDo k) = KGroup"
| "nb_kind (NbForget k) = KGroup"

fun nb_entry :: "nblk \<Rightarrow> int \<Rightarrow> prim \<Rightarrow> callpc" where
  "nb_entry NbUnlock t p = CMutex (mutex_entry t OpUnlock)"
| "nb_entry NbRelease t p = CSemaphore (sem_entry (semCapacity p) t OpRelease)"
| "nb_entry NbSignal t p = CCondVar (CSignal RInit WPop)"
| "nb_entry NbBroadcast t p = CCondVar (CBcast RInit WPop 0)"
| "nb_entry NbReset t p = CBarrier (bar_entry t OpReset)"
| "nb_entry (NbAdd d) t p = CWaitGroup (wg_entry (OpAdd (word_of_int d)))"
| "nb_entry NbDone t p = CWaitGroup (wg_entry OpDone)"
| "nb_entry NbOnceDo t p = COnce (once_entry OpDo)"
| "nb_entry (NbGroupDo k) t p = CGroup (SfEnter k (Some ()))"
| "nb_entry (NbForget k) t p = CGroup (SfForget k)"

subsection \<open>The goroutine of an operation\<close>

record oplocals =
  oConn :: conn
  oPid :: string
  oOp :: string
  oHoldMs :: int
  oGid :: "64 word"
  oNs :: string
  oFound :: "kind \<Rightarrow> addr option"
  oPrimCtx :: ctx
  oConnCtx :: ctx
  oHoldCtx :: "ctx option"
  oOpCtx :: "ctx option"
  oCallCtx :: ctx
  oStart :: int
  oBlockStart :: int
  oInternal :: string

datatype oppc =
    OpRegister
  | OpFind
  | OpLookup
  | OpPrimCtx
  | OpConnCtx
  | OpDerive
  | OpName
  | OpSwitch
  | OpBlock blk addr
  | OpBlocked blk addr
  | OpUnblock blk addr callret
  | OpDeleted acq addr
  | OpUndo acq addr
  | OpAcquired acq addr
  | OpWaited acq addr
  | OpHold acq addr
  | OpIsLocked addr
  | OpEnter nblk addr
  | OpCall nblk addr
  | OpReleased nblk addr
  | OpUnknown
  | OpBlockErr "ctxErr option"
  | OpFinish bool
  | OpAudit
  | OpSuccess
  | OpSendErr string
  | OpReturn "string option"
  | OpUnregister "string option"
  | OpRecover string
  | OpEnd

text \<open>The goroutine that holds a lock for a while: it waits until its context is done or the time has
  come, releases, records and cancels its context.\<close>

datatype holdpc = HNone | HWait int acq addr | HCall acq addr | HRecord acq addr | HCancel | HEnd

text \<open>\<open>tAnswers\<close> are the answers the goroutine has sent.\<close>

record thread =
  tPc :: oppc
  tLoc :: oplocals
  tCall :: "(addr \<times> callpc) option"
  tHold :: holdpc
  tAnswers :: "outMsg list"

record opsys =
  srv :: Server
  pend :: "conn \<Rightarrow> act list"
  ostores :: "addr \<Rightarrow> ostore"
  thr :: "tid \<Rightarrow> thread option"
  nthr :: tid
  timers :: "(ctx \<times> int) list"
  crash :: "string option"

definition new_thread :: "conn \<Rightarrow> string \<Rightarrow> string \<Rightarrow> int \<Rightarrow> thread" where
  "new_thread conn pid op ms = \<lparr>tPc = OpRegister, tLoc = \<lparr>oConn = conn, oPid = pid, oOp = op, oHoldMs = ms, oGid = 0,
     oNs = [], oFound = (\<lambda>_. None), oPrimCtx = 0, oConnCtx = 0, oHoldCtx = None, oOpCtx = None, oCallCtx = 0,
     oStart = 0, oBlockStart = 0, oInternal = []\<rparr>, tCall = None, tHold = HNone, tAnswers = []\<rparr>"

text \<open>The \<^verbatim>\<open>switch\<close> over the operation: which method of which object comes next, or which error.\<close>

definition pickObj :: "oplocals \<Rightarrow> kind \<Rightarrow> (addr \<Rightarrow> oppc) \<Rightarrow> oppc \<Rightarrow> oppc" where
  "pickObj l k f e = (case oFound l k of Some a \<Rightarrow> f a | None \<Rightarrow> e)"

definition op_switch :: "oplocals \<Rightarrow> oppc" where
  "op_switch l =
     (let missing = (\<lambda>what. OpSendErr (what @ '' not found: '' @ oPid l))
      in if oOp l = ''rlock'' then
           pickObj l KRWLock (OpBlock (BAcq AcqRRW)) (pickObj l KFairRWLock (OpBlock (BAcq AcqRFair)) (missing ''RWLock''))
         else if oOp l = ''lock'' then
           pickObj l KFairRWLock (OpBlock (BAcq AcqWFair)) (pickObj l KRWLock (OpBlock (BAcq AcqWRW))
             (pickObj l KMutex (OpBlock (BAcq AcqMutex)) (missing ''Lock primitive'')))
         else if oOp l = ''unlock'' then pickObj l KMutex OpIsLocked (missing ''Mutex'')
         else if oOp l = ''acquire'' then pickObj l KSemaphore (OpBlock (BAcq AcqSem)) (missing ''Semaphore'')
         else if oOp l = ''release'' then pickObj l KSemaphore (OpEnter NbRelease) (missing ''Semaphore'')
         else if oOp l = ''signal'' then pickObj l KCondVar (OpEnter NbSignal) (missing ''CondVar'')
         else if oOp l = ''broadcast'' then pickObj l KCondVar (OpEnter NbBroadcast) (missing ''CondVar'')
         else if oOp l = ''wait'' then pickObj l KBarrier (OpBlock BBarrier) (missing ''Barrier'')
         else if oOp l = ''reset'' then pickObj l KBarrier (OpEnter NbReset) (missing ''Barrier'')
         else if oOp l = ''add'' then
           pickObj l KWaitGroup (OpEnter (NbAdd (if oHoldMs l \<le> 0 then 1 else oHoldMs l))) (missing ''WaitGroup'')
         else if oOp l = ''done'' then pickObj l KWaitGroup (OpEnter NbDone) (missing ''WaitGroup'')
         else if oOp l = ''wg-wait'' then pickObj l KWaitGroup (OpBlock BWg) (missing ''WaitGroup'')
         else if oOp l = ''do'' then
           pickObj l KOnce (OpEnter NbOnceDo) (pickObj l KGroup (OpEnter (NbGroupDo (oPid l))) (missing ''Once or Singleflight''))
         else if oOp l = ''forget'' then pickObj l KGroup (OpEnter (NbForget (oPid l))) (missing ''Singleflight'')
         else OpUnknown)"

definition opEntry :: "oplocals \<Rightarrow> int64 \<Rightarrow> string \<Rightarrow> string \<Rightarrow> Entry" where
  "opEntry l dur result err = entry0\<lparr>eEvent := ''primitive_op'', ePrimitiveID := oPid l, eOp := oOp l,
     HoldMs := oHoldMs l, eResult := result, eError := err, DurationNs := dur\<rparr>"

text \<open>The message of \<^verbatim>\<open>sendBlockingErr\<close>.\<close>

definition blockingErr :: "ctxErr option \<Rightarrow> oplocals \<Rightarrow> ctxNode list \<Rightarrow> string" where
  "blockingErr e l cs =
     (if e = Some DeadlineExceeded then ''operation timed out after 1 hour''
      else if Err cs (oPrimCtx l) \<noteq> None then ''primitive deleted while operation was in progress''
      else ''operation cancelled'')"

definition operationTimeout :: int where
  "operationTimeout = 3600000000000"

definition barrierTimeout :: int where
  "barrierTimeout = 500000000"

subsection \<open>Steps\<close>

definition putThread :: "tid \<Rightarrow> thread \<Rightarrow> opsys \<Rightarrow> opsys" where
  "putThread t th s = s\<lparr>thr := (thr s)(t \<mapsto> th)\<rparr>"

definition onSrv :: "(Server \<Rightarrow> Server) \<Rightarrow> opsys \<Rightarrow> opsys" where
  "onSrv f s = s\<lparr>srv := f (srv s)\<rparr>"

definition cancelIn :: "ctx \<Rightarrow> Server \<Rightarrow> Server" where
  "cancelIn c sv = sv\<lparr>ctxs := cancelCtx Canceled c (ctxs sv)\<rparr>"

definition onScheduler :: "(primStats Scheduler \<Rightarrow> primStats Scheduler) \<Rightarrow> Server \<Rightarrow> Server" where
  "onScheduler f sv = sv\<lparr>scheduler := f (scheduler sv)\<rparr>"

definition onMetrics :: "(MetricsCollector \<Rightarrow> MetricsCollector) \<Rightarrow> Server \<Rightarrow> Server" where
  "onMetrics f sv = sv\<lparr>metricsCollector := f (metricsCollector sv)\<rparr>"

text \<open>Starting a call, and one action of the call the goroutine is in.\<close>

definition enterCall :: "addr \<Rightarrow> callpc \<Rightarrow> thread \<Rightarrow> thread" where
  "enterCall a c th = th\<lparr>tCall := Some (a, c)\<rparr>"

definition runCall :: "inp \<Rightarrow> tid \<Rightarrow> thread \<Rightarrow> opsys \<Rightarrow> opsys option" where
  "runCall i t th s = (case tCall th of
      None \<Rightarrow> None
    | Some (a, c) \<Rightarrow> (case call_step i c (heap (srv s) ! a) (ostores s a) of
        None \<Rightarrow> None
      | Some (c', p, st) \<Rightarrow>
          Some (putThread t (enterCall a c' th)
            (onSrv (\<lambda>sv. sv\<lparr>heap := (heap sv)[a := p]\<rparr>) (s\<lparr>ostores := (ostores s)(a := st)\<rparr>)))))"

definition callRet :: "thread \<Rightarrow> callret option" where
  "callRet th = (case tCall th of None \<Rightarrow> None | Some (a, c) \<Rightarrow> call_ret c)"

definition goto :: "oppc \<Rightarrow> thread \<Rightarrow> thread" where
  "goto pc th = th\<lparr>tPc := pc\<rparr>"

definition answer :: "outMsg \<Rightarrow> thread \<Rightarrow> thread" where
  "answer m th = th\<lparr>tAnswers := tAnswers th @ [m]\<rparr>"

definition setLoc :: "(oplocals \<Rightarrow> oplocals) \<Rightarrow> thread \<Rightarrow> thread" where
  "setLoc f th = th\<lparr>tLoc := f (tLoc th)\<rparr>"

text \<open>The steps up to the \<^verbatim>\<open>switch\<close>.\<close>

definition prepare_step :: "inp \<Rightarrow> thread \<Rightarrow> Server \<Rightarrow> (thread \<times> Server \<times> (ctx \<times> int) list) option" where
  "prepare_step i th sv = (let l = tLoc th in case tPc th of
      OpRegister \<Rightarrow>
        (let gid = goroutineCounter sv + 1
         in Some (goto OpFind (setLoc (\<lambda>l. l\<lparr>oGid := gid\<rparr>) th),
                  onScheduler (RegisterGoroutine (now i) gid (''op:'' @ oOp l @ '':'' @ oPid l))
                    (sv\<lparr>goroutineCounter := gid\<rparr>), []))
    | OpFind \<Rightarrow>
        (case connPrimsFor (oConn l) sv of
           None \<Rightarrow> Some (goto (OpSendErr ''connection not registered'') th, sv, [])
         | Some ns \<Rightarrow> Some (goto OpLookup (setLoc (\<lambda>l. l\<lparr>oNs := ns\<rparr>) th), sv, []))
    | OpLookup \<Rightarrow>
        Some (goto OpPrimCtx (setLoc (\<lambda>l. l\<lparr>oFound := (\<lambda>k. map_of (kmap k (primsIn (oNs l) sv)) (oPid l))\<rparr>) th), sv, [])
    | OpPrimCtx \<Rightarrow>
        Some (goto OpConnCtx (setLoc (\<lambda>l. l\<lparr>oPrimCtx :=
          (case map_of (primCtxs (primsIn (oNs l) sv)) (oPid l) of Some c \<Rightarrow> c | None \<Rightarrow> shutdownCtx sv)\<rparr>) th), sv, [])
    | OpConnCtx \<Rightarrow>
        Some (goto OpDerive (setLoc (\<lambda>l. l\<lparr>oConnCtx :=
          (case map_of (connStates sv) (oConn l) of Some st \<Rightarrow> opCtx st | None \<Rightarrow> shutdownCtx sv)\<rparr>) th), sv, [])
    | OpDerive \<Rightarrow>
        (let (h, cs) = Background (ctxs sv); (c, cs') = WithCancel h cs
         in Some (goto OpName (setLoc (\<lambda>l. l\<lparr>oHoldCtx := Some h, oOpCtx := Some c, oCallCtx := c, oStart := now i\<rparr>) th),
                  sv\<lparr>ctxs := cs'\<rparr>, [(c, now i + operationTimeout)]))
    | OpName \<Rightarrow>
        Some (goto OpSwitch (setLoc (\<lambda>l. l\<lparr>oInternal := qualifiedPrimID (namespaceForConn (oConn l) sv) (oPid l)\<rparr>) th), sv, [])
    | OpSwitch \<Rightarrow> Some (goto (op_switch l) th, sv, [])
    | _ \<Rightarrow> None)"

text \<open>The acquisitions, around the calls themselves: \<^verbatim>\<open>BlockGoroutine\<close>, the call, \<^verbatim>\<open>UnblockGoroutine\<close>, the test
  whether the primitive was deleted meanwhile, the metrics, and the goroutine that holds the lock.\<close>

definition blocking_step :: "inp \<Rightarrow> thread \<Rightarrow> Server \<Rightarrow> (thread \<times> Server \<times> (ctx \<times> int) list) option" where
  "blocking_step i th sv = (let l = tLoc th; stats = (\<lambda>a. GetStats (now i) (heap sv ! a)) in case tPc th of
      OpBlock b a \<Rightarrow>
        (let sv1 = onScheduler (BlockGoroutine (now i) (oGid l) (oInternal l)) sv;
             (c, cs) = WithCancel (the (oOpCtx l)) (ctxs sv1);
             th1 = goto (OpBlocked b a) (enterCall a (blk_entry b (now i) (heap sv ! a)) (setLoc (\<lambda>l. l\<lparr>oBlockStart := now i\<rparr>) th))
         in if b = BBarrier
            then Some (setLoc (\<lambda>l. l\<lparr>oCallCtx := c\<rparr>) th1, sv1\<lparr>ctxs := cs\<rparr>, [(c, now i + barrierTimeout)])
            else Some (th1, sv1, []))
    | OpBlocked b a \<Rightarrow>
        (case callRet th of
           None \<Rightarrow> None
         | Some (CallPanic m) \<Rightarrow> Some (goto (OpReturn (Some m)) th, sv, [])
         | Some r \<Rightarrow> Some (goto (OpUnblock b a r) th, if b = BBarrier then cancelIn (oCallCtx l) sv else sv, []))
    | OpUnblock b a r \<Rightarrow>
        Some (goto (case b of
                      BAcq q \<Rightarrow> if r = CallCtxErr then OpBlockErr (Err (ctxs sv) (the (oOpCtx l))) else OpDeleted q a
                    | _ \<Rightarrow> OpFinish False) th,
              onScheduler (UnblockGoroutine (now i) (oGid l) (elapsed i (oBlockStart l))) sv, [])
    | OpDeleted q a \<Rightarrow>
        (if \<not> primExists (primsIn (oNs l) sv) (oPid l)
         then Some (goto (OpUndo q a) (enterCall a (rel_entry q (now i) (heap sv ! a)) th), sv, [])
         else Some (goto (OpAcquired q a) th, sv, []))
    | OpUndo q a \<Rightarrow>
        (case callRet th of
           None \<Rightarrow> None
         | Some (CallPanic m) \<Rightarrow> Some (goto (OpReturn (Some m)) th, sv, [])
         | Some r \<Rightarrow> Some (goto (OpBlockErr (Some Canceled)) th, sv, []))
    | OpAcquired q a \<Rightarrow>
        Some (goto (OpWaited q a) th, onMetrics (RecordAcquire (oInternal l) (acq_holders q (stats a))) sv, [])
    | OpWaited q a \<Rightarrow>
        Some (goto (OpHold q a) th,
              case acq_waiters q (stats a) of
                None \<Rightarrow> sv
              | Some n \<Rightarrow> onMetrics (RecordWait (oInternal l) (elapsed i (oStart l)) (clampWaiterCount n)) sv, [])
    | OpHold q a \<Rightarrow>
        (if q = AcqSem then Some (goto (OpFinish False) th, sv, [])
         else Some (goto (OpFinish True) (th\<lparr>tHold := HWait (now i + sint (fst (clampHoldMs (oHoldMs l)))) q a\<rparr>), sv, []))
    | OpBlockErr e \<Rightarrow>
        (let text = blockingErr e l (ctxs sv)
         in Some (goto (OpSendErr text) th,
                  logAudit (now i) (oConn l) (opEntry l (elapsed i (oStart l)) ''error'' text) sv, []))
    | _ \<Rightarrow> None)"

text \<open>The other operations.\<close>

definition direct_step :: "inp \<Rightarrow> thread \<Rightarrow> Server \<Rightarrow> (thread \<times> Server \<times> (ctx \<times> int) list) option" where
  "direct_step i th sv = (let l = tLoc th in case tPc th of
      OpIsLocked a \<Rightarrow>
        Some (goto (case heap sv ! a of
                      PMutex m \<Rightarrow> if IsLocked m then OpEnter NbUnlock a else OpSendErr (''Mutex is not locked: '' @ oPid l)
                    | _ \<Rightarrow> OpSendErr (''Mutex is not locked: '' @ oPid l)) th, sv, [])
    | OpEnter n a \<Rightarrow> Some (goto (OpCall n a) (enterCall a (nb_entry n (now i) (heap sv ! a)) th), sv, [])
    | OpCall n a \<Rightarrow>
        (case callRet th of
           None \<Rightarrow> None
         | Some (CallPanic m) \<Rightarrow> Some (goto (OpReturn (Some m)) th, sv, [])
         | Some (CallErr e) \<Rightarrow> Some (goto (OpSendErr (''Semaphore release error: '' @ e)) th, sv, [])
         | Some r \<Rightarrow> Some (goto (if n = NbUnlock \<or> n = NbRelease then OpReleased n a else OpFinish False) th, sv, []))
    | OpReleased n a \<Rightarrow>
        Some (goto (OpFinish False) th,
              onMetrics (RecordRelease (oInternal l)
                (if n = NbUnlock then 0 else acq_holders AcqSem (GetStats (now i) (heap sv ! a)))) sv, [])
    | OpUnknown \<Rightarrow> Some (goto (OpSendErr (''Unknown operation: '' @ oOp l)) th, cancelIn (the (oHoldCtx l)) sv, [])
    | _ \<Rightarrow> None)"

text \<open>The end: the answer, and what is deferred.\<close>

definition doneMessage :: "oplocals \<Rightarrow> string" where
  "doneMessage l = ''Operation '' @ oOp l @ '' on '' @ oPid l @ '' completed''"

definition finish_step :: "inp \<Rightarrow> thread \<Rightarrow> Server \<Rightarrow> (thread \<times> Server \<times> (ctx \<times> int) list) option" where
  "finish_step i th sv = (let l = tLoc th in case tPc th of
      OpFinish keep \<Rightarrow> Some (goto OpAudit th, if keep then sv else cancelIn (the (oHoldCtx l)) sv, [])
    | OpAudit \<Rightarrow>
        Some (goto OpSuccess th, logAudit (now i) (oConn l) (opEntry l (elapsed i (oStart l)) ''success'' []) sv, [])
    | OpSuccess \<Rightarrow>
        (let warning = snd (clampHoldMs (oHoldMs l));
             m = OSuccess (doneMessage l) (if warning = [] then None else Some warning)
         in Some (goto (OpReturn None) (answer m th), sendToClient (oConn l) m sv, []))
    | OpSendErr e \<Rightarrow>
        Some (goto (OpReturn None) (answer (OError e) th), sendError (oConn l) e sv, [])
    | OpReturn p \<Rightarrow>
        Some (goto (OpUnregister p) th, (case oOpCtx l of None \<Rightarrow> sv | Some c \<Rightarrow> cancelIn c sv), [])
    | OpUnregister p \<Rightarrow>
        Some (goto (case p of None \<Rightarrow> OpEnd | Some m \<Rightarrow> OpRecover m) th,
              onScheduler (UnregisterGoroutine (now i) (oGid l)) sv, [])
    | OpRecover m \<Rightarrow>
        Some (goto OpEnd (answer (OError (''internal error: '' @ m)) th), sendError (oConn l) (''internal error: '' @ m) sv, [])
    | _ \<Rightarrow> None)"

definition op_move :: "inp \<Rightarrow> thread \<Rightarrow> Server \<Rightarrow> (thread \<times> Server \<times> (ctx \<times> int) list) option" where
  "op_move i th sv = orelse (prepare_step i th sv) (orelse (blocking_step i th sv)
     (orelse (direct_step i th sv) (finish_step i th sv)))"

fun in_call :: "oppc \<Rightarrow> bool" where
  "in_call (OpBlocked b a) = True"
| "in_call (OpUndo q a) = True"
| "in_call (OpCall n a) = True"
| "in_call _ = False"

text \<open>\<open>ctxArm\<close> says that a method finds its context done, which needs a cancelled context.\<close>

definition op_step :: "inp \<Rightarrow> tid \<Rightarrow> thread \<Rightarrow> opsys \<Rightarrow> opsys option" where
  "op_step i t th s =
     (if in_call (tPc th) \<and> callRet th = None
      then if ctxArm i \<and> Err (ctxs (srv s)) (oCallCtx (tLoc th)) = None then None else runCall i t th s
      else case op_move i th (srv s) of
             None \<Rightarrow> None
           | Some (th', sv, ts) \<Rightarrow> Some (putThread t th' (s\<lparr>srv := sv, timers := ts @ timers s\<rparr>)))"

text \<open>The goroutine that holds a lock. A panic in it is not recovered: it ends the program.\<close>

definition hold_step :: "inp \<Rightarrow> tid \<Rightarrow> thread \<Rightarrow> opsys \<Rightarrow> opsys option" where
  "hold_step i t th s = (let l = tLoc th; sv = srv s in case tHold th of
      HWait d q a \<Rightarrow>
        (if Err (ctxs sv) (the (oHoldCtx l)) \<noteq> None \<or> d \<le> now i
         then Some (putThread t (enterCall a (rel_entry q (now i) (heap sv ! a)) (th\<lparr>tHold := HCall q a\<rparr>)) s) else None)
    | HCall q a \<Rightarrow>
        (case callRet th of
           None \<Rightarrow> runCall i t th s
         | Some (CallPanic m) \<Rightarrow> Some (s\<lparr>crash := Some m\<rparr>)
         | Some r \<Rightarrow> Some (putThread t (th\<lparr>tHold := HRecord q a\<rparr>) s))
    | HRecord q a \<Rightarrow>
        Some (putThread t (th\<lparr>tHold := HCancel\<rparr>)
          (onSrv (onMetrics (RecordRelease (oInternal l) (rel_holders q (GetStats (now i) (heap sv ! a))))) s))
    | HCancel \<Rightarrow> Some (putThread t (th\<lparr>tHold := HEnd\<rparr>) (onSrv (cancelIn (the (oHoldCtx l))) s))
    | _ \<Rightarrow> None)"

text \<open>The goroutine inside \<^verbatim>\<open>contextWithEitherCancel\<close>, and the timers of \<^verbatim>\<open>WithTimeout\<close>.\<close>

definition watch_step :: "thread \<Rightarrow> opsys \<Rightarrow> opsys option" where
  "watch_step th s = (case oHoldCtx (tLoc th) of
      None \<Rightarrow> None
    | Some h \<Rightarrow>
        if Err (ctxs (srv s)) (oPrimCtx (tLoc th)) \<noteq> None \<or> Err (ctxs (srv s)) (oConnCtx (tLoc th)) \<noteq> None
        then Some (onSrv (cancelIn h) s) else None)"

definition timer_step :: "int \<Rightarrow> ctx \<Rightarrow> opsys \<Rightarrow> opsys option" where
  "timer_step t c s =
     (if list_ex (\<lambda>(c', d). c' = c \<and> d \<le> t) (timers s)
      then Some (onSrv (\<lambda>sv. sv\<lparr>ctxs := cancelCtx DeadlineExceeded c (ctxs sv)\<rparr>) s) else None)"

text \<open>A handler's action \<open>ActGo\<close> starts a goroutine; its other actions are those of \<open>inter_exec\<close>.\<close>

definition serve_step :: "int \<times> srv_event \<Rightarrow> opsys \<Rightarrow> opsys option" where
  "serve_step e s =
     (let plain = map_option (\<lambda>(sv, p). s\<lparr>srv := sv, pend := p\<rparr>) (inter_exec e (srv s, pend s))
      in case e of
           (t, EvAct conn) \<Rightarrow>
             (case pend s conn of
                ActGo c pid op ms # as \<Rightarrow>
                  Some (putThread (nthr s) (new_thread c pid op ms) (s\<lparr>pend := (pend s)(conn := as), nthr := nthr s + 1\<rparr>))
              | _ \<Rightarrow> plain)
         | _ \<Rightarrow> plain)"

datatype op_event = OEvServer int srv_event | OEvOp tid inp | OEvHold tid inp | OEvWatch tid | OEvTimer int ctx

definition withThread :: "tid \<Rightarrow> (thread \<Rightarrow> opsys option) \<Rightarrow> opsys \<Rightarrow> opsys option" where
  "withThread t f s = (case thr s t of None \<Rightarrow> None | Some th \<Rightarrow> f th)"

definition opsys_exec :: "op_event \<Rightarrow> opsys \<Rightarrow> opsys option" where
  "opsys_exec e s = (if crash s \<noteq> None then None else case e of
      OEvServer t ev \<Rightarrow> serve_step (t, ev) s
    | OEvOp t i \<Rightarrow> withThread t (\<lambda>th. op_step i t th s) s
    | OEvHold t i \<Rightarrow> withThread t (\<lambda>th. hold_step i t th s) s
    | OEvWatch t \<Rightarrow> withThread t (\<lambda>th. watch_step th s) s
    | OEvTimer t c \<Rightarrow> timer_step t c s)"

definition opsys_init :: "int \<Rightarrow> Config \<Rightarrow> opsys" where
  "opsys_init t c = \<lparr>srv = newServer t c, pend = (\<lambda>_. []), ostores = (\<lambda>_. empty_ostore), thr = (\<lambda>_. None), nthr = 0,
     timers = [], crash = None\<rparr>"

end
