(* ===== verification/ServerService.thy ===== *)
theory ServerService
  imports ServerOps
begin

text \<open>
  The server serves its primitives correctly: whatever the clients send, the calls that reach one
  object form a run of that primitive's own machine, so the theorems about the primitives carry over
  to the objects of the server.

  \<open>call_effect\<close> says what a step of the server can do to objects and calls. The locale \<open>served\<close> is the
  interface between the server and the machine of a primitive: how a state of the machine is made from
  an object, its waiters and the calls on it, and that entering a method and an action inside it are
  steps of the machine. It is interpreted for the mutex, the two locks and the semaphore. The mutex
  needs one restriction: the operation \<^verbatim>\<open>unlock\<close> releases what another goroutine holds.
\<close>

subsection \<open>Acquiring and releasing\<close>

text \<open>The places of a goroutine inside the acquiring methods that the server calls, and inside the
  releasing ones.\<close>

fun m_acquiring :: "mpc \<Rightarrow> bool" where
  "m_acquiring (MRet r) = (r = RLocked \<or> r = RCtxErr)"
| "m_acquiring (MCas1 c b) = c"
| "m_acquiring (MCtx b) = True"
| "m_acquiring (MNew c b) = c"
| "m_acquiring (MLink c b w) = c"
| "m_acquiring (MSize c b w) = c"
| "m_acquiring (MWaits c b w) = c"
| "m_acquiring (MCas2 c b w) = c"
| "m_acquiring (MCancel w) = True"
| "m_acquiring (MPark c b w) = c"
| "m_acquiring (MPut c b w) = c"
| "m_acquiring (MTime c b) = c"
| "m_acquiring MLocks = True"
| "m_acquiring _ = False"

fun rd_acquiring :: "rwpc \<Rightarrow> bool" where
  "rd_acquiring (RWRet r) = (r = RWRead \<or> r = RWCtxErr)"
| "rd_acquiring (RdLoad k b) = (k = LCtx)"
| "rd_acquiring (RdEmpty k b s) = (k = LCtx)"
| "rd_acquiring (RdCas k b s) = (k = LCtx)"
| "rd_acquiring (RdGate b) = True"
| "rd_acquiring (RdEnq k b e) = (k = LCtx)"
| "rd_acquiring (RdWaits k b w) = (k = LCtx)"
| "rd_acquiring (RdLoad2 k b w) = (k = LCtx)"
| "rd_acquiring (RdEmpty2 k b w s) = (k = LCtx)"
| "rd_acquiring (RdCas2 k b w s) = (k = LCtx)"
| "rd_acquiring (RdCancel w) = True"
| "rd_acquiring RdCount = True"
| "rd_acquiring RdAcq = True"
| "rd_acquiring (RdPark k b w) = (k = LCtx)"
| "rd_acquiring (RdPut k b w) = (k = LCtx)"
| "rd_acquiring (RdTime k b) = (k = LCtx)"
| "rd_acquiring _ = False"

fun wr_acquiring :: "rwpc \<Rightarrow> bool" where
  "wr_acquiring (RWRet r) = (r = RWWrite \<or> r = RWCtxErr)"
| "wr_acquiring (WrLoad k b) = (k = LCtx)"
| "wr_acquiring (WrCas k b) = (k = LCtx)"
| "wr_acquiring (WrGate b) = True"
| "wr_acquiring (WrEnq k b e) = (k = LCtx)"
| "wr_acquiring (WrWaits k b w) = (k = LCtx)"
| "wr_acquiring (WrCas2 k b w) = (k = LCtx)"
| "wr_acquiring (WrCancel w) = True"
| "wr_acquiring WrHeld = True"
| "wr_acquiring WrAcq = True"
| "wr_acquiring (WrPark k b w) = (k = LCtx)"
| "wr_acquiring (WrPut k b w) = (k = LCtx)"
| "wr_acquiring (WrTime k b) = (k = LCtx)"
| "wr_acquiring _ = False"

fun rw_releasing :: "rwpc \<Rightarrow> bool" where
  "rw_releasing (RWRet r) = (r = RWReleased \<or> (\<exists>m. r = RWPanic m \<and> m \<noteq> ''rwlock: too many readers''))"
| "rw_releasing RuLoad = True"
| "rw_releasing (RuCas s) = True"
| "rw_releasing (RuCount s) = True"
| "rw_releasing UnLoad = True"
| "rw_releasing (UnCas s) = True"
| "rw_releasing UnHeld = True"
| "rw_releasing (RwWake p) = True"
| "rw_releasing (RwWakeAll p) = True"
| "rw_releasing _ = False"

fun fr_acquiring :: "fpc \<Rightarrow> bool" where
  "fr_acquiring (FRet r) = (r = FRead \<or> r = FCtxErr \<or> (\<exists>m. r = FPanic m))"
| "fr_acquiring (FrLoad k b) = (k = FCtx)"
| "fr_acquiring (FrEmpty k b s) = (k = FCtx)"
| "fr_acquiring (FrCas k b s) = (k = FCtx)"
| "fr_acquiring (FrGate b) = True"
| "fr_acquiring (FrNew k b) = (k = FCtx)"
| "fr_acquiring (FrEnq k b e) = (k = FCtx)"
| "fr_acquiring (FrWaits k b w) = (k = FCtx)"
| "fr_acquiring (FrSig k b w) = (k = FCtx)"
| "fr_acquiring (FrSLoad k b w) = (k = FCtx)"
| "fr_acquiring (FrSCas k b w s) = (k = FCtx)"
| "fr_acquiring (FrPeek k b w p) = (k = FCtx)"
| "fr_acquiring (FrQLoad k b w) = (k = FCtx)"
| "fr_acquiring (FrQCas k b w s) = (k = FCtx)"
| "fr_acquiring (FrQCount w) = True"
| "fr_acquiring (FrCancel w) = True"
| "fr_acquiring FrCount = True"
| "fr_acquiring FrAcq = True"
| "fr_acquiring (FrPark k b w) = (k = FCtx)"
| "fr_acquiring (FrTime k b w) = (k = FCtx)"
| "fr_acquiring (FCtxCancel w) = True"
| "fr_acquiring _ = False"

fun fw_acquiring :: "fpc \<Rightarrow> bool" where
  "fw_acquiring (FRet r) = (r = FWrite \<or> r = FCtxErr)"
| "fw_acquiring (FwEmpty k b) = (k = FCtx)"
| "fw_acquiring (FwCas k b) = (k = FCtx)"
| "fw_acquiring (FwGate b) = True"
| "fw_acquiring (FwNew k b) = (k = FCtx)"
| "fw_acquiring (FwEnq k b e) = (k = FCtx)"
| "fw_acquiring (FwWaits k b w) = (k = FCtx)"
| "fw_acquiring (FwSig k b w) = (k = FCtx)"
| "fw_acquiring (FwSCas k b w) = (k = FCtx)"
| "fw_acquiring (FwPeek k b w p) = (k = FCtx)"
| "fw_acquiring (FwQCas k b w) = (k = FCtx)"
| "fw_acquiring (FwQHeld w) = True"
| "fw_acquiring (FwCancel w) = True"
| "fw_acquiring FwHeld = True"
| "fw_acquiring FwAcq = True"
| "fw_acquiring (FwPark k b w) = (k = FCtx)"
| "fw_acquiring (FwTime k b w) = (k = FCtx)"
| "fw_acquiring (FCtxCancel w) = True"
| "fw_acquiring _ = False"

fun f_releasing :: "fpc \<Rightarrow> bool" where
  "f_releasing (FRet r) = (r = FReleased \<or> (\<exists>m. r = FPanic m \<and> m \<noteq> ''fairrwlock: too many readers''))"
| "f_releasing FruLoad = True"
| "f_releasing (FruCas s) = True"
| "f_releasing (FruCount s) = True"
| "f_releasing FunLoad = True"
| "f_releasing FunCas = True"
| "f_releasing FunHeld = True"
| "f_releasing (FWake k) = True"
| "f_releasing _ = False"

lemma m_acquiring_step:
  "mutex_step i pc m st = Some (pc', m', st') \<Longrightarrow> m_acquiring pc \<Longrightarrow> m_acquiring pc'"
  by (drule mutex_step_trans) (cases rule: mutex_trans.cases, assumption, auto)

lemma rd_acquiring_step:
  "rw_step i pc m st = Some (pc', m', st') \<Longrightarrow> rd_acquiring pc \<Longrightarrow> rd_acquiring pc'"
  by (drule rw_step_trans) (erule rw_trans.cases; auto)

lemma wr_acquiring_step:
  "rw_step i pc m st = Some (pc', m', st') \<Longrightarrow> wr_acquiring pc \<Longrightarrow> wr_acquiring pc'"
  by (drule rw_step_trans) (erule rw_trans.cases; auto)

lemma rw_releasing_step:
  "rw_step i pc m st = Some (pc', m', st') \<Longrightarrow> rw_releasing pc \<Longrightarrow> rw_releasing pc'"
  by (drule rw_step_trans) (erule rw_trans.cases; auto)

lemma fr_acquiring_step:
  "fair_step i pc m st = Some (pc', m', st') \<Longrightarrow> fr_acquiring pc \<Longrightarrow> fr_acquiring pc'"
  by (cases pc rule: fr_acquiring.cases)
    (auto simp: fair_step_defs split: if_splits prod.splits option.splits sum.splits fkind.splits)

lemma fw_acquiring_step:
  "fair_step i pc m st = Some (pc', m', st') \<Longrightarrow> fw_acquiring pc \<Longrightarrow> fw_acquiring pc'"
  by (cases pc rule: fw_acquiring.cases)
    (auto simp: fair_step_defs split: if_splits prod.splits option.splits sum.splits fkind.splits)

lemma f_releasing_wake: "f_releasing (wake_all ws)"
  by (simp add: wake_all_def split: list.splits)

lemma f_releasing_step:
  "fair_step i pc m st = Some (pc', m', st') \<Longrightarrow> f_releasing pc \<Longrightarrow> f_releasing pc'"
  by (cases pc rule: f_releasing.cases)
    (auto simp: fair_step_defs wakeNextWaiters_step_def f_releasing_wake
      split: if_splits prod.splits option.splits sum.splits fkind.splits fwake.splits)

subsection \<open>Calls and their kinds\<close>

fun call_kind :: "callpc \<Rightarrow> kind" where
  "call_kind (CMutex pc) = KMutex"
| "call_kind (CRWLock pc) = KRWLock"
| "call_kind (CFairRWLock pc) = KFairRWLock"
| "call_kind (CSemaphore pc) = KSemaphore"
| "call_kind (CCondVar pc) = KCondVar"
| "call_kind (CBarrier pc) = KBarrier"
| "call_kind (CWaitGroup pc) = KWaitGroup"
| "call_kind (COnce pc) = KOnce"
| "call_kind (CGroup pc) = KGroup"

fun acquiring :: "acq \<Rightarrow> callpc \<Rightarrow> bool" where
  "acquiring AcqRRW c = (\<exists>pc. c = CRWLock pc \<and> rd_acquiring pc)"
| "acquiring AcqRFair c = (\<exists>pc. c = CFairRWLock pc \<and> fr_acquiring pc)"
| "acquiring AcqWFair c = (\<exists>pc. c = CFairRWLock pc \<and> fw_acquiring pc)"
| "acquiring AcqWRW c = (\<exists>pc. c = CRWLock pc \<and> wr_acquiring pc)"
| "acquiring AcqMutex c = (\<exists>pc. c = CMutex pc \<and> m_acquiring pc)"
| "acquiring AcqSem c = (\<exists>pc. c = CSemaphore pc)"

fun releasing :: "callpc \<Rightarrow> bool" where
  "releasing (CRWLock pc) = rw_releasing pc"
| "releasing (CFairRWLock pc) = f_releasing pc"
| "releasing (CMutex pc) = True"
| "releasing _ = False"

text \<open>The call has returned and what it was to acquire is held.\<close>

fun got :: "acq \<Rightarrow> callpc \<Rightarrow> bool" where
  "got AcqRRW c = (c = CRWLock (RWRet RWRead))"
| "got AcqRFair c = (c = CFairRWLock (FRet FRead))"
| "got AcqWFair c = (c = CFairRWLock (FRet FWrite))"
| "got AcqWRW c = (c = CRWLock (RWRet RWWrite))"
| "got AcqMutex c = (c = CMutex (MRet RLocked))"
| "got AcqSem c = (case c of CSemaphore pc \<Rightarrow> idle pc | _ \<Rightarrow> False)"

lemma call_step_kind:
  "call_step i c p st = Some (c', p', st') \<Longrightarrow> call_kind c = kindOf p \<and> call_kind c' = call_kind c \<and> kindOf p' = kindOf p"
  by (cases c; cases p) (auto simp: call_step_def Let_def)

lemma acquiring_kind: "acquiring q c \<Longrightarrow> call_kind c = acq_kind q"
  by (cases q) auto

lemma got_kind: "got q c \<Longrightarrow> call_kind c = acq_kind q"
  by (cases q) (auto split: callpc.splits)

lemma acquiring_step:
  assumes "call_step i c p st = Some (c', p', st')" "acquiring q c"
  shows "acquiring q c'"
  using assms
  by (cases q; cases p)
    (auto simp: call_step_def, (blast dest: rd_acquiring_step wr_acquiring_step fr_acquiring_step fw_acquiring_step
      m_acquiring_step)+)

lemma releasing_step:
  assumes "call_step i c p st = Some (c', p', st')" "releasing c"
  shows "releasing c'"
  using assms
  by (cases c; cases p) (auto simp: call_step_def dest: rw_releasing_step f_releasing_step)

lemma acquiring_entry: "acquiring q (acq_entry q t p)"
  by (cases q) auto

lemma releasing_entry: "q \<noteq> AcqSem \<Longrightarrow> releasing (rel_entry q t p)"
  by (cases q) auto

lemma entry_kinds:
  "call_kind (acq_entry q t p) = acq_kind q" "call_kind (rel_entry q t p) = acq_kind q"
  "call_kind (blk_entry b t p) = blk_kind b" "call_kind (nb_entry n t p) = nb_kind n"
proof -
  show q: "call_kind (acq_entry q t p) = acq_kind q" for q by (cases q) simp_all
  show "call_kind (rel_entry q t p) = acq_kind q" by (cases q) simp_all
  show "call_kind (blk_entry b t p) = blk_kind b" by (cases b) (simp_all add: q)
  show "call_kind (nb_entry n t p) = nb_kind n" by (cases n) simp_all
qed

lemma acquired_got:
  assumes "acquiring q c" "call_ret c = Some r" "r \<noteq> CallCtxErr" "\<forall>m. r \<noteq> CallPanic m"
  shows "got q c"
  using assms
  by (cases q) (auto simp: call_ret_def split: mpc.splits rwpc.splits fpc.splits spc.splits
      mret.splits rwret.splits fret.splits sret.splits)

subsection \<open>An invariant of goroutines\<close>

fun starting :: "oppc \<Rightarrow> bool" where
  "starting OpRegister = True"
| "starting OpFind = True"
| "starting OpLookup = True"
| "starting OpPrimCtx = True"
| "starting OpConnCtx = True"
| "starting OpDerive = True"
| "starting OpName = True"
| "starting OpSwitch = True"
| "starting _ = False"

fun finishing :: "oppc \<Rightarrow> bool" where
  "finishing (OpFinish k) = True"
| "finishing OpAudit = True"
| "finishing OpSuccess = True"
| "finishing (OpSendErr e) = True"
| "finishing (OpReturn p) = True"
| "finishing (OpUnregister p) = True"
| "finishing (OpRecover m) = True"
| "finishing OpEnd = True"
| "finishing _ = False"

definition at :: "Server \<Rightarrow> addr \<Rightarrow> kind \<Rightarrow> bool" where
  "at sv a k \<longleftrightarrow> a < length (heap sv) \<and> kindOf (heap sv ! a) = k"

definition has_got :: "thread \<Rightarrow> acq \<Rightarrow> addr \<Rightarrow> bool" where
  "has_got th q a \<longleftrightarrow> (\<exists>c. tCall th = Some (a, c) \<and> got q c)"

fun pc_ok :: "Server \<Rightarrow> thread \<Rightarrow> oppc \<Rightarrow> bool" where
  "pc_ok sv th (OpBlock b a) = (at sv a (blk_kind b) \<and> tCall th = None)"
| "pc_ok sv th (OpBlocked b a) = (\<exists>c. tCall th = Some (a, c) \<and> (\<forall>q. b = BAcq q \<longrightarrow> acquiring q c))"
| "pc_ok sv th (OpUnblock b a r) = (\<forall>q. b = BAcq q \<and> r \<noteq> CallCtxErr \<longrightarrow> has_got th q a)"
| "pc_ok sv th (OpDeleted q a) = has_got th q a"
| "pc_ok sv th (OpAcquired q a) = has_got th q a"
| "pc_ok sv th (OpWaited q a) = has_got th q a"
| "pc_ok sv th (OpHold q a) = has_got th q a"
| "pc_ok sv th (OpIsLocked a) = (at sv a KMutex \<and> tCall th = None \<and> oOp (tLoc th) = ''unlock'')"
| "pc_ok sv th (OpEnter n a) = (at sv a (nb_kind n) \<and> tCall th = None \<and> (n = NbUnlock \<longrightarrow> oOp (tLoc th) = ''unlock''))"
| "pc_ok sv th pc = (starting pc \<longrightarrow> tCall th = None)"

fun hold_ok :: "thread \<Rightarrow> holdpc \<Rightarrow> bool" where
  "hold_ok th (HWait d q a) = (q \<noteq> AcqSem \<and> has_got th q a)"
| "hold_ok th (HCall q a) = (\<exists>c. tCall th = Some (a, c) \<and> releasing c)"
| "hold_ok th h = True"

definition thread_ok :: "Server \<Rightarrow> thread \<Rightarrow> bool" where
  "thread_ok sv th \<longleftrightarrow> pc_ok sv th (tPc th) \<and> hold_ok th (tHold th) \<and> (tHold th \<noteq> HNone \<longrightarrow> finishing (tPc th)) \<and>
     (\<forall>a c. tCall th = Some (a, c) \<longrightarrow> at sv a (call_kind c)) \<and>
     (\<forall>k a. oFound (tLoc th) k = Some a \<longrightarrow> at sv a k)"

text \<open>How a call begins: a goroutine that has called nothing yet starts an operation, or one that holds
  something releases it. The operation \<^verbatim>\<open>unlock\<close> is marked by \<open>u\<close>.\<close>

inductive call_entry :: "bool \<Rightarrow> (addr \<times> callpc) option \<Rightarrow> addr \<Rightarrow> prim \<Rightarrow> callpc \<Rightarrow> bool" for u where
  ent_block: "call_entry u None a p (blk_entry b t p)"
| ent_direct: "n \<noteq> NbUnlock \<Longrightarrow> call_entry u None a p (nb_entry n t p)"
| ent_unlock: "u \<Longrightarrow> call_entry u None a p (nb_entry NbUnlock t p)"
| ent_release: "got q c \<Longrightarrow> call_entry u (Some (a, c)) a p (rel_entry q t p)"

text \<open>What a step outside of calls does to the call of its goroutine.\<close>

definition call_change :: "Server \<Rightarrow> thread \<Rightarrow> thread \<Rightarrow> bool" where
  "call_change sv th th' \<longleftrightarrow> tCall th' = tCall th \<or>
     (\<exists>a c. tCall th' = Some (a, c) \<and> at sv a (call_kind c) \<and>
        call_entry (oOp (tLoc th) = ''unlock'') (tCall th) a (heap sv ! a) c)"

definition same_objects :: "Server \<Rightarrow> Server \<Rightarrow> bool" where
  "same_objects sv sv' \<longleftrightarrow> heap sv' = heap sv \<and> namespaces sv' = namespaces sv"

lemma op_defs [simp]:
  "tPc (goto pc th) = pc" "tLoc (goto pc th) = tLoc th" "tCall (goto pc th) = tCall th" "tHold (goto pc th) = tHold th"
  "tPc (setLoc f th) = tPc th" "tLoc (setLoc f th) = f (tLoc th)" "tCall (setLoc f th) = tCall th" "tHold (setLoc f th) = tHold th"
  "tPc (answer m th) = tPc th" "tLoc (answer m th) = tLoc th" "tCall (answer m th) = tCall th" "tHold (answer m th) = tHold th"
  "tPc (enterCall a c th) = tPc th" "tLoc (enterCall a c th) = tLoc th" "tCall (enterCall a c th) = Some (a, c)"
  "tHold (enterCall a c th) = tHold th"
  "tAnswers (goto pc th) = tAnswers th" "tAnswers (setLoc f th) = tAnswers th" "tAnswers (enterCall a c th) = tAnswers th"
  "tAnswers (answer m th) = tAnswers th @ [m]"
  by (simp_all add: goto_def setLoc_def answer_def enterCall_def)

lemma srv_frame [simp]:
  "heap (cancelIn c sv) = heap sv" "namespaces (cancelIn c sv) = namespaces sv"
  "heap (onScheduler f sv) = heap sv" "namespaces (onScheduler f sv) = namespaces sv"
  "heap (onMetrics g sv) = heap sv" "namespaces (onMetrics g sv) = namespaces sv"
  "heap (sendError n e sv) = heap sv" "namespaces (sendError n e sv) = namespaces sv"
  by (simp_all add: cancelIn_def onScheduler_def onMetrics_def sendError_def)

lemma at_simps [simp]: "has_got (goto pc th) q a = has_got th q a" "has_got (setLoc f th) q a = has_got th q a"
  by (simp_all add: has_got_def)

lemma pc_ok_goto [simp]: "pc_ok sv (goto pc th) x = pc_ok sv th x"
  by (cases x) simp_all

lemma pickObj_ok:
  "(\<And>a. oFound l k = Some a \<Longrightarrow> pc_ok sv th (f a)) \<Longrightarrow> pc_ok sv th e \<Longrightarrow> pc_ok sv th (pickObj l k f e)"
  by (simp add: pickObj_def split: option.splits)

lemma if_pc_ok: "(b \<Longrightarrow> pc_ok sv th x) \<Longrightarrow> (\<not> b \<Longrightarrow> pc_ok sv th y) \<Longrightarrow> pc_ok sv th (if b then x else y)"
  by simp

lemma switch_ok:
  assumes "tCall th = None" "\<And>k a. oFound (tLoc th) k = Some a \<Longrightarrow> at sv a k"
  shows "pc_ok sv th (op_switch (tLoc th))"
  unfolding op_switch_def Let_def by (intro if_pc_ok pickObj_ok) (use assms in simp_all)

lemma prepare_effect:
  assumes "prepare_step i th sv = Some (th', sv', ts)" "thread_ok sv th" "server_typed sv"
  shows "thread_ok sv th' \<and> call_change sv th th' \<and> same_objects sv sv' \<and> oOp (tLoc th') = oOp (tLoc th)"
proof -
  have found: "at sv a k" if "map_of (kmap k (primsIn ns sv)) pid = Some a" for a k ns pid
    using server_typedD(1) [OF assms(3), of ns k pid a] that by (simp add: binding_def at_def)
  have st: "starting (tPc th)" using assms(1) by (simp add: prepare_step_def Let_def split: oppc.splits)
  have c: "tCall th = None" "tHold th = HNone" "\<And>k a. oFound (tLoc th) k = Some a \<Longrightarrow> at sv a k"
    using assms(2) st unfolding thread_ok_def by (cases "tPc th"; simp)+
  note sw = switch_ok [OF c(1,3)]
  note defs = prepare_step_def Let_def thread_ok_def call_change_def same_objects_def c(1,2)
  show ?thesis
  proof (cases "tPc th")
    case OpFind
    then show ?thesis using assms(1) c(3) by (cases "connPrimsFor (oConn (tLoc th)) sv") (auto simp: defs)
  next
    case OpDerive
    then show ?thesis using assms(1) c(3) by (auto simp: defs Background_def WithCancel_def)
  qed (use assms(1) c(3) found sw in \<open>auto simp: defs\<close>)
qed

lemma has_got_at: "thread_ok sv th \<Longrightarrow> has_got th q a \<Longrightarrow> at sv a (acq_kind q)"
  by (auto simp: thread_ok_def has_got_def dest: got_kind)

lemma call_change_same: "tCall th' = tCall th \<Longrightarrow> call_change sv th th'"
  by (simp add: call_change_def)

lemma call_change_release:
  "thread_ok sv th \<Longrightarrow> has_got th q a \<Longrightarrow> tCall th' = Some (a, rel_entry q t (heap sv ! a)) \<Longrightarrow> call_change sv th th'"
  using has_got_at [of sv th q a]
  by (auto simp: call_change_def has_got_def entry_kinds intro: ent_release)

lemma direct_effect:
  assumes "direct_step i th sv = Some (th', sv', ts)" "thread_ok sv th"
  shows "thread_ok sv th' \<and> call_change sv th th' \<and> same_objects sv sv' \<and> oOp (tLoc th') = oOp (tLoc th)"
proof -
  have h: "tHold th = HNone"
    using assms by (cases "tPc th") (auto simp: direct_step_def Let_def thread_ok_def)
  show ?thesis
  proof (cases "tPc th")
    case (OpIsLocked a)
    then show ?thesis using assms h
      by (auto simp: direct_step_def Let_def thread_ok_def same_objects_def call_change_same split: prim.splits)
  next
    case (OpEnter n a)
    let ?c = "nb_entry n (now i) (heap sv ! a)"
    have r: "th' = goto (OpCall n a) (enterCall a ?c th)" "sv' = sv"
      using assms(1) OpEnter by (auto simp: direct_step_def Let_def)
    have ok: "at sv a (nb_kind n)" "tCall th = None" "n = NbUnlock \<longrightarrow> oOp (tLoc th) = ''unlock''"
      using assms(2) OpEnter by (auto simp: thread_ok_def)
    have "call_entry (oOp (tLoc th) = ''unlock'') None a (heap sv ! a) ?c"
    proof (cases "n = NbUnlock")
      case True
      then show ?thesis using ok(3) ent_unlock [of "oOp (tLoc th) = ''unlock''"] by simp
    qed (rule ent_direct)
    then have "call_change sv th th'" using r ok by (auto simp: call_change_def entry_kinds)
    then show ?thesis using r ok h assms(2) by (auto simp: thread_ok_def same_objects_def entry_kinds)
  qed (use assms h in \<open>auto simp: direct_step_def Let_def thread_ok_def same_objects_def call_change_same
      split: option.splits callret.splits\<close>)
qed

lemma finish_effect:
  assumes "finish_step i th sv = Some (th', sv', ts)" "thread_ok sv th"
  shows "thread_ok sv th' \<and> call_change sv th th' \<and> same_objects sv sv' \<and> oOp (tLoc th') = oOp (tLoc th)"
proof -
  have h: "hold_ok (goto pc (answer m th)) (tHold th) = hold_ok th (tHold th)" "hold_ok (goto pc th) (tHold th) = hold_ok th (tHold th)"
    for pc m
    by (cases "tHold th"; simp add: has_got_def)+
  show ?thesis
    using assms by (cases "tPc th")
      (auto simp: finish_step_def thread_ok_def same_objects_def call_change_same Let_def h split: option.splits)
qed

lemma blocking_effect:
  assumes "blocking_step i th sv = Some (th', sv', ts)" "thread_ok sv th"
  shows "thread_ok sv th' \<and> call_change sv th th' \<and> same_objects sv sv' \<and> oOp (tLoc th') = oOp (tLoc th)"
proof -
  have h: "tHold th = HNone"
    using assms by (cases "tPc th") (auto simp: blocking_step_def Let_def thread_ok_def)
  have call: "\<forall>a c. tCall th = Some (a, c) \<longrightarrow> at sv a (call_kind c)"
    and found: "\<forall>k a. oFound (tLoc th) k = Some a \<longrightarrow> at sv a k" using assms(2) by (auto simp: thread_ok_def)
  note defs = blocking_step_def Let_def thread_ok_def same_objects_def call_change_same h
  show ?thesis
  proof (cases "tPc th")
    case (OpBlock b a)
    let ?c = "blk_entry b (now i) (heap sv ! a)"
    have ok: "at sv a (blk_kind b)" "tCall th = None" using assms(2) OpBlock by (auto simp: thread_ok_def)
    have t: "tCall th' = Some (a, ?c)" "tPc th' = OpBlocked b a" "tHold th' = HNone" "oOp (tLoc th') = oOp (tLoc th)"
        "oFound (tLoc th') = oFound (tLoc th)" "same_objects sv sv'"
      using assms(1) OpBlock h by (auto simp: blocking_step_def Let_def WithCancel_def same_objects_def split: if_splits)
    have "call_change sv th th'" unfolding call_change_def using t(1) ok entry_kinds(3) ent_block by auto
    moreover have "\<forall>q. b = BAcq q \<longrightarrow> acquiring q ?c" by (auto simp: acquiring_entry)
    ultimately show ?thesis using t ok(1) found by (auto simp: thread_ok_def entry_kinds)
  next
    case (OpBlocked b a)
    then obtain c where c: "tCall th = Some (a, c)" "\<forall>q. b = BAcq q \<longrightarrow> acquiring q c"
      using assms(2) by (auto simp: thread_ok_def)
    have "has_got th q a" if "b = BAcq q" "call_ret c = Some r" "r \<noteq> CallCtxErr" "\<forall>m. r \<noteq> CallPanic m" for q r
      using acquired_got [of q c r] c that by (auto simp: has_got_def)
    then show ?thesis using OpBlocked assms(1) c(1) call found
      by (auto simp: defs callRet_def split: option.splits callret.splits)
  next
    case (OpUnblock b a r)
    then show ?thesis using assms call found by (auto simp: defs split: blk.splits if_splits)
  next
    case (OpDeleted q a)
    have g: "has_got th q a" using assms(2) OpDeleted by (auto simp: thread_ok_def)
    have k: "at sv a (acq_kind q)" by (rule has_got_at [OF assms(2) g])
    show ?thesis using OpDeleted assms(1) g k call_change_release [OF assms(2) g] call found
      by (auto simp: defs entry_kinds split: if_splits)
  next
    case (OpHold q a)
    then show ?thesis using assms call found by (auto simp: defs has_got_def split: if_splits)
  qed (use assms call found in \<open>auto simp: defs split: option.splits callret.splits\<close>)
qed

text \<open>All steps outside of calls together.\<close>

lemma op_move_effect:
  assumes "op_move i th sv = Some (th', sv', ts)" "thread_ok sv th" "server_typed sv"
  shows "thread_ok sv th' \<and> call_change sv th th' \<and> same_objects sv sv' \<and> oOp (tLoc th') = oOp (tLoc th)"
  using assms prepare_effect [OF _ assms(2,3)] blocking_effect [OF _ assms(2)] direct_effect [OF _ assms(2)]
    finish_effect [OF _ assms(2)]
  by (cases "prepare_step i th sv"; cases "blocking_step i th sv"; cases "direct_step i th sv")
    (auto simp: op_move_def)

subsection \<open>What a step does to objects and calls\<close>

definition calls_of :: "opsys \<Rightarrow> tid \<Rightarrow> (addr \<times> callpc) option" where
  "calls_of s t = (case thr s t of None \<Rightarrow> None | Some th \<Rightarrow> tCall th)"

definition unlocks :: "opsys \<Rightarrow> bool" where
  "unlocks s \<longleftrightarrow> (\<exists>t th. thr s t = Some th \<and> oOp (tLoc th) = ''unlock'')"

inductive call_effect :: "opsys \<Rightarrow> opsys \<Rightarrow> bool" for s where
  ce_none: "heap (srv s') = heap (srv s) \<Longrightarrow> ostores s' = ostores s \<Longrightarrow> calls_of s' = calls_of s \<Longrightarrow> call_effect s s'"
| ce_create: "heap (srv s') = heap (srv s) @ [p] \<Longrightarrow> new_prim p \<Longrightarrow> ostores s' = ostores s \<Longrightarrow>
    calls_of s' = calls_of s \<Longrightarrow> call_effect s s'"
| ce_enter: "heap (srv s') = heap (srv s) \<Longrightarrow> ostores s' = ostores s \<Longrightarrow> at (srv s) a (call_kind c) \<Longrightarrow>
    call_entry (unlocks s) (calls_of s t) a (heap (srv s) ! a) c \<Longrightarrow>
    calls_of s' = (calls_of s)(t \<mapsto> (a, c)) \<Longrightarrow> call_effect s s'"
| ce_step: "calls_of s t = Some (a, c) \<Longrightarrow> at (srv s) a (call_kind c) \<Longrightarrow>
    call_step i c (heap (srv s) ! a) (ostores s a) = Some (c', p, st) \<Longrightarrow>
    heap (srv s') = (heap (srv s))[a := p] \<Longrightarrow> ostores s' = (ostores s)(a := st) \<Longrightarrow>
    calls_of s' = (calls_of s)(t \<mapsto> (a, c')) \<Longrightarrow> call_effect s s'"

definition ops_ok :: "opsys \<Rightarrow> bool" where
  "ops_ok s \<longleftrightarrow> server_typed (srv s) \<and> (\<forall>t th. thr s t = Some th \<longrightarrow> thread_ok (srv s) th) \<and>
     (\<forall>t. nthr s \<le> t \<longrightarrow> thr s t = None) \<and> (\<forall>a. length (heap (srv s)) \<le> a \<longrightarrow> ostores s a = empty_ostore)"

text \<open>Objects keep their kinds, and old addresses stay valid.\<close>

definition heap_ext :: "Server \<Rightarrow> Server \<Rightarrow> bool" where
  "heap_ext sv sv' \<longleftrightarrow> (\<forall>a k. at sv a k \<longrightarrow> at sv' a k)"

lemma heap_ext_same: "heap sv' = heap sv \<Longrightarrow> heap_ext sv sv'"
  by (simp add: heap_ext_def at_def)

lemma heap_ext_append: "heap sv' = heap sv @ [p] \<Longrightarrow> heap_ext sv sv'"
  by (simp add: heap_ext_def at_def nth_append)

lemma thread_ok_ext:
  assumes "thread_ok sv th" "heap_ext sv sv'"
  shows "thread_ok sv' th"
proof -
  have "pc_ok sv' th (tPc th)" using assms by (cases "tPc th") (auto simp: thread_ok_def heap_ext_def)
  then show ?thesis using assms by (auto simp: thread_ok_def heap_ext_def)
qed

lemma ops_okI:
  assumes "ops_ok s" "server_typed (srv s')" "heap_ext (srv s) (srv s')" "length (heap (srv s)) \<le> length (heap (srv s'))"
    "\<And>a. length (heap (srv s')) \<le> a \<Longrightarrow> ostores s' a = ostores s a"
    "\<And>t. nthr s' \<le> t \<Longrightarrow> thr s' t = None"
    "\<And>t th. thr s' t = Some th \<Longrightarrow> thr s t = Some th \<or> thread_ok (srv s') th"
  shows "ops_ok s'"
proof -
  have "thread_ok (srv s') th" if "thr s' t = Some th" for t th
    using assms(7) [OF that] assms(1) thread_ok_ext [OF _ assms(3)] by (auto simp: ops_ok_def)
  moreover have "ostores s' a = empty_ostore" if "length (heap (srv s')) \<le> a" for a
    using assms(5) [OF that] assms(1,4) that by (simp add: ops_ok_def)
  ultimately show ?thesis using assms(2,6) by (simp add: ops_ok_def)
qed

lemma ops_okD:
  assumes "ops_ok s"
  shows "server_typed (srv s)" "thr s t = Some th \<Longrightarrow> thread_ok (srv s) th" "nthr s \<le> t \<Longrightarrow> thr s t = None"
    "length (heap (srv s)) \<le> a \<Longrightarrow> ostores s a = empty_ostore"
  using assms by (auto simp: ops_ok_def)

text \<open>Changing an object without changing its kind keeps the typing of the server.\<close>

lemma server_typed_upd:
  assumes "server_typed sv" "at sv a (kindOf p)" "size_ok p = size_ok (heap sv ! a)"
  shows "server_typed (sv\<lparr>heap := (heap sv)[a := p]\<rparr>)"
proof (rule server_typedI)
  let ?s = "sv\<lparr>heap := (heap sv)[a := p]\<rparr>"
  have b: "binding ?s ns k pid = binding sv ns k pid" for ns k pid by (simp add: binding_def)
  note typed = server_typedD [OF assms(1)]
  show "b' < length (heap ?s) \<and> kindOf (heap ?s ! b') = k \<and> size_ok (heap ?s ! b') \<and> pid \<noteq> []"
    if "binding ?s ns k pid = Some b'" for ns k pid b'
    using typed(1) [OF that [unfolded b]] assms(2,3) by (auto simp: nth_list_update at_def)
  show "maps_ok ?s" using typed(4) by (simp add: maps_ok_def)
qed (use server_typedD [OF assms(1)] in \<open>(simp add: binding_def; blast)+\<close>)

end
