(* ===== verification/ServerRuns.thy ===== *)
theory ServerRuns
  imports ServerService
begin

text \<open>
  Every step of the server with its goroutines, seen from the objects: \<open>call_effect\<close>. The invariant
  \<open>ops_ok\<close> of all goroutines is kept along the way.
\<close>

subsection \<open>Calls keep the sizes\<close>

lemma sem_step_capacity: "sem_step i pc m st = Some (pc', m', st') \<Longrightarrow> capacity m' = capacity m"
  by (drule sem_step_trans) (erule sem_trans.cases; simp)

lemma bar_step_parties: "bar_step i pc m st = Some (pc', m', st') \<Longrightarrow> parties m' = parties m"
  by (drule bar_step_trans) (erule bar_trans.cases; simp)

lemma call_step_size: "call_step i c p st = Some (c', p', st') \<Longrightarrow> size_ok p' = size_ok p"
  by (cases c; cases p) (auto simp: call_step_def Let_def dest: sem_step_capacity bar_step_parties)

subsection \<open>Steps of goroutines\<close>

definition good_step :: "opsys \<Rightarrow> opsys \<Rightarrow> bool" where
  "good_step s s' \<longleftrightarrow> ops_ok s' \<and> call_effect s s' \<and> (unlocks s \<longrightarrow> unlocks s')"

lemma opsys_frame [simp]:
  "thr (putThread t th s) = (thr s)(t \<mapsto> th)" "srv (putThread t th s) = srv s" "ostores (putThread t th s) = ostores s"
  "nthr (putThread t th s) = nthr s" "srv (onSrv f s) = f (srv s)" "thr (onSrv f s) = thr s"
  "ostores (onSrv f s) = ostores s" "nthr (onSrv f s) = nthr s"
  by (simp_all add: putThread_def onSrv_def)

lemma calls_of_put [simp]: "calls_of (putThread t th s) = (calls_of s)(t := tCall th)"
  by (auto simp: calls_of_def fun_eq_iff)

lemma calls_of_cong: "thr s' = thr s \<Longrightarrow> calls_of s' = calls_of s"
  by (simp add: calls_of_def fun_eq_iff)

lemma call_entry_mono: "call_entry u oc a p c \<Longrightarrow> (u \<Longrightarrow> v) \<Longrightarrow> call_entry v oc a p c"
  by (induction rule: call_entry.induct) (blast intro: call_entry.intros)+

lemma unlocks_put:
  "thr s t = Some th \<Longrightarrow> oOp (tLoc th') = oOp (tLoc th) \<Longrightarrow> thr s2 = thr s \<Longrightarrow> unlocks s \<Longrightarrow> unlocks (putThread t th' s2)"
  unfolding unlocks_def by (metis fun_upd_apply opsys_frame(1) option.inject)

lemma good_same:
  assumes "ops_ok s" "same_objects (srv s) (srv s')" "thr s' = thr s" "ostores s' = ostores s" "nthr s' = nthr s"
  shows "good_step s s'"
proof -
  have h: "heap (srv s') = heap (srv s)" "namespaces (srv s') = namespaces (srv s)"
    using assms(2) by (simp_all add: same_objects_def)
  have "ops_ok s'"
    using assms(3-5) h heap_ext_same [OF h(1)] server_typed_same [OF ops_okD(1) [OF assms(1)] h(2,1)] ops_okD(3) [OF assms(1)]
    by (intro ops_okI [OF assms(1)]) auto
  then show ?thesis
    using h assms(3,4) calls_of_cong [OF assms(3)] by (auto simp: good_step_def unlocks_def intro: ce_none)
qed

lemma good_move:
  assumes "ops_ok s" "thr s t = Some th" "thread_ok (srv s) th'" "call_change (srv s) th th'"
    "same_objects (srv s) (srv s2)" "oOp (tLoc th') = oOp (tLoc th)" "ostores s2 = ostores s" "thr s2 = thr s"
    "nthr s2 = nthr s"
  shows "good_step s (putThread t th' s2)"
proof -
  have h: "heap (srv s2) = heap (srv s)" "namespaces (srv s2) = namespaces (srv s)"
    using assms(5) by (simp_all add: same_objects_def)
  have "t < nthr s" using ops_okD(3) [OF assms(1), of t] assms(2) by (cases "nthr s \<le> t") auto
  then have "ops_ok (putThread t th' s2)"
    using assms(3,7-9) h heap_ext_same [OF h(1)] thread_ok_ext [OF assms(3), of "srv s2"]
      server_typed_same [OF ops_okD(1) [OF assms(1)] h(2,1)] ops_okD(3) [OF assms(1)]
    by (intro ops_okI [OF assms(1)]) (auto split: if_splits)
  moreover have "unlocks s \<longrightarrow> unlocks (putThread t th' s2)"
    using unlocks_put [OF assms(2) assms(6,8)] by blast
  moreover have c: "calls_of s t = tCall th" using assms(2) by (simp add: calls_of_def)
  have "call_effect s (putThread t th' s2)"
  proof (cases "tCall th' = tCall th")
    case True
    then show ?thesis using h assms(7,8) c calls_of_cong [OF assms(8)] by (intro ce_none) auto
  next
    case False
    then obtain a x where x: "tCall th' = Some (a, x)" "at (srv s) a (call_kind x)"
        "call_entry (oOp (tLoc th) = ''unlock'') (tCall th) a (heap (srv s) ! a) x"
      using assms(4) by (auto simp: call_change_def)
    have "call_entry (unlocks s) (calls_of s t) a (heap (srv s) ! a) x"
      using call_entry_mono [OF x(3), of "unlocks s"] c assms(2) by (auto simp: unlocks_def)
    then show ?thesis
      using x h assms(7,8) calls_of_cong [OF assms(8)] by (intro ce_enter [where a = a and c = x and t = t]) auto
  qed
  ultimately show ?thesis by (simp add: good_step_def)
qed

lemma good_call:
  assumes "ops_ok s" "thr s t = Some th" "runCall i t th s = Some s'"
    "\<And>a c c' p st. tCall th = Some (a, c) \<Longrightarrow> call_step i c (heap (srv s) ! a) (ostores s a) = Some (c', p, st) \<Longrightarrow>
       pc_ok (srv s') (enterCall a c' th) (tPc th) \<and> hold_ok (enterCall a c' th) (tHold th)"
  shows "good_step s s'"
proof -
  have th: "thread_ok (srv s) th" by (rule ops_okD(2) [OF assms(1,2)])
  obtain a c c' p st where c: "tCall th = Some (a, c)" "call_step i c (heap (srv s) ! a) (ostores s a) = Some (c', p, st)"
    "s' = putThread t (enterCall a c' th) (onSrv (\<lambda>sv. sv\<lparr>heap := (heap sv)[a := p]\<rparr>) (s\<lparr>ostores := (ostores s)(a := st)\<rparr>))"
    using assms(3) by (auto simp: runCall_def split: option.splits)
  note k = call_step_kind [OF c(2)]
  have a: "at (srv s) a (call_kind c)" using th c(1) by (simp add: thread_ok_def)
  have ext: "heap_ext (srv s) (srv s')" using a k by (auto simp: heap_ext_def at_def c(3) nth_list_update)
  have "thread_ok (srv s') (enterCall a c' th)"
    using assms(4) [OF c(1,2)] th a k ext by (auto simp: thread_ok_def heap_ext_def)
  moreover have "server_typed (srv s')"
    using server_typed_upd [OF ops_okD(1) [OF assms(1)], of a p] a k call_step_size [OF c(2)] by (simp add: c(3))
  moreover have "t < nthr s" using ops_okD(3) [OF assms(1), of t] assms(2) by (cases "nthr s \<le> t") auto
  ultimately have "ops_ok s'"
    using ext a ops_okD(3) [OF assms(1)] by (intro ops_okI [OF assms(1)]) (auto simp: c(3) at_def split: if_splits)
  moreover have "call_effect s s'"
    using c a assms(2) by (intro ce_step [where t = t and a = a and c = c and c' = c' and p = p and st = st and i = i])
      (auto simp: calls_of_def fun_eq_iff)
  moreover have "unlocks s \<longrightarrow> unlocks s'"
    unfolding c(3) by (intro impI unlocks_put [OF assms(2)]) auto
  ultimately show ?thesis by (simp add: good_step_def)
qed

lemma finishing_pc_ok: "finishing pc \<Longrightarrow> pc_ok sv th pc"
  by (cases pc) simp_all

lemma in_call_ok:
  assumes "thread_ok sv th" "in_call (tPc th)" "tCall th = Some (a, c)" "call_step i c p st = Some (c', p', st')"
  shows "pc_ok sv' (enterCall a c' th) (tPc th) \<and> hold_ok (enterCall a c' th) (tHold th)"
proof -
  have "tHold th = HNone" using assms(1,2) by (cases "tPc th") (auto simp: thread_ok_def)
  moreover have "pc_ok sv' (enterCall a c' th) (tPc th)"
    using assms acquiring_step [OF assms(4)] by (cases "tPc th") (auto simp: thread_ok_def)
  ultimately show ?thesis by simp
qed

lemma good_op_step:
  assumes "ops_ok s" "thr s t = Some th" "op_step i t th s = Some s'"
  shows "good_step s s'"
proof (cases "in_call (tPc th) \<and> callRet th = None")
  case True
  then have "runCall i t th s = Some s'" using assms(3) by (auto simp: op_step_def split: if_splits)
  then show ?thesis
    using good_call [OF assms(1,2)] in_call_ok [OF ops_okD(2) [OF assms(1,2)]] True by blast
next
  case False
  then obtain th' sv ts where m: "op_move i th (srv s) = Some (th', sv, ts)"
    "s' = putThread t th' (s\<lparr>srv := sv, timers := ts @ timers s\<rparr>)"
    using assms(3) by (auto simp: op_step_def split: option.splits)
  show ?thesis
    using op_move_effect [OF m(1) ops_okD(2) [OF assms(1,2)] ops_okD(1) [OF assms(1)]] unfolding m(2)
    by (intro good_move [OF assms(1,2)]) auto
qed

lemma thread_ok_hold:
  "thread_ok sv th \<Longrightarrow> finishing (tPc th) \<Longrightarrow> hold_ok (th\<lparr>tHold := h\<rparr>) h \<Longrightarrow> thread_ok sv (th\<lparr>tHold := h\<rparr>)"
  by (auto simp: thread_ok_def finishing_pc_ok)

lemma good_hold_step:
  assumes "ops_ok s" "thr s t = Some th" "hold_step i t th s = Some s'"
  shows "good_step s s'"
proof -
  have th: "thread_ok (srv s) th" by (rule ops_okD(2) [OF assms(1,2)])
  have fin: "finishing (tPc th)" using th assms(3) by (cases "tHold th") (auto simp: hold_step_def Let_def thread_ok_def)
  note move = good_move [OF assms(1,2)]
  show ?thesis
  proof (cases "tHold th")
    case (HWait d q a)
    let ?th = "enterCall a (rel_entry q (now i) (heap (srv s) ! a)) (th\<lparr>tHold := HCall q a\<rparr>)"
    have s': "s' = putThread t ?th s" using assms(3) HWait by (auto simp: hold_step_def Let_def split: if_splits)
    have g: "has_got th q a" "q \<noteq> AcqSem" using th HWait by (auto simp: thread_ok_def)
    have "thread_ok (srv s) ?th"
      using th g fin has_got_at [OF th g(1)] by (auto simp: thread_ok_def finishing_pc_ok releasing_entry entry_kinds)
    moreover have "call_change (srv s) th ?th" by (rule call_change_release [OF th g(1), of _ "now i"]) simp
    ultimately show ?thesis unfolding s' by (intro move) (auto simp: same_objects_def)
  next
    case (HCall q a)
    obtain c where c: "tCall th = Some (a, c)" "releasing c" using th HCall by (auto simp: thread_ok_def)
    show ?thesis
    proof (cases "callRet th")
      case None
      then have "runCall i t th s = Some s'" using assms(3) HCall by (simp add: hold_step_def Let_def)
      then show ?thesis
        using good_call [OF assms(1,2)] c HCall fin releasing_step by (auto simp: finishing_pc_ok)
    next
      case (Some r)
      have "thread_ok (srv s) (th\<lparr>tHold := HRecord q a\<rparr>)" by (rule thread_ok_hold [OF th fin]) simp
      moreover have "good_step s (s\<lparr>crash := Some m\<rparr>)" for m by (rule good_same [OF assms(1)]) (simp_all add: same_objects_def)
      ultimately show ?thesis
        using assms(3) HCall Some move [of "th\<lparr>tHold := HRecord q a\<rparr>" s]
        by (cases r) (auto simp: hold_step_def Let_def same_objects_def call_change_same)
    qed
  next
    case (HRecord q a)
    have "thread_ok (srv s) (th\<lparr>tHold := HCancel\<rparr>)" by (rule thread_ok_hold [OF th fin]) simp
    then show ?thesis using assms(3) HRecord
      by (auto simp: hold_step_def Let_def same_objects_def call_change_same intro!: move)
  next
    case HCancel
    have "thread_ok (srv s) (th\<lparr>tHold := HEnd\<rparr>)" by (rule thread_ok_hold [OF th fin]) simp
    then show ?thesis using assms(3) HCancel
      by (auto simp: hold_step_def Let_def same_objects_def call_change_same intro!: move)
  qed (use assms(3) in \<open>auto simp: hold_step_def Let_def\<close>)
qed

lemma good_watch_step: "ops_ok s \<Longrightarrow> watch_step th s = Some s' \<Longrightarrow> good_step s s'"
  by (auto simp: watch_step_def same_objects_def split: option.splits if_splits intro!: good_same)

lemma good_timer_step: "ops_ok s \<Longrightarrow> timer_step t c s = Some s' \<Longrightarrow> good_step s s'"
  by (auto simp: timer_step_def same_objects_def split: if_splits intro!: good_same)

subsection \<open>Steps of the handlers\<close>

text \<open>Handlers and their actions leave the objects alone or append one.\<close>

lemma perform_heap: "perform t a s = (s', bs) \<Longrightarrow> heap s' = heap s"
  by (cases a) (auto simp: sendToClient_def seedDeltaState_def cancelPrim_def setPrims_def Let_def split: option.splits)

lemma inter_exec_heap:
  assumes "inter_exec e (sv, p) = Some (sv', p')"
  shows "heap sv' = heap sv \<or> (\<exists>obj. heap sv' = heap sv @ [obj] \<and> new_prim obj)"
proof -
  obtain t ev where e: "e = (t, ev)" by (cases e)
  show ?thesis
  proof (cases ev)
    case (EvAct conn)
    then show ?thesis using assms e by (auto split: list.splits prod.splits dest: perform_heap)
  next
    case (EvCall call)
    show ?thesis
    proof (cases call)
      case (CallMessage conn msg)
      then have "handler_effect conn sv sv' (snd (handleMessage t conn msg sv))"
        using assms e EvCall handleMessage_effect [of t conn msg sv] by (auto split: if_splits prod.splits)
      then show ?thesis by (cases rule: handler_effect.cases) (auto simp: created_def setPrims_def)
    qed (use assms e EvCall in \<open>auto simp: registerClient_fields unregisterClient_fields split: if_splits\<close>)
  qed
qed

lemma new_thread_ok: "thread_ok sv (new_thread c pid op ms)"
  by (simp add: new_thread_def thread_ok_def)

lemma good_new_thread:
  assumes "ops_ok s" "srv s2 = srv s" "ostores s2 = ostores s" "thr s2 = thr s" "nthr s2 = nthr s + 1"
  shows "good_step s (putThread (nthr s) (new_thread c pid op ms) s2)"
proof -
  have n: "thr s (nthr s) = None" by (rule ops_okD(3) [OF assms(1)]) simp
  have "ops_ok (putThread (nthr s) (new_thread c pid op ms) s2)"
    using assms(2-5) ops_okD(1,3) [OF assms(1)] new_thread_ok
    by (intro ops_okI [OF assms(1)]) (auto simp: heap_ext_same split: if_splits)
  moreover have "call_effect s (putThread (nthr s) (new_thread c pid op ms) s2)"
    using assms(2-4) n by (intro ce_none) (auto simp: calls_of_def new_thread_def fun_eq_iff)
  moreover have "unlocks (putThread (nthr s) (new_thread c pid op ms) s2)" if "unlocks s"
    using that n assms(4) by (auto simp: unlocks_def) (metis option.distinct(1))
  ultimately show ?thesis by (simp add: good_step_def)
qed

lemma good_inter:
  assumes "ops_ok s" "inter_exec e (srv s, pend s) = Some (sv, p)"
  shows "good_step s (s\<lparr>srv := sv, pend := p\<rparr>)" (is "good_step s ?s")
proof -
  have t: "server_typed sv" using inter_exec_typed [OF _ assms(2)] ops_okD(1) [OF assms(1)] by simp
  from inter_exec_heap [OF assms(2)] have "ops_ok ?s \<and> call_effect s ?s"
  proof
    assume h: "heap sv = heap (srv s)"
    have "ops_ok ?s" using t h ops_okD(3) [OF assms(1)] by (intro ops_okI [OF assms(1)]) (auto intro: heap_ext_same)
    then show ?thesis using h calls_of_cong [of ?s s] by (auto intro: ce_none)
  next
    assume "\<exists>obj. heap sv = heap (srv s) @ [obj] \<and> new_prim obj"
    then obtain obj where h: "heap sv = heap (srv s) @ [obj]" "new_prim obj" by blast
    have "ops_ok ?s" using t h ops_okD(3) [OF assms(1)] by (intro ops_okI [OF assms(1)]) (auto intro: heap_ext_append)
    then show ?thesis using h calls_of_cong [of ?s s] by (auto intro: ce_create)
  qed
  then show ?thesis by (simp add: good_step_def unlocks_def)
qed

lemma good_serve_step:
  assumes "ops_ok s" "serve_step e s = Some s'"
  shows "good_step s s'"
proof -
  obtain t ev where e: "e = (t, ev)" by (cases e)
  consider (plain) sv p where "inter_exec e (srv s, pend s) = Some (sv, p)" "s' = s\<lparr>srv := sv, pend := p\<rparr>"
    | (go) c pid op ms p where "s' = putThread (nthr s) (new_thread c pid op ms) (s\<lparr>pend := p, nthr := nthr s + 1\<rparr>)"
    using assms(2) e by (auto simp: serve_step_def Let_def split: srv_event.splits list.splits act.splits)
  then show ?thesis
  proof cases
    case plain
    then show ?thesis using good_inter [OF assms(1)] by simp
  next
    case go
    then show ?thesis using good_new_thread [OF assms(1)] by simp
  qed
qed

text \<open>Together: every step of the whole system.\<close>

lemma opsys_step:
  assumes "ops_ok s" "opsys_exec e s = Some s'"
  shows "good_step s s'"
  using assms good_serve_step [OF assms(1)] good_op_step [OF assms(1)] good_hold_step [OF assms(1)]
    good_watch_step [OF assms(1)] good_timer_step [OF assms(1)]
  by (auto simp: opsys_exec_def withThread_def split: if_splits op_event.splits option.splits)

lemma ops_ok_init: "ops_ok (opsys_init t c)"
  by (simp add: ops_ok_def opsys_init_def server_typed_new)

interpretation ops_inv: invariant_machine opsys_exec "opsys_init t c" ops_ok
  by unfold_locales (auto simp: good_step_def intro: ops_ok_init dest: opsys_step)

end
