(* ===== verification/ServerLocks.thy ===== *)
theory ServerLocks
  imports ServerRuns
begin

text \<open>
  The primitives as the server uses them. The locale \<open>served\<close> is the contract between the server and the
  machine of a primitive: how a state of the machine shows an object, its waiters and the calls on it,
  and that entering a method and an action inside it are steps of the machine. From it follows once and
  for all that every object of the server is in a state its own machine can reach. It is interpreted for
  the mutex, the two reader-writer locks and the semaphore. Then follow the lemmas on which the
  guarantees of the server rest: what an object's machine says of all calls on it, where panics can come
  from, and how many answers a goroutine has sent.
\<close>

subsection \<open>The contract\<close>

locale served =
  fixes exec :: "'e \<Rightarrow> 's \<Rightarrow> 's option"
    and start :: "'s \<Rightarrow> bool"
    and mine :: "prim \<Rightarrow> bool"
    and unpack :: "callpc \<Rightarrow> 'pc"
    and pc0 :: 'pc
    and view :: "prim \<Rightarrow> ostore \<Rightarrow> (tid \<Rightarrow> 'pc) \<Rightarrow> 's \<Rightarrow> bool"
    and strict :: bool
  assumes begins: "new_prim p \<Longrightarrow> mine p \<Longrightarrow> \<exists>m. start m \<and> view p empty_ostore (\<lambda>_. pc0) m"
    and enters: "view p st pcs m \<Longrightarrow> mine p \<Longrightarrow> call_kind c = kindOf p \<Longrightarrow> call_entry u oc a p c \<Longrightarrow>
       strict \<longrightarrow> \<not> u \<Longrightarrow> pcs t = (case oc of None \<Rightarrow> pc0 | Some (b, c0) \<Rightarrow> unpack c0) \<Longrightarrow>
       \<exists>e m'. exec e m = Some m' \<and> view p st (pcs(t := unpack c)) m'"
    and steps: "view p st pcs m \<Longrightarrow> mine p \<Longrightarrow> call_step i c p st = Some (c', p', st') \<Longrightarrow> pcs t = unpack c \<Longrightarrow>
       \<exists>e m'. exec e m = Some m' \<and> view p' st' (pcs(t := unpack c')) m'"
    and mine_step: "call_step i c p st = Some (c', p', st') \<Longrightarrow> mine p' = mine p"
begin

text \<open>The places of all goroutines in the methods of one object.\<close>

definition pcs_on :: "opsys \<Rightarrow> addr \<Rightarrow> tid \<Rightarrow> 'pc" where
  "pcs_on s a t = (case calls_of s t of None \<Rightarrow> pc0 | Some (b, c) \<Rightarrow> if b = a then unpack c else pc0)"

definition shown :: "opsys \<Rightarrow> addr \<Rightarrow> bool" where
  "shown s a \<longleftrightarrow> (\<exists>m0 m. start m0 \<and> reachable exec m0 m \<and> view (heap (srv s) ! a) (ostores s a) (pcs_on s a) m)"

definition all_shown :: "opsys \<Rightarrow> bool" where
  "all_shown s \<longleftrightarrow> (\<forall>a. a < length (heap (srv s)) \<and> mine (heap (srv s) ! a) \<longrightarrow> shown s a)"

lemma shown_cong:
  "shown s a \<Longrightarrow> heap (srv s') ! a = heap (srv s) ! a \<Longrightarrow> ostores s' a = ostores s a \<Longrightarrow> pcs_on s' a = pcs_on s a \<Longrightarrow> shown s' a"
  by (simp add: shown_def)

lemma pcs_other:
  assumes "calls_of s' = (calls_of s)(t \<mapsto> (a, c))" "calls_of s t = None \<or> (\<exists>c0. calls_of s t = Some (a, c0))" "b \<noteq> a"
  shows "pcs_on s' b = pcs_on s b"
  using assms by (auto simp: pcs_on_def fun_eq_iff)

lemma pcs_same:
  assumes "calls_of s' = (calls_of s)(t \<mapsto> (a, c))"
  shows "pcs_on s' a = (pcs_on s a)(t := unpack c)"
  using assms by (auto simp: pcs_on_def fun_eq_iff)

lemma entry_caller: "call_entry u oc a p c \<Longrightarrow> oc = None \<or> (\<exists>c0. oc = Some (a, c0))"
  by (induction rule: call_entry.induct) auto

lemma shown_exec: "shown s a \<Longrightarrow>
    (\<And>m. view (heap (srv s) ! a) (ostores s a) (pcs_on s a) m \<Longrightarrow>
       \<exists>e m'. exec e m = Some m' \<and> view (heap (srv s') ! a) (ostores s' a) (pcs_on s' a) m') \<Longrightarrow> shown s' a"
  unfolding shown_def by (meson reachable_step)

lemma shown_step:
  assumes "ops_ok s" "all_shown s" "call_effect s s'" "strict \<longrightarrow> \<not> unlocks s"
  shows "all_shown s'"
  unfolding all_shown_def
proof (intro allI impI)
  fix b assume b: "b < length (heap (srv s')) \<and> mine (heap (srv s') ! b)"
  have old: "shown s b" if "b < length (heap (srv s))" "mine (heap (srv s) ! b)"
    using assms(2) that by (simp add: all_shown_def)
  from assms(3) show "shown s' b"
  proof cases
    case ce_none
    then show ?thesis using b old by (intro shown_cong [of s b s']) (auto simp: pcs_on_def fun_eq_iff)
  next
    case (ce_create p)
    show ?thesis
    proof (cases "b = length (heap (srv s))")
      case True
      have "calls_of s t = Some (b, c) \<Longrightarrow> False" for t c
        using ops_okD(2) [OF assms(1), of t] True
        by (auto simp: calls_of_def thread_ok_def at_def split: option.splits)
      then have "pcs_on s' b = (\<lambda>_. pc0)"
        using ce_create(4) by (auto simp: pcs_on_def fun_eq_iff split: option.splits)
      moreover have "heap (srv s') ! b = p" "ostores s' b = empty_ostore"
        using ce_create True ops_okD(4) [OF assms(1), of b] by simp_all
      ultimately show ?thesis
        using begins [OF ce_create(2)] b by (auto simp: shown_def intro: reachable_init)
    next
      case False
      then show ?thesis using b old ce_create
        by (intro shown_cong [of s b s']) (auto simp: nth_append pcs_on_def fun_eq_iff)
    qed
  next
    case (ce_enter a c t)
    show ?thesis
    proof (cases "b = a")
      case True
      have "pcs_on s b t = (case calls_of s t of None \<Rightarrow> pc0 | Some (b, c0) \<Rightarrow> unpack c0)"
        using entry_caller [OF ce_enter(4)] True by (auto simp: pcs_on_def)
      then show ?thesis
        using shown_exec [OF old, of s'] enters [OF _ _ _ ce_enter(4) assms(4)] b ce_enter True
        by (auto simp: pcs_same [OF ce_enter(5)] at_def)
    next
      case False
      then show ?thesis using b old ce_enter pcs_other [OF ce_enter(5)] entry_caller [OF ce_enter(4)]
        by (intro shown_cong [of s b s']) auto
    qed
  next
    case (ce_step t a c i c' p st)
    show ?thesis
    proof (cases "b = a")
      case True
      have "pcs_on s b t = unpack c" using ce_step(1) True by (simp add: pcs_on_def)
      then show ?thesis
        using shown_exec [OF old, of s'] steps [OF _ _ ce_step(3)] mine_step [OF ce_step(3)] b ce_step True
        by (auto simp: pcs_same [OF ce_step(6)] at_def)
    next
      case False
      then show ?thesis using b old ce_step pcs_other [OF ce_step(6)]
        by (intro shown_cong [of s b s']) auto
    qed
  qed
qed

text \<open>Every object is in a state its machine can reach, as long as no operation that the machine forbids
  was requested. Goroutines are never forgotten, so that this can be read off the last state.\<close>

lemma reachable_shown:
  assumes "reachable opsys_exec (opsys_init t c) s" "strict \<longrightarrow> \<not> unlocks s"
  shows "all_shown s"
  using assms
proof (induction rule: reachable.induct)
  case reachable_init
  then show ?case by (simp add: all_shown_def opsys_init_def)
next
  case (reachable_step s e s')
  have "ops_ok s" by (rule ops_inv.reachable_inv [OF reachable_step(1)])
  then have "good_step s s'" by (rule opsys_step [OF _ reachable_step(2)])
  then show ?case
    using reachable_step.IH reachable_step.prems shown_step [OF \<open>ops_ok s\<close>] by (auto simp: good_step_def)
qed

lemma served_object:
  assumes "reachable opsys_exec (opsys_init t c) s" "strict \<longrightarrow> \<not> unlocks s" "a < length (heap (srv s))" "mine (heap (srv s) ! a)"
  obtains m0 m where "start m0" "reachable exec m0 m" "view (heap (srv s) ! a) (ostores s a) (pcs_on s a) m"
  using reachable_shown [OF assms(1,2)] assms(3,4) by (auto simp: all_shown_def shown_def)

lemma pcs_on_call: "calls_of s t = Some (a, c) \<Longrightarrow> pcs_on s a t = unpack c"
  by (simp add: pcs_on_def)

end

subsection \<open>The mutex\<close>

fun mutex_pc :: "callpc \<Rightarrow> mpc" where
  "mutex_pc (CMutex pc) = pc"
| "mutex_pc _ = MRet RInit"

definition mutex_view :: "prim \<Rightarrow> ostore \<Rightarrow> (tid \<Rightarrow> mpc) \<Rightarrow> msys \<Rightarrow> bool" where
  "mutex_view p st pcs m \<longleftrightarrow> p = PMutex (mtx m) \<and> owaiters st = mst m \<and> pcs = mpcs m"

lemma kind_step: "call_step i c p st = Some (c', p', st') \<Longrightarrow> (kindOf p' = k) = (kindOf p = k)"
  using call_step_kind by metis

text \<open>The server enters the methods as the machine of the mutex allows, except for the operation \<^verbatim>\<open>unlock\<close>.\<close>

lemma mutex_entered:
  assumes "call_entry u oc a p c" "call_kind c = KMutex" "\<not> u"
  shows "\<exists>t op. c = CMutex (mutex_entry t op) \<and>
    may_call (case oc of None \<Rightarrow> MRet RInit | Some (b, c0) \<Rightarrow> mutex_pc c0) op"
  using assms(1)
proof cases
  case (ent_block b t)
  then have "b = BAcq AcqMutex" using assms(2) by (cases b) (auto simp: entry_kinds elim: acq_kind.elims)
  then show ?thesis using ent_block by (intro exI [of _ t] exI [of _ OpLockContext]) simp
next
  case (ent_direct n t)
  then show ?thesis using assms(2) by (cases n) auto
next
  case (ent_release q c0 t)
  then have "q = AcqMutex" using assms(2) by (cases q) auto
  then show ?thesis using ent_release by (intro exI [of _ t] exI [of _ OpUnlock]) simp
qed (use assms(3) in simp)

interpretation mutex_served: served mutex_exec "\<lambda>m. \<exists>t. m = mutex_init t" "\<lambda>p. kindOf p = KMutex" mutex_pc "MRet RInit"
  mutex_view True
proof
  show "\<exists>m. (\<exists>t. m = mutex_init t) \<and> mutex_view p empty_ostore (\<lambda>_. MRet RInit) m" if "new_prim p" "kindOf p = KMutex" for p
    using that by (cases p) (auto simp: new_prim_def mutex_view_def mutex_init_def empty_ostore_def)
next
  fix p st pcs m c u oc a t
  assume v: "mutex_view p st pcs m" and k: "kindOf p = KMutex" "call_kind c = kindOf p" "call_entry u oc a p c" "True \<longrightarrow> \<not> u"
    and t: "pcs t = (case oc of None \<Rightarrow> MRet RInit | Some (b, c0) \<Rightarrow> mutex_pc c0)"
  obtain n op where e: "c = CMutex (mutex_entry n op)" "may_call (pcs t) op"
    using mutex_entered [OF k(3)] k t by auto
  then have "mutex_exec (Invoke t (inp0\<lparr>now := n\<rparr>) op) m = Some (m\<lparr>mpcs := pcs(t := mutex_pc c)\<rparr>)"
    using v by (simp add: mutex_view_def)
  then show "\<exists>e m'. mutex_exec e m = Some m' \<and> mutex_view p st (pcs(t := mutex_pc c)) m'"
    using v by (intro exI [of _ "Invoke t (inp0\<lparr>now := n\<rparr>) op"]) (auto simp: mutex_view_def)
next
  fix p st pcs m i c c' p' st' t
  assume v: "mutex_view p st pcs m" and c: "call_step i c p st = Some (c', p', st')" "pcs t = mutex_pc c"
  then obtain pc pc' x' w where x: "c = CMutex pc" "c' = CMutex pc'" "p' = PMutex x'" "st' = st\<lparr>owaiters := w\<rparr>"
    "mutex_step i pc (mtx m) (mst m) = Some (pc', x', w)"
    by (cases c) (auto simp: call_step_def mutex_view_def)
  then show "\<exists>e m'. mutex_exec e m = Some m' \<and> mutex_view p' st' (pcs(t := mutex_pc c')) m'"
    using v c(2) by (intro exI [of _ "Go t i"]) (auto simp: mutex_view_def)
qed (rule kind_step)


subsection \<open>The reader-writer lock\<close>

fun rw_pc :: "callpc \<Rightarrow> rwpc" where
  "rw_pc (CRWLock pc) = pc"
| "rw_pc _ = RWRet RWInit"

definition rw_view :: "prim \<Rightarrow> ostore \<Rightarrow> (tid \<Rightarrow> rwpc) \<Rightarrow> rwsys \<Rightarrow> bool" where
  "rw_view p st pcs m \<longleftrightarrow> p = PRWLock (rwl m) \<and> owaiters st = rwst m \<and> pcs = rwpcs m"

lemma rw_entered:
  assumes "call_entry u oc a p c" "call_kind c = KRWLock"
  shows "\<exists>t op. c = CRWLock (rw_entry t op) \<and>
    rw_may_call (case oc of None \<Rightarrow> RWRet RWInit | Some (b, c0) \<Rightarrow> rw_pc c0) op"
  using assms(1)
proof cases
  case (ent_block b t)
  then consider "b = BAcq AcqRRW" | "b = BAcq AcqWRW" using assms(2) by (cases b) (auto simp: entry_kinds elim: acq_kind.elims)
  then show ?thesis
    using ent_block exI [of _ OpRLockContext] exI [of _ OpWLockContext] by cases (auto intro!: exI [of _ t])
next
  case (ent_release q c0 t)
  then consider "q = AcqRRW" | "q = AcqWRW" using assms(2) by (cases q) auto
  then show ?thesis
  proof cases
    case 1
    then show ?thesis using ent_release by (intro exI [of _ t] exI [of _ OpRUnlock]) simp
  next
    case 2
    then show ?thesis using ent_release by (intro exI [of _ t] exI [of _ OpWUnlock]) simp
  qed
next
  case (ent_direct n t)
  then show ?thesis using assms(2) by (cases n) auto
qed (use assms(2) in simp)

interpretation rw_served: served rw_exec "\<lambda>m. \<exists>t. m = rw_init t" "\<lambda>p. kindOf p = KRWLock" rw_pc
  "RWRet RWInit" rw_view False
proof
  show "\<exists>m. (\<exists>t. m = rw_init t) \<and> rw_view p empty_ostore (\<lambda>_. RWRet RWInit) m" if "new_prim p" "kindOf p = KRWLock" for p
    using that by (cases p) (auto simp: new_prim_def rw_view_def rw_init_def empty_ostore_def)
next
  fix p st pcs m c u oc a t
  assume v: "rw_view p st pcs m" and k: "kindOf p = KRWLock" "call_kind c = kindOf p" "call_entry u oc a p c"
    and t: "pcs t = (case oc of None \<Rightarrow> RWRet RWInit | Some (b, c0) \<Rightarrow> rw_pc c0)"
  obtain n op where e: "c = CRWLock (rw_entry n op)" "rw_may_call (pcs t) op"
    using rw_entered [OF k(3)] k t by auto
  then have "rw_exec (Invoke t (inp0\<lparr>now := n\<rparr>) op) m = Some (m\<lparr>rwpcs := pcs(t := rw_pc c)\<rparr>)"
    using v by (simp add: rw_view_def)
  then show "\<exists>e m'. rw_exec e m = Some m' \<and> rw_view p st (pcs(t := rw_pc c)) m'"
    using v by (intro exI [of _ "Invoke t (inp0\<lparr>now := n\<rparr>) op"]) (auto simp: rw_view_def)
next
  fix p st pcs m i c c' p' st' t
  assume v: "rw_view p st pcs m" and c: "call_step i c p st = Some (c', p', st')" "pcs t = rw_pc c"
  then obtain pc pc' x' w where x: "c = CRWLock pc" "c' = CRWLock pc'" "p' = PRWLock x'" "st' = st\<lparr>owaiters := w\<rparr>"
    "rw_step i pc (rwl m) (rwst m) = Some (pc', x', w)"
    by (cases c) (auto simp: call_step_def rw_view_def)
  then show "\<exists>e m'. rw_exec e m = Some m' \<and> rw_view p' st' (pcs(t := rw_pc c')) m'"
    using v c(2) by (intro exI [of _ "Go t i"]) (auto simp: rw_view_def)
qed (rule kind_step)

subsection \<open>The fair reader-writer lock\<close>

fun fair_pc :: "callpc \<Rightarrow> fpc" where
  "fair_pc (CFairRWLock pc) = pc"
| "fair_pc _ = FRet FInit"

definition fair_view :: "prim \<Rightarrow> ostore \<Rightarrow> (tid \<Rightarrow> fpc) \<Rightarrow> fsys \<Rightarrow> bool" where
  "fair_view p st pcs m \<longleftrightarrow> p = PFairRWLock (flk m) \<and> ofair st = fstr m \<and> pcs = fpcs m"

lemma fair_entered:
  assumes "call_entry u oc a p c" "call_kind c = KFairRWLock"
  shows "\<exists>t op. c = CFairRWLock (fair_entry t op) \<and>
    fair_may_call (case oc of None \<Rightarrow> FRet FInit | Some (b, c0) \<Rightarrow> fair_pc c0) op"
  using assms(1)
proof cases
  case (ent_block b t)
  then consider "b = BAcq AcqRFair" | "b = BAcq AcqWFair" using assms(2) by (cases b) (auto simp: entry_kinds elim: acq_kind.elims)
  then show ?thesis
    using ent_block exI [of _ FOpRLockContext] exI [of _ FOpLockContext] by cases (auto intro!: exI [of _ t])
next
  case (ent_release q c0 t)
  then consider "q = AcqRFair" | "q = AcqWFair" using assms(2) by (cases q) auto
  then show ?thesis
  proof cases
    case 1
    then show ?thesis using ent_release by (intro exI [of _ t] exI [of _ FOpRUnlock]) simp
  next
    case 2
    then show ?thesis using ent_release by (intro exI [of _ t] exI [of _ FOpUnlock]) simp
  qed
next
  case (ent_direct n t)
  then show ?thesis using assms(2) by (cases n) auto
qed (use assms(2) in simp)

interpretation fair_served: served fair_exec "\<lambda>m. \<exists>t. m = fair_init t" "\<lambda>p. kindOf p = KFairRWLock" fair_pc
  "FRet FInit" fair_view False
proof
  show "\<exists>m. (\<exists>t. m = fair_init t) \<and> fair_view p empty_ostore (\<lambda>_. FRet FInit) m" if "new_prim p" "kindOf p = KFairRWLock" for p
    using that by (cases p) (auto simp: new_prim_def fair_view_def fair_init_def empty_ostore_def)
next
  fix p st pcs m c u oc a t
  assume v: "fair_view p st pcs m" and k: "kindOf p = KFairRWLock" "call_kind c = kindOf p" "call_entry u oc a p c"
    and t: "pcs t = (case oc of None \<Rightarrow> FRet FInit | Some (b, c0) \<Rightarrow> fair_pc c0)"
  obtain n op where e: "c = CFairRWLock (fair_entry n op)" "fair_may_call (pcs t) op"
    using fair_entered [OF k(3)] k t by auto
  then have "fair_exec (Invoke t (inp0\<lparr>now := n\<rparr>) op) m = Some (m\<lparr>fpcs := pcs(t := fair_pc c)\<rparr>)"
    using v by (simp add: fair_view_def)
  then show "\<exists>e m'. fair_exec e m = Some m' \<and> fair_view p st (pcs(t := fair_pc c)) m'"
    using v by (intro exI [of _ "Invoke t (inp0\<lparr>now := n\<rparr>) op"]) (auto simp: fair_view_def)
next
  fix p st pcs m i c c' p' st' t
  assume v: "fair_view p st pcs m" and c: "call_step i c p st = Some (c', p', st')" "pcs t = fair_pc c"
  then obtain pc pc' x' w where x: "c = CFairRWLock pc" "c' = CFairRWLock pc'" "p' = PFairRWLock x'" "st' = st\<lparr>ofair := w\<rparr>"
    "fair_step i pc (flk m) (fstr m) = Some (pc', x', w)"
    by (cases c) (auto simp: call_step_def fair_view_def)
  then show "\<exists>e m'. fair_exec e m = Some m' \<and> fair_view p' st' (pcs(t := fair_pc c')) m'"
    using v c(2) by (intro exI [of _ "Go t i"]) (auto simp: fair_view_def)
qed (rule kind_step)


subsection \<open>The semaphore\<close>

text \<open>The machine of the semaphore excludes capacities that overflow when a permit is added.\<close>

fun sem_pc :: "callpc \<Rightarrow> spc" where
  "sem_pc (CSemaphore pc) = pc"
| "sem_pc _ = SRet SInit"

definition sem_fits :: "prim \<Rightarrow> bool" where
  "sem_fits p = (case p of PSemaphore x \<Rightarrow> sint (capacity x) + 1 < 2 ^ 31 | _ \<Rightarrow> False)"

definition sem_view :: "prim \<Rightarrow> ostore \<Rightarrow> (tid \<Rightarrow> spc) \<Rightarrow> ssys \<Rightarrow> bool" where
  "sem_view p st pcs m \<longleftrightarrow> p = PSemaphore (sem m) \<and> owaiters st = sst m \<and> pcs = spcs m"

lemma sem_entered:
  assumes "call_entry u oc a p c" "call_kind c = KSemaphore"
  shows "\<exists>t op. c = CSemaphore (sem_entry (semCapacity p) t op) \<and> (op = OpRelease \<or> op = OpAcquireContext) \<and>
    idle (case oc of None \<Rightarrow> SRet SInit | Some (b, c0) \<Rightarrow> sem_pc c0)"
  using assms(1)
proof cases
  case (ent_block b t)
  then have "b = BAcq AcqSem" using assms(2) by (cases b) (auto simp: entry_kinds elim: acq_kind.elims)
  then show ?thesis using ent_block by (intro exI [of _ t] exI [of _ OpAcquireContext]) simp
next
  case (ent_direct n t)
  then have "n = NbRelease" using assms(2) by (cases n) auto
  then show ?thesis using ent_direct by (intro exI [of _ t] exI [of _ OpRelease]) simp
next
  case (ent_release q c0 t)
  then have q: "q = AcqSem" using assms(2) by (cases q) auto
  then have "idle (sem_pc c0)" using ent_release by (auto split: callpc.splits)
  then show ?thesis using ent_release q by (intro exI [of _ t] exI [of _ OpRelease]) simp
qed (use assms(2) in simp)

interpretation sem_served: served sem_small "\<lambda>m. \<exists>x. fresh_semaphore x \<and> m = sem_init x" sem_fits sem_pc "SRet SInit" sem_view False
proof
  fix p assume p: "new_prim p" "sem_fits p"
  obtain x where x: "p = PSemaphore x" using p(2) by (cases p) (auto simp: sem_fits_def)
  then have "fresh_semaphore x" using p(1) by (auto simp: new_prim_def fresh_semaphore_def)
  moreover have "sem_view p empty_ostore (\<lambda>_. SRet SInit) (sem_init x)"
    using x by (simp add: sem_view_def sem_init_def empty_ostore_def)
  ultimately show "\<exists>m. (\<exists>x. fresh_semaphore x \<and> m = sem_init x) \<and> sem_view p empty_ostore (\<lambda>_. SRet SInit) m" by blast
next
  fix p st pcs m c u oc a t
  assume v: "sem_view p st pcs m" and f: "sem_fits p" and k: "call_kind c = kindOf p" "call_entry u oc a p c"
    and t: "pcs t = (case oc of None \<Rightarrow> SRet SInit | Some (b, c0) \<Rightarrow> sem_pc c0)"
  have p: "kindOf p = KSemaphore" "semCapacity p = capacity (sem m)" "sint (capacity (sem m)) + 1 < 2 ^ 31"
    using v f by (simp_all add: sem_view_def semCapacity_def sem_fits_def)
  obtain n op where e: "c = CSemaphore (sem_entry (semCapacity p) n op)" "op = OpRelease \<or> op = OpAcquireContext" "idle (pcs t)"
    using sem_entered [OF k(2)] k(1) p(1) t by auto
  then have "sem_small (Invoke t (inp0\<lparr>now := n\<rparr>) op) m = Some (m\<lparr>spcs := pcs(t := sem_pc c)\<rparr>)"
    using v p by (auto simp: sem_view_def OpRelease_def OpAcquireContext_def)
  then show "\<exists>e m'. sem_small e m = Some m' \<and> sem_view p st (pcs(t := sem_pc c)) m'"
    using v by (intro exI [of _ "Invoke t (inp0\<lparr>now := n\<rparr>) op"]) (auto simp: sem_view_def)
next
  fix p st pcs m i c c' p' st' t
  assume v: "sem_view p st pcs m" and c: "call_step i c p st = Some (c', p', st')" "pcs t = sem_pc c"
  then obtain pc pc' x' w where x: "c = CSemaphore pc" "c' = CSemaphore pc'" "p' = PSemaphore x'" "st' = st\<lparr>owaiters := w\<rparr>"
    "sem_step i pc (sem m) (sst m) = Some (pc', x', w)"
    by (cases c) (auto simp: call_step_def sem_view_def)
  then show "\<exists>e m'. sem_small e m = Some m' \<and> sem_view p' st' (pcs(t := sem_pc c')) m'"
    using v c(2) by (intro exI [of _ "Go t i"]) (auto simp: sem_view_def)
next
  show "sem_fits p' = sem_fits p" if "call_step i c p st = Some (c', p', st')" for i c p st c' p' st'
    using that by (cases c; cases p) (auto simp: call_step_def sem_fits_def Let_def dest: sem_step_capacity)
qed

subsection \<open>Exclusion in the server\<close>

text \<open>A goroutine holds what the last call it was in acquired, until the call that releases it begins.\<close>

definition holding :: "opsys \<Rightarrow> tid \<Rightarrow> acq \<Rightarrow> addr \<Rightarrow> bool" where
  "holding s t q a \<longleftrightarrow> (case calls_of s t of None \<Rightarrow> False | Some (b, c) \<Rightarrow> b = a \<and> got q c)"

definition exclusive :: "acq \<Rightarrow> bool" where
  "exclusive q \<longleftrightarrow> q = AcqMutex \<or> q = AcqWRW \<or> q = AcqWFair"

lemma holdingE:
  assumes "holding s t q a"
  obtains c where "calls_of s t = Some (a, c)" "got q c"
  using assms by (auto simp: holding_def split: option.splits)

lemma calls_at:
  assumes "ops_ok s" "calls_of s t = Some (a, c)"
  shows "a < length (heap (srv s))" "kindOf (heap (srv s) ! a) = call_kind c"
  using assms ops_okD(2) [OF assms(1), of t] by (auto simp: calls_of_def thread_ok_def at_def split: option.splits)

lemma mutex_object:
  assumes "reachable opsys_exec (opsys_init t0 cfg0) s" "\<not> unlocks s" "calls_of s t = Some (a, CMutex pc)"
  obtains m where "mutex_excl m" "\<And>u d. calls_of s u = Some (a, CMutex d) \<Longrightarrow> mpcs m u = d"
proof -
  note at = calls_at [OF ops_inv.reachable_inv [OF assms(1)] assms(3)]
  obtain m0 m where m: "\<exists>t. m0 = mutex_init t" "reachable mutex_exec m0 m"
    "mutex_view (heap (srv s) ! a) (ostores s a) (mutex_served.pcs_on s a) m"
    using mutex_served.served_object [OF assms(1), of a] at assms(2) by auto
  have "mutex_excl m" using m(1,2) mutex_inv.reachable_inv by blast
  then show ?thesis using that m(3) mutex_served.pcs_on_call [of s _ a] by (auto simp: mutex_view_def)
qed

lemma rw_object:
  assumes "reachable opsys_exec (opsys_init t0 cfg0) s" "calls_of s t = Some (a, CRWLock pc)"
  obtains m where "rw_excl m" "\<And>u d. calls_of s u = Some (a, CRWLock d) \<Longrightarrow> rwpcs m u = d"
proof -
  note at = calls_at [OF ops_inv.reachable_inv [OF assms(1)] assms(2)]
  obtain m0 m where m: "\<exists>t. m0 = rw_init t" "reachable rw_exec m0 m"
    "rw_view (heap (srv s) ! a) (ostores s a) (rw_served.pcs_on s a) m"
    using rw_served.served_object [OF assms(1), of a] at by auto
  have "rw_excl m" using m(1,2) rw_inv.reachable_inv by blast
  then show ?thesis using that m(3) rw_served.pcs_on_call [of s _ a] by (auto simp: rw_view_def)
qed

lemma fair_object:
  assumes "reachable opsys_exec (opsys_init t0 cfg0) s" "calls_of s t = Some (a, CFairRWLock pc)"
  obtains m where "fair_excl m" "\<And>u d. calls_of s u = Some (a, CFairRWLock d) \<Longrightarrow> fpcs m u = d"
proof -
  note at = calls_at [OF ops_inv.reachable_inv [OF assms(1)] assms(2)]
  obtain m0 m where m: "\<exists>t. m0 = fair_init t" "reachable fair_exec m0 m"
    "fair_view (heap (srv s) ! a) (ostores s a) (fair_served.pcs_on s a) m"
    using fair_served.served_object [OF assms(1), of a] at by auto
  have "fair_excl m" using m(1,2) fair_inv.reachable_inv by blast
  then show ?thesis using that m(3) fair_served.pcs_on_call [of s _ a] by (auto simp: fair_view_def)
qed

subsection \<open>Panics\<close>

text \<open>Only a panic in a goroutine that holds a lock ends the program.\<close>

lemma crash_step:
  assumes "opsys_exec e s = Some s'" "crash s' = Some m"
  shows "\<exists>t th q a. thr s t = Some th \<and> tHold th = HCall q a \<and> callRet th = Some (CallPanic m)"
proof -
  have c: "crash s = None" using assms(1) by (auto simp: opsys_exec_def split: if_splits)
  have f: "crash (putThread t th x) = crash x" "crash (onSrv f x) = crash x" for t th x f
    by (simp_all add: putThread_def onSrv_def)
  have r: "runCall i t th s = Some s' \<Longrightarrow> False" for i t th
    using c assms(2) by (auto simp: runCall_def f split: option.splits)
  obtain t i where e: "e = OEvHold t i"
    using assms c r
    by (auto simp: opsys_exec_def serve_step_def op_step_def watch_step_def timer_step_def withThread_def Let_def f
        split: op_event.splits srv_event.splits list.splits act.splits option.splits if_splits)
  then obtain th where th: "thr s t = Some th" "hold_step i t th s = Some s'"
    using assms(1) c by (auto simp: opsys_exec_def withThread_def split: option.splits)
  then have "\<exists>q a. tHold th = HCall q a \<and> callRet th = Some (CallPanic m)"
    using assms(2) c r
    by (auto simp: hold_step_def Let_def f split: holdpc.splits option.splits callret.splits if_splits)
  then show ?thesis using th(1) by blast
qed

lemma call_panic:
  "call_ret c = Some (CallPanic m) \<Longrightarrow> releasing c \<Longrightarrow>
     c = CMutex (MRet (RPanic m)) \<or> (\<exists>n. n \<noteq> ''rwlock: too many readers'' \<and> c = CRWLock (RWRet (RWPanic n))) \<or>
     (\<exists>n. n \<noteq> ''fairrwlock: too many readers'' \<and> c = CFairRWLock (FRet (FPanic n)))"
  by (cases c) (auto simp: call_ret_def split: mpc.splits mret.splits rwpc.splits rwret.splits fpc.splits fret.splits)

lemma no_release_panic:
  assumes "reachable opsys_exec (opsys_init t0 cfg0) s" "\<not> unlocks s" "thr s t = Some th" "tHold th = HCall q a"
  shows "callRet th \<noteq> Some (CallPanic m)"
proof
  assume p: "callRet th = Some (CallPanic m)"
  obtain c where c: "tCall th = Some (a, c)" "releasing c"
    using ops_okD(2) [OF ops_inv.reachable_inv [OF assms(1)] assms(3)] assms(4) by (auto simp: thread_ok_def)
  have t: "calls_of s t = Some (a, c)" using assms(3) c(1) by (simp add: calls_of_def)
  from call_panic [OF _ c(2)] p c(1)
  consider "c = CMutex (MRet (RPanic m))" | n where "n \<noteq> ''rwlock: too many readers''" "c = CRWLock (RWRet (RWPanic n))"
    | n where "n \<noteq> ''fairrwlock: too many readers''" "c = CFairRWLock (FRet (FPanic n))" by (auto simp: callRet_def)
  then show False
  proof cases
    case 1
    then show ?thesis using mutex_object [OF assms(1,2)] t by (metis mutex_excl_def)
  next
    case 2
    obtain x where "rw_excl x" "rwpcs x t = RWRet (RWPanic n)" using rw_object [OF assms(1)] t 2 by metis
    then show ?thesis using rw_word.word_local [of "rwstate (rwl x)" "rwpcs x" t] 2(1) by (simp add: rw_excl_def)
  next
    case 3
    obtain x where "fair_excl x" "fpcs x t = FRet (FPanic n)" using fair_object [OF assms(1)] t 3 by metis
    then show ?thesis using fair_word.word_local [of "fstate (flk x)" "fpcs x" t] 3(1) by (simp add: fair_excl_def)
  qed
qed

subsection \<open>Answers\<close>

fun answers_at :: "oppc \<Rightarrow> nat" where
  "answers_at (OpReturn None) = 1"
| "answers_at (OpUnregister None) = 1"
| "answers_at OpEnd = 1"
| "answers_at _ = 0"

lemma pickObj_answers:
  "(\<And>a. answers_at (f a) = 0) \<Longrightarrow> answers_at e = 0 \<Longrightarrow> answers_at (pickObj l k f e) = 0"
  by (simp add: pickObj_def split: option.splits)

lemma switch_answers: "answers_at (op_switch l) = 0"
  by (simp add: op_switch_def Let_def pickObj_answers)

lemma move_answers:
  assumes "op_move i th sv = Some (th', sv', ts)" "length (tAnswers th) = answers_at (tPc th)"
  shows "length (tAnswers th') = answers_at (tPc th')"
proof -
  note defs = prepare_step_def blocking_step_def direct_step_def finish_step_def op_move_def Let_def
  show ?thesis
  proof (cases "tPc th")
    case OpSwitch
    then show ?thesis using assms by (auto simp: defs switch_answers)
  next
    case (OpReturn p)
    then show ?thesis using assms by (cases p) (auto simp: defs)
  next
    case (OpUnregister p)
    then show ?thesis using assms by (cases p) (auto simp: defs)
  qed (use assms in \<open>auto simp: defs split: option.splits callret.splits prim.splits blk.splits if_splits prod.splits\<close>)
qed

definition answers_ok :: "opsys \<Rightarrow> bool" where
  "answers_ok s \<longleftrightarrow> (\<forall>t th. thr s t = Some th \<longrightarrow> length (tAnswers th) = answers_at (tPc th))"

lemma answers_put:
  "answers_ok s \<Longrightarrow> thr s2 = thr s \<Longrightarrow> length (tAnswers th) = answers_at (tPc th) \<Longrightarrow> answers_ok (putThread t th s2)"
  by (auto simp: answers_ok_def)

lemma answers_same: "answers_ok s \<Longrightarrow> thr s' = thr s \<Longrightarrow> answers_ok s'"
  by (simp add: answers_ok_def)

lemma answers_run:
  assumes "answers_ok s" "thr s t = Some th" "runCall i t th s = Some s'"
  shows "answers_ok s'"
proof -
  have "length (tAnswers th) = answers_at (tPc th)" using assms(1,2) by (simp add: answers_ok_def)
  then show ?thesis using assms by (auto simp: runCall_def split: option.splits intro!: answers_put)
qed

lemma answers_step:
  assumes "answers_ok s" "opsys_exec e s = Some s'"
  shows "answers_ok s'"
proof (cases e)
  case (OEvServer t ev)
  then show ?thesis
    using assms by (auto simp: opsys_exec_def serve_step_def Let_def new_thread_def
        split: if_splits srv_event.splits list.splits act.splits intro: answers_same intro!: answers_put)
next
  case (OEvOp t i)
  then obtain th where th: "thr s t = Some th" "op_step i t th s = Some s'"
    using assms(2) by (auto simp: opsys_exec_def withThread_def split: if_splits option.splits)
  have "length (tAnswers th) = answers_at (tPc th)" using assms(1) th(1) by (simp add: answers_ok_def)
  then show ?thesis using th answers_run [OF assms(1) th(1)] assms(1)
    by (auto simp: op_step_def split: if_splits option.splits intro!: answers_put dest: move_answers)
next
  case (OEvHold t i)
  then obtain th where th: "thr s t = Some th" "hold_step i t th s = Some s'"
    using assms(2) by (auto simp: opsys_exec_def withThread_def split: if_splits option.splits)
  have "length (tAnswers th) = answers_at (tPc th)" using assms(1) th(1) by (simp add: answers_ok_def)
  then show ?thesis using th answers_run [OF assms(1) th(1)] assms(1)
    by (auto simp: hold_step_def Let_def split: if_splits option.splits holdpc.splits callret.splits
        intro!: answers_put intro: answers_same)
next
  case (OEvWatch t)
  then show ?thesis using assms
    by (auto simp: opsys_exec_def withThread_def watch_step_def split: if_splits option.splits intro: answers_same)
next
  case (OEvTimer t c)
  then show ?thesis using assms
    by (auto simp: opsys_exec_def timer_step_def split: if_splits intro: answers_same)
qed

interpretation answers_inv: invariant_machine opsys_exec "opsys_init t c" answers_ok
proof
  show "answers_ok (opsys_init t c)" by (simp add: answers_ok_def opsys_init_def)
qed (rule answers_step)

text \<open>The answers of a goroutine are what it hands to \<^verbatim>\<open>sendToClient\<close>, which puts them into the outbox of the
  connection unless the connection is gone (it has no write lock any more).\<close>

definition sends :: "conn \<Rightarrow> outMsg list \<Rightarrow> Server \<Rightarrow> Server \<Rightarrow> bool" where
  "sends conn ms sv sv' \<longleftrightarrow>
     outbox sv' = outbox sv @ (if map_of (writeMu sv) conn = None then [] else map (Pair conn) ms)"

lemma sends_frame [simp]:
  "outbox (cancelIn c sv) = outbox sv" "outbox (onScheduler f sv) = outbox sv" "outbox (onMetrics g sv) = outbox sv"
  "outbox (logAudit t n e sv) = outbox sv"
  by (simp_all add: cancelIn_def onScheduler_def onMetrics_def logAudit_def Let_def split: option.splits)

lemma sends_none: "sends conn [] sv sv' \<longleftrightarrow> outbox sv' = outbox sv"
  by (simp add: sends_def)

lemma sends_one: "sends conn [m] sv (sendToClient conn m sv)" "sends conn [OError e] sv (sendError conn e sv)"
  by (simp_all add: sends_def sendError_def sendToClient_def)

definition quiet_move :: "thread \<Rightarrow> thread \<Rightarrow> Server \<Rightarrow> Server \<Rightarrow> bool" where
  "quiet_move th th' sv sv' \<longleftrightarrow>
     tAnswers th' = tAnswers th \<and> oConn (tLoc th') = oConn (tLoc th) \<and> outbox sv' = outbox sv"

lemma quiet_steps:
  "prepare_step i th sv = Some (th', sv', ts) \<Longrightarrow> quiet_move th th' sv sv'"
  "blocking_step i th sv = Some (th', sv', ts) \<Longrightarrow> quiet_move th th' sv sv'"
  "direct_step i th sv = Some (th', sv', ts) \<Longrightarrow> quiet_move th th' sv sv'"
  by (cases "tPc th"; auto simp: quiet_move_def prepare_step_def blocking_step_def direct_step_def Let_def
      split: option.splits callret.splits if_splits prod.splits)+

lemma finish_sends:
  assumes "finish_step i th sv = Some (th', sv', ts)"
  shows "\<exists>new. tAnswers th' = tAnswers th @ new \<and> sends (oConn (tLoc th)) new sv sv' \<and>
    oConn (tLoc th') = oConn (tLoc th)"
  using assms
  by (cases "tPc th")
    (auto simp: finish_step_def Let_def sends_none sends_one split: option.splits if_splits)

lemma move_sends:
  assumes "op_move i th sv = Some (th', sv', ts)"
  shows "\<exists>new. tAnswers th' = tAnswers th @ new \<and> sends (oConn (tLoc th)) new sv sv' \<and>
    oConn (tLoc th') = oConn (tLoc th)"
proof -
  have "quiet_move th th' sv sv' \<or> finish_step i th sv = Some (th', sv', ts)"
    using assms quiet_steps [of i th sv th' sv' ts]
    by (cases "prepare_step i th sv"; cases "blocking_step i th sv"; cases "direct_step i th sv") (auto simp: op_move_def)
  then show ?thesis
  proof
    assume "quiet_move th th' sv sv'"
    then show ?thesis by (intro exI [of _ "[]"]) (simp add: quiet_move_def sends_none)
  qed (rule finish_sends)
qed

lemma op_event_sends:
  assumes "opsys_exec (OEvOp t i) s = Some s'" "thr s t = Some th"
  shows "\<exists>th' new. thr s' t = Some th' \<and> tAnswers th' = tAnswers th @ new \<and> oConn (tLoc th') = oConn (tLoc th) \<and>
    sends (oConn (tLoc th)) new (srv s) (srv s')"
proof -
  have st: "op_step i t th s = Some s'"
    using assms by (auto simp: opsys_exec_def withThread_def split: if_splits)
  show ?thesis
  proof (cases "in_call (tPc th) \<and> callRet th = None")
    case True
    then have "runCall i t th s = Some s'" using st by (auto simp: op_step_def split: if_splits)
    then obtain th' where "thr s' t = Some th'" "tAnswers th' = tAnswers th" "tLoc th' = tLoc th"
        "outbox (srv s') = outbox (srv s)"
      by (auto simp: runCall_def putThread_def onSrv_def split: option.splits)
    then show ?thesis by (intro exI [of _ th'] exI [of _ "[]"]) (simp add: sends_none)
  next
    case False
    then obtain th' sv ts where m: "op_move i th (srv s) = Some (th', sv, ts)"
      and s': "s' = putThread t th' (s\<lparr>srv := sv, timers := ts @ timers s\<rparr>)"
      using st by (auto simp: op_step_def split: option.splits)
    from move_sends [OF m] show ?thesis by (auto simp: s' putThread_def)
  qed
qed

lemma other_event_answers:
  assumes "ops_ok s" "opsys_exec e s = Some s'" "thr s t = Some th" "\<forall>i. e \<noteq> OEvOp t i"
  shows "\<exists>th'. thr s' t = Some th' \<and> tAnswers th' = tAnswers th"
proof -
  have old: "t \<noteq> nthr s" using ops_okD(3) [OF assms(1), of t] assms(3) by auto
  have run: "\<exists>th'. thr s' t = Some th' \<and> tAnswers th' = tAnswers th"
    if "runCall i u x s = Some s'" "thr s u = Some x" for i u x
    using that assms(3) by (auto simp: runCall_def putThread_def onSrv_def split: option.splits if_splits)
  show ?thesis
  proof (cases e)
    case (OEvServer u ev)
    then show ?thesis using assms(2,3) old
      by (auto simp: opsys_exec_def serve_step_def putThread_def Let_def
          split: if_splits srv_event.splits list.splits act.splits)
  next
    case (OEvOp u i)
    then have u: "u \<noteq> t" using assms(4) by auto
    then show ?thesis using OEvOp assms(2,3)
      by (auto simp: opsys_exec_def withThread_def op_step_def putThread_def runCall_def onSrv_def
          split: if_splits option.splits)
  next
    case (OEvHold u i)
    then obtain x where x: "thr s u = Some x" "hold_step i u x s = Some s'"
      using assms(2) by (auto simp: opsys_exec_def withThread_def split: if_splits option.splits)
    then show ?thesis using assms(3) run
      by (auto simp: hold_step_def putThread_def onSrv_def Let_def split: if_splits option.splits holdpc.splits callret.splits)
  next
    case (OEvWatch u)
    then show ?thesis using assms(2,3)
      by (auto simp: opsys_exec_def withThread_def watch_step_def onSrv_def split: if_splits option.splits)
  next
    case (OEvTimer u c)
    then show ?thesis using assms(2,3) by (auto simp: opsys_exec_def timer_step_def onSrv_def split: if_splits)
  qed
qed

text \<open>How far a goroutine is from its end.\<close>

fun op_rank :: "oppc \<Rightarrow> nat" where
  "op_rank OpRegister = 22"
| "op_rank OpFind = 21"
| "op_rank OpLookup = 20"
| "op_rank OpPrimCtx = 19"
| "op_rank OpConnCtx = 18"
| "op_rank OpDerive = 17"
| "op_rank OpName = 16"
| "op_rank OpSwitch = 15"
| "op_rank (OpIsLocked a) = 14"
| "op_rank (OpBlock b a) = 13"
| "op_rank (OpEnter n a) = 13"
| "op_rank (OpBlocked b a) = 12"
| "op_rank (OpCall n a) = 12"
| "op_rank (OpUnblock b a r) = 11"
| "op_rank (OpDeleted q a) = 10"
| "op_rank (OpUndo q a) = 9"
| "op_rank (OpAcquired q a) = 9"
| "op_rank (OpWaited q a) = 8"
| "op_rank (OpBlockErr e) = 8"
| "op_rank (OpHold q a) = 7"
| "op_rank (OpReleased n a) = 7"
| "op_rank (OpFinish k) = 6"
| "op_rank OpAudit = 5"
| "op_rank OpUnknown = 5"
| "op_rank OpSuccess = 4"
| "op_rank (OpSendErr e) = 4"
| "op_rank (OpReturn p) = 3"
| "op_rank (OpUnregister p) = 2"
| "op_rank (OpRecover m) = 1"
| "op_rank OpEnd = 0"

lemma pickObj_rank:
  "(\<And>a. op_rank (f a) < 15) \<Longrightarrow> op_rank e < 15 \<Longrightarrow> op_rank (pickObj l k f e) < 15"
  by (simp add: pickObj_def split: option.splits)

lemma switch_rank: "op_rank (op_switch l) < 15"
  by (simp add: op_switch_def Let_def pickObj_rank)

lemma op_move_next:
  assumes "tPc th \<noteq> OpEnd" "in_call (tPc th) \<longrightarrow> callRet th \<noteq> None"
  shows "\<exists>th' sv' ts. op_move i th sv = Some (th', sv', ts) \<and> op_rank (tPc th') < op_rank (tPc th)"
proof -
  note defs = prepare_step_def blocking_step_def direct_step_def finish_step_def op_move_def Let_def
  show ?thesis
    using assms switch_rank [of "tLoc th"]
    by (cases "tPc th")
      (auto simp: defs split: option.splits callret.splits prim.splits blk.splits prod.splits)
qed

end
