(* ===== verification/ServerGuarantees.thy ===== *)
theory ServerGuarantees
  imports ServerLocks
begin

text \<open>
  What the server guarantees to its clients when all goroutines, handlers, timers and cancellations
  interleave: locks exclude, semaphores keep within their capacity, no panic ends the program, every
  operation is answered once. Runs of the model show where two of these guarantees need their
  hypotheses: the operation \<^verbatim>\<open>unlock\<close> can end the program, and a semaphore of the largest capacity can
  overflow.
\<close>

subsection \<open>Runs of one client\<close>

definition opMsg :: "string \<Rightarrow> string \<Rightarrow> int \<Rightarrow> wsMessage" where
  "opMsg pid op ms = \<lparr>mType = ''primitiveOp'',
     mPayload = Some (JObj [(''id'', JStr pid), (''op'', JStr op), (''holdMs'', JNum ms)])\<rparr>"

definition semMsg :: "int \<Rightarrow> wsMessage" where
  "semMsg n = \<lparr>mType = ''createSemaphore'',
     mPayload = Some (JObj [(''id'', JStr ''s''), (''capacity'', JNum n)])\<rparr>"

text \<open>A message, and the actions its handler leaves to be done.\<close>

definition request :: "wsMessage \<Rightarrow> nat \<Rightarrow> op_event list" where
  "request msg n = OEvServer 0 (EvCall (CallMessage 2 msg)) # replicate n (OEvServer 0 (EvAct 2))"

definition open_client :: op_event where
  "open_client = OEvServer 0 (EvCall (CallOpen 2 ''default''))"

text \<open>The client creates a mutex and locks it for 100 milliseconds.\<close>

definition lock_run :: "op_event list" where
  "lock_run = open_client # request (createMsg ''m'') 4 @
     request (opMsg ''m'' ''lock'' 100) 1 @ replicate 22 (OEvOp 0 inp0)"

text \<open>It then sends \<^verbatim>\<open>unlock\<close>; a second later the goroutine that holds the mutex releases it once more.\<close>

definition unlock_run :: "op_event list" where
  "unlock_run = lock_run @ request (opMsg ''m'' ''unlock'' 0) 1 @ replicate 21 (OEvOp 1 inp0) @
     replicate 3 (OEvHold 0 \<lparr>now = 1000000000, ctxArm = False, pick = 0\<rparr>)"

text \<open>A semaphore is released that nobody acquired.\<close>

definition release_run :: "int \<Rightarrow> op_event list" where
  "release_run n = open_client # request (semMsg n) 4 @
     request (opMsg ''s'' ''release'' 0) 1 @ replicate 14 (OEvOp 0 inp0)"

definition sem_numbers :: "opsys \<Rightarrow> nat \<times> (int32 \<times> int32) option" where
  "sem_numbers s = (length (heap (srv s)),
     case heap (srv s) ! 0 of PSemaphore x \<Rightarrow> Some (capacity x, scount x) | _ \<Rightarrow> None)"

definition lock_facts :: "opsys \<Rightarrow> bool \<times> nat \<times> (string \<times> bool \<times> nat) option" where
  "lock_facts s = (holding s 0 AcqMutex 0, nthr s,
     map_option (\<lambda>th. (oOp (tLoc th), tPc th = OpEnd, length (tAnswers th))) (thr s 0))"

lemma lock_run_facts:
  "map_option lock_facts (run opsys_exec lock_run (opsys_init 0 demoConfig)) = Some (True, 1, Some (''lock'', True, 1))"
  by code_simp

lemma lock_run_state:
  obtains s th where "reachable opsys_exec (opsys_init 0 demoConfig) s" "holding s 0 AcqMutex 0" "\<not> unlocks s"
    "thr s 0 = Some th" "tPc th = OpEnd"
proof -
  obtain s where r: "run opsys_exec lock_run (opsys_init 0 demoConfig) = Some s"
    and f: "lock_facts s = (True, 1, Some (''lock'', True, 1))"
    using lock_run_facts by auto
  have reach: "reachable opsys_exec (opsys_init 0 demoConfig) s" by (rule run_reachable [OF r])
  obtain th where th: "thr s 0 = Some th" "oOp (tLoc th) = ''lock''" "tPc th = OpEnd" "holding s 0 AcqMutex 0" "nthr s = 1"
    using f by (auto simp: lock_facts_def)
  have "oOp (tLoc x) \<noteq> ''unlock''" if "thr s t = Some x" for t x
    using ops_okD(3) [OF ops_inv.reachable_inv [OF reach], of t] th(1,2,5) that by (cases t) auto
  then have "\<not> unlocks s" by (auto simp: unlocks_def)
  then show ?thesis using that reach th by blast
qed

lemma release_run_state:
  obtains s x where "reachable opsys_exec (opsys_init 0 demoConfig) s" "0 < length (heap (srv s))"
    "heap (srv s) ! 0 = PSemaphore x" "capacity x = 2"
proof -
  have "map_option sem_numbers (run opsys_exec (release_run 2) (opsys_init 0 demoConfig)) = Some (1, Some (2, 2))"
    by code_simp
  then obtain s where r: "run opsys_exec (release_run 2) (opsys_init 0 demoConfig) = Some s" "sem_numbers s = (1, Some (2, 2))"
    by auto
  then obtain x where "length (heap (srv s)) = 1" "heap (srv s) ! 0 = PSemaphore x" "capacity x = 2"
    by (auto simp: sem_numbers_def split: prim.splits)
  then show ?thesis using that [OF run_reachable [OF r(1)]] by simp
qed

text \<open>Without the hypothesis on \<^verbatim>\<open>unlock\<close> the program can end with a panic.\<close>

lemma unlock_crashes_server:
  "map_option crash (run opsys_exec unlock_run (opsys_init 0 demoConfig)) =
     Some (Some ''mutex: unlock of unlocked mutex'')"
  by code_simp

text \<open>A client creates a semaphore of the largest capacity and releases it once: the count overflows.\<close>

lemma release_overflows_semaphore:
  "map_option sem_numbers (run opsys_exec (release_run 2147483647) (opsys_init 0 demoConfig)) =
     Some (1, Some (2147483647, - 2147483648))"
  by code_simp

subsection \<open>Properties\<close>

text \<open>C2. Locks exclude in the whole server: when a goroutine of an operation holds a mutex, or a
  reader-writer lock or fair lock for writing, no other goroutine holds the same object, for reading
  or writing, whatever all clients send and whenever primitives are deleted, contexts cancelled and
  timers fire. For a mutex this is claimed only as long as no client has sent the operation \<^verbatim>\<open>unlock\<close>,
  which releases the mutex of another operation; for the two other locks there is no such condition.\<close>

theorem server_lock_exclusion:
  assumes "reachable opsys_exec (opsys_init t0 cfg0) s" "exclusive q" "holding s t q a" "holding s u r a"
    "q = AcqMutex \<longrightarrow> \<not> unlocks s"
  shows "u = t"
proof -
  obtain c d where c: "calls_of s t = Some (a, c)" "got q c" "calls_of s u = Some (a, d)" "got r d"
    using assms(3,4) by (elim holdingE) blast
  have "acq_kind q = acq_kind r"
    using calls_at(2) [OF ops_inv.reachable_inv [OF assms(1)]] c got_kind by metis
  then consider (mutex) "q = AcqMutex" "r = AcqMutex" | (rw) "q = AcqWRW" "r = AcqWRW \<or> r = AcqRRW"
    | (fair) "q = AcqWFair" "r = AcqWFair \<or> r = AcqRFair"
    using assms(2) by (cases q; cases r) (auto simp: exclusive_def)
  then show ?thesis
  proof cases
    case mutex
    then have x: "calls_of s t = Some (a, CMutex (MRet RLocked))" "calls_of s u = Some (a, CMutex (MRet RLocked))"
      using c by auto
    obtain m where "mutex_excl m" "mpcs m t = MRet RLocked" "mpcs m u = MRet RLocked"
      using mutex_object [OF assms(1) _ x(1)] assms(5) mutex(1) x by metis
    then show ?thesis by (metis mutex_excl_def m_holds.simps(1))
  next
    case rw
    then have x: "calls_of s t = Some (a, CRWLock (RWRet RWWrite))" using c by auto
    obtain m where e: "rw_excl m" and p: "\<And>u d. calls_of s u = Some (a, CRWLock d) \<Longrightarrow> rwpcs m u = d"
      using rw_object [OF assms(1) x] by blast
    have "rwpcs m u = RWRet RWWrite \<or> rwpcs m u = RWRet RWRead" using rw(2) c(3,4) p by auto
    then show ?thesis using rw_word.exclusion [OF e [unfolded rw_excl_def]] p [OF x] by (metis rw_reads.simps(1) rw_writes.simps(1))
  next
    case fair
    then have x: "calls_of s t = Some (a, CFairRWLock (FRet FWrite))" using c by auto
    obtain m where e: "fair_excl m" and p: "\<And>u d. calls_of s u = Some (a, CFairRWLock d) \<Longrightarrow> fpcs m u = d"
      using fair_object [OF assms(1) x] by blast
    have "fpcs m u = FRet FWrite \<or> fpcs m u = FRet FRead" using fair(2) c(3,4) p by auto
    then show ?thesis using fair_word.exclusion [OF e [unfolded fair_excl_def]] p [OF x] by (metis f_reads.simps(1) f_writes.simps(1))
  qed
qed

theorem server_lock_exclusion_witness:
  "\<exists>s. reachable opsys_exec (opsys_init 0 demoConfig) s \<and> holding s 0 AcqMutex 0 \<and>
     (\<forall>u. holding s u AcqMutex 0 = (u = 0))"
proof -
  obtain s where s: "reachable opsys_exec (opsys_init 0 demoConfig) s" "holding s 0 AcqMutex 0" "\<not> unlocks s"
    using lock_run_state by metis
  have "u = 0" if "holding s u AcqMutex 0" for u
    using server_lock_exclusion [OF s(1) _ s(2) that] s(3) by (simp add: exclusive_def)
  then show ?thesis using s by blast
qed

text \<open>C4. The server does not die of a panic: as long as no client has sent the operation \<^verbatim>\<open>unlock\<close>, no
  goroutine that holds a lock can find it released, so that the releasing call, which nothing protects
  from panics, never panics.\<close>

theorem server_never_crashes:
  assumes "reachable opsys_exec (opsys_init t0 cfg0) s" "\<not> unlocks s"
  shows "crash s = None"
  using assms
proof (cases rule: reachable.cases)
  case (reachable_step s1 e)
  have "good_step s1 s" by (rule opsys_step [OF ops_inv.reachable_inv [OF reachable_step(1)] reachable_step(2)])
  then have "\<not> unlocks s1" using assms(2) by (auto simp: good_step_def)
  then show ?thesis using crash_step [OF reachable_step(2)] no_release_panic [OF reachable_step(1)] by (cases "crash s") auto
qed (simp add: opsys_init_def)

theorem server_never_crashes_witness:
  "\<exists>s. reachable opsys_exec (opsys_init 0 demoConfig) s \<and> holding s 0 AcqMutex 0 \<and> crash s = None"
proof -
  obtain s where s: "reachable opsys_exec (opsys_init 0 demoConfig) s" "holding s 0 AcqMutex 0" "\<not> unlocks s"
    using lock_run_state by metis
  then show ?thesis using server_never_crashes [OF s(1,3)] by blast
qed

text \<open>C8. Every operation is answered exactly once: a goroutine of \<^verbatim>\<open>handlePrimitiveOp\<close> never gives two
  answers, has given one when it ends, on all paths, timeouts, deletions and recovered panics included,
  and outside of the calls of primitives it always has a next step, of which there are at most 22.
  An answer is given by a step of the goroutine itself, and what that step appends to the outbox is exactly
  this answer, addressed to the connection of the operation; nothing is appended if the connection has gone
  and has no write lock any more, as in \<^verbatim>\<open>sendToClient\<close>.\<close>

theorem op_answers_once:
  assumes "reachable opsys_exec (opsys_init t0 cfg0) s" "thr s t = Some th"
  shows "length (tAnswers th) \<le> 1 \<and> (tPc th = OpEnd \<longrightarrow> length (tAnswers th) = 1) \<and>
    (tPc th \<noteq> OpEnd \<and> (in_call (tPc th) \<longrightarrow> callRet th \<noteq> None) \<longrightarrow>
      (\<forall>i. \<exists>th' sv ts. op_move i th (srv s) = Some (th', sv, ts) \<and> op_rank (tPc th') < op_rank (tPc th))) \<and>
    op_rank (tPc th) \<le> 22 \<and>
    (\<forall>e s'. opsys_exec e s = Some s' \<longrightarrow>
      (\<exists>th' new. thr s' t = Some th' \<and> tAnswers th' = tAnswers th @ new \<and>
        (if \<exists>i. e = OEvOp t i
         then outbox (srv s') = outbox (srv s) @
           (if map_of (writeMu (srv s)) (oConn (tLoc th)) = None then [] else map (Pair (oConn (tLoc th))) new)
         else new = [])))"
proof -
  have given: "\<exists>th' new. thr s' t = Some th' \<and> tAnswers th' = tAnswers th @ new \<and>
      (if \<exists>i. e = OEvOp t i then sends (oConn (tLoc th)) new (srv s) (srv s') else new = [])"
    if x: "opsys_exec e s = Some s'" for e s'
  proof (cases "\<exists>i. e = OEvOp t i")
    case True
    then obtain i where "opsys_exec (OEvOp t i) s = Some s'" using x by blast
    from op_event_sends [OF this assms(2)] show ?thesis using True by auto
  next
    case False
    then show ?thesis
      using other_event_answers [OF ops_inv.reachable_inv [OF assms(1)] x assms(2)] by auto
  qed
  have "answers_ok s" by (rule answers_inv.reachable_inv [OF assms(1)])
  then have "length (tAnswers th) = answers_at (tPc th)" using assms(2) by (simp add: answers_ok_def)
  moreover have "answers_at pc \<le> 1" for pc by (cases pc rule: answers_at.cases) auto
  moreover have "op_rank (tPc th) \<le> 22" by (cases "tPc th") auto
  ultimately have "length (tAnswers th) \<le> 1 \<and> (tPc th = OpEnd \<longrightarrow> length (tAnswers th) = 1) \<and>
    (tPc th \<noteq> OpEnd \<and> (in_call (tPc th) \<longrightarrow> callRet th \<noteq> None) \<longrightarrow>
      (\<forall>i. \<exists>th' sv ts. op_move i th (srv s) = Some (th', sv, ts) \<and> op_rank (tPc th') < op_rank (tPc th))) \<and>
    op_rank (tPc th) \<le> 22" using op_move_next [of th] by auto
  with given show ?thesis unfolding sends_def by blast
qed

theorem op_answers_once_witness:
  "\<exists>s th. reachable opsys_exec (opsys_init 0 demoConfig) s \<and> thr s 0 = Some th \<and> tPc th = OpEnd \<and>
     length (tAnswers th) = 1"
proof -
  obtain s th where s: "reachable opsys_exec (opsys_init 0 demoConfig) s" "thr s 0 = Some th" "tPc th = OpEnd"
    using lock_run_state by metis
  then show ?thesis using op_answers_once [OF s(1,2)] by blast
qed

text \<open>C37. The count of every semaphore of the server stays between 0 and its capacity, for all clients,
  also for those that release what they never acquired, unless the capacity is the largest number an
  \<^verbatim>\<open>int32\<close> can hold.\<close>

theorem server_semaphore_bounds:
  assumes "reachable opsys_exec (opsys_init t0 cfg0) s" "a < length (heap (srv s))" "heap (srv s) ! a = PSemaphore x"
    "sint (capacity x) < 2 ^ 31 - 1"
  shows "0 \<le> sint (scount x) \<and> sint (scount x) \<le> sint (capacity x)"
proof -
  have "sem_fits (heap (srv s) ! a)" using assms(3,4) by (simp add: sem_fits_def)
  then obtain m0 m where m: "\<exists>x. fresh_semaphore x \<and> m0 = sem_init x" "reachable sem_small m0 m"
    "sem_view (heap (srv s) ! a) (ostores s a) (sem_served.pcs_on s a) m"
    using sem_served.served_object [OF assms(1), of a] assms(2) by auto
  then show ?thesis using assms(3) sem_bnd.reachable_inv by (auto simp: sem_view_def sem_bounded_def)
qed

theorem server_semaphore_bounds_witness:
  "\<exists>s x. reachable opsys_exec (opsys_init 0 demoConfig) s \<and> heap (srv s) ! 0 = PSemaphore x \<and>
     0 \<le> sint (scount x) \<and> sint (scount x) \<le> 2"
proof -
  obtain s x where s: "reachable opsys_exec (opsys_init 0 demoConfig) s" "0 < length (heap (srv s))"
    "heap (srv s) ! 0 = PSemaphore x" "capacity x = 2"
    using release_run_state by metis
  then show ?thesis using server_semaphore_bounds [OF s(1-3)] by auto
qed

end
