(* ===== verification/MSQueue.thy ===== *)
theory MSQueue
  imports Waiter
begin

text \<open>
  The lock-free queue of \<^verbatim>\<open>internal/primitives/waiter.go\<close>, action by action: \<^verbatim>\<open>Enqueue\<close> and \<^verbatim>\<open>Dequeue\<close> of
  \<^verbatim>\<open>WaiterQueue\<close> with every load and compare-and-swap, and the proof that they implement the queue the
  other theories use (\<open>enqLink\<close>, \<open>deqPop\<close>, \<open>sizeAdd\<close> of \<open>Waiter\<close>).

  Nodes live at addresses; the garbage collector does not reuse a node that somebody still refers to,
  so an address is handed out once. \<open>sawEmpty\<close> is not part of the code: it records for every goroutine
  whether the queue was empty at the moment of its last load of \<^verbatim>\<open>head.next\<close>.
\<close>

subsection \<open>Nodes and the queue\<close>

type_synonym node = nat

record msq =
  qhead :: node
  qtail :: node
  nnext :: "node \<Rightarrow> node option"
  nwaiter :: "node \<Rightarrow> wid option"
  nnodes :: nat
  msize :: "64 word"

text \<open>\<^verbatim>\<open>NewWaiterQueue\<close>: the sentinel is node 0.\<close>

definition newMSQueue :: msq where
  "newMSQueue = \<lparr>qhead = 0, qtail = 0, nnext = (\<lambda>_. None), nwaiter = (\<lambda>_. None), nnodes = 1, msize = 0\<rparr>"

datatype qret = QInit | QLinked | QNil | QGot wid

datatype qpc =
    QRet qret
  | EAlloc wid
  | ETail wid node
  | ENext wid node node
  | ERecheck wid node node "node option"
  | EHelp wid node node node
  | ECasLink wid node node
  | ECasTail node node
  | ESizeInc
  | DHead
  | DTail node
  | DNext node node
  | DRecheck node node "node option"
  | DHelp node node
  | DCasHead node node node
  | DSizeDec wid
  | DCancelled wid
  | DPut wid

datatype qop = OpEnqueue wid | OpDequeue

fun q_entry :: "qop \<Rightarrow> qpc" where
  "q_entry (OpEnqueue w) = EAlloc w"
| "q_entry OpDequeue = DHead"

definition casTail :: "node \<Rightarrow> node \<Rightarrow> msq \<Rightarrow> msq" where
  "casTail t n q = (if qtail q = t then q\<lparr>qtail := n\<rparr> else q)"

lemma casTail_frame [simp]:
  "nnext (casTail t n q) = nnext q" "nwaiter (casTail t n q) = nwaiter q" "nnodes (casTail t n q) = nnodes q"
  "qhead (casTail t n q) = qhead q" "msize (casTail t n q) = msize q"
  by (simp_all add: casTail_def)

text \<open>\<^verbatim>\<open>node := &waiterNode{waiter: w}\<close>.\<close>

definition allocNode :: "wid \<Rightarrow> msq \<Rightarrow> node \<times> msq" where
  "allocNode w q = (nnodes q, q\<lparr>nnodes := Suc (nnodes q), nwaiter := (nwaiter q)(nnodes q := Some w),
     nnext := (nnext q)(nnodes q := None)\<rparr>)"

fun Enqueue_step :: "qpc \<Rightarrow> msq \<Rightarrow> (qpc \<times> msq) option" where
  "Enqueue_step (EAlloc w) q = (let (n, q') = allocNode w q in Some (ETail w n, q'))"
| "Enqueue_step (ETail w n) q = Some (ENext w n (qtail q), q)"
| "Enqueue_step (ENext w n t) q = Some (ERecheck w n t (nnext q t), q)"
| "Enqueue_step (ERecheck w n t nx) q =
     Some (if t \<noteq> qtail q then ETail w n
           else case nx of None \<Rightarrow> ECasLink w n t | Some x \<Rightarrow> EHelp w n t x, q)"
| "Enqueue_step (ECasLink w n t) q =
     (if nnext q t = None then Some (ECasTail t n, q\<lparr>nnext := (nnext q)(t := Some n)\<rparr>) else Some (ETail w n, q))"
| "Enqueue_step (ECasTail t n) q = Some (ESizeInc, casTail t n q)"
| "Enqueue_step ESizeInc q = Some (QRet QLinked, q\<lparr>msize := msize q + 1\<rparr>)"
| "Enqueue_step (EHelp w n t x) q = Some (ETail w n, casTail t x q)"
| "Enqueue_step _ q = None"

text \<open>Where the code would compare-and-swap \<^verbatim>\<open>head\<close> with a nil \<^verbatim>\<open>next\<close>, or read the waiter of a node that has
  none, the model has no step; the invariant shows that this does not happen.\<close>

fun Dequeue_step :: "qpc \<Rightarrow> msq \<Rightarrow> wstore \<Rightarrow> (qpc \<times> msq \<times> wstore) option" where
  "Dequeue_step DHead q st = Some (DTail (qhead q), q, st)"
| "Dequeue_step (DTail h) q st = Some (DNext h (qtail q), q, st)"
| "Dequeue_step (DNext h t) q st = Some (DRecheck h t (nnext q h), q, st)"
| "Dequeue_step (DRecheck h t nx) q st =
     (if h \<noteq> qhead q then Some (DHead, q, st)
      else if h = t then Some (case nx of None \<Rightarrow> QRet QNil | Some x \<Rightarrow> DHelp t x, q, st)
      else case nx of None \<Rightarrow> None | Some x \<Rightarrow> Some (DCasHead h t x, q, st))"
| "Dequeue_step (DHelp t x) q st = Some (DHead, casTail t x q, st)"
| "Dequeue_step (DCasHead h t x) q st =
     (if qhead q = h
      then case nwaiter q x of None \<Rightarrow> None | Some w \<Rightarrow> Some (DSizeDec w, q\<lparr>qhead := x\<rparr>, st)
      else Some (DHead, q, st))"
| "Dequeue_step (DSizeDec w) q st = Some (DCancelled w, q\<lparr>msize := msize q - 1\<rparr>, st)"
| "Dequeue_step (DCancelled w) q st = Some (if cancelled (objs st w) then DPut w else QRet (QGot w), q, st)"
| "Dequeue_step (DPut w) q st = Some (DHead, q, putWaiter (Some w) st)"
| "Dequeue_step _ q st = None"

record mqsys =
  msq :: msq
  mqst :: wstore
  mqpcs :: "tid \<Rightarrow> qpc"
  sawEmpty :: "tid \<Rightarrow> bool"

text \<open>Other code may change the waiters at any time.\<close>

datatype q_event = QInvoke tid qop | QGo tid | QStore wstore

text \<open>The queue as the others see it: the waiters of the nodes after the head. The number of nodes
  bounds the walk.\<close>

fun follow :: "nat \<Rightarrow> (node \<Rightarrow> node option) \<Rightarrow> node \<Rightarrow> node list" where
  "follow 0 f n = []"
| "follow (Suc k) f n = (case f n of None \<Rightarrow> [] | Some x \<Rightarrow> x # follow k f x)"

definition absQueue :: "msq \<Rightarrow> WaiterQueue" where
  "absQueue q = \<lparr>items = map (the \<circ> nwaiter q) (follow (nnodes q) (nnext q) (qhead q)), qsize = msize q\<rparr>"

fun mq_exec :: "q_event \<Rightarrow> mqsys \<Rightarrow> mqsys option" where
  "mq_exec (QInvoke t op) s =
     (case mqpcs s t of QRet r \<Rightarrow> Some (s\<lparr>mqpcs := (mqpcs s)(t := q_entry op)\<rparr>) | _ \<Rightarrow> None)"
| "mq_exec (QGo t) s =
     (case Enqueue_step (mqpcs s t) (msq s) of
        Some (pc, q) \<Rightarrow> Some (s\<lparr>msq := q, mqpcs := (mqpcs s)(t := pc)\<rparr>)
      | None \<Rightarrow>
          (case Dequeue_step (mqpcs s t) (msq s) (mqst s) of
             Some (pc, q, st) \<Rightarrow>
               Some \<lparr>msq = q, mqst = st, mqpcs = (mqpcs s)(t := pc),
                     sawEmpty = (case mqpcs s t of DNext h l \<Rightarrow> (sawEmpty s)(t := (items (absQueue (msq s)) = []))
                                 | _ \<Rightarrow> sawEmpty s)\<rparr>
           | None \<Rightarrow> None))"
| "mq_exec (QStore st) s = Some (s\<lparr>mqst := st\<rparr>)"

definition mq_init :: mqsys where
  "mq_init = \<lparr>msq = newMSQueue, mqst = empty_store, mqpcs = (\<lambda>_. QRet QInit), sawEmpty = (\<lambda>_. False)\<rparr>"

subsection \<open>The chain of nodes\<close>

text \<open>All nodes that were ever linked, in order: the sentinel first. The head is the node number \<open>k\<close> of
  the chain, the tail the node number \<open>j\<close>.\<close>

definition isat :: "node list \<Rightarrow> nat \<Rightarrow> node \<Rightarrow> bool" where
  "isat L i n \<longleftrightarrow> i < length L \<and> L ! i = n"

definition chain :: "msq \<Rightarrow> node list \<Rightarrow> bool" where
  "chain q L \<longleftrightarrow> L \<noteq> [] \<and> distinct L \<and> (\<forall>n \<in> set L. n < nnodes q) \<and>
     (\<forall>i. Suc i < length L \<longrightarrow> nnext q (L ! i) = Some (L ! Suc i)) \<and> nnext q (last L) = None \<and>
     (\<forall>i. Suc i < length L \<longrightarrow> nwaiter q (L ! Suc i) \<noteq> None)"

lemma isatD: "isat L i n \<Longrightarrow> n \<in> set L"
  by (auto simp: isat_def)

lemma isat_append: "isat L i n \<Longrightarrow> isat (L @ M) i n"
  by (simp add: isat_def nth_append)

lemma isat_inj: "distinct L \<Longrightarrow> isat L i n \<Longrightarrow> isat L j n \<Longrightarrow> i = j"
  by (auto simp: isat_def nth_eq_iff_index_eq)

lemma chain_next:
  assumes "chain q L" "isat L i n"
  shows "nnext q n = Some m \<Longrightarrow> isat L (Suc i) m" "nnext q n = None \<Longrightarrow> Suc i = length L"
proof -
  have i: "i < length L" "L ! i = n" using assms(2) by (simp_all add: isat_def)
  have l: "nnext q n = Some (L ! Suc i)" if "Suc i < length L" using assms(1) i that by (auto simp: chain_def)
  have e: "nnext q n = None" if "Suc i = length L"
    using assms(1) i that by (metis chain_def diff_Suc_1 last_conv_nth)
  show "isat L (Suc i) m" if "nnext q n = Some m"
    using l e that i(1) by (cases "Suc i = length L") (auto simp: isat_def)
  show "Suc i = length L" if "nnext q n = None"
    using l that i(1) by (cases "Suc i = length L") auto
qed

lemma chain_follow:
  assumes "chain q L" "isat L i n" "length L \<le> i + m + 1"
  shows "follow m (nnext q) n = drop (Suc i) L"
  using assms(2,3)
proof (induction m arbitrary: i n)
  case 0
  then show ?case by (simp add: isat_def)
next
  case (Suc m)
  show ?case
  proof (cases "nnext q n")
    case None
    then show ?thesis using chain_next(2) [OF assms(1) Suc.prems(1)] by simp
  next
    case (Some x)
    have x: "isat L (Suc i) x" by (rule chain_next(1) [OF assms(1) Suc.prems(1) Some])
    then show ?thesis using Some Suc.IH [OF x] Suc.prems(2) by (auto simp: isat_def Cons_nth_drop_Suc [symmetric])
  qed
qed

lemma chain_length: "chain q L \<Longrightarrow> length L \<le> nnodes q"
proof -
  assume c: "chain q L"
  then have "card (set L) \<le> card {..<nnodes q}" by (intro card_mono) (auto simp: chain_def)
  then show ?thesis using c by (simp add: chain_def distinct_card)
qed

lemma abs_items:
  assumes "chain q L" "isat L k (qhead q)"
  shows "items (absQueue q) = map (the \<circ> nwaiter q) (drop (Suc k) L)"
  using chain_follow [OF assms, of "nnodes q"] chain_length [OF assms(1)] by (simp add: absQueue_def)

subsection \<open>Invariant\<close>

text \<open>The node a goroutine has made and not yet linked.\<close>

fun q_own :: "qpc \<Rightarrow> (node \<times> wid) option" where
  "q_own (ETail w n) = Some (n, w)"
| "q_own (ENext w n t) = Some (n, w)"
| "q_own (ERecheck w n t nx) = Some (n, w)"
| "q_own (EHelp w n t x) = Some (n, w)"
| "q_own (ECasLink w n t) = Some (n, w)"
| "q_own _ = None"

text \<open>What a goroutine knows of the nodes it has loaded: \<open>h\<close> was the head, \<open>t\<close> the tail, and \<open>next\<close> of a
  node never changes once it is set.\<close>

fun q_knows :: "msq \<Rightarrow> node list \<Rightarrow> nat \<Rightarrow> nat \<Rightarrow> bool \<Rightarrow> qpc \<Rightarrow> bool" where
  "q_knows q L k j e (ENext w n t) = (t \<in> set L)"
| "q_knows q L k j e (ERecheck w n t nx) = (t \<in> set L \<and> (\<forall>x. nx = Some x \<longrightarrow> nnext q t = Some x))"
| "q_knows q L k j e (EHelp w n t x) = (t \<in> set L \<and> nnext q t = Some x)"
| "q_knows q L k j e (ECasLink w n t) = (t \<in> set L)"
| "q_knows q L k j e (ECasTail t n) = (t \<in> set L \<and> nnext q t = Some n)"
| "q_knows q L k j e (DTail h) = (\<exists>i \<le> k. isat L i h)"
| "q_knows q L k j e (DNext h t) = (\<exists>i a. i \<le> k \<and> i \<le> a \<and> a \<le> j \<and> isat L i h \<and> isat L a t)"
| "q_knows q L k j e (DRecheck h t nx) =
     ((\<exists>i a. i \<le> k \<and> i \<le> a \<and> a \<le> j \<and> isat L i h \<and> isat L a t) \<and>
      (case nx of None \<Rightarrow> e \<and> h = t | Some x \<Rightarrow> nnext q h = Some x))"
| "q_knows q L k j e (DHelp t x) = (t \<in> set L \<and> nnext q t = Some x)"
| "q_knows q L k j e (DCasHead h t x) =
     ((\<exists>i a. i \<le> k \<and> i < a \<and> a \<le> j \<and> isat L i h \<and> isat L a t) \<and> nnext q h = Some x)"
| "q_knows q L k j e (QRet r) = (r = QNil \<longrightarrow> e)"
| "q_knows q L k j e _ = True"

definition own_ok :: "msq \<Rightarrow> node list \<Rightarrow> (tid \<Rightarrow> qpc) \<Rightarrow> bool" where
  "own_ok q L pcs \<longleftrightarrow>
     (\<forall>t n w. q_own (pcs t) = Some (n, w) \<longrightarrow> n \<notin> set L \<and> n < nnodes q \<and> nwaiter q n = Some w \<and> nnext q n = None) \<and>
     (\<forall>t u n w v. q_own (pcs t) = Some (n, w) \<longrightarrow> q_own (pcs u) = Some (n, v) \<longrightarrow> t = u)"

lemma own_okD:
  assumes "own_ok q L pcs" "q_own (pcs t) = Some (n, w)"
  shows "n \<notin> set L" "n < nnodes q" "nwaiter q n = Some w" "nnext q n = None"
  using assms by (auto simp: own_ok_def)

definition mq_ok :: "mqsys \<Rightarrow> node list \<Rightarrow> nat \<Rightarrow> nat \<Rightarrow> bool" where
  "mq_ok s L k j \<longleftrightarrow> chain (msq s) L \<and> k \<le> j \<and> isat L k (qhead (msq s)) \<and> isat L j (qtail (msq s)) \<and>
     own_ok (msq s) L (mqpcs s) \<and> (\<forall>t. q_knows (msq s) L k j (sawEmpty s t) (mqpcs s t))"

definition mq_inv :: "mqsys \<Rightarrow> bool" where
  "mq_inv s \<longleftrightarrow> (\<exists>L k j. mq_ok s L k j)"

text \<open>What a goroutine knows stays true when others link nodes and move head and tail.\<close>

lemma q_knows_mono:
  assumes "q_knows q L k j e pc" "L' = L \<or> (\<exists>n. L' = L @ [n])" "k \<le> k'" "j \<le> j'"
    "\<And>n x. n \<in> set L \<Longrightarrow> nnext q n = Some x \<Longrightarrow> nnext q' n = Some x"
  shows "q_knows q' L' k' j' e pc"
proof -
  have i: "isat L i n \<Longrightarrow> isat L' i n" for i n using assms(2) by (auto intro: isat_append)
  have m: "n \<in> set L \<Longrightarrow> n \<in> set L'" for n using assms(2) by auto
  have two: "\<exists>i a. i \<le> k' \<and> r i a \<and> a \<le> j' \<and> isat L' i h \<and> isat L' a t"
    if "\<exists>i a. i \<le> k \<and> r i a \<and> a \<le> j \<and> isat L i h \<and> isat L a t" for r h t
    using that i assms(3,4) by (meson order_trans)
  show ?thesis
  proof (cases pc)
    case (DRecheck h t nx)
    then show ?thesis
      using assms(1) two [of "(\<le>)" h t] assms(5) by (auto split: option.splits dest: isatD)
  next
    case (DCasHead h t x)
    then show ?thesis using assms(1) two [of "(<)" h t] assms(5) by (auto dest: isatD)
  next
    case (DNext h t)
    then show ?thesis using assms(1) two [of "(\<le>)" h t] by auto
  next
    case (DTail h)
    then show ?thesis using assms(1,3) i by (auto intro: order_trans)
  qed (use assms(1,5) m in auto)
qed

lemma q_knows_size [simp]: "q_knows (q\<lparr>msize := n\<rparr>) L k j e pc = q_knows q L k j e pc"
  by (cases pc) (auto split: option.splits)

text \<open>A step that changes neither nodes nor head nor tail.\<close>

lemma mq_ok_local:
  assumes "mq_ok s L k j" "mqpcs s' = (mqpcs s)(t := pc)" "q_own pc = q_own (mqpcs s t) \<or> q_own pc = None"
    "msq s' = (msq s)\<lparr>msize := n\<rparr>" "\<And>u. u \<noteq> t \<Longrightarrow> sawEmpty s' u = sawEmpty s u"
    "q_knows (msq s) L k j (sawEmpty s' t) pc"
  shows "mq_ok s' L k j"
proof -
  have "own_ok (msq s') L (mqpcs s')"
    using assms(1,3) unfolding mq_ok_def own_ok_def assms(2,4) by (auto split: if_splits) metis+
  then show ?thesis using assms(1,2,4,5,6) by (auto simp: mq_ok_def chain_def)
qed

text \<open>A step that changes nodes, head or tail.\<close>

lemma mq_ok_move:
  assumes "mq_ok s L k j" "mqpcs s' = (mqpcs s)(t := pc)" "sawEmpty s' = sawEmpty s"
    "chain (msq s') L'" "L' = L \<or> (\<exists>n. L' = L @ [n])" "k \<le> k'" "j \<le> j'" "k' \<le> j'"
    "isat L' k' (qhead (msq s'))" "isat L' j' (qtail (msq s'))"
    "\<And>n x. n \<in> set L \<Longrightarrow> nnext (msq s) n = Some x \<Longrightarrow> nnext (msq s') n = Some x"
    "own_ok (msq s') L' (mqpcs s')" "q_knows (msq s') L' k' j' (sawEmpty s t) pc"
  shows "mq_ok s' L' k' j'"
proof -
  have "q_knows (msq s') L' k' j' (sawEmpty s u) (mqpcs s u)" for u
    using assms(1) by (intro q_knows_mono [OF _ assms(5-7,11)]) (auto simp: mq_ok_def)
  then show ?thesis using assms by (auto simp: mq_ok_def)
qed

lemma chain_cong:
  assumes "chain q L" "\<And>n. n \<in> set L \<Longrightarrow> nnext q' n = nnext q n \<and> nwaiter q' n = nwaiter q n" "nnodes q \<le> nnodes q'"
  shows "chain q' L"
proof -
  have "last L \<in> set L" "\<And>i. Suc i < length L \<Longrightarrow> L ! i \<in> set L \<and> L ! Suc i \<in> set L" using assms(1) by (auto simp: chain_def)
  then show ?thesis using assms by (auto simp: chain_def)
qed

lemma alloc_ok:
  assumes "mq_ok s L k j" "mqpcs s t = EAlloc w"
  shows "mq_ok (s\<lparr>msq := snd (allocNode w (msq s)), mqpcs := (mqpcs s)(t := ETail w (fst (allocNode w (msq s))))\<rparr>) L k j"
    (is "mq_ok ?s L k j")
proof -
  let ?n = "nnodes (msq s)"
  have c: "chain (msq s) L" and o: "own_ok (msq s) L (mqpcs s)" using assms(1) by (simp_all add: mq_ok_def)
  have l: "n < ?n" if "n \<in> set L" for n using c that by (auto simp: chain_def)
  have new: "?n \<notin> set L" using l by blast
  have f: "q_own (mqpcs s u) \<noteq> Some (?n, v)" for u v using o by (auto simp: own_ok_def)
  have "own_ok (msq ?s) L (mqpcs ?s)"
    using o f new by (auto simp: own_ok_def allocNode_def less_SucI)
  moreover have "chain (msq ?s) L" by (rule chain_cong [OF c]) (use new in \<open>auto simp: allocNode_def\<close>)
  ultimately show ?thesis
    using assms(1) new by (intro mq_ok_move [OF assms(1), of _ t]) (auto simp: mq_ok_def allocNode_def)
qed

lemma link_ok:
  assumes "mq_ok s L k j" "mqpcs s t = ECasLink w n l" "nnext (msq s) l = None"
  shows "mq_ok (s\<lparr>msq := (msq s)\<lparr>nnext := (nnext (msq s))(l := Some n)\<rparr>, mqpcs := (mqpcs s)(t := ECasTail l n)\<rparr>) (L @ [n]) k j"
    (is "mq_ok ?s _ k j")
proof -
  have c: "chain (msq s) L" and o: "own_ok (msq s) L (mqpcs s)" and kn: "q_knows (msq s) L k j (sawEmpty s t) (mqpcs s t)"
    using assms(1) by (auto simp: mq_ok_def)
  have l: "l \<in> set L" using kn assms(2) by simp
  then obtain i where i: "isat L i l" by (auto simp: isat_def in_set_conv_nth)
  have len: "length L = Suc i" using chain_next(2) [OF c i assms(3)] by simp
  have own: "n \<notin> set L" "n < nnodes (msq s)" "nwaiter (msq s) n = Some w" "nnext (msq s) n = None"
    using own_okD [OF o, of t n w] assms(2) by simp_all
  have ln: "l \<noteq> n" using l own(1) by blast
  have "chain (msq ?s) (L @ [n])"
    unfolding chain_def
  proof (intro conjI allI impI)
    fix m assume m: "Suc m < length (L @ [n])"
    then have Li: "L ! m = l \<longleftrightarrow> m = i" using isat_inj [of L m l i] c i len by (auto simp: chain_def isat_def)
    show "nnext (msq ?s) ((L @ [n]) ! m) = Some ((L @ [n]) ! Suc m)"
      using c m Li len i by (auto simp: chain_def nth_append less_Suc_eq isat_def)
    show "nwaiter (msq ?s) ((L @ [n]) ! Suc m) \<noteq> None"
      using c m own len by (auto simp: chain_def nth_append less_Suc_eq)
  qed (use c own ln in \<open>auto simp: chain_def\<close>)
  moreover have "own_ok (msq ?s) (L @ [n]) (mqpcs ?s)"
    unfolding own_ok_def
  proof (intro conjI allI impI)
    fix u m v assume u: "q_own (mqpcs ?s u) = Some (m, v)"
    then have "u \<noteq> t" "q_own (mqpcs s u) = Some (m, v)" by (auto split: if_splits)
    moreover from this have "m \<noteq> n" using o assms(2) unfolding own_ok_def by (metis q_own.simps(5))
    ultimately show "m \<notin> set (L @ [n])" "m < nnodes (msq ?s)" "nwaiter (msq ?s) m = Some v" "nnext (msq ?s) m = None"
      using o l by (auto simp: own_ok_def)
  next
    fix u u' m v v' assume "q_own (mqpcs ?s u) = Some (m, v)" "q_own (mqpcs ?s u') = Some (m, v')"
    then show "u = u'" using o by (auto simp: own_ok_def split: if_splits)
  qed
  ultimately show ?thesis
    using assms(1,3) l by (intro mq_ok_move [OF assms(1), of _ t]) (auto simp: mq_ok_def intro: isat_append)
qed

lemma tail_ok:
  assumes "mq_ok s L k j" "l \<in> set L" "nnext (msq s) l = Some x" "q_own pc = q_own (mqpcs s t) \<or> q_own pc = None"
    "\<And>q L k j e. q_knows q L k j e pc"
  shows "\<exists>j'. mq_ok (s\<lparr>msq := casTail l x (msq s), mqpcs := (mqpcs s)(t := pc)\<rparr>) L k j'" (is "\<exists>j'. mq_ok ?s L k j'")
proof -
  have c: "chain (msq s) L" and j: "isat L j (qtail (msq s))" and o: "own_ok (msq s) L (mqpcs s)"
    using assms(1) by (simp_all add: mq_ok_def)
  have q: "nnext (msq ?s) = nnext (msq s)" "nwaiter (msq ?s) = nwaiter (msq s)" "nnodes (msq ?s) = nnodes (msq s)"
    "qhead (msq ?s) = qhead (msq s)"
    by simp_all
  obtain j' where j': "j \<le> j'" "isat L j' (qtail (msq ?s))"
    using j chain_next(1) [OF c j, of x] assms(3) that [of j] that [of "Suc j"]
    by (cases "qtail (msq s) = l") (auto simp: casTail_def)
  have "own_ok (msq ?s) L (mqpcs ?s)"
    using o assms(4) unfolding own_ok_def q by (auto split: if_splits) metis+
  moreover have "chain (msq ?s) L" by (rule chain_cong [OF c]) (simp_all add: q)
  ultimately show ?thesis
    using assms(1,5) j' q by (intro exI [of _ j'] mq_ok_move [OF assms(1), of _ t]) (auto simp: mq_ok_def)
qed

lemma head_ok:
  assumes "mq_ok s L k j" "mqpcs s t = DCasHead h l x" "qhead (msq s) = h"
  shows "mq_ok (s\<lparr>msq := (msq s)\<lparr>qhead := x\<rparr>, mqpcs := (mqpcs s)(t := DSizeDec w)\<rparr>) L (Suc k) j" (is "mq_ok ?s L _ j")
    and "isat L (Suc k) x"
proof -
  have c: "chain (msq s) L" and h: "isat L k (qhead (msq s))" and o: "own_ok (msq s) L (mqpcs s)"
    and kn: "q_knows (msq s) L k j (sawEmpty s t) (mqpcs s t)"
    using assms(1) by (auto simp: mq_ok_def)
  obtain i a where i: "i < a" "a \<le> j" "isat L i h" "nnext (msq s) h = Some x" using kn assms(2) by auto
  have "i = k" using isat_inj [OF _ i(3)] h assms(3) c by (auto simp: chain_def)
  then show x: "isat L (Suc k) x" using chain_next(1) [OF c i(3,4)] by simp
  have "own_ok (msq ?s) L (mqpcs ?s)" using o by (auto simp: own_ok_def split: if_splits)
  moreover have "chain (msq ?s) L" by (rule chain_cong [OF c]) simp_all
  ultimately show "mq_ok ?s L (Suc k) j"
    using assms(1) x i \<open>i = k\<close> by (intro mq_ok_move [OF assms(1), of _ t]) (auto simp: mq_ok_def)
qed

lemma mq_local_step:
  assumes "mq_ok s L k j" "q_own pc = q_own (mqpcs s t) \<or> q_own pc = None" "q_knows (msq s) L k j (sawEmpty s t) pc"
  shows "mq_ok (s\<lparr>mqpcs := (mqpcs s)(t := pc)\<rparr>) L k j" "mq_ok (s\<lparr>msq := (msq s)\<lparr>msize := n\<rparr>, mqpcs := (mqpcs s)(t := pc)\<rparr>) L k j"
proof -
  have "msq s = (msq s)\<lparr>msize := msize (msq s)\<rparr>" by simp
  then show "mq_ok (s\<lparr>mqpcs := (mqpcs s)(t := pc)\<rparr>) L k j"
    by (intro mq_ok_local [OF assms(1) _ assms(2), where n = "msize (msq s)"]) (use assms(3) in auto)
  show "mq_ok (s\<lparr>msq := (msq s)\<lparr>msize := n\<rparr>, mqpcs := (mqpcs s)(t := pc)\<rparr>) L k j"
    by (rule mq_ok_local [OF assms(1) _ assms(2)]) (use assms(3) in auto)
qed

lemma enqueue_ok:
  assumes "mq_ok s L k j" "Enqueue_step (mqpcs s t) (msq s) = Some (pc, q)"
  shows "\<exists>L' k' j'. mq_ok (s\<lparr>msq := q, mqpcs := (mqpcs s)(t := pc)\<rparr>) L' k' j'"
proof -
  have kn: "q_knows (msq s) L k j (sawEmpty s t) (mqpcs s t)" and j: "isat L j (qtail (msq s))"
    using assms(1) by (auto simp: mq_ok_def)
  have loc: ?thesis if "q = (msq s)\<lparr>msize := n\<rparr>" "q_own pc = q_own (mqpcs s t) \<or> q_own pc = None"
      "q_knows (msq s) L k j (sawEmpty s t) pc" for n
    using mq_local_step(2) [OF assms(1) that(2,3), of n] that(1) by blast
  note loc0 = loc [of "msize (msq s)"]
  show ?thesis
  proof (cases "mqpcs s t")
    case (EAlloc w)
    then show ?thesis using assms(2) alloc_ok [OF assms(1) EAlloc] by (auto simp: allocNode_def Let_def)
  next
    case (ECasLink w n l)
    then show ?thesis
      using assms(2) link_ok [OF assms(1) ECasLink] loc0 by (auto split: if_splits)
  next
    case (ECasTail l n)
    then show ?thesis using assms kn tail_ok [OF assms(1), of l n ESizeInc t] by simp blast
  next
    case (EHelp w n l x)
    then show ?thesis using assms kn tail_ok [OF assms(1), of l x "ETail w n" t] by (auto, blast)
  next
    case (ERecheck w n l nx)
    then show ?thesis using assms(2) kn loc0 by (auto split: option.splits if_splits)
  next
    case ESizeInc
    then show ?thesis using assms(2) loc by auto
  qed (use assms(2) kn loc0 isatD [OF j] in auto)
qed

lemma dequeue_ok:
  assumes "mq_ok s L k j" "Dequeue_step (mqpcs s t) (msq s) (mqst s) = Some (pc, q, st)" "\<And>h l. mqpcs s t \<noteq> DNext h l"
  shows "\<exists>L' k' j'. mq_ok (s\<lparr>msq := q, mqpcs := (mqpcs s)(t := pc)\<rparr>) L' k' j'"
proof -
  have c: "chain (msq s) L" and kn: "q_knows (msq s) L k j (sawEmpty s t) (mqpcs s t)" and kj: "k \<le> j"
    and h: "isat L k (qhead (msq s))" and j: "isat L j (qtail (msq s))"
    using assms(1) by (auto simp: mq_ok_def)
  have loc: ?thesis if "q = (msq s)\<lparr>msize := n\<rparr>" "q_own pc = q_own (mqpcs s t) \<or> q_own pc = None"
      "q_knows (msq s) L k j (sawEmpty s t) pc" for n
    using mq_local_step(2) [OF assms(1) that(2,3), of n] that(1) by blast
  note loc0 = loc [of "msize (msq s)"]
  show ?thesis
  proof (cases "mqpcs s t")
    case DHead
    then have "pc = DTail (qhead (msq s))" "q = msq s" using assms(2) by auto
    moreover have "q_knows (msq s) L k j (sawEmpty s t) (DTail (qhead (msq s)))" using h by auto
    ultimately show ?thesis by (intro loc0) (simp_all del: q_knows.simps)
  next
    case (DTail n)
    then obtain i where "i \<le> k" "isat L i n" using kn by auto
    then have "q_knows (msq s) L k j (sawEmpty s t) (DNext n (qtail (msq s)))" using kj j unfolding q_knows.simps by (meson order_trans order_refl)
    moreover have "pc = DNext n (qtail (msq s))" "q = msq s" using assms(2) DTail by auto
    ultimately show ?thesis by (intro loc0) (simp_all del: q_knows.simps)
  next
    case (DRecheck n l nx)
    then obtain i a where i: "i \<le> k" "i \<le> a" "a \<le> j" "isat L i n" "isat L a l" using kn by auto
    have "q_knows (msq s) L k j (sawEmpty s t) pc"
    proof (cases "\<exists>x. pc = DCasHead n l x")
      case True
      then obtain x where x: "pc = DCasHead n l x" "nx = Some x" "n \<noteq> l"
        using assms(2) DRecheck by (auto split: if_splits option.splits)
      then have "i \<noteq> a" using i by (auto simp: isat_def)
      then have "i < a" using i(2) by simp
      then show ?thesis using x i kn DRecheck by auto
    next
      case False
      then show ?thesis using assms(2) kn DRecheck i by (auto split: if_splits option.splits dest: isatD)
    qed
    moreover have "q = msq s" "q_own pc = None" using assms(2) DRecheck by (auto split: if_splits option.splits)
    ultimately show ?thesis using loc0 by simp
  next
    case (DHelp l x)
    then show ?thesis using assms kn tail_ok [OF assms(1), of l x DHead t] by simp blast
  next
    case (DCasHead n l x)
    show ?thesis
    proof (cases "qhead (msq s) = n")
      case True
      then obtain w where w: "pc = DSizeDec w" "q = (msq s)\<lparr>qhead := x\<rparr>"
        using assms(2) DCasHead by (auto split: option.splits)
      show ?thesis using head_ok(1) [OF assms(1) DCasHead True, of w] unfolding w by blast
    next
      case False
      then have "pc = DHead" "q = msq s" using assms(2) DCasHead by auto
      then show ?thesis by (intro loc0) simp_all
    qed
  next
    case (DSizeDec w)
    then show ?thesis using assms(2) loc by auto
  qed (use assms(2,3) kn loc0 h in auto)
qed

lemma next_ok:
  assumes "mq_ok s L k j" "mqpcs s t = DNext h l"
    "s' = s\<lparr>mqpcs := (mqpcs s)(t := DRecheck h l (nnext (msq s) h)), sawEmpty := (sawEmpty s)(t := (items (absQueue (msq s)) = []))\<rparr>"
  shows "mq_ok s' L k j"
proof -
  have c: "chain (msq s) L" and kn: "q_knows (msq s) L k j (sawEmpty s t) (mqpcs s t)" and hd: "isat L k (qhead (msq s))"
    using assms(1) by (auto simp: mq_ok_def)
  obtain i a where i: "i \<le> k" "i \<le> a" "a \<le> j" "isat L i h" "isat L a l" using kn assms(2) by auto
  have "items (absQueue (msq s)) = [] \<and> h = l" if "nnext (msq s) h = None"
  proof -
    have "Suc i = length L" by (rule chain_next(2) [OF c i(4) that])
    moreover have "k < length L" "a < length L" using hd i(5) by (simp_all add: isat_def)
    ultimately have "k = i" "a = i" using i(1,2) by simp_all
    then show ?thesis using abs_items [OF c hd] \<open>Suc i = length L\<close> i(4,5) by (simp add: isat_def)
  qed
  then have kn': "q_knows (msq s) L k j (items (absQueue (msq s)) = []) (DRecheck h l (nnext (msq s) h))"
    using i by (simp split: option.splits) blast
  show ?thesis
    by (rule mq_ok_local [OF assms(1), where n = "msize (msq s)" and t = t and pc = "DRecheck h l (nnext (msq s) h)"])
      (simp_all add: assms(3) kn' del: q_knows.simps)
qed

lemma mq_inv_step:
  assumes "mq_inv s" "mq_exec e s = Some s'"
  shows "mq_inv s'"
proof -
  obtain L k j where ok: "mq_ok s L k j" using assms(1) by (auto simp: mq_inv_def)
  show ?thesis
  proof (cases e)
    case (QInvoke t op)
    then obtain r where r: "mqpcs s t = QRet r" "s' = s\<lparr>mqpcs := (mqpcs s)(t := q_entry op)\<rparr>"
      using assms(2) by (auto split: qpc.splits)
    then show ?thesis using mq_local_step(1) [OF ok, of "q_entry op" t] by (cases op) (auto simp: mq_inv_def)
  next
    case (QStore st)
    then have "mq_ok s' L k j" using assms(2) ok by (auto simp: mq_ok_def)
    then show ?thesis unfolding mq_inv_def by blast
  next
    case (QGo t)
    show ?thesis
    proof (cases "Enqueue_step (mqpcs s t) (msq s)")
      case (Some x)
      then show ?thesis using assms(2) QGo enqueue_ok [OF ok] by (cases x) (auto simp: mq_inv_def)
    next
      case None
      then obtain pc q st where d: "Dequeue_step (mqpcs s t) (msq s) (mqst s) = Some (pc, q, st)"
        using assms(2) QGo by (auto split: option.splits)
      show ?thesis
      proof (cases "\<exists>h l. mqpcs s t = DNext h l")
        case True
        then obtain h l where "mqpcs s t = DNext h l" by blast
        then have "mq_ok s' L k j" using assms(2) QGo None d by (intro next_ok [OF ok]) auto
        then show ?thesis unfolding mq_inv_def by blast
      next
        case False
        then have s': "s' = s\<lparr>msq := q, mqst := st, mqpcs := (mqpcs s)(t := pc)\<rparr>"
          using assms(2) QGo None d by (auto split: qpc.splits)
        obtain L' k' j' where "mq_ok (s\<lparr>msq := q, mqpcs := (mqpcs s)(t := pc)\<rparr>) L' k' j'"
          using dequeue_ok [OF ok d] False by blast
        then have "mq_ok s' L' k' j'" by (simp add: s' mq_ok_def)
        then show ?thesis unfolding mq_inv_def by blast
      qed
    qed
  qed
qed

lemma mq_inv_init: "mq_inv mq_init"
proof -
  have "mq_ok mq_init [0] 0 0"
    by (simp add: mq_ok_def mq_init_def newMSQueue_def chain_def own_ok_def isat_def)
  then show ?thesis unfolding mq_inv_def by blast
qed

interpretation ms_queue: invariant_machine mq_exec mq_init mq_inv
  by unfold_locales (auto intro: mq_inv_init mq_inv_step)

subsection \<open>The queue of waiters\<close>

text \<open>What a step does to the queue as the other theories see it: the compare-and-swap of \<^verbatim>\<open>tail.next\<close>
  appends, the one of \<^verbatim>\<open>head\<close> pops.\<close>

definition linearize :: "qpc \<Rightarrow> qpc \<Rightarrow> WaiterQueue \<Rightarrow> WaiterQueue" where
  "linearize pc pc' q = (case (pc, pc') of
      (ECasLink w n l, ECasTail l' n') \<Rightarrow> enqLink w q
    | (DCasHead h l x, DSizeDec w) \<Rightarrow> (case deqPop q of None \<Rightarrow> q | Some (w', q') \<Rightarrow> q')
    | (ESizeInc, _) \<Rightarrow> sizeAdd 1 q
    | (DSizeDec w, _) \<Rightarrow> sizeAdd (- 1) q
    | _ \<Rightarrow> q)"

lemma abs_size [simp]: "absQueue (q\<lparr>msize := n\<rparr>) = (absQueue q)\<lparr>qsize := n\<rparr>"
  by (simp add: absQueue_def)

lemma abs_tail [simp]: "absQueue (casTail t n q) = absQueue q"
  by (simp add: absQueue_def)

lemma abs_eqI: "items (absQueue q') = xs \<Longrightarrow> msize q' = msize q \<Longrightarrow> absQueue q' = (absQueue q)\<lparr>items := xs\<rparr>"
  by (simp add: absQueue_def)

lemma abs_alloc:
  assumes "mq_ok s L k j" "mqpcs s t = EAlloc w"
  shows "absQueue (snd (allocNode w (msq s))) = absQueue (msq s)"
proof -
  have c: "chain (msq s) L" "isat L k (qhead (msq s))" using assms(1) by (simp_all add: mq_ok_def)
  have c': "chain (snd (allocNode w (msq s))) L" using alloc_ok [OF assms] by (simp add: mq_ok_def)
  have "n < nnodes (msq s)" if "n \<in> set L" for n using c(1) that by (simp add: chain_def)
  then have "items (absQueue (snd (allocNode w (msq s)))) = items (absQueue (msq s))"
    using abs_items [OF c] abs_items [OF c', of k] c(2) by (auto simp: allocNode_def dest!: in_set_dropD)
  then show ?thesis by (simp add: absQueue_def allocNode_def)
qed

lemma abs_link:
  assumes "mq_ok s L k j" "mqpcs s t = ECasLink w n l" "nnext (msq s) l = None"
  shows "absQueue ((msq s)\<lparr>nnext := (nnext (msq s))(l := Some n)\<rparr>) = enqLink w (absQueue (msq s))" (is "absQueue ?q = _")
proof -
  have c: "chain (msq s) L" "isat L k (qhead (msq s))" and o: "own_ok (msq s) L (mqpcs s)"
    using assms(1) by (simp_all add: mq_ok_def)
  have c': "chain ?q (L @ [n])" using link_ok [OF assms] by (simp add: mq_ok_def)
  have "nwaiter (msq s) n = Some w" using own_okD(3) [OF o, of t n w] assms(2) by simp
  moreover have "Suc k \<le> length L" using c(2) by (simp add: isat_def)
  ultimately have "items (absQueue ?q) = items (absQueue (msq s)) @ [w]"
    using abs_items [OF c] abs_items [OF c', of k] isat_append [OF c(2)] by simp
  then have "absQueue ?q = (absQueue (msq s))\<lparr>items := items (absQueue (msq s)) @ [w]\<rparr>" by (rule abs_eqI) simp
  then show ?thesis by (simp add: enqLink_def)
qed

lemma abs_pop:
  assumes "mq_ok s L k j" "mqpcs s t = DCasHead h l x" "qhead (msq s) = h"
  shows "\<exists>w. nwaiter (msq s) x = Some w \<and> deqPop (absQueue (msq s)) = Some (w, absQueue ((msq s)\<lparr>qhead := x\<rparr>))"
proof -
  have c: "chain (msq s) L" "isat L k (qhead (msq s))" using assms(1) by (simp_all add: mq_ok_def)
  have x: "isat L (Suc k) x" by (rule head_ok(2) [OF assms])
  have c': "chain ((msq s)\<lparr>qhead := x\<rparr>) L" by (rule chain_cong [OF c(1)]) simp_all
  have "nwaiter (msq s) x \<noteq> None" using c(1) x by (auto simp: chain_def isat_def)
  then obtain w where w: "nwaiter (msq s) x = Some w" by blast
  have "drop (Suc k) L = x # drop (Suc (Suc k)) L" using x by (auto simp: isat_def Cons_nth_drop_Suc [symmetric])
  then have "items (absQueue (msq s)) = w # items (absQueue ((msq s)\<lparr>qhead := x\<rparr>))"
    using abs_items [OF c] abs_items [OF c', of "Suc k"] x w by simp
  then show ?thesis using w by (simp add: deqPop_def absQueue_def)
qed

text \<open>C7. The lock-free queue implements the queue: for all schedules, the successful compare-and-swap of
  \<^verbatim>\<open>tail.next\<close> in \<^verbatim>\<open>Enqueue\<close> appends the waiter, the one of \<^verbatim>\<open>head\<close> in \<^verbatim>\<open>Dequeue\<close> takes out the first waiter and
  is about to return this one, the counter changes where the code adds to it, and no other action changes the
  queue; \<^verbatim>\<open>Dequeue\<close> returns nil only if the queue was empty when it loaded \<^verbatim>\<open>head.next\<close>; and no
  goroutine ever meets a nil node or a node without waiter.\<close>

theorem msqueue_refines_queue:
  assumes "reachable mq_exec mq_init s"
  shows "(\<forall>t s'. mq_exec (QGo t) s = Some s' \<longrightarrow>
       absQueue (msq s') = linearize (mqpcs s t) (mqpcs s' t) (absQueue (msq s)) \<and>
       (\<forall>h l x w. mqpcs s t = DCasHead h l x \<and> mqpcs s' t = DSizeDec w \<longrightarrow>
          deqPop (absQueue (msq s)) = Some (w, absQueue (msq s')))) \<and>
     (\<forall>t. mqpcs s t = QRet QNil \<longrightarrow> sawEmpty s t) \<and>
     (\<forall>t. (\<exists>r. mqpcs s t = QRet r) \<or> mq_exec (QGo t) s \<noteq> None)"
proof -
  obtain L k j where ok: "mq_ok s L k j" using ms_queue.reachable_inv [OF assms] by (auto simp: mq_inv_def)
  have kn: "q_knows (msq s) L k j (sawEmpty s t) (mqpcs s t)" for t using ok by (simp add: mq_ok_def)
  have pop: "deqPop (absQueue (msq s)) = Some (w, absQueue (msq s'))"
    if "mq_exec (QGo t) s = Some s'" "mqpcs s t = DCasHead h l x" "mqpcs s' t = DSizeDec w" for t s' h l x w
    using that abs_pop [OF ok that(2)] by (auto split: if_splits option.splits)
  have lin: "absQueue (msq s') = linearize (mqpcs s t) (mqpcs s' t) (absQueue (msq s))" if x: "mq_exec (QGo t) s = Some s'" for t s'
  proof (cases "mqpcs s t")
    case (EAlloc w)
    then show ?thesis using x abs_alloc [OF ok EAlloc] by (auto simp: linearize_def allocNode_def Let_def)
  next
    case (ECasLink w n l)
    then show ?thesis using x abs_link [OF ok ECasLink] by (auto simp: linearize_def split: if_splits)
  next
    case (DCasHead h l y)
    then show ?thesis using x abs_pop [OF ok DCasHead] by (auto simp: linearize_def split: if_splits option.splits)
  qed (use x in \<open>auto simp: linearize_def sizeAdd_def absQueue_def split: if_splits option.splits qpc.splits\<close>)
  have go: "(\<exists>r. mqpcs s t = QRet r) \<or> mq_exec (QGo t) s \<noteq> None" for t
  proof (cases "mqpcs s t")
    case (DCasHead h l x)
    then show ?thesis using abs_pop [OF ok DCasHead] by auto
  next
    case (DRecheck h l nx)
    then show ?thesis using kn [of t] by (auto split: option.splits)
  qed (auto simp: allocNode_def split: option.splits)
  have "sawEmpty s t" if "mqpcs s t = QRet QNil" for t using kn [of t] that by simp
  then show ?thesis using pop lin go by blast
qed

text \<open>Two goroutines enqueue at the same time: the second finds the tail lagging and helps; a third
  dequeues.\<close>

definition mq_run :: "q_event list" where
  "mq_run = [QInvoke 0 (OpEnqueue 5), QInvoke 1 (OpEnqueue 6)] @ replicate 5 (QGo 0) @ replicate 9 (QGo 1) @
     QInvoke 2 OpDequeue # replicate 4 (QGo 2)"

theorem msqueue_refines_queue_witness:
  "\<exists>s s'. run mq_exec mq_run mq_init = Some s \<and> mq_exec (QGo 2) s = Some s' \<and>
     deqPop (absQueue (msq s)) = Some (5, absQueue (msq s')) \<and> items (absQueue (msq s')) = [6]"
proof -
  have "map_option (\<lambda>s. (mqpcs s 2, map_option (\<lambda>s'. (mqpcs s' 2, items (absQueue (msq s')))) (mq_exec (QGo 2) s)))
      (run mq_exec mq_run mq_init) = Some (DCasHead 0 1 1, Some (DSizeDec 5, [6]))"
    by code_simp
  then obtain s s' where s: "run mq_exec mq_run mq_init = Some s" "mqpcs s 2 = DCasHead 0 1 1"
    "mq_exec (QGo 2) s = Some s'" "mqpcs s' 2 = DSizeDec 5" "items (absQueue (msq s')) = [6]" by auto
  have "deqPop (absQueue (msq s)) = Some (5, absQueue (msq s'))"
    using msqueue_refines_queue [OF run_reachable [OF s(1)]] s(2-4) by blast
  then show ?thesis using s by blast
qed

end
