(* ===== verification/ServerCreates.thy ===== *)
theory ServerCreates
  imports ServerRegistry
begin

text \<open>
  What a client has to send for a primitive to be created: the facts about the handlers of \<^verbatim>\<open>web/server.go\<close> that the
  command line tool and the client library rely on.
\<close>

text \<open>The connection \<open>conn\<close> of the namespace \<open>ns\<close> may create a primitive under a free identifier.\<close>

definition may_create :: "conn \<Rightarrow> string \<Rightarrow> string \<Rightarrow> string \<Rightarrow> Server \<Rightarrow> bool" where
  "may_create conn ns pid name s \<longleftrightarrow> validatePrimID pid = [] \<and> validatePrimName name = [] \<and> roleForConn conn s = RoleAdmin \<and>
     map_of (connPrimsMap s) conn = Some ns \<and> \<not> primExists (primsIn ns s) pid"

text \<open>The capacity or the number of parties, for the types that have one.\<close>

fun primSize :: "prim \<Rightarrow> int option" where
  "primSize (PSemaphore x) = Some (sint (capacity x))"
| "primSize (PBarrier x) = Some (sint (parties x))"
| "primSize _ = None"

text \<open>The message makes the server create a new primitive of the type \<open>ptype\<close>, of the size \<open>n\<close> if the type has
  one, and answer with success.\<close>

definition creates_as :: "int \<Rightarrow> conn \<Rightarrow> string \<Rightarrow> string \<Rightarrow> string \<Rightarrow> string \<Rightarrow> int \<Rightarrow> Server \<Rightarrow> wsMessage \<Rightarrow> bool" where
  "creates_as t conn ns pid name ptype n s msg \<longleftrightarrow> (\<exists>obj acts message.
     handleMessage t conn msg s = (created conn ns pid name obj s, createActs conn ns pid name obj s @ acts) \<and>
     primType obj = ptype \<and> new_prim obj \<and> pred_option (\<lambda>m. m = n) (primSize obj) \<and>
     ActSend conn (OSuccess message None) \<in> set acts)"

lemma create_fields:
  "\<not> fieldMatches ''id'' ''name''" "\<not> fieldMatches ''name'' ''id''" "fieldMatches ''id'' ''id''" "fieldMatches ''name'' ''name''"
  "\<not> fieldMatches ''id'' ''capacity''" "\<not> fieldMatches ''name'' ''capacity''" "fieldMatches ''capacity'' ''capacity''"
  "\<not> fieldMatches ''capacity'' ''id''" "\<not> fieldMatches ''capacity'' ''name''"
  "\<not> fieldMatches ''id'' ''parties''" "\<not> fieldMatches ''name'' ''parties''" "fieldMatches ''parties'' ''parties''"
  "\<not> fieldMatches ''parties'' ''id''" "\<not> fieldMatches ''parties'' ''name''"
  by code_simp+

lemma op_fields:
  "fieldMatches ''id'' ''id''" "\<not> fieldMatches ''id'' ''op''" "\<not> fieldMatches ''id'' ''holdMs''"
  "fieldMatches ''op'' ''op''" "\<not> fieldMatches ''op'' ''id''" "\<not> fieldMatches ''op'' ''holdMs''"
  "fieldMatches ''holdMs'' ''holdMs''" "\<not> fieldMatches ''holdMs'' ''id''" "\<not> fieldMatches ''holdMs'' ''op''"
  by code_simp+

lemmas decode_defs = structMembers_def fieldString_def fieldInt32_def fieldInt_def asString_def asInt32_def asInt_def asIntIn_def

lemma decode_plain: "decodeCreate (Some (JObj [(''id'', JStr pid), (''name'', JStr name)])) = Some (pid, name)"
  by (simp add: decodeCreate_def decode_defs create_fields)

lemma decode_capacity:
  "- (2 ^ 31) \<le> n \<Longrightarrow> n < 2 ^ 31 \<Longrightarrow>
   decodeSized ''capacity'' (Some (JObj [(''capacity'', JNum n), (''id'', JStr pid), (''name'', JStr name)])) = Some (pid, name, word_of_int n)"
  by (simp add: decodeSized_def decode_defs create_fields)

lemma decode_parties:
  "- (2 ^ 31) \<le> n \<Longrightarrow> n < 2 ^ 31 \<Longrightarrow>
   decodeSized ''parties'' (Some (JObj [(''id'', JStr pid), (''name'', JStr name), (''parties'', JNum n)])) = Some (pid, name, word_of_int n)"
  by (simp add: decodeSized_def decode_defs create_fields)

text \<open>Operations arrive at the server as they were given, with or without the member \<^verbatim>\<open>holdMs\<close>.\<close>

lemma decode_op:
  assumes "- (2 ^ 63) \<le> ms" "ms < 2 ^ 63"
  shows "decodeOp (Some (JObj [(''holdMs'', JNum ms), (''id'', JStr pid), (''op'', JStr op)])) = Some (pid, op, ms)"
  using assms by (simp add: decodeOp_def decode_defs op_fields)

lemma decode_op_short: "decodeOp (Some (JObj [(''id'', JStr pid), (''op'', JStr op)])) = Some (pid, op, 0)"
  by (simp add: decodeOp_def decode_defs op_fields)

lemma creates_asI:
  assumes "may_create conn ns pid name s" "primType obj = ptype" "new_prim obj" "pred_option (\<lambda>m. m = n) (primSize obj)"
    and "handleMessage t conn msg s = createPrimitive conn pid name obj (kput (kindOf obj) pid) True m s"
  shows "creates_as t conn ns pid name ptype n s msg"
proof -
  have "createPrimitive conn pid name obj (kput (kindOf obj) pid) True m s =
      (created conn ns pid name obj s, createActs conn ns pid name obj s @
        [ActAudit conn (entry0\<lparr>eEvent := ''primitive_created'', ePrimitiveID := pid, ePrimitiveType := primType obj,
           eResult := ''success''\<rparr>), ActSend conn (OSuccess m None)])"
    using assms(1) by (simp add: may_create_def createPrimitive_def connPrimsFor_def Let_def WithCancel_def created_def createActs_def)
  then show ?thesis using assms(2-5) unfolding creates_as_def by (intro exI [of _ obj] exI conjI) auto
qed

lemma creator_allowed: "may_create conn ns pid name s \<Longrightarrow> authorizeMessage conn m s = None"
  by (simp add: may_create_def authorizeMessage_def authorizeRole_def RoleAdmin_def RoleViewer_def)

definition plainKinds :: "(string \<times> string) list" where
  "plainKinds = [(''createRWLock'', TypeRWLock), (''createMutex'', TypeMutex), (''createCondVar'', TypeCondVar),
     (''createWaitGroup'', TypeWaitGroup), (''createOnce'', TypeOnce), (''createSingleflight'', TypeSingleflight)]"

lemma creates_plain:
  assumes c: "may_create conn ns pid name s" and k: "(ty, ptype) \<in> set plainKinds"
  shows "creates_as t conn ns pid name ptype n s \<lparr>mType = ty, mPayload = Some (JObj [(''id'', JStr pid), (''name'', JStr name)])\<rparr>"
proof -
  have v: "validatePrimID pid = []" "validatePrimName name = []" using c by (simp_all add: may_create_def)
  note defs = handleMessage_def create_puts createWith_def decode_plain v creator_allowed [OF c]
  from k consider "ty = ''createRWLock''" "ptype = TypeRWLock" | "ty = ''createMutex''" "ptype = TypeMutex"
    | "ty = ''createCondVar''" "ptype = TypeCondVar" | "ty = ''createWaitGroup''" "ptype = TypeWaitGroup"
    | "ty = ''createOnce''" "ptype = TypeOnce" | "ty = ''createSingleflight''" "ptype = TypeSingleflight"
    unfolding plainKinds_def list.set insert_iff empty_iff prod.inject by argo
  then show ?thesis
  proof cases
    case 1
    show ?thesis by (rule creates_asI [OF c, of "PRWLock (NewRWLock t)" _ _ _ _ "''RWLock created''"]) (simp_all add: 1 defs handleCreateRWLock_def)
  next
    case 2
    show ?thesis by (rule creates_asI [OF c, of "PMutex (NewMutex t)" _ _ _ _ "''Mutex created''"]) (simp_all add: 2 defs handleCreateMutex_def)
  next
    case 3
    show ?thesis by (rule creates_asI [OF c, of "PCondVar (NewCondVar t)" _ _ _ _ "''CondVar created''"]) (simp_all add: 3 defs handleCreateCondVar_def)
  next
    case 4
    show ?thesis by (rule creates_asI [OF c, of "PWaitGroup (NewWaitGroup t)" _ _ _ _ "''WaitGroup created''"]) (simp_all add: 4 defs handleCreateWaitGroup_def)
  next
    case 5
    show ?thesis by (rule creates_asI [OF c, of "POnce (NewOnce t)" _ _ _ _ "''Once created''"]) (simp_all add: 5 defs handleCreateOnce_def)
  next
    case 6
    show ?thesis by (rule creates_asI [OF c, of "PGroup (NewGroup t)" _ _ _ _ "''Singleflight created''"]) (simp_all add: 6 defs handleCreateSingleflight_def)
  qed
qed

lemma sized_word: "0 < n \<Longrightarrow> n < 2 ^ 31 \<Longrightarrow> sint (word_of_int n :: int32) = n"
  by (simp add: sint_sbintrunc' signed_take_bit_int_eq_self)

lemma creates_semaphore:
  assumes c: "may_create conn ns pid name s" and n: "0 < n" "n < 2 ^ 31"
  shows "creates_as t conn ns pid name TypeSemaphore n s
    \<lparr>mType = ''createSemaphore'', mPayload = Some (JObj [(''capacity'', JNum n), (''id'', JStr pid), (''name'', JStr name)])\<rparr>"
proof -
  have v: "validatePrimID pid = []" "validatePrimName name = []" using c by (simp_all add: may_create_def)
  obtain x where "NewSemaphore t (word_of_int n) = Inr x" "capacity x = word_of_int n"
    using sized_word [OF n] n by (auto simp: NewSemaphore_def)
  then show ?thesis using n sized_word [OF n] sized_new(1)
    by (intro creates_asI [OF c, of "PSemaphore x" _ _ _ _ "''Semaphore created''"])
      (simp_all add: handleMessage_def create_puts decode_capacity v creator_allowed [OF c] handleCreateSemaphore_def)
qed

lemma creates_barrier:
  assumes c: "may_create conn ns pid name s" and n: "0 < n" "n < 2 ^ 31"
  shows "creates_as t conn ns pid name TypeBarrier n s
    \<lparr>mType = ''createBarrier'', mPayload = Some (JObj [(''id'', JStr pid), (''name'', JStr name), (''parties'', JNum n)])\<rparr>"
proof -
  have v: "validatePrimID pid = []" "validatePrimName name = []" using c by (simp_all add: may_create_def)
  obtain x where "NewBarrier t (word_of_int n) = Inr x" "parties x = word_of_int n"
    using sized_word [OF n] n by (auto simp: NewBarrier_def)
  then show ?thesis using n sized_word [OF n] sized_new(2)
    by (intro creates_asI [OF c, of "PBarrier x" _ _ _ _ "''Barrier created''"])
      (simp_all add: handleMessage_def create_puts decode_parties v creator_allowed [OF c] handleCreateBarrier_def)
qed

end
