(* ===== verification/Client.thy ===== *)
theory Client
  imports ServerOps ServerCreates
begin

text \<open>
  \<^verbatim>\<open>pkg/client\<close>: the messages of the methods in \<^verbatim>\<open>primitives.go\<close>, and the machinery of \<^verbatim>\<open>client.go\<close> that sends a
  message and waits for its answer, as a machine: goroutines that call \<^verbatim>\<open>send\<close>, \<^verbatim>\<open>Connect\<close> and \<^verbatim>\<open>Close\<close>, the read loop
  of every connection, and the server at the other end, which answers every request once.

  A critical section under \<^verbatim>\<open>c.mu\<close> is one action. The reply channel of a call has one slot and is named after
  the goroutine that made it. Answers carry the name of the call they belong to; the program does not see it.
  The outcome of dialling, reading and writing, and whether the context of a call is done, come in with every
  action (\<open>cinp\<close>). Durations are 64-bit words.
\<close>

subsection \<open>Messages\<close>

datatype clientCall =
    CreateRWLock string string | RLockRWLock string int | RUnlockRWLock string | LockRWLock string int | UnlockRWLock string
  | TryRLockRWLock string | TryLockRWLock string
  | CreateSemaphore string string int32 | AcquireSemaphore string int | ReleaseSemaphore string
  | CreateMutex string string | LockMutex string int | UnlockMutex string | TryLockMutex string
  | CreateCondVar string string | WaitCondVar string int | SignalCondVar string | BroadcastCondVar string
  | CreateBarrier string string int32 | WaitBarrier string | ResetBarrier string
  | CreateWaitGroup string string | AddWaitGroup string int | DoneWaitGroup string | WaitWaitGroup string
  | CreateOnce string string | DoOnce string
  | CreateSingleflight string string | DoSingleflight string | ForgetSingleflight string
  | DeletePrimitive string

text \<open>Members of an object are written in the order of their names.\<close>

definition client_create :: "string \<Rightarrow> string \<Rightarrow> string \<Rightarrow> wsMessage" where
  "client_create ty pid name = \<lparr>mType = ty, mPayload = Some (JObj [(''id'', JStr pid), (''name'', JStr name)])\<rparr>"

definition client_op :: "string \<Rightarrow> string \<Rightarrow> int \<Rightarrow> wsMessage" where
  "client_op pid op holdMs = \<lparr>mType = ''primitiveOp'',
     mPayload = Some (JObj ((if holdMs \<noteq> 0 then [(''holdMs'', JNum holdMs)] else []) @ [(''id'', JStr pid), (''op'', JStr op)]))\<rparr>"

fun clientMessage :: "clientCall \<Rightarrow> wsMessage" where
  "clientMessage (CreateRWLock pid name) = client_create ''createRWLock'' pid name"
| "clientMessage (RLockRWLock pid ms) = client_op pid ''rlock'' ms"
| "clientMessage (RUnlockRWLock pid) = client_op pid ''runlock'' 0"
| "clientMessage (LockRWLock pid ms) = client_op pid ''lock'' ms"
| "clientMessage (UnlockRWLock pid) = client_op pid ''unlock'' 0"
| "clientMessage (TryRLockRWLock pid) = client_op pid ''tryRLock'' 0"
| "clientMessage (TryLockRWLock pid) = client_op pid ''tryLock'' 0"
| "clientMessage (CreateSemaphore pid name cap) = \<lparr>mType = ''createSemaphore'',
     mPayload = Some (JObj [(''capacity'', JNum (sint cap)), (''id'', JStr pid), (''name'', JStr name)])\<rparr>"
| "clientMessage (AcquireSemaphore pid ms) = client_op pid ''acquire'' ms"
| "clientMessage (ReleaseSemaphore pid) = client_op pid ''release'' 0"
| "clientMessage (CreateMutex pid name) = client_create ''createMutex'' pid name"
| "clientMessage (LockMutex pid ms) = client_op pid ''lock'' ms"
| "clientMessage (UnlockMutex pid) = client_op pid ''unlock'' 0"
| "clientMessage (TryLockMutex pid) = client_op pid ''tryLock'' 0"
| "clientMessage (CreateCondVar pid name) = client_create ''createCondVar'' pid name"
| "clientMessage (WaitCondVar pid ms) = client_op pid ''wait'' ms"
| "clientMessage (SignalCondVar pid) = client_op pid ''signal'' 0"
| "clientMessage (BroadcastCondVar pid) = client_op pid ''broadcast'' 0"
| "clientMessage (CreateBarrier pid name n) = \<lparr>mType = ''createBarrier'',
     mPayload = Some (JObj [(''id'', JStr pid), (''name'', JStr name), (''parties'', JNum (sint n))])\<rparr>"
| "clientMessage (WaitBarrier pid) = client_op pid ''wait'' 0"
| "clientMessage (ResetBarrier pid) = client_op pid ''reset'' 0"
| "clientMessage (CreateWaitGroup pid name) = client_create ''createWaitGroup'' pid name"
| "clientMessage (AddWaitGroup pid delta) = client_op pid ''add'' delta"
| "clientMessage (DoneWaitGroup pid) = client_op pid ''done'' 0"
| "clientMessage (WaitWaitGroup pid) = client_op pid ''wg-wait'' 0"
| "clientMessage (CreateOnce pid name) = client_create ''createOnce'' pid name"
| "clientMessage (DoOnce pid) = client_op pid ''do'' 0"
| "clientMessage (CreateSingleflight pid name) = client_create ''createSingleflight'' pid name"
| "clientMessage (DoSingleflight pid) = client_op pid ''do'' 0"
| "clientMessage (ForgetSingleflight pid) = client_op pid ''forget'' 0"
| "clientMessage (DeletePrimitive pid) = \<lparr>mType = ''deletePrimitive'', mPayload = Some (JObj [(''id'', JStr pid)])\<rparr>"

subsection \<open>The client\<close>

datatype cerr = ErrClosed | ErrNotConnected | ErrURL | ErrDial | ErrInitialState | ErrDeadline | ErrSend | ErrReadFailed
  | ErrDecode | ErrServer string | ErrCtx

datatype response = Answer string "cerr option" tid | Failure cerr

datatype frame = FAnswer bool string tid | FBad | FOther

type_synonym connid = nat

record clientConfig =
  kURL :: string
  kReconnectDelay :: int64
  kMaxReconnect :: int64
  kPingInterval :: int64
  kAutoReconnect :: bool

definition defaultReconnectDelay :: int64 where "defaultReconnectDelay = 1000000000"
definition defaultMaxReconnect :: int64 where "defaultMaxReconnect = 30000000000"
definition defaultPingInterval :: int64 where "defaultPingInterval = 30000000000"

definition client_New :: "clientConfig \<Rightarrow> clientConfig" where
  "client_New c = c\<lparr>kReconnectDelay := (if sint (kReconnectDelay c) \<le> 0 then defaultReconnectDelay else kReconnectDelay c),
     kMaxReconnect := (if sint (kMaxReconnect c) \<le> 0 then defaultMaxReconnect else kMaxReconnect c),
     kPingInterval := (if sint (kPingInterval c) \<le> 0 then defaultPingInterval else kPingInterval c)\<rparr>"

definition nextDelay :: "clientConfig \<Rightarrow> int64 \<Rightarrow> int64" where
  "nextDelay c d = (if sint (kMaxReconnect c) < sint (2 * d) then kMaxReconnect c else 2 * d)"

text \<open>Places in \<^verbatim>\<open>Connect\<close>, in the read loop, and in the calls.\<close>

datatype kpc = KDial | KInit connid | KInstall connid | KAbort connid cerr | KCloseOld connid "connid option" | KGo connid

datatype rpc = ROff | RRead | RDeliver response | RPut response tid | RFail cerr | RFailPut cerr tid | RClose | RDead

datatype cpc =
    CIdle
  | CDone "response option"
  | SLock
  | SEnsure
  | STry int64
  | SConn int64 kpc
  | SReread int64
  | STimer int64
  | SPend connid
  | SDeadline connid
  | SWrite connid
  | SClearD
  | SClearW connid
  | SInval connid
  | SCloseW connid
  | SSelect connid
  | SClearCtx
  | SUnlock response
  | UConn kpc
  | XClose
  | XPut "tid option" "connid option"
  | XConn "connid option"

record csys =
  kcfg :: clientConfig
  kconn :: "connid option"
  kclosed :: bool
  kpending :: "tid option"
  ksendMu :: "tid option"
  knext :: nat
  kinbox :: "connid \<Rightarrow> frame list"
  kwaits :: "connid \<Rightarrow> tid list"
  kshut :: "connid \<Rightarrow> bool"
  krpcs :: "connid \<Rightarrow> rpc"
  kpcs :: "tid \<Rightarrow> cpc"
  kchan :: "tid \<Rightarrow> response option"

record cinp =
  iOk :: bool
  iCtx :: bool

definition closeConn :: "connid \<Rightarrow> csys \<Rightarrow> csys" where
  "closeConn c s = s\<lparr>kshut := (kshut s)(c := True)\<rparr>"

text \<open>Sending into a channel of one slot without waiting.\<close>

definition putChan :: "tid \<Rightarrow> response \<Rightarrow> csys \<Rightarrow> csys" where
  "putChan t r s = (if kchan s t = None then s\<lparr>kchan := (kchan s)(t \<mapsto> r)\<rparr> else s)"

definition clearPending :: "tid \<Rightarrow> csys \<Rightarrow> csys" where
  "clearPending t s = (if kpending s = Some t then s\<lparr>kpending := None\<rparr> else s)"

definition dropConn :: "connid \<Rightarrow> csys \<Rightarrow> csys" where
  "dropConn c s = (if kconn s = Some c then s\<lparr>kconn := None\<rparr> else s)"

fun client_Connect :: "cinp \<Rightarrow> kpc \<Rightarrow> csys \<Rightarrow> (kpc + cerr option) \<times> csys" where
  "client_Connect i KDial s =
     (if kURL (kcfg s) = [] then (Inr (Some ErrURL), s)
      else if \<not> iOk i then (Inr (Some ErrDial), s)
      else (Inl (KInit (knext s)), s\<lparr>knext := Suc (knext s)\<rparr>))"
| "client_Connect i (KInit c) s = (Inl (if iOk i then KInstall c else KAbort c ErrInitialState), s)"
| "client_Connect i (KInstall c) s =
     (if kclosed s then (Inl (KAbort c ErrClosed), s)
      else (Inl (KCloseOld c (kconn s)), s\<lparr>kconn := Some c\<rparr>))"
| "client_Connect i (KAbort c e) s = (Inr (Some e), closeConn c s)"
| "client_Connect i (KCloseOld c old) s = (Inl (KGo c), case old of None \<Rightarrow> s | Some b \<Rightarrow> closeConn b s)"
| "client_Connect i (KGo c) s = (Inr None, s\<lparr>krpcs := (krpcs s)(c := RRead)\<rparr>)"

definition client_readLoop :: "cinp \<Rightarrow> connid \<Rightarrow> csys \<Rightarrow> (rpc \<times> csys) option" where
  "client_readLoop i c s = (case krpcs s c of
      RRead \<Rightarrow>
        (if \<not> iOk i then Some (RFail ErrReadFailed, s)
         else case kinbox s c of
                [] \<Rightarrow> None
              | f # fs \<Rightarrow>
                  Some (case f of
                          FAnswer ok text t \<Rightarrow> RDeliver (Answer text (if ok then None else Some (ErrServer text)) t)
                        | FBad \<Rightarrow> RFail ErrDecode
                        | FOther \<Rightarrow> RRead, s\<lparr>kinbox := (kinbox s)(c := fs)\<rparr>))
    | RDeliver r \<Rightarrow> Some (case kpending s of None \<Rightarrow> RRead | Some t \<Rightarrow> RPut r t, s\<lparr>kpending := None\<rparr>)
    | RPut r t \<Rightarrow> Some (RRead, putChan t r s)
    | RFail e \<Rightarrow> Some (case kpending s of None \<Rightarrow> RClose | Some t \<Rightarrow> RFailPut e t, (dropConn c s)\<lparr>kpending := None\<rparr>)
    | RFailPut e t \<Rightarrow> Some (RClose, putChan t (Failure e) s)
    | RClose \<Rightarrow> Some (RDead, closeConn c s)
    | _ \<Rightarrow> None)"

text \<open>\<^verbatim>\<open>send\<close> with \<^verbatim>\<open>ensureConnected\<close>, called by the goroutine \<open>t\<close>.\<close>

definition client_send :: "cinp \<Rightarrow> tid \<Rightarrow> csys \<Rightarrow> (cpc \<times> csys) option" where
  "client_send i t s = (case kpcs s t of
      SLock \<Rightarrow> (if ksendMu s = None then Some (SEnsure, s\<lparr>ksendMu := Some t\<rparr>) else None)
    | SEnsure \<Rightarrow>
        Some (if kclosed s then SUnlock (Failure ErrClosed)
              else case kconn s of
                     Some c \<Rightarrow> SPend c
                   | None \<Rightarrow> if \<not> kAutoReconnect (kcfg s) then SUnlock (Failure ErrNotConnected)
                             else STry (kReconnectDelay (kcfg s)), s)
    | STry d \<Rightarrow> Some (if iCtx i then SUnlock (Failure ErrCtx) else SConn d KDial, s)
    | SConn d k \<Rightarrow>
        (case client_Connect i k s of
           (Inl k', s') \<Rightarrow> Some (SConn d k', s')
         | (Inr None, s') \<Rightarrow> Some (SReread d, s')
         | (Inr (Some e), s') \<Rightarrow> Some (STimer d, s'))
    | SReread d \<Rightarrow> Some (case kconn s of Some c \<Rightarrow> SPend c | None \<Rightarrow> STimer d, s)
    | STimer d \<Rightarrow> Some (if iCtx i then SUnlock (Failure ErrCtx) else STry (nextDelay (kcfg s) d), s)
    | SPend c \<Rightarrow> Some (SDeadline c, s\<lparr>kpending := Some t\<rparr>)
    | SDeadline c \<Rightarrow> Some (if iOk i then SWrite c else SClearD, s)
    | SClearD \<Rightarrow> Some (SUnlock (Failure ErrDeadline), clearPending t s)
    | SWrite c \<Rightarrow>
        (if \<not> iOk i then Some (SClearW c, s)
         else if kshut s c then None
         else Some (SSelect c, s\<lparr>kwaits := (kwaits s)(c := kwaits s c @ [t])\<rparr>))
    | SClearW c \<Rightarrow> Some (SInval c, clearPending t s)
    | SInval c \<Rightarrow> Some (SCloseW c, dropConn c s)
    | SCloseW c \<Rightarrow> Some (SUnlock (Failure ErrSend), closeConn c s)
    | SSelect c \<Rightarrow>
        (if iCtx i then Some (SClearCtx, s)
         else case kchan s t of None \<Rightarrow> None | Some r \<Rightarrow> Some (SUnlock r, s\<lparr>kchan := (kchan s)(t := None)\<rparr>))
    | SClearCtx \<Rightarrow> Some (SUnlock (Failure ErrCtx), clearPending t s)
    | SUnlock r \<Rightarrow> Some (CDone (Some r), s\<lparr>ksendMu := None\<rparr>)
    | UConn k \<Rightarrow>
        (case client_Connect i k s of
           (Inl k', s') \<Rightarrow> Some (UConn k', s')
         | (Inr e, s') \<Rightarrow> Some (CDone (map_option Failure e), s'))
    | _ \<Rightarrow> None)"

definition client_Close :: "tid \<Rightarrow> csys \<Rightarrow> (cpc \<times> csys) option" where
  "client_Close t s = (case kpcs s t of
      XClose \<Rightarrow>
        (if kclosed s then Some (CDone None, s)
         else Some (XPut (kpending s) (kconn s), s\<lparr>kclosed := True, kconn := None, kpending := None\<rparr>))
    | XPut p c \<Rightarrow> Some (XConn c, case p of None \<Rightarrow> s | Some u \<Rightarrow> putChan u (Failure ErrClosed) s)
    | XConn c \<Rightarrow> Some (CDone None, case c of None \<Rightarrow> s | Some b \<Rightarrow> closeConn b s)
    | _ \<Rightarrow> None)"

text \<open>The server answers a request that waits at its end of a connection, any of them, or sends something
  else.\<close>

datatype c_event = CEvSend tid | CEvConnect tid | CEvClose tid | CEvGo tid cinp | CEvRead connid cinp
  | CEvServe connid nat bool string | CEvPush connid frame

definition putPc :: "tid \<Rightarrow> cpc \<Rightarrow> csys \<Rightarrow> csys" where
  "putPc t pc s = s\<lparr>kpcs := (kpcs s)(t := pc)\<rparr>"

definition c_exec :: "c_event \<Rightarrow> csys \<Rightarrow> csys option" where
  "c_exec e s = (case e of
      CEvSend t \<Rightarrow> if kpcs s t = CIdle then Some (putPc t SLock s) else None
    | CEvConnect t \<Rightarrow> if kpcs s t = CIdle then Some (putPc t (UConn KDial) s) else None
    | CEvClose t \<Rightarrow> if kpcs s t = CIdle then Some (putPc t XClose s) else None
    | CEvGo t i \<Rightarrow> (case orelse (client_send i t s) (client_Close t s) of None \<Rightarrow> None | Some (pc, s') \<Rightarrow> Some (putPc t pc s'))
    | CEvRead c i \<Rightarrow> (case client_readLoop i c s of None \<Rightarrow> None | Some (r, s') \<Rightarrow> Some (s'\<lparr>krpcs := (krpcs s')(c := r)\<rparr>))
    | CEvServe c n ok text \<Rightarrow>
        if n < length (kwaits s c)
        then Some (s\<lparr>kinbox := (kinbox s)(c := kinbox s c @ [FAnswer ok text (kwaits s c ! n)]),
                     kwaits := (kwaits s)(c := take n (kwaits s c) @ drop (Suc n) (kwaits s c))\<rparr>)
        else None
    | CEvPush c f \<Rightarrow>
        (case f of FAnswer ok text t \<Rightarrow> None | _ \<Rightarrow> Some (s\<lparr>kinbox := (kinbox s)(c := kinbox s c @ [f])\<rparr>)))"

definition c_init :: "clientConfig \<Rightarrow> csys" where
  "c_init c = \<lparr>kcfg = client_New c, kconn = None, kclosed = False, kpending = None, ksendMu = None, knext = 0,
     kinbox = (\<lambda>_. []), kwaits = (\<lambda>_. []), kshut = (\<lambda>_. False), krpcs = (\<lambda>_. ROff), kpcs = (\<lambda>_. CIdle), kchan = (\<lambda>_. None)\<rparr>"

subsection \<open>No answer is lost\<close>

text \<open>Inside \<^verbatim>\<open>send\<close> (its mutex is held), waiting for an answer, the connection \<^verbatim>\<open>Connect\<close> is setting up, and
  the reply channel a goroutine is about to send to.\<close>

fun c_inside :: "cpc \<Rightarrow> bool" where
  "c_inside CIdle = False"
| "c_inside (CDone r) = False"
| "c_inside SLock = False"
| "c_inside (UConn k) = False"
| "c_inside XClose = False"
| "c_inside (XPut p c) = False"
| "c_inside (XConn c) = False"
| "c_inside _ = True"

fun c_waiting :: "cpc \<Rightarrow> bool" where
  "c_waiting (SDeadline c) = True"
| "c_waiting (SWrite c) = True"
| "c_waiting (SSelect c) = True"
| "c_waiting _ = False"

fun k_making :: "kpc \<Rightarrow> connid option" where
  "k_making KDial = None"
| "k_making (KInit c) = Some c"
| "k_making (KInstall c) = Some c"
| "k_making (KAbort c e) = Some c"
| "k_making (KCloseOld c b) = Some c"
| "k_making (KGo c) = Some c"

fun c_making :: "cpc \<Rightarrow> connid option" where
  "c_making (SConn d k) = k_making k"
| "c_making (UConn k) = k_making k"
| "c_making _ = None"

fun r_target :: "rpc \<Rightarrow> tid option" where
  "r_target (RPut r t) = Some t"
| "r_target (RFailPut e t) = Some t"
| "r_target _ = None"

fun x_target :: "cpc \<Rightarrow> tid option" where
  "x_target (XPut p c) = p"
| "x_target _ = None"

definition answered :: "csys \<Rightarrow> tid \<Rightarrow> bool" where
  "answered s t \<longleftrightarrow> (\<exists>c. r_target (krpcs s c) = Some t) \<or> (\<exists>u. x_target (kpcs s u) = Some t) \<or> kchan s t \<noteq> None"

definition c_mutex :: "csys \<Rightarrow> bool" where
  "c_mutex s \<longleftrightarrow> (\<forall>t. c_inside (kpcs s t) \<longrightarrow> ksendMu s = Some t)"

definition c_fresh :: "csys \<Rightarrow> bool" where
  "c_fresh s \<longleftrightarrow> (\<forall>t c. c_making (kpcs s t) = Some c \<longrightarrow> c < knext s \<and> krpcs s c = ROff) \<and>
     (\<forall>t u c. c_making (kpcs s t) = Some c \<longrightarrow> c_making (kpcs s u) = Some c \<longrightarrow> t = u) \<and>
     (\<forall>c. knext s \<le> c \<longrightarrow> krpcs s c = ROff)"

definition c_expects :: "csys \<Rightarrow> bool" where
  "c_expects s \<longleftrightarrow> (\<forall>t. c_waiting (kpcs s t) \<longrightarrow> kpending s = Some t \<or> answered s t)"

text \<open>A step, by what it is.\<close>

text \<open>What a step changes: the fields \<^verbatim>\<open>Connect\<close> leaves alone, the actions of a call, and those of a read loop.\<close>

lemma client_Connect_frame:
  assumes "client_Connect i k s = (x, s')"
  shows "kcfg s' = kcfg s" "kpending s' = kpending s" "ksendMu s' = ksendMu s" "kpcs s' = kpcs s" "kchan s' = kchan s"
    "kwaits s' = kwaits s" "kinbox s' = kinbox s" "kclosed s' = kclosed s"
  using assms by (cases k; auto simp: closeConn_def split: if_splits option.splits)+

lemma client_Connect_rpcs:
  assumes "client_Connect i k s = (x, s')"
  shows "krpcs s' = krpcs s \<or> (\<exists>c. k = KGo c \<and> krpcs s' = (krpcs s)(c := RRead) \<and> knext s' = knext s \<and> x = Inr None)"
  using assms by (cases k) (auto simp: closeConn_def split: if_splits option.splits)

lemmas c_small_defs = putPc_def putChan_def clearPending_def dropConn_def closeConn_def

text \<open>Goroutines that hold the mutex.\<close>

lemma client_send_mutex:
  assumes "client_send i t s = Some (pc, s')"
  shows "kpcs s' = kpcs s" "c_inside (kpcs s t) \<or> kpcs s t = SLock \<and> ksendMu s = None \<or> \<not> c_inside pc \<and> ksendMu s' = ksendMu s"
    "c_inside (kpcs s t) \<Longrightarrow> ksendMu s' = ksendMu s \<or> ksendMu s' = None \<and> \<not> c_inside pc"
    "kpcs s t = SLock \<Longrightarrow> ksendMu s' = Some t"
  using assms
  by (cases "kpcs s t"; auto simp: client_send_def c_small_defs dest: client_Connect_frame split: if_splits option.splits prod.splits sum.splits)+

lemma client_Close_mutex:
  assumes "client_Close t s = Some (pc, s')"
  shows "kpcs s' = kpcs s" "\<not> c_inside (kpcs s t)" "\<not> c_inside pc" "ksendMu s' = ksendMu s"
  using assms by (cases "kpcs s t"; auto simp: client_Close_def c_small_defs split: if_splits option.splits)+

lemma client_readLoop_frame:
  assumes "client_readLoop i c s = Some (r, s')"
  shows "kpcs s' = kpcs s" "ksendMu s' = ksendMu s" "knext s' = knext s" "krpcs s' = krpcs s" "krpcs s c \<noteq> ROff" "kcfg s' = kcfg s"
    "r \<noteq> ROff" "kwaits s' = kwaits s" "kclosed s' = kclosed s"
  using assms
  by (cases "krpcs s c"; auto simp: client_readLoop_def c_small_defs split: if_splits option.splits list.splits frame.splits)+

lemma c_exec_cases [consumes 1, case_names call sends closes reads serves]:
  assumes "c_exec e s = Some s'"
  obtains (call) t pc where "kpcs s t = CIdle" "e = CEvSend t \<and> pc = SLock \<or> e = CEvConnect t \<and> pc = UConn KDial \<or> e = CEvClose t \<and> pc = XClose"
      "s' = putPc t pc s"
  | (sends) t i pc s1 where "e = CEvGo t i" "client_send i t s = Some (pc, s1)" "s' = putPc t pc s1"
  | (closes) t i pc s1 where "e = CEvGo t i" "client_Close t s = Some (pc, s1)" "s' = putPc t pc s1"
  | (reads) c i r s1 where "e = CEvRead c i" "client_readLoop i c s = Some (r, s1)" "s' = s1\<lparr>krpcs := (krpcs s1)(c := r)\<rparr>"
  | (serves) c n ok tx f where "f = FAnswer ok tx (kwaits s c ! n) \<and> n < length (kwaits s c) \<and>
        kwaits s' = (kwaits s)(c := take n (kwaits s c) @ drop (Suc n) (kwaits s c)) \<or> (f = FBad \<or> f = FOther) \<and> kwaits s' = kwaits s"
      "s' = s\<lparr>kinbox := (kinbox s)(c := kinbox s c @ [f]), kwaits := kwaits s'\<rparr>"
proof (cases e)
  case (CEvGo t i)
  then show ?thesis using assms sends closes
    by (cases "client_send i t s") (auto simp: c_exec_def split: option.splits)
next
  case (CEvServe c n ok tx)
  then show ?thesis using assms by (intro serves [of "FAnswer ok tx (kwaits s c ! n)" ok tx c n]) (auto simp: c_exec_def split: if_splits)
next
  case (CEvPush c f)
  then show ?thesis using assms by (intro serves [of f]) (auto simp: c_exec_def split: frame.splits)
qed (use assms call reads in \<open>auto simp: c_exec_def split: if_splits option.splits\<close>)

lemma c_inside_unique: "c_mutex s \<Longrightarrow> c_inside (kpcs s u) \<Longrightarrow> c_inside (kpcs s t) \<Longrightarrow> u = t"
  unfolding c_mutex_def by (metis option.inject)

lemma c_mutex_step:
  assumes m: "c_mutex s" and x: "c_exec e s = Some s'"
  shows "c_mutex s'"
  using x
proof (cases rule: c_exec_cases)
  case (sends t i pc s1)
  note eff = client_send_mutex [OF sends(2)]
  have mu: "ksendMu s = Some u" if "c_inside (kpcs s u)" for u using m that by (simp add: c_mutex_def)
  have "ksendMu s1 = Some u" if u: "c_inside (if u = t then pc else kpcs s u)" for u
  proof (cases "c_inside (kpcs s t)")
    case True
    then have "u = t" using mu [of t] mu [of u] u by (cases "u = t") simp_all
    then show ?thesis using eff(3) [OF True] mu [OF True] u by auto
  next
    case False
    then show ?thesis using eff(2,4) mu [of u] u by (cases "u = t") auto
  qed
  then show ?thesis unfolding sends(3) by (auto simp: c_mutex_def putPc_def eff(1))
next
  case (closes t i pc s1)
  from client_Close_mutex [OF closes(2)] m show ?thesis
    unfolding closes(3) by (auto simp: c_mutex_def putPc_def)
next
  case (reads c i r s1)
  from client_readLoop_frame [OF reads(2)] m show ?thesis by (simp add: reads(3) c_mutex_def)
next
  case (serves c n ok tx f)
  show ?thesis using m by (subst serves(2)) (simp add: c_mutex_def)
qed (use m in \<open>auto simp: c_mutex_def putPc_def\<close>)

lemma client_send_fresh:
  assumes "client_send i t s = Some (pc, s')"
  shows "krpcs s' = krpcs s \<and> knext s' = knext s \<and> (c_making pc = c_making (kpcs s t) \<or> c_making pc = None) \<or>
     krpcs s' = krpcs s \<and> knext s' = Suc (knext s) \<and> c_making pc = Some (knext s) \<or>
     (\<exists>c. c_making (kpcs s t) = Some c \<and> krpcs s' = (krpcs s)(c := RRead) \<and> knext s' = knext s \<and> c_making pc = None)"
proof -
  have conn: ?thesis if "c_making (kpcs s t) = k_making k" "client_Connect i k s = (y, s')"
    "case y of Inl k' \<Rightarrow> c_making pc = k_making k' | Inr e \<Rightarrow> c_making pc = None" for k y
    using that by (cases k) (auto simp: closeConn_def split: if_splits option.splits)
  show ?thesis
  proof (cases "kpcs s t")
    case (SConn d k)
    obtain y s2 where y: "client_Connect i k s = (y, s2)" by fastforce
    with SConn assms show ?thesis by (intro conn [of k y]) (auto simp: client_send_def split: sum.splits option.splits)
  next
    case (UConn k)
    obtain y s2 where y: "client_Connect i k s = (y, s2)" by fastforce
    with UConn assms show ?thesis by (intro conn [of k y]) (auto simp: client_send_def split: sum.splits option.splits)
  qed (use assms in \<open>auto simp: client_send_def c_small_defs split: if_splits option.splits\<close>)
qed

lemma client_Close_fresh:
  assumes "client_Close t s = Some (pc, s')"
  shows "krpcs s' = krpcs s" "knext s' = knext s" "c_making pc = None"
  using assms by (cases "kpcs s t"; auto simp: client_Close_def c_small_defs split: if_splits option.splits)+

lemma c_fresh_step:
  assumes f: "c_fresh s" and x: "c_exec e s = Some s'"
  shows "c_fresh s'"
proof -
  have f1: "c < knext s" "krpcs s c = ROff" if "c_making (kpcs s t) = Some c" for t c
    using f that unfolding c_fresh_def by blast+
  have f2: "t = u" if "c_making (kpcs s t) = Some c" "c_making (kpcs s u) = Some c" for t u c
    using f that unfolding c_fresh_def by blast
  have f3: "krpcs s c = ROff" if "knext s \<le> c" for c using f that unfolding c_fresh_def by blast
  have keep: "c_fresh s'" if "krpcs s' = krpcs s" "knext s' = knext s" "kpcs s' = (kpcs s)(t := pc)"
    "c_making pc = c_making (kpcs s t) \<or> c_making pc = None" for t pc
  proof -
    have "c_making (kpcs s u) = Some c" if "c_making (kpcs s' u) = Some c" for u c
      using that \<open>kpcs s' = _\<close> \<open>c_making pc = _ \<or> _\<close> by (auto split: if_splits)
    then show ?thesis using that(1,2) f1 f2 f3 unfolding c_fresh_def by metis
  qed
  from x show ?thesis
  proof (cases rule: c_exec_cases)
    case (call t pc)
    then show ?thesis by (intro keep [of t pc]) (auto simp: putPc_def)
  next
    case (sends t i pc s1)
    have p: "kpcs s1 = kpcs s" by (rule client_send_mutex(1) [OF sends(2)])
    from client_send_fresh [OF sends(2)]
    consider "krpcs s1 = krpcs s" "knext s1 = knext s" "c_making pc = c_making (kpcs s t) \<or> c_making pc = None"
      | "krpcs s1 = krpcs s" "knext s1 = Suc (knext s)" "c_making pc = Some (knext s)"
      | c where "c_making (kpcs s t) = Some c" "krpcs s1 = (krpcs s)(c := RRead)" "knext s1 = knext s" "c_making pc = None"
      by metis
    then show ?thesis
    proof cases
      case 1
      then show ?thesis by (intro keep [of t pc]) (auto simp: sends(3) putPc_def p)
    next
      case 2
      have "krpcs s (knext s) = ROff" by (rule f3) simp
      moreover have "c_making (kpcs s u) \<noteq> Some (knext s)" for u using f1(1) [of u "knext s"] by auto
      ultimately show ?thesis using 2 f1 f2 f3 unfolding c_fresh_def
        by (auto simp: sends(3) putPc_def p less_SucI split: if_splits)
    next
      case (3 c)
      have "c_making (kpcs s u) \<noteq> Some c" if "u \<noteq> t" for u using f2 [OF 3(1)] that by blast
      moreover have "\<not> knext s \<le> c" using f1(1) [OF 3(1)] by simp
      ultimately show ?thesis using 3 f1 f2 f3 unfolding c_fresh_def
        by (auto simp: sends(3) putPc_def p split: if_splits)
    qed
  next
    case (closes t i pc s1)
    from client_Close_fresh [OF closes(2)] client_Close_mutex(1) [OF closes(2)] show ?thesis
      by (intro keep [of t pc]) (auto simp: closes(3) putPc_def)
  next
    case (reads c i r s1)
    note eff = client_readLoop_frame [OF reads(2)]
    have "c_making (kpcs s u) \<noteq> Some c" for u using f1(2) [of u c] eff(5) by auto
    moreover have "\<not> knext s \<le> c" using f3 [of c] eff(5) by auto
    ultimately show ?thesis using f1 f2 f3 unfolding c_fresh_def by (auto simp: reads(3) eff)
  next
    case (serves c n ok tx f)
    show ?thesis using f by (subst serves(2)) (simp add: c_fresh_def)
  qed
qed

text \<open>A reply channel keeps being served: once a response is on its way it stays there until the call takes it.\<close>

lemma answered_frame:
  assumes "answered s t" "\<And>c. krpcs s c \<noteq> ROff \<Longrightarrow> krpcs s' c = krpcs s c" "kchan s' t \<noteq> None \<or> kchan s' t = kchan s t" "kpcs s' = (kpcs s)(u := pc)"
    "x_target (kpcs s u) \<noteq> Some t \<or> x_target pc = Some t \<or> kchan s' t \<noteq> None"
  shows "answered s' t"
proof (cases "kchan s' t = None")
  case True
  from assms(1) consider c where "r_target (krpcs s c) = Some t" | v where "x_target (kpcs s v) = Some t" | "kchan s t \<noteq> None"
    unfolding answered_def by blast
  then show ?thesis
  proof cases
    case (1 c)
    then have "krpcs s c \<noteq> ROff" by auto
    with 1 have "r_target (krpcs s' c) = Some t" using assms(2) [of c] by simp
    then show ?thesis unfolding answered_def by blast
  next
    case (2 v)
    then have "x_target (kpcs s' v) = Some t" using assms(4,5) True by auto
    then show ?thesis unfolding answered_def by blast
  qed (use assms True in \<open>auto simp: answered_def\<close>)
qed (simp add: answered_def)

lemma client_send_chan:
  assumes "client_send i t s = Some (pc, s')"
  shows "u \<noteq> t \<Longrightarrow> kchan s' u = kchan s u" "x_target pc = None" "x_target (kpcs s t) = None"
    "u \<noteq> t \<Longrightarrow> \<not> c_inside (kpcs s t) \<Longrightarrow> kpending s' = kpending s"
    "c_waiting pc \<Longrightarrow> kpending s' = Some t \<or> c_waiting (kpcs s t) \<and> kpending s' = kpending s \<and> kchan s' = kchan s"
  using assms
  by (cases "kpcs s t"; auto simp: client_send_def c_small_defs dest: client_Connect_frame split: if_splits option.splits prod.splits sum.splits)+

lemma client_Close_chan:
  assumes "client_Close t s = Some (pc, s')"
  shows "kpending s = Some u \<Longrightarrow> kpending s' = Some u \<or> x_target pc = Some u"
    "kchan s' u \<noteq> None \<or> kchan s' u = kchan s u" "x_target (kpcs s t) = Some u \<Longrightarrow> kchan s' u \<noteq> None" "\<not> c_waiting pc"
  using assms by (cases "kpcs s t"; auto simp: client_Close_def c_small_defs split: if_splits option.splits)+

lemma client_readLoop_chan:
  assumes "client_readLoop i c s = Some (r, s')"
  shows "kpending s = Some u \<Longrightarrow> kpending s' = Some u \<or> r_target r = Some u"
    "kchan s' u \<noteq> None \<or> kchan s' u = kchan s u" "r_target (krpcs s c) = Some u \<Longrightarrow> kchan s' u \<noteq> None"
  using assms
  by (cases "krpcs s c"; auto simp: client_readLoop_def c_small_defs split: if_splits option.splits list.splits frame.splits)+

lemma c_expects_send:
  assumes p: "c_expects s" and m: "c_mutex s" and f: "c_fresh s" and x: "client_send i t s = Some (pc, s1)"
  shows "c_expects (putPc t pc s1)"
proof -
  define s' where "s' = putPc t pc s1"
  have P: "kpending s = Some u \<or> answered s u" if "c_waiting (kpcs s u)" for u
    using p that unfolding c_expects_def by blast
  note eff = client_send_chan [OF x] and p1 = client_send_mutex(1) [OF x]
  have k: "kpcs s' = (kpcs s)(t := pc)" "kpending s' = kpending s1" "kchan s' = kchan s1"
    using p1 by (simp_all add: s'_def putPc_def)
  have rp: "krpcs s' c = krpcs s c" if "krpcs s c \<noteq> ROff" for c
    using client_send_fresh [OF x] f that unfolding c_fresh_def by (auto simp: s'_def putPc_def)
  have ans: "answered s' u" if "answered s u" "kchan s1 u = kchan s u" for u
    by (rule answered_frame [OF that(1) rp]) (use that(2) eff(2,3) k in auto)
  have "kpending s' = Some u \<or> answered s' u" if u: "c_waiting (kpcs s' u)" for u
  proof (cases "u = t")
    case True
    then show ?thesis using u eff(5) P [of t] ans [of t] k by auto
  next
    case False
    then have w: "c_waiting (kpcs s u)" using u k by simp
    then have "c_inside (kpcs s u)" by (cases "kpcs s u") auto
    then have "\<not> c_inside (kpcs s t)" using m False unfolding c_mutex_def by (metis option.inject)
    then show ?thesis using eff(1,4) [OF False] P [OF w] ans [of u] k by auto
  qed
  then show ?thesis by (simp add: c_expects_def s'_def)
qed

lemma c_expects_close:
  assumes p: "c_expects s" and x: "client_Close t s = Some (pc, s1)"
  shows "c_expects (putPc t pc s1)"
proof -
  define s' where "s' = putPc t pc s1"
  note eff = client_Close_chan [OF x]
  have k: "kpcs s' = (kpcs s)(t := pc)" "kpending s' = kpending s1" "kchan s' = kchan s1" "krpcs s' = krpcs s"
    using client_Close_mutex(1) [OF x] client_Close_fresh(1) [OF x] by (simp_all add: s'_def putPc_def)
  have ans: "answered s' u" if "answered s u" for u
    by (rule answered_frame [OF that, of _ t pc]) (use eff(2,3) [of u] k in auto)
  have new: "answered s' u" if "x_target pc = Some u" for u
    using that unfolding answered_def by (auto simp: k)
  have "kpending s' = Some u \<or> answered s' u" if "c_waiting (kpcs s' u)" for u
  proof -
    have "c_waiting (kpcs s u)" using that eff(4) by (auto simp: k split: if_splits)
    then have "kpending s = Some u \<or> answered s u" using p unfolding c_expects_def by blast
    then show ?thesis using eff(1) [of u] ans new by (auto simp: k)
  qed
  then show ?thesis by (simp add: c_expects_def s'_def)
qed

lemma c_expects_read:
  assumes p: "c_expects s" and x: "client_readLoop i c s = Some (r, s1)" and s': "s' = s1\<lparr>krpcs := (krpcs s1)(c := r)\<rparr>"
  shows "c_expects s'"
proof -
  note eff = client_readLoop_chan [OF x] and fr = client_readLoop_frame [OF x]
  have new: "answered s' u" if "r_target r = Some u" for u
    unfolding answered_def by (rule disjI1, rule exI [of _ c]) (use that in \<open>simp add: s'\<close>)
  have ans: "answered s' u" if a: "answered s u" for u
  proof (cases "kchan s1 u = None")
    case True
    then have "kchan s u = None" "r_target (krpcs s c) \<noteq> Some u" using eff(2,3) [of u] by auto
    then consider d where "d \<noteq> c" "r_target (krpcs s d) = Some u" | v where "x_target (kpcs s v) = Some u"
      using a unfolding answered_def by metis
    then show ?thesis
    proof cases
      case (1 d)
      then show ?thesis unfolding answered_def by (intro disjI1 exI [of _ d]) (simp add: s' fr)
    next
      case (2 v)
      then show ?thesis unfolding answered_def by (intro disjI2 disjI1 exI [of _ v]) (simp add: s' fr)
    qed
  qed (simp add: answered_def s')
  have "kpending s' = Some u \<or> answered s' u" if "c_waiting (kpcs s' u)" for u
  proof -
    have "kpending s = Some u \<or> answered s u" using p that unfolding c_expects_def by (simp add: s' fr)
    then show ?thesis using eff(1) [of u] ans new by (auto simp: s')
  qed
  then show ?thesis by (simp add: c_expects_def)
qed

lemma c_expects_step:
  assumes p: "c_expects s" and m: "c_mutex s" and f: "c_fresh s" and x: "c_exec e s = Some s'"
  shows "c_expects s'"
  using x
proof (cases rule: c_exec_cases)
  case (call t pc)
  have "answered s' u" if "answered s u" for u
    by (rule answered_frame [OF that]) (use call in \<open>auto simp: putPc_def\<close>)
  then show ?thesis using p call unfolding c_expects_def by (auto simp: putPc_def)
next
  case (serves c n ok tx f)
  show ?thesis using p by (subst serves(2)) (simp add: c_expects_def answered_def)
qed (use c_expects_send [OF p m f] c_expects_close [OF p] c_expects_read [OF p] in blast)+

definition client_ok :: "csys \<Rightarrow> bool" where
  "client_ok s \<longleftrightarrow> c_mutex s \<and> c_fresh s \<and> c_expects s"

lemma client_ok_step: "client_ok s \<Longrightarrow> c_exec e s = Some s' \<Longrightarrow> client_ok s'"
  unfolding client_ok_def using c_mutex_step c_fresh_step c_expects_step by blast

lemma client_ok_init: "client_ok (c_init cf)"
  by (simp add: client_ok_def c_mutex_def c_fresh_def c_expects_def c_init_def)

interpretation client_inv: invariant_machine c_exec "c_init cf" client_ok
  by unfold_locales (auto intro: client_ok_init client_ok_step)

subsection \<open>Properties\<close>

definition go :: cinp where "go = \<lparr>iOk = True, iCtx = False\<rparr>"
definition bad :: cinp where "bad = \<lparr>iOk = False, iCtx = False\<rparr>"
definition cancelled :: cinp where "cancelled = \<lparr>iOk = True, iCtx = True\<rparr>"

definition cf0 :: clientConfig where
  "cf0 = \<lparr>kURL = ''ws://localhost/ws'', kReconnectDelay = 0, kMaxReconnect = 0, kPingInterval = 0, kAutoReconnect = False\<rparr>"

text \<open>Goroutine 0 connects; goroutine \<open>t\<close> sends a request; its answer is read and taken.\<close>

definition connects :: "tid \<Rightarrow> c_event list" where
  "connects t = CEvConnect t # replicate 5 (CEvGo t go)"

definition asks :: "tid \<Rightarrow> c_event list" where
  "asks t = CEvSend t # replicate 5 (CEvGo t go)"

definition answers :: "connid \<Rightarrow> string \<Rightarrow> c_event list" where
  "answers c tx = CEvServe c 0 True tx # replicate 3 (CEvRead c go)"

definition takes :: "tid \<Rightarrow> c_event list" where
  "takes t = replicate 2 (CEvGo t go)"

text \<open>C20. A call of the client waiting for its answer (between registering its reply channel and leaving \<^verbatim>\<open>select\<close>)
  cannot be forgotten: its channel is the pending one, or some read loop or \<^verbatim>\<open>Close\<close> has taken it and is about
  to send to it, or the response is in it; and it alone is inside \<^verbatim>\<open>send\<close>.\<close>

theorem client_response_not_lost:
  assumes "reachable c_exec (c_init cf) s" "kpcs s t \<in> {SDeadline c, SWrite c, SSelect c}"
  shows "(kpending s = Some t \<or> (\<exists>c r. krpcs s c = RPut r t) \<or> (\<exists>c e. krpcs s c = RFailPut e t) \<or>
       (\<exists>u d. kpcs s u = XPut (Some t) d) \<or> kchan s t \<noteq> None) \<and> (\<forall>u. kpcs s u \<in> {SPend d, SDeadline d, SWrite d, SSelect d} \<longrightarrow> u = t)"
proof -
  have ok: "c_mutex s" "c_expects s" using client_inv.reachable_inv [OF assms(1)] unfolding client_ok_def by blast+
  have r: "\<exists>c e. krpcs s d = RPut c t \<or> krpcs s d = RFailPut e t" if "r_target (krpcs s d) = Some t" for d
    using that by (cases "krpcs s d") auto
  have x: "\<exists>d. kpcs s u = XPut (Some t) d" if "x_target (kpcs s u) = Some t" for u using that by (cases "kpcs s u") auto
  have "c_waiting (kpcs s t)" "c_inside (kpcs s t)" using assms(2) by auto
  then have "kpending s = Some t \<or> answered s t" using ok(2) unfolding c_expects_def by blast
  moreover have "u = t" if "kpcs s u \<in> {SPend d, SDeadline d, SWrite d, SSelect d}" for u
    using c_inside_unique [OF ok(1), of u t] that \<open>c_inside (kpcs s t)\<close> by auto
  ultimately show ?thesis using r x unfolding answered_def by metis
qed

lemma client_run_ex:
  assumes "case run ex es s of None \<Rightarrow> False | Some s' \<Rightarrow> P s'"
  obtains s' where "run ex es s = Some s'" "P s'"
  using assms by (cases "run ex es s") auto

theorem client_response_not_lost_witness:
  "\<exists>s. run c_exec (connects 0 @ asks 1) (c_init cf0) = Some s \<and> kpcs s 1 = SSelect 0 \<and> kpending s = Some 1 \<and>
     (\<forall>u. kpcs s u \<in> {SPend 0, SDeadline 0, SWrite 0, SSelect 0} \<longrightarrow> u = 1)"
proof -
  have "case run c_exec (connects 0 @ asks 1) (c_init cf0) of None \<Rightarrow> False | Some s \<Rightarrow> kpcs s 1 = SSelect 0 \<and> kpending s = Some 1"
    by code_simp
  then obtain s where r: "run c_exec (connects 0 @ asks 1) (c_init cf0) = Some s" and p: "kpcs s 1 = SSelect 0 \<and> kpending s = Some 1"
    by (rule client_run_ex)
  then have "kpcs s 1 \<in> {SDeadline 0, SWrite 0, SSelect 0}" by simp
  from client_response_not_lost [OF run_reachable [OF r] this, of 0] r p show ?thesis by blast
qed

text \<open>When the context of a waiting call is done, its answer is still to come, and the next call takes it for
  its own.\<close>

lemma cancelled_call_shifts_answers:
  "case run c_exec (connects 0 @ asks 1 @ [CEvGo 1 cancelled, CEvGo 1 go, CEvGo 1 go] @ asks 2 @ answers 0 ''for 1'' @ takes 2) (c_init cf0) of
     None \<Rightarrow> False | Some s \<Rightarrow> kpcs s 1 = CDone (Some (Failure ErrCtx)) \<and> kpcs s 2 = CDone (Some (Answer ''for 1'' None 1))"
  by code_simp

text \<open>A call may register its reply channel after the read loop has failed and emptied the slot: nobody is left to
  answer it, and without a deadline it waits with the send mutex held.\<close>

lemma registered_after_failure:
  "case run c_exec (connects 0 @ CEvSend 1 # replicate 2 (CEvGo 1 go) @ CEvRead 0 bad # replicate 1 (CEvRead 0 go) @ replicate 3 (CEvGo 1 go) @ [CEvRead 0 go])
       (c_init cf0) of
     None \<Rightarrow> False | Some s \<Rightarrow> kpcs s 1 = SSelect 0 \<and> krpcs s 0 = RDead \<and> kchan s 1 = None \<and> kconn s = None \<and> c_exec (CEvGo 1 go) s = None"
  by code_simp

text \<open>The read loop of an old connection takes the reply channel of a call that was sent on the new one.\<close>

lemma old_loop_fails_new_call:
  "case run c_exec (connects 0 @ connects 3 @ asks 1 @ CEvRead 0 bad # replicate 2 (CEvRead 0 go) @ takes 1) (c_init cf0) of
     None \<Rightarrow> False | Some s \<Rightarrow> kwaits s 1 = [1] \<and> kwaits s 0 = [] \<and> kpcs s 1 = CDone (Some (Failure ErrReadFailed)) \<and> kconn s = Some 1"
  by code_simp

text \<open>\<^verbatim>\<open>ensureConnected\<close> does not look at \<^verbatim>\<open>closed\<close> again: a call that reconnects when the client is closed goes through
  its attempts as long as its context lasts, every one of which ends with \<^verbatim>\<open>ErrClosed\<close>.\<close>

lemma closed_client_reconnects:
  assumes "kclosed s" "kpcs s t = STry d" "kURL (kcfg s) \<noteq> []"
  shows "\<exists>s'. run c_exec (replicate 6 (CEvGo t go)) s = Some s' \<and> kpcs s' t = STry (nextDelay (kcfg s) d) \<and> kclosed s' \<and>
    kcfg s' = kcfg s \<and> ksendMu s' = ksendMu s"
  using assms
  by (simp add: numeral_eq_Suc c_exec_def client_send_def orelse_simps putPc_def go_def closeConn_def)

text \<open>The delay between attempts stays between its first value and the maximum when the maximum is small enough
  to be doubled.\<close>

lemma nextDelay_bounds:
  assumes "0 < sint d" "sint d \<le> sint (kMaxReconnect c)" "2 * sint (kMaxReconnect c) < 2 ^ 63"
  shows "sint d \<le> sint (nextDelay c d)" "sint (nextDelay c d) \<le> sint (kMaxReconnect c)"
proof -
  have "sint (2 * d) = 2 * sint d"
    using assms by (simp add: sint_word_ariths signed_take_bit_int_eq_self)
  then show "sint d \<le> sint (nextDelay c d)" "sint (nextDelay c d) \<le> sint (kMaxReconnect c)"
    using assms by (auto simp: nextDelay_def)
qed

text \<open>What a creating call is meant to create: identifier, name, type and size (1 for the types without one).\<close>

fun callCreates :: "clientCall \<Rightarrow> (string \<times> string \<times> string \<times> int32) option" where
  "callCreates (CreateRWLock pid name) = Some (pid, name, TypeRWLock, 1)"
| "callCreates (CreateSemaphore pid name cap) = Some (pid, name, TypeSemaphore, cap)"
| "callCreates (CreateMutex pid name) = Some (pid, name, TypeMutex, 1)"
| "callCreates (CreateCondVar pid name) = Some (pid, name, TypeCondVar, 1)"
| "callCreates (CreateBarrier pid name n) = Some (pid, name, TypeBarrier, n)"
| "callCreates (CreateWaitGroup pid name) = Some (pid, name, TypeWaitGroup, 1)"
| "callCreates (CreateOnce pid name) = Some (pid, name, TypeOnce, 1)"
| "callCreates (CreateSingleflight pid name) = Some (pid, name, TypeSingleflight, 1)"
| "callCreates _ = None"

lemma sint_below: "sint (n :: int32) < 2 ^ 31"
  using sint_lt [of n] by simp

text \<open>C40. The server understands every creating method of the client library: sent over a connection that may
  create (an administrator's, with a valid identifier that is free in its namespace and a valid name), with
  a positive size where the type has one, the message of the method makes the server create a new primitive
  of the type in the method's name under the given identifier and name, with exactly the given capacity
  or number of parties, and answer with success.\<close>

theorem client_create_understood:
  assumes "callCreates call = Some (pid, name, ptype, n)" "0 < sint n" "may_create conn ns pid name s"
  shows "creates_as t conn ns pid name ptype (sint n) s (clientMessage call)"
proof (cases call)
  case (CreateSemaphore x y z)
  then show ?thesis using assms(1,2) creates_semaphore [OF assms(3) assms(2) sint_below] by simp
next
  case (CreateBarrier x y z)
  then show ?thesis using assms(1,2) creates_barrier [OF assms(3) assms(2) sint_below] by simp
qed (use assms(1) creates_plain [OF assms(3)] in \<open>auto simp: client_create_def plainKinds_def\<close>)

theorem client_create_understood_witness:
  "creates_as 0 2 ''default'' ''b'' ''gate'' ''Barrier'' 4 twoClients (clientMessage (CreateBarrier ''b'' ''gate'' 4))"
proof -
  have "may_create 2 ''default'' ''b'' ''gate'' twoClients"
    by (simp add: may_create_def validatePrimID_def validatePrimName_def maxIDLen_def maxNameLen_def)
  from client_create_understood [OF _ _ this, of "CreateBarrier ''b'' ''gate'' 4" TypeBarrier 4 0] show ?thesis
    by (simp add: TypeBarrier_def)
qed

text \<open>Operations arrive as they were given, \<^verbatim>\<open>holdMs\<close> 0 by being left out.\<close>

lemma client_op_arrives:
  assumes "- (2 ^ 63) \<le> ms" "ms < 2 ^ 63" "authorizeMessage conn ''primitiveOp'' s = None"
  shows "handleMessage t conn (client_op pid op ms) s = (s, [ActGo conn pid op ms])"
  using assms by (simp add: client_op_def handleMessage_def handlePrimitiveOp_def decode_op decode_op_short)

text \<open>Some methods ask for operations that the server does not have: \<^verbatim>\<open>RUnlockRWLock\<close>, the three \<^verbatim>\<open>Try\<close> methods,
  \<^verbatim>\<open>UnlockRWLock\<close> (only a mutex can be unlocked) and \<^verbatim>\<open>WaitCondVar\<close> (only a barrier can be waited for). And a wait
  group is given 1 for every delta that is not positive.\<close>

lemma client_unknown_ops:
  assumes "oOp l \<in> {''runlock'', ''tryRLock'', ''tryLock'', ''break''}"
  shows "op_switch l = OpUnknown"
  using assms by (auto simp: op_switch_def)

lemma client_misdirected_ops:
  shows "oOp l = ''unlock'' \<Longrightarrow> oFound l KMutex = None \<Longrightarrow> op_switch l = OpSendErr (''Mutex not found: '' @ oPid l)"
    and "oOp l = ''wait'' \<Longrightarrow> oFound l KBarrier = None \<Longrightarrow> op_switch l = OpSendErr (''Barrier not found: '' @ oPid l)"
    and "oOp l = ''add'' \<Longrightarrow> oFound l KWaitGroup = Some a \<Longrightarrow> oHoldMs l \<le> 0 \<Longrightarrow> op_switch l = OpEnter (NbAdd 1) a"
  by (simp_all add: op_switch_def pickObj_def)

end
