(* ===== verification/ClientAnswers.thy ===== *)
theory ClientAnswers
  imports Client
begin

text \<open>
  Whose answer a call of the client gets. Answers carry no identifier: \<^verbatim>\<open>deliver\<close> hands an answer to the call whose reply
  channel is pending. The steady runs below are those where this is always the right one.
\<close>

subsection \<open>Every call gets its own answer\<close>

text \<open>The steady runs: goroutine 0 is the one that calls \<^verbatim>\<open>Connect\<close> (once, as every goroutine of the machine makes
  one call), and the context of a call is not done while it waits for its answer.\<close>

fun steady_exec :: "c_event \<Rightarrow> csys \<Rightarrow> csys option" where
  "steady_exec (CEvConnect t) s = (if t = 0 then c_exec (CEvConnect t) s else None)"
| "steady_exec (CEvGo t i) s = (case kpcs s t of SSelect c \<Rightarrow> if iCtx i then None else c_exec (CEvGo t i) s | _ \<Rightarrow> c_exec (CEvGo t i) s)"
| "steady_exec e s = c_exec e s"

fun c_sending :: "cpc \<Rightarrow> bool" where
  "c_sending (SPend c) = True"
| "c_sending (SDeadline c) = True"
| "c_sending (SWrite c) = True"
| "c_sending SClearD = True"
| "c_sending (SClearW c) = True"
| "c_sending _ = False"

fun c_asking :: "cpc \<Rightarrow> bool" where
  "c_asking (SDeadline c) = True"
| "c_asking (SWrite c) = True"
| "c_asking _ = False"

fun c_inflight :: "cpc \<Rightarrow> bool" where
  "c_inflight (SDeadline c) = True"
| "c_inflight (SWrite c) = True"
| "c_inflight (SSelect c) = True"
| "c_inflight SClearD = True"
| "c_inflight (SClearW c) = True"
| "c_inflight _ = False"

fun c_past :: "cpc \<Rightarrow> bool" where
  "c_past (SDeadline c) = True"
| "c_past (SWrite c) = True"
| "c_past (SSelect c) = True"
| "c_past SClearD = True"
| "c_past (SClearW c) = True"
| "c_past (SInval c) = True"
| "c_past (SCloseW c) = True"
| "c_past (SUnlock r) = True"
| "c_past (CDone r) = True"
| "c_past _ = False"

fun one_pc :: "nat \<Rightarrow> tid \<Rightarrow> cpc \<Rightarrow> bool" where
  "one_pc n t (STry d) = False"
| "one_pc n t (SConn d k) = False"
| "one_pc n t (SReread d) = False"
| "one_pc n t (STimer d) = False"
| "one_pc n t SClearCtx = False"
| "one_pc n t (UConn k) = (t = 0 \<and> (k = KDial \<longrightarrow> n = 0) \<and> (k_making k = None \<or> k_making k = Some 0))"
| "one_pc n t (SPend c) = (c = 0)"
| "one_pc n t (SDeadline c) = (c = 0)"
| "one_pc n t (SWrite c) = (c = 0)"
| "one_pc n t (SSelect c) = (c = 0)"
| "one_pc n t CIdle = (t = 0 \<longrightarrow> n = 0)"
| "one_pc n t _ = True"

fun f_tag :: "frame \<Rightarrow> tid list" where
  "f_tag (FAnswer ok tx t) = [t]"
| "f_tag _ = []"

fun r_tag :: "rpc \<Rightarrow> tid list" where
  "r_tag (RDeliver (Answer tx e t)) = [t]"
| "r_tag _ = []"

fun r_listening :: "rpc \<Rightarrow> bool" where
  "r_listening ROff = True"
| "r_listening RRead = True"
| "r_listening (RDeliver r) = True"
| "r_listening (RPut r t) = True"
| "r_listening _ = False"

text \<open>The requests of the connection that are not answered, or whose answer is not delivered.\<close>

definition outstanding :: "csys \<Rightarrow> tid list" where
  "outstanding s = kwaits s 0 @ concat (map f_tag (kinbox s 0)) @ r_tag (krpcs s 0)"

definition c_expected :: "csys \<Rightarrow> tid \<Rightarrow> bool" where
  "c_expected s t \<longleftrightarrow> kpending s = Some t \<or> kpending s = None \<and> kclosed s"

fun own_response :: "tid \<Rightarrow> response \<Rightarrow> bool" where
  "own_response t (Answer tx e g) = (g = t)"
| "own_response t (Failure e) = True"

fun own_pc :: "tid \<Rightarrow> cpc \<Rightarrow> bool" where
  "own_pc t (SUnlock r) = own_response t r"
| "own_pc t (CDone (Some r)) = own_response t r"
| "own_pc t _ = True"

fun own_rpc :: "rpc \<Rightarrow> bool" where
  "own_rpc (RPut r t) = own_response t r"
| "own_rpc (RDeliver (Failure e)) = False"
| "own_rpc _ = True"

definition st_one :: "csys \<Rightarrow> bool" where
  "st_one s \<longleftrightarrow> \<not> kAutoReconnect (kcfg s) \<and> (\<forall>t. one_pc (knext s) t (kpcs s t)) \<and> (\<forall>c. kconn s = Some c \<longrightarrow> c = 0) \<and>
     (\<forall>c. c \<noteq> 0 \<longrightarrow> krpcs s c = ROff)"

definition st_past :: "csys \<Rightarrow> bool" where
  "st_past s \<longleftrightarrow> (\<forall>t. kpending s = Some t \<longrightarrow> c_inflight (kpcs s t) \<and> \<not> answered s t) \<and> (\<forall>t. answered s t \<longrightarrow> c_past (kpcs s t))"

definition st_flow :: "csys \<Rightarrow> bool" where
  "st_flow s \<longleftrightarrow> r_listening (krpcs s 0) \<longrightarrow> length (outstanding s) \<le> 1 \<and> (\<forall>t\<in>set (outstanding s). c_expected s t) \<and>
     (\<forall>t. c_sending (kpcs s t) \<longrightarrow> outstanding s = []) \<and> (\<forall>t. c_asking (kpcs s t) \<longrightarrow> c_expected s t)"

definition st_own :: "csys \<Rightarrow> bool" where
  "st_own s \<longleftrightarrow> (\<forall>t r. kchan s t = Some r \<longrightarrow> own_response t r) \<and> (\<forall>t. own_pc t (kpcs s t)) \<and> (\<forall>c. own_rpc (krpcs s c))"

definition steady_ok :: "csys \<Rightarrow> bool" where
  "steady_ok s \<longleftrightarrow> client_ok s \<and> st_one s \<and> st_past s \<and> st_flow s \<and> st_own s"

lemma steady_exec_exec: "steady_exec e s = Some s' \<Longrightarrow> c_exec e s = Some s'"
  by (cases "(e, s)" rule: steady_exec.cases) (auto split: if_splits cpc.splits)

lemma steady_connect: "steady_exec (CEvConnect t) s = Some s' \<Longrightarrow> t = 0"
  by (simp split: if_splits)

lemma steady_go: "steady_exec (CEvGo t i) s = Some s' \<Longrightarrow> \<forall>c. kpcs s t = SSelect c \<longrightarrow> \<not> iCtx i"
  by (auto split: if_splits)

text \<open>One connection.\<close>

lemma st_one_send:
  assumes o: "st_one s" and x: "client_send i t s = Some (pc, s1)" and c: "\<forall>c. kpcs s t = SSelect c \<longrightarrow> \<not> iCtx i"
  shows "one_pc (knext s1) t pc" "knext s1 = knext s \<or> t = 0" "kcfg s1 = kcfg s" "\<forall>c. kconn s1 = Some c \<longrightarrow> c = 0"
    "\<forall>c. c \<noteq> 0 \<longrightarrow> krpcs s1 c = ROff"
proof -
  have p: "one_pc (knext s) t (kpcs s t)" and n: "\<not> kAutoReconnect (kcfg s)" and k: "\<And>c. kconn s = Some c \<Longrightarrow> c = 0"
    and r: "\<And>c. c \<noteq> 0 \<Longrightarrow> krpcs s c = ROff"
    using o unfolding st_one_def by auto
  have conn: "(case y of Inl k' \<Rightarrow> one_pc (knext s2) t (UConn k') | Inr e \<Rightarrow> True) \<and> (knext s2 = knext s \<or> t = 0) \<and> kcfg s2 = kcfg s \<and>
      (\<forall>c. kconn s2 = Some c \<longrightarrow> c = 0) \<and> (\<forall>c. c \<noteq> 0 \<longrightarrow> krpcs s2 c = ROff)"
    if "kpcs s t = UConn k" "client_Connect i k s = (y, s2)" for k y s2
    using that p k r by (cases k) (auto simp: closeConn_def split: if_splits option.splits)
  have all: "one_pc (knext s1) t pc \<and> (knext s1 = knext s \<or> t = 0) \<and> kcfg s1 = kcfg s \<and> (\<forall>c. kconn s1 = Some c \<longrightarrow> c = 0) \<and>
     (\<forall>c. c \<noteq> 0 \<longrightarrow> krpcs s1 c = ROff)"
  proof (cases "kpcs s t")
    case (UConn k)
    obtain y s2 where y: "client_Connect i k s = (y, s2)" by fastforce
    with x UConn conn [OF UConn y] show ?thesis by (cases y) (auto simp: client_send_def)
  qed (use x p n k r c in \<open>auto simp: client_send_def c_small_defs split: if_splits option.splits\<close>)
  then show "one_pc (knext s1) t pc" "knext s1 = knext s \<or> t = 0" "kcfg s1 = kcfg s" "\<forall>c. kconn s1 = Some c \<longrightarrow> c = 0"
    "\<forall>c. c \<noteq> 0 \<longrightarrow> krpcs s1 c = ROff" by blast+
qed

lemma one_pc_other: "one_pc n u pc \<Longrightarrow> m = n \<or> u \<noteq> 0 \<Longrightarrow> one_pc m u pc"
  by (cases pc) auto

lemma st_one_step:
  assumes o: "st_one s" and x: "steady_exec e s = Some s'"
  shows "st_one s'"
  using steady_exec_exec [OF x]
proof (cases rule: c_exec_cases)
  case (call t pc)
  then have "pc = UConn KDial \<longrightarrow> t = 0 \<and> knext s = 0" using x o steady_connect unfolding st_one_def by (metis one_pc.simps(11) cpc.distinct)
  then show ?thesis using o call(2) unfolding call(3) st_one_def by (auto simp: putPc_def)
next
  case (sends t i pc s1)
  note eff = st_one_send [OF o sends(2) steady_go [OF x [unfolded sends(1)]]]
  have "one_pc (knext s1) u (kpcs s u)" if "u \<noteq> t" for u
    by (rule one_pc_other [of "knext s"]) (use o eff(2) that in \<open>auto simp: st_one_def\<close>)
  then show ?thesis using eff o client_send_mutex(1) [OF sends(2)] unfolding sends(3) st_one_def by (auto simp: putPc_def)
next
  case (closes t i pc s1)
  then have "one_pc (knext s1) t pc \<and> knext s1 = knext s \<and> kcfg s1 = kcfg s \<and> (kconn s1 = kconn s \<or> kconn s1 = None) \<and> krpcs s1 = krpcs s"
    using o by (cases "kpcs s t") (auto simp: client_Close_def c_small_defs split: if_splits option.splits)
  then show ?thesis using o client_Close_mutex(1) [OF closes(2)] unfolding closes(3) st_one_def by (auto simp: putPc_def)
next
  case (reads c i r s1)
  note fr = client_readLoop_frame [OF reads(2)]
  have "kconn s1 = kconn s \<or> kconn s1 = None" using reads(2)
    by (cases "krpcs s c") (auto simp: client_readLoop_def c_small_defs split: if_splits option.splits list.splits frame.splits)
  moreover have "c = 0" using fr(5) o unfolding st_one_def by blast
  ultimately show ?thesis using o fr unfolding reads(3) st_one_def by auto
next
  case (serves c n ok tx f)
  show ?thesis using o by (subst serves(2)) (simp add: st_one_def)
qed

text \<open>A pending call is in flight and has no response yet; responses are for calls that were pending.\<close>

lemma c_inflight_inside: "c_inflight pc \<Longrightarrow> c_inside pc \<and> c_past pc"
  by (cases pc) auto

lemma answered_same:
  assumes "\<And>c. r_target (krpcs s' c) = r_target (krpcs s c)" "\<And>u. x_target (kpcs s' u) = x_target (kpcs s u)" "kchan s' t = kchan s t"
  shows "answered s' t = answered s t"
  using assms by (simp add: answered_def)

lemma client_send_past:
  assumes x: "client_send i t s = Some (pc, s1)" and o: "one_pc n t (kpcs s t)" and c: "\<forall>c. kpcs s t = SSelect c \<longrightarrow> \<not> iCtx i"
  shows "c_past (kpcs s t) \<longrightarrow> c_past pc" (is ?A) "kchan s1 t = kchan s t \<or> kchan s1 t = None" (is ?B)
    "kpending s1 = kpending s \<and> (c_inflight (kpcs s t) \<and> kpending s = Some t \<longrightarrow> c_inflight pc \<or> kchan s t \<noteq> None) \<or>
     kpending s1 = Some t \<and> kpcs s t = SPend 0 \<and> pc = SDeadline 0 \<or>
     kpending s1 = None" (is ?C)
proof -
  have all: "?A \<and> ?B \<and> ?C"
  proof (cases "kpcs s t")
    case (UConn k)
    obtain y s2 where y: "client_Connect i k s = (y, s2)" by fastforce
    with x UConn have "s1 = s2" by (auto simp: client_send_def split: sum.splits)
    then show ?thesis using client_Connect_frame [OF y] UConn by simp
  qed (use x o c in \<open>auto simp: client_send_def c_small_defs split: if_splits option.splits\<close>)
  show ?A by (rule conjunct1 [OF all])
  show ?B by (rule conjunct1 [OF conjunct2 [OF all]])
  show ?C by (rule conjunct2 [OF conjunct2 [OF all]])
qed

lemma client_send_targets:
  assumes "client_send i t s = Some (pc, s1)" "c_fresh s"
  shows "r_target (krpcs s1 c) = r_target (krpcs s c)"
  using client_send_fresh [OF assms(1)] assms(2) unfolding c_fresh_def by auto

lemma st_past_send:
  assumes o: "st_past s" "st_one s" "c_mutex s" "c_fresh s" and x: "client_send i t s = Some (pc, s1)"
    and c: "\<forall>c. kpcs s t = SSelect c \<longrightarrow> \<not> iCtx i"
  shows "st_past (putPc t pc s1)"
proof -
  define s' where "s' = putPc t pc s1"
  have pd: "c_inflight (kpcs s u)" "\<not> answered s u" if "kpending s = Some u" for u using o(1) that unfolding st_past_def by auto
  have pa: "c_past (kpcs s u)" if "answered s u" for u using o(1) that unfolding st_past_def by auto
  have one: "one_pc (knext s) t (kpcs s t)" using o(2) unfolding st_one_def by blast
  note eff = client_send_past [OF x one c] and ch = client_send_chan [OF x] and p1 = client_send_mutex(1) [OF x]
  have f: "kpcs s' = (kpcs s)(t := pc)" "kpending s' = kpending s1" using p1 by (simp_all add: s'_def putPc_def)
  have tg: "r_target (krpcs s' c) = r_target (krpcs s c)" for c using client_send_targets [OF x o(4)] by (simp add: s'_def putPc_def)
  have xt: "x_target (kpcs s' u) = x_target (kpcs s u)" for u using ch(2,3) f(1) by simp
  have chan: "kchan s' u = kchan s u \<or> kchan s' u = None" for u
    using eff(2) ch(1) [of u] by (cases "u = t") (auto simp: s'_def putPc_def)
  have less: "answered s u" if "answered s' u" for u
    using that chan [of u] tg xt unfolding answered_def by auto
  have past: "c_past (kpcs s' u)" if "answered s' u" for u
    using pa [OF less [OF that]] eff(1) f(1) by (cases "u = t") auto
  have "c_inflight (kpcs s' u) \<and> \<not> answered s' u" if u: "kpending s' = Some u" for u
    using eff(3)
  proof (elim disjE conjE)
    assume "kpending s1 = kpending s" and fl: "c_inflight (kpcs s t) \<and> kpending s = Some t \<longrightarrow> c_inflight pc \<or> kchan s t \<noteq> None"
    then have k: "kpending s = Some u" using u f(2) by simp
    note p = pd [OF k]
    then have "u = t \<longrightarrow> kchan s t = None" unfolding answered_def by blast
    then show ?thesis using p k less fl f(1) by auto
  next
    assume a: "kpending s1 = Some t" "kpcs s t = SPend 0" "pc = SDeadline 0"
    then have "\<not> answered s t" using pa [of t] by auto
    then show ?thesis using a u f less by auto
  next
    assume "kpending s1 = None"
    then show ?thesis using u f(2) by simp
  qed
  then show ?thesis using past unfolding st_past_def s'_def by blast
qed

lemma client_Close_past:
  assumes "client_Close t s = Some (pc, s1)"
  shows "kpending s1 = kpending s \<and> x_target pc = None \<or> kpending s1 = None \<and> x_target pc = kpending s" "\<not> c_past (kpcs s t)"
    "kchan s1 u = kchan s u \<or> x_target (kpcs s t) = Some u"
  using assms by (cases "kpcs s t"; auto simp: client_Close_def c_small_defs split: if_splits option.splits)+

lemma st_past_close:
  assumes o: "st_past s" and x: "client_Close t s = Some (pc, s1)"
  shows "st_past (putPc t pc s1)"
proof -
  define s' where "s' = putPc t pc s1"
  have pd: "c_inflight (kpcs s u)" "\<not> answered s u" if "kpending s = Some u" for u using o(1) that unfolding st_past_def by auto
  have pa: "c_past (kpcs s u)" if "answered s u" for u using o(1) that unfolding st_past_def by auto
  note eff = client_Close_past [OF x]
  have f: "kpcs s' = (kpcs s)(t := pc)" "kpending s' = kpending s1" "krpcs s' = krpcs s" "kchan s' = kchan s1"
    using client_Close_mutex(1) [OF x] client_Close_fresh(1) [OF x] by (simp_all add: s'_def putPc_def)
  have less: "answered s u \<or> kpending s1 = None \<and> kpending s = Some u" if "answered s' u" for u
    using that eff(1) eff(3) [of u] f unfolding answered_def by (auto split: if_splits)
  have nt: "kpcs s' u = kpcs s u" if "c_past (kpcs s u)" for u using that eff(2) f(1) by auto
  show ?thesis unfolding st_past_def s'_def [symmetric]
  proof (intro conjI allI impI)
    fix u assume "kpending s' = Some u"
    then have k1: "kpending s1 = Some u" by (simp add: f)
    then have k: "kpending s = Some u" "kpending s1 \<noteq> None" using eff(1) by (metis option.distinct(1))+
    show "c_inflight (kpcs s' u)" using pd(1) [OF k(1)] nt c_inflight_inside by metis
    show "\<not> answered s' u" using pd(2) [OF k(1)] less [of u] k(2) by (elim contrapos_nn) simp
  next
    fix u assume "answered s' u"
    then have "c_past (kpcs s u)" using less pa pd(1) c_inflight_inside by blast
    then show "c_past (kpcs s' u)" using nt by simp
  qed
qed

lemma client_readLoop_past:
  assumes "client_readLoop i c s = Some (r, s1)"
  shows "kpending s1 = kpending s \<and> r_target r = None \<or> kpending s1 = None \<and> r_target r = kpending s"
    "kchan s1 u = kchan s u \<or> r_target (krpcs s c) = Some u"
  using assms
  by (cases "krpcs s c"; auto simp: client_readLoop_def c_small_defs split: if_splits option.splits list.splits frame.splits)+

lemma st_past_read:
  assumes o: "st_past s" and x: "client_readLoop i c s = Some (r, s1)" and s': "s' = s1\<lparr>krpcs := (krpcs s1)(c := r)\<rparr>"
  shows "st_past s'"
proof -
  have pd: "c_inflight (kpcs s u)" "\<not> answered s u" if "kpending s = Some u" for u using o(1) that unfolding st_past_def by auto
  have pa: "c_past (kpcs s u)" if "answered s u" for u using o(1) that unfolding st_past_def by auto
  note eff = client_readLoop_past [OF x] and fr = client_readLoop_frame [OF x]
  have less: "answered s u \<or> kpending s1 = None \<and> kpending s = Some u" if "answered s' u" for u
    using that eff(1) eff(2) [of u] fr(1,4) unfolding answered_def s' by (auto split: if_splits)
  show ?thesis unfolding st_past_def
  proof (intro conjI allI impI)
    fix u assume "kpending s' = Some u"
    then have k1: "kpending s1 = Some u" by (simp add: s')
    then have k: "kpending s = Some u" "kpending s1 \<noteq> None" using eff(1) by (metis option.distinct(1))+
    show "c_inflight (kpcs s' u)" using pd(1) [OF k(1)] by (simp add: s' fr)
    show "\<not> answered s' u" using pd(2) [OF k(1)] less [of u] k(2) by (elim contrapos_nn) simp
  next
    fix u assume "answered s' u"
    then have "c_past (kpcs s u)" using less pa pd(1) c_inflight_inside by blast
    then show "c_past (kpcs s' u)" by (simp add: s' fr)
  qed
qed

lemma st_past_step:
  assumes o: "st_past s" "st_one s" "client_ok s" and x: "steady_exec e s = Some s'"
  shows "st_past s'"
  using steady_exec_exec [OF x]
proof (cases rule: c_exec_cases)
  case (call t pc)
  have a: "answered s' u = answered s u" for u by (rule answered_same) (use call in \<open>auto simp: putPc_def\<close>)
  have "\<not> c_inflight (kpcs s t)" "\<not> c_past (kpcs s t)" using call(1) by auto
  then show ?thesis using o(1) a call unfolding st_past_def by (auto simp: putPc_def)
next
  case (sends t i pc s1)
  then show ?thesis using st_past_send [OF _ _ _ _ sends(2) steady_go [OF x [unfolded sends(1)]]] o unfolding client_ok_def by blast
next
  case (serves c n ok tx f)
  show ?thesis using o(1) by (subst serves(2)) (simp add: st_past_def answered_def)
qed (use st_past_close st_past_read o in blast)+

text \<open>Responses are the calls' own.\<close>

lemma client_send_own:
  assumes x: "client_send i t s = Some (pc, s1)" and o: "st_own s"
  shows "own_pc t pc \<and> (\<forall>u r. kchan s1 u = Some r \<longrightarrow> kchan s u = Some r)"
proof -
  have ch: "\<And>r. kchan s t = Some r \<Longrightarrow> own_response t r" and p: "own_pc t (kpcs s t)" using o unfolding st_own_def by blast+
  have conn: "kchan s2 = kchan s" if "client_Connect i k s = (y, s2)" for k y s2
    using client_Connect_frame(5) [OF that] .
  show ?thesis
  proof (cases "kpcs s t")
    case (UConn k)
    obtain y s2 where y: "client_Connect i k s = (y, s2)" by fastforce
    with x UConn conn [OF y] show ?thesis by (cases y; cases "projr y") (auto simp: client_send_def)
  next
    case (SConn d k)
    obtain y s2 where y: "client_Connect i k s = (y, s2)" by fastforce
    with x SConn conn [OF y] show ?thesis by (auto simp: client_send_def split: sum.splits option.splits)
  qed (use x ch p in \<open>auto simp: client_send_def c_small_defs split: if_splits option.splits\<close>)
qed

lemma st_own_step:
  assumes o: "st_own s" "st_flow s" "st_one s" "client_ok s" and x: "c_exec e s = Some s'"
  shows "st_own s'"
  using x
proof (cases rule: c_exec_cases)
  case (call t pc)
  then show ?thesis using o(1) unfolding st_own_def by (auto simp: putPc_def)
next
  case (sends t i pc s1)
  have "own_rpc (krpcs s1 c)" for c
    using client_send_fresh [OF sends(2)] o(1) unfolding st_own_def by auto
  then show ?thesis using client_send_own [OF sends(2) o(1)] client_send_mutex(1) [OF sends(2)] o(1)
    unfolding sends(3) st_own_def by (auto simp: putPc_def)
next
  case (closes t i pc s1)
  have "own_pc t pc \<and> (\<forall>u r. kchan s1 u = Some r \<longrightarrow> own_response u r) \<and> krpcs s1 = krpcs s \<and> kpcs s1 = kpcs s"
    using closes(2) o(1) unfolding st_own_def
    by (cases "kpcs s t") (auto simp: client_Close_def c_small_defs split: if_splits option.splits)
  then show ?thesis using o(1) unfolding closes(3) st_own_def by (auto simp: putPc_def)
next
  case (reads c i r s1)
  have c0: "c = 0" using client_readLoop_frame(5) [OF reads(2)] o(3) unfolding st_one_def by blast
  have own: "own_rpc (krpcs s c)" and ch: "\<And>u r. kchan s u = Some r \<Longrightarrow> own_response u r" using o(1) unfolding st_own_def by blast+
  have del: "own_response t a" if "krpcs s c = RDeliver a" "kpending s = Some t" for a t
    using o(2) that c0 own by (cases a) (auto simp: st_flow_def outstanding_def c_expected_def)
  have "own_rpc r \<and> (\<forall>u a. kchan s1 u = Some a \<longrightarrow> own_response u a)"
    using reads(2) own ch del
    by (cases "krpcs s c") (auto simp: client_readLoop_def c_small_defs split: if_splits option.splits list.splits frame.splits)
  then show ?thesis using o(1) client_readLoop_frame [OF reads(2)] unfolding reads(3) st_own_def by auto
next
  case (serves c n ok tx f)
  show ?thesis using o(1) by (subst serves(2)) (simp add: st_own_def)
qed

text \<open>At most one request is outstanding, and it is that of the pending call.\<close>

lemma st_flowI:
  assumes "r_listening (krpcs s 0) \<Longrightarrow> length (outstanding s) \<le> 1"
    "\<And>t. r_listening (krpcs s 0) \<Longrightarrow> t \<in> set (outstanding s) \<Longrightarrow> c_expected s t"
    "\<And>t. r_listening (krpcs s 0) \<Longrightarrow> c_sending (kpcs s t) \<Longrightarrow> outstanding s = []"
    "\<And>t. r_listening (krpcs s 0) \<Longrightarrow> c_asking (kpcs s t) \<Longrightarrow> c_expected s t"
  shows "st_flow s"
  using assms unfolding st_flow_def by blast

lemma st_flowD:
  assumes "st_flow s" "r_listening (krpcs s 0)"
  shows "length (outstanding s) \<le> 1" "t \<in> set (outstanding s) \<Longrightarrow> c_expected s t"
    "c_sending (kpcs s t) \<Longrightarrow> outstanding s = []" "c_asking (kpcs s t) \<Longrightarrow> c_expected s t"
  using assms unfolding st_flow_def by blast+

lemma outstanding_putPc [simp]: "outstanding (putPc t pc s) = outstanding s"
  by (simp add: outstanding_def putPc_def)

lemma c_sending_inside: "c_sending pc \<Longrightarrow> c_inside pc" "c_asking pc \<Longrightarrow> c_sending pc"
  by (cases pc; simp)+

lemma client_send_flow:
  assumes x: "client_send i t s = Some (pc, s1)" and o: "st_one s" "c_fresh s"
    and c: "\<forall>c. kpcs s t = SSelect c \<longrightarrow> \<not> iCtx i"
  shows "r_listening (krpcs s1 0) = r_listening (krpcs s 0) \<and> kclosed s1 = kclosed s \<and>
    (outstanding s1 = outstanding s \<and> kpending s1 = kpending s \<and> (c_asking pc \<longrightarrow> c_asking (kpcs s t)) \<and>
       (c_sending pc \<longrightarrow> c_sending (kpcs s t) \<or> kpcs s t = SEnsure \<and> \<not> kclosed s) \<or>
     outstanding s1 = outstanding s \<and> c_sending (kpcs s t) \<and> (c_asking pc \<longrightarrow> kpending s1 = Some t) \<or>
     set (outstanding s1) = insert t (set (outstanding s)) \<and> length (outstanding s1) = Suc (length (outstanding s)) \<and>
       kpending s1 = kpending s \<and> kpcs s t = SWrite 0 \<and> \<not> c_sending pc)"
proof -
  have p: "one_pc (knext s) t (kpcs s t)" using o(1) unfolding st_one_def by blast
  show ?thesis
  proof (cases "kpcs s t")
    case (UConn k)
    obtain y s2 where y: "client_Connect i k s = (y, s2)" by fastforce
    have "krpcs s2 0 = krpcs s 0 \<or> krpcs s 0 = ROff \<and> krpcs s2 0 = RRead"
      using client_Connect_rpcs [OF y] UConn o(2) unfolding c_fresh_def
      by (metis c_making.simps(2) fun_upd_apply k_making.simps(6))
    moreover have "s1 = s2" "\<not> c_sending pc" "\<not> c_asking pc" using x UConn y by (auto simp: client_send_def split: sum.splits)
    ultimately show ?thesis using client_Connect_frame [OF y] by (auto simp: outstanding_def)
  next
    case (SWrite c)
    then have "c = 0" using p by simp
    then show ?thesis using x SWrite by (auto simp: client_send_def outstanding_def split: if_splits)
  qed (use x c p in \<open>auto simp: client_send_def c_small_defs outstanding_def split: if_splits option.splits\<close>)
qed

lemma st_flow_send:
  assumes f: "st_flow s" "st_past s" "st_one s" "client_ok s" and x: "client_send i t s = Some (pc, s1)"
    and c: "\<forall>c. kpcs s t = SSelect c \<longrightarrow> \<not> iCtx i"
  shows "st_flow (putPc t pc s1)"
proof (cases "r_listening (krpcs s 0)")
  case l: True
  define s' where "s' = putPc t pc s1"
  have m: "c_mutex s" "c_fresh s" using f(4) unfolding client_ok_def by blast+
  note eff = client_send_flow [OF x f(3) m(2) c] and D = st_flowD [OF f(1) l]
  have p: "kpcs s' = (kpcs s)(t := pc)" "outstanding s' = outstanding s1" "kpending s' = kpending s1" "kclosed s' = kclosed s"
    using eff client_send_mutex(1) [OF x] by (simp_all add: s'_def putPc_def outstanding_def)
  have alone: "\<not> c_sending (kpcs s u)" "\<not> c_asking (kpcs s u)" if "u \<noteq> t" "c_inside (kpcs s t)" for u
    using c_inside_unique [OF m(1), of u t] that c_sending_inside by blast+
  have empty: "outstanding s = []" if "kpcs s t = SEnsure" "\<not> kclosed s"
  proof (rule ccontr)
    assume "outstanding s \<noteq> []"
    then obtain g where "c_expected s g" using D(2) by (metis list.set_intros(1) neq_Nil_conv)
    then have "c_inflight (kpcs s g)" using f(2) that(2) unfolding st_past_def c_expected_def by blast
    then show False using c_inside_unique [OF m(1), of g t] c_inflight_inside [of "kpcs s g"] that(1) by auto
  qed
  from eff consider
      (same) "outstanding s' = outstanding s" "kpending s' = kpending s" "c_asking pc \<longrightarrow> c_asking (kpcs s t)"
        "c_sending pc \<longrightarrow> c_sending (kpcs s t) \<or> kpcs s t = SEnsure \<and> \<not> kclosed s"
    | (sending) "outstanding s' = outstanding s" "c_sending (kpcs s t)" "c_asking pc \<longrightarrow> kpending s' = Some t"
    | (wrote) "set (outstanding s') = insert t (set (outstanding s))" "length (outstanding s') = Suc (length (outstanding s))"
        "kpending s' = kpending s" "kpcs s t = SWrite 0" "\<not> c_sending pc"
    unfolding p by argo
  then have "st_flow s'"
  proof cases
    case same
    then have "c_expected s' u = c_expected s u" for u by (simp add: c_expected_def p)
    then show ?thesis using D empty same p(1) by (intro st_flowI) (auto split: if_splits)
  next
    case sending
    then have "outstanding s' = []" using D(3) by simp
    moreover have "\<not> c_asking (kpcs s u)" if "u \<noteq> t" for u using alone(2) [OF that] sending(2) c_sending_inside by blast
    ultimately show ?thesis using sending p(1) by (intro st_flowI) (auto simp: c_expected_def split: if_splits)
  next
    case wrote
    then have e: "outstanding s = []" "c_expected s t" using D(3,4) [of t] by auto
    have "\<not> c_sending (kpcs s' u)" for u using alone(1) [of u] wrote(4,5) p(1) by auto
    then show ?thesis using wrote e c_sending_inside(2) by (intro st_flowI) (auto simp: c_expected_def p)
  qed
  then show ?thesis by (simp add: s'_def)
next
  case False
  have "r_listening (krpcs s1 0) = r_listening (krpcs s 0)"
    using client_send_flow [OF x f(3) _ c] f(4) unfolding client_ok_def by blast
  then show ?thesis using False by (intro st_flowI) (simp_all add: putPc_def)
qed

text \<open>Where no call starts to send, it is enough that nothing is added and expectations are kept.\<close>

lemma st_flow_keep:
  assumes f: "st_flow s" and l: "r_listening (krpcs s' 0) \<Longrightarrow> r_listening (krpcs s 0)"
    and o: "length (outstanding s') \<le> length (outstanding s)" "set (outstanding s') \<subseteq> set (outstanding s)"
    and p: "\<And>u. c_sending (kpcs s' u) \<Longrightarrow> c_sending (kpcs s u)" "\<And>u. c_asking (kpcs s' u) \<Longrightarrow> c_asking (kpcs s u)"
    and e: "\<And>u. r_listening (krpcs s' 0) \<Longrightarrow> c_expected s u \<Longrightarrow> c_expected s' u \<or> outstanding s' = [] \<and> \<not> c_asking (kpcs s' u)"
  shows "st_flow s'"
proof (rule st_flowI)
  assume l': "r_listening (krpcs s' 0)"
  note D = st_flowD [OF f l [OF l']]
  show "length (outstanding s') \<le> 1" using D(1) o(1) by simp
  show "c_expected s' t" if "t \<in> set (outstanding s')" for t
    using e [OF l' D(2) [OF subsetD [OF o(2) that]]] that by auto
  show "outstanding s' = []" if "c_sending (kpcs s' t)" for t using D(3) [OF p(1) [OF that]] o(1) by simp
  show "c_expected s' t" if "c_asking (kpcs s' t)" for t using D(4) [OF p(2) [OF that]] e [OF l', of t] that by blast
qed

lemma st_flow_close:
  assumes f: "st_flow s" and x: "client_Close t s = Some (pc, s1)"
  shows "st_flow (putPc t pc s1)"
proof -
  have e: "krpcs s1 = krpcs s \<and> outstanding s1 = outstanding s \<and> kpcs s1 = kpcs s \<and> \<not> c_sending pc \<and> \<not> c_asking pc \<and>
     (kpending s1 = kpending s \<and> kclosed s1 = kclosed s \<or> kpending s1 = None \<and> kclosed s1)"
    using x by (cases "kpcs s t") (auto simp: client_Close_def c_small_defs outstanding_def split: if_splits option.splits)
  show ?thesis
  proof (rule st_flow_keep [OF f])
    show "c_expected (putPc t pc s1) u \<or> P" if "c_expected s u" for u P
      using that e by (auto simp: c_expected_def putPc_def)
  qed (use e in \<open>simp_all, simp_all add: putPc_def split: if_splits\<close>)
qed

lemma client_readLoop_flow:
  assumes x: "client_readLoop i 0 s = Some (r, s1)" and l: "r_listening r" and own: "own_rpc (krpcs s 0)"
    and s': "s' = s1\<lparr>krpcs := (krpcs s1)(0 := r)\<rparr>"
  shows "r_listening (krpcs s 0)" "length (outstanding s') \<le> length (outstanding s)" "set (outstanding s') \<subseteq> set (outstanding s)"
    "kpending s' = kpending s \<or> length (outstanding s') < length (outstanding s)"
proof -
  have "r_listening (krpcs s 0) \<and> length (outstanding s') \<le> length (outstanding s) \<and> set (outstanding s') \<subseteq> set (outstanding s) \<and>
    (kpending s' = kpending s \<or> length (outstanding s') < length (outstanding s))"
  proof (cases "krpcs s 0")
    case (RDeliver a)
    then show ?thesis using x own unfolding s' by (cases a) (auto simp: client_readLoop_def outstanding_def split: option.splits)
  next
    case RRead
    show ?thesis
    proof (cases "kinbox s 0")
      case (Cons f fs)
      then show ?thesis using x l RRead unfolding s' by (cases f) (auto simp: client_readLoop_def outstanding_def split: if_splits)
    qed (use x l RRead in \<open>auto simp: client_readLoop_def split: if_splits\<close>)
  next
    case (RPut a u)
    then show ?thesis using x unfolding s' by (auto simp: client_readLoop_def outstanding_def putChan_def split: if_splits)
  qed (use x l in \<open>auto simp: client_readLoop_def split: option.splits\<close>)
  then show "r_listening (krpcs s 0)" "length (outstanding s') \<le> length (outstanding s)" "set (outstanding s') \<subseteq> set (outstanding s)"
    "kpending s' = kpending s \<or> length (outstanding s') < length (outstanding s)" by simp_all
qed

lemma st_flow_read:
  assumes f: "st_flow s" "st_own s" and x: "client_readLoop i 0 s = Some (r, s1)" and s': "s' = s1\<lparr>krpcs := (krpcs s1)(0 := r)\<rparr>"
  shows "st_flow s'"
proof (cases "r_listening r")
  case l': True
  have own: "own_rpc (krpcs s 0)" using f(2) unfolding st_own_def by blast
  note fr = client_readLoop_frame [OF x] and eff = client_readLoop_flow [OF x l' own s'] and D = st_flowD [OF f(1)]
  show ?thesis
  proof (rule st_flow_keep [OF f(1) eff(1,2,3)])
    show "c_expected s' u \<or> outstanding s' = [] \<and> \<not> c_asking (kpcs s' u)" if "c_expected s u" for u
    proof (cases "kpending s' = kpending s")
      case True
      then show ?thesis using that fr(9) by (simp add: c_expected_def s')
    next
      case False
      then have less: "length (outstanding s') < length (outstanding s)" using eff(4) by simp
      then have "outstanding s' = []" "outstanding s \<noteq> []" using D(1) [OF eff(1)] by (cases "outstanding s'", auto)+
      moreover from this have "\<not> c_asking (kpcs s u)" using D(3) [OF eff(1), of u] c_sending_inside(2) by blast
      ultimately show ?thesis by (simp add: s' fr(1))
    qed
  qed (simp_all add: s' fr)
next
  case False
  then show ?thesis by (intro st_flowI) (simp_all add: s')
qed

lemma st_flow_serve:
  assumes f: "st_flow s" and s: "f = FAnswer ok tx (kwaits s c ! n) \<and> n < length (kwaits s c) \<and>
        kwaits s' = (kwaits s)(c := take n (kwaits s c) @ drop (Suc n) (kwaits s c)) \<or> (f = FBad \<or> f = FOther) \<and> kwaits s' = kwaits s"
      "s' = s\<lparr>kinbox := (kinbox s)(c := kinbox s c @ [f]), kwaits := kwaits s'\<rparr>"
  shows "st_flow s'"
proof -
  have k: "kinbox s' = (kinbox s)(c := kinbox s c @ [f])" "krpcs s' = krpcs s" "kpcs s' = kpcs s" "kpending s' = kpending s" "kclosed s' = kclosed s"
    by (subst s(2), simp)+
  have o: "length (outstanding s') \<le> length (outstanding s) \<and> set (outstanding s') \<subseteq> set (outstanding s)"
  proof (cases "c = 0")
    case True
    with s(1) show ?thesis
    proof (elim disjE conjE)
      assume a: "f = FAnswer ok tx (kwaits s c ! n)" "n < length (kwaits s c)"
        "kwaits s' = (kwaits s)(c := take n (kwaits s c) @ drop (Suc n) (kwaits s c))"
      then have "kwaits s 0 ! n \<in> set (kwaits s 0)" using True by simp
      then show ?thesis using a True
        by (auto simp: outstanding_def k dest: in_set_takeD in_set_dropD)
    qed (simp_all add: outstanding_def k)
  next
    case False
    with s(1) show ?thesis by (auto simp: outstanding_def k)
  qed
  show ?thesis
    by (rule st_flow_keep [OF f]) (use o in \<open>simp_all add: k c_expected_def\<close>)
qed

lemma st_flow_step:
  assumes o: "st_flow s" "st_own s" "st_past s" "st_one s" "client_ok s" and x: "steady_exec e s = Some s'"
  shows "st_flow s'"
  using steady_exec_exec [OF x]
proof (cases rule: c_exec_cases)
  case (call t pc)
  then show ?thesis by (intro st_flow_keep [OF o(1)]) (auto simp: putPc_def outstanding_def c_expected_def split: if_splits)
next
  case (sends t i pc s1)
  then show ?thesis using st_flow_send [OF o(1,3,4,5) sends(2) steady_go [OF x [unfolded sends(1)]]] by simp
next
  case (closes t i pc s1)
  then show ?thesis using st_flow_close [OF o(1)] by simp
next
  case (reads c i r s1)
  have "c = 0" using client_readLoop_frame(5) [OF reads(2)] o(4) unfolding st_one_def by blast
  then show ?thesis using st_flow_read [OF o(1,2)] reads by blast
qed (rule st_flow_serve [OF o(1)])

lemma steady_ok_step: "steady_ok s \<Longrightarrow> steady_exec e s = Some s' \<Longrightarrow> steady_ok s'"
  unfolding steady_ok_def
  using client_ok_step steady_exec_exec st_one_step st_past_step st_flow_step st_own_step by blast

lemma steady_ok_init:
  assumes "\<not> kAutoReconnect cf"
  shows "steady_ok (c_init cf)"
  using client_ok_init [of cf] assms
  by (simp add: steady_ok_def st_one_def st_past_def st_flow_def st_own_def c_init_def client_New_def answered_def outstanding_def)

interpretation steady_inv: invariant_machine steady_exec "c_init cf" "\<lambda>s. \<not> kAutoReconnect cf \<longrightarrow> steady_ok s"
  by unfold_locales (auto intro: steady_ok_init steady_ok_step)

subsection \<open>Properties\<close>

text \<open>C17. On one connection, as long as the context of no waiting call is done, every call that returns with an
  answer returns with the answer to its own request, although answers carry no identifier and the server may
  push other messages, the connection may fail and the client may be closed in between.\<close>

theorem client_answers_own_call:
  assumes "\<not> kAutoReconnect cf" "reachable steady_exec (c_init cf) s" "kpcs s t = CDone (Some (Answer tx e g))"
  shows "g = t"
proof -
  have "steady_ok s" using steady_inv.reachable_inv [OF assms(2)] assms(1) by blast
  then have "own_pc t (kpcs s t)" unfolding steady_ok_def st_own_def by blast
  then show ?thesis using assms(3) by simp
qed

theorem client_answers_own_call_witness:
  "\<exists>s. run steady_exec (connects 0 @ asks 1 @ [CEvSend 2] @ answers 0 ''ok'' @ takes 1 @ replicate 5 (CEvGo 2 go) @ answers 0 ''no'' @ takes 2)
       (c_init cf0) = Some s \<and> (\<exists>g. kpcs s 2 = CDone (Some (Answer ''no'' None g)) \<and> g = 2)"
proof -
  have "case run steady_exec (connects 0 @ asks 1 @ [CEvSend 2] @ answers 0 ''ok'' @ takes 1 @ replicate 5 (CEvGo 2 go) @ answers 0 ''no'' @ takes 2)
       (c_init cf0) of None \<Rightarrow> False | Some s \<Rightarrow> kpcs s 2 = CDone (Some (Answer ''no'' None 2))"
    by code_simp
  then obtain s where r: "run steady_exec (connects 0 @ asks 1 @ [CEvSend 2] @ answers 0 ''ok'' @ takes 1 @ replicate 5 (CEvGo 2 go) @ answers 0 ''no'' @ takes 2)
       (c_init cf0) = Some s" and p: "kpcs s 2 = CDone (Some (Answer ''no'' None 2))"
    by (rule client_run_ex)
  have "\<not> kAutoReconnect cf0" by (simp add: cf0_def)
  from client_answers_own_call [OF this run_reachable [OF r] p] r p show ?thesis by blast
qed

end
