(* ===== verification/Flags.thy ===== *)
theory Flags
  imports JsonVal
begin

text \<open>
  The package \<^verbatim>\<open>flag\<close> of the standard library as the two commands use it: \<^verbatim>\<open>FlagSet.Parse\<close>, and the values of
  the flags (\<^verbatim>\<open>strconv.ParseBool\<close>, \<^verbatim>\<open>strconv.ParseInt\<close> with base 0). \<^verbatim>\<open>time.ParseDuration\<close> computes fractions in
  floating point; it is the argument \<open>dur\<close>, a duration in nanoseconds.
\<close>

subsection \<open>Values\<close>

definition ParseBool :: "string \<Rightarrow> bool option" where
  "ParseBool s =
     (if s \<in> set [''1'', ''t'', ''T'', ''true'', ''TRUE'', ''True''] then Some True
      else if s \<in> set [''0'', ''f'', ''F'', ''false'', ''FALSE'', ''False''] then Some False
      else None)"

definition digitValue :: "char \<Rightarrow> nat option" where
  "digitValue c = (let n = of_char c :: nat; m = of_char (lower c) :: nat
     in if 48 \<le> n \<and> n \<le> 57 then Some (n - 48)
        else if 97 \<le> m \<and> m \<le> 122 then Some (m - 87) else None)"

text \<open>The loop of \<^verbatim>\<open>ParseUint\<close> with base 0: underscores are skipped here and checked afterwards; a number
  that does not fit into 64 bits ends the loop at once.\<close>

datatype numErr = ErrSyntax | ErrRange

fun parseDigits :: "nat \<Rightarrow> nat \<Rightarrow> string \<Rightarrow> numErr + nat" where
  "parseDigits base n [] = Inr n"
| "parseDigits base n (c # cs) =
     (if c = CHR ''_'' then parseDigits base n cs
      else case digitValue c of
             None \<Rightarrow> Inl ErrSyntax
           | Some d \<Rightarrow> if base \<le> d then Inl ErrSyntax
                       else if 2 ^ 64 \<le> n * base + d then Inl ErrRange
                       else parseDigits base (n * base + d) cs)"

definition basePrefix :: "string \<Rightarrow> nat \<times> string" where
  "basePrefix s = (case s of
      c # d # e # cs \<Rightarrow>
        if c \<noteq> CHR ''0'' then (10, s)
        else if lower d = CHR ''b'' then (2, e # cs)
        else if lower d = CHR ''o'' then (8, e # cs)
        else if lower d = CHR ''x'' then (16, e # cs)
        else (8, d # e # cs)
    | c # cs \<Rightarrow> if c = CHR ''0'' then (8, cs) else (10, s)
    | [] \<Rightarrow> (10, []))"

text \<open>\<^verbatim>\<open>underscoreOK\<close>: underscores separate digits, and may follow a base prefix. \<open>p\<close> is the kind of the last
  character: \<open>CHR ''0''\<close> for a digit or a prefix, \<open>CHR ''_''\<close>, \<open>CHR ''!''\<close> for anything else.\<close>

fun underscores :: "bool \<Rightarrow> char \<Rightarrow> string \<Rightarrow> bool" where
  "underscores hex p [] = (p \<noteq> CHR ''_'')"
| "underscores hex p (c # cs) =
     (let n = of_char c :: nat; m = of_char (lower c) :: nat
      in if 48 \<le> n \<and> n \<le> 57 \<or> hex \<and> 97 \<le> m \<and> m \<le> 102 then underscores hex (CHR ''0'') cs
         else if c = CHR ''_'' then p = CHR ''0'' \<and> underscores hex (CHR ''_'') cs
         else p \<noteq> CHR ''_'' \<and> underscores hex (CHR ''!'') cs)"

definition underscoreOK :: "string \<Rightarrow> bool" where
  "underscoreOK s = (case s of
      c # d # cs \<Rightarrow>
        if c = CHR ''0'' \<and> lower d \<in> set [CHR ''b'', CHR ''o'', CHR ''x'']
        then underscores (lower d = CHR ''x'') (CHR ''0'') cs
        else underscores False (CHR ''^'') s
    | _ \<Rightarrow> underscores False (CHR ''^'') s)"

definition ParseUint0 :: "string \<Rightarrow> numErr + nat" where
  "ParseUint0 s = (if s = [] then Inl ErrSyntax
     else case basePrefix s of (base, ds) \<Rightarrow>
       (case parseDigits base 0 ds of
          Inl e \<Rightarrow> Inl e
        | Inr n \<Rightarrow> if CHR ''_'' \<in> set ds \<and> \<not> underscoreOK s then Inl ErrSyntax else Inr n))"

definition ParseInt0 :: "string \<Rightarrow> numErr + int" where
  "ParseInt0 s = (case s of
      [] \<Rightarrow> Inl ErrSyntax
    | c # cs \<Rightarrow>
        (let neg = (c = CHR ''-''); u = (if c = CHR ''-'' \<or> c = CHR ''+'' then cs else s)
         in case ParseUint0 u of
              Inl e \<Rightarrow> Inl e
            | Inr n \<Rightarrow> if \<not> neg \<and> 2 ^ 63 \<le> n \<or> neg \<and> 2 ^ 63 < n then Inl ErrRange
                       else Inr (if neg then - int n else int n)))"

subsection \<open>Flag sets\<close>

datatype flagKind = FlagString | FlagBool | FlagInt | FlagDuration

datatype flagVal = VString string | VBool bool | VInt int | VDuration int

datatype flagErr = BadSyntax string | NotDefined string | HelpRequested | NeedsArgument string
  | BadBool string string | BadValue string string

definition setFlag :: "(string \<Rightarrow> int option) \<Rightarrow> flagKind \<Rightarrow> string \<Rightarrow> flagVal option" where
  "setFlag dur k v = (case k of
      FlagString \<Rightarrow> Some (VString v)
    | FlagBool \<Rightarrow> map_option VBool (ParseBool v)
    | FlagInt \<Rightarrow> (case ParseInt0 v of Inl e \<Rightarrow> None | Inr i \<Rightarrow> Some (VInt i))
    | FlagDuration \<Rightarrow> map_option VDuration (dur v))"

text \<open>The name of a flag and the value after the first equals sign, if there is one. An argument that is
  no flag ends the flags; so does \<^verbatim>\<open>--\<close>, which is dropped.\<close>

datatype flagWord = WordEnd | WordTerminator | WordBad | WordFlag string "string option"

definition flagWord :: "string \<Rightarrow> flagWord" where
  "flagWord a =
     (if length a < 2 \<or> a ! 0 \<noteq> CHR ''-'' then WordEnd
      else if a = ''--'' then WordTerminator
      else let name = (if a ! 1 = CHR ''-'' then drop 2 a else drop 1 a)
           in if name = [] \<or> hd name = CHR ''-'' \<or> hd name = CHR ''='' then WordBad
              else WordFlag (takeWhile (\<lambda>c. c \<noteq> CHR ''='') name)
                     (case dropWhile (\<lambda>c. c \<noteq> CHR ''='') name of [] \<Rightarrow> None | c # v \<Rightarrow> Some v))"

text \<open>\<^verbatim>\<open>FlagSet.Parse\<close>: the flags that were set, in order, and the arguments that are left.\<close>

fun flagParse :: "(string \<Rightarrow> int option) \<Rightarrow> (string \<times> flagKind) list \<Rightarrow> string list \<Rightarrow>
    (string \<times> flagVal) list \<Rightarrow> flagErr + (string \<times> flagVal) list \<times> string list" where
  "flagParse dur spec [] vs = Inr (vs, [])"
| "flagParse dur spec (a # as) vs = (case flagWord a of
      WordEnd \<Rightarrow> Inr (vs, a # as)
    | WordTerminator \<Rightarrow> Inr (vs, as)
    | WordBad \<Rightarrow> Inl (BadSyntax a)
    | WordFlag name value \<Rightarrow>
        (case map_of spec name of
           None \<Rightarrow> if name = ''help'' \<or> name = ''h'' then Inl HelpRequested else Inl (NotDefined name)
         | Some FlagBool \<Rightarrow>
             (case setFlag dur FlagBool (case value of None \<Rightarrow> ''true'' | Some v \<Rightarrow> v) of
                None \<Rightarrow> Inl (BadBool (the value) name)
              | Some x \<Rightarrow> flagParse dur spec as (vs @ [(name, x)]))
         | Some k \<Rightarrow>
             (case value of
                Some v \<Rightarrow> (case setFlag dur k v of
                             None \<Rightarrow> Inl (BadValue v name)
                           | Some x \<Rightarrow> flagParse dur spec as (vs @ [(name, x)]))
              | None \<Rightarrow> (case as of
                            [] \<Rightarrow> Inl (NeedsArgument name)
                          | v # as' \<Rightarrow> (case setFlag dur k v of
                                          None \<Rightarrow> Inl (BadValue v name)
                                        | Some x \<Rightarrow> flagParse dur spec as' (vs @ [(name, x)]))))))"

text \<open>The value of a flag after parsing: the last one set, or the default.\<close>

definition flagValue :: "(string \<times> flagVal) list \<Rightarrow> string \<Rightarrow> flagVal \<Rightarrow> flagVal" where
  "flagValue vs name d = (case map_of (rev vs) name of None \<Rightarrow> d | Some x \<Rightarrow> x)"

fun valString :: "flagVal \<Rightarrow> string" where
  "valString (VString s) = s"
| "valString _ = []"

fun valBool :: "flagVal \<Rightarrow> bool" where
  "valBool (VBool b) = b"
| "valBool _ = False"

fun valInt :: "flagVal \<Rightarrow> int" where
  "valInt (VInt i) = i"
| "valInt (VDuration i) = i"
| "valInt _ = 0"

subsection \<open>Printed numbers are read back\<close>

lemma digitValue_digit:
  assumes "d < 10"
  shows "digitValue (digit d) = Some d" "digit d \<noteq> CHR ''_''" "(digit d = CHR ''0'') = (d = 0)"
    "digit d \<noteq> CHR ''-''" "digit d \<noteq> CHR ''+''"
proof -
  have n: "of_char (digit d) = 48 + d" by (rule of_char_digit [OF assms])
  then show "digitValue (digit d) = Some d" using assms by (simp add: digitValue_def Let_def)
  have neq: "digit d \<noteq> c" if "of_char c \<noteq> 48 + d" for c using that n by metis
  show "digit d \<noteq> CHR ''_''" "digit d \<noteq> CHR ''-''" "digit d \<noteq> CHR ''+''" using assms by (auto intro!: neq)
  have "digit 0 = CHR ''0''" by code_simp
  then show "(digit d = CHR ''0'') = (d = 0)" using neq [of "CHR ''0''"] by auto
qed

lemma parseDigits_append:
  "parseDigits base n (xs @ ys) = (case parseDigits base n xs of Inl e \<Rightarrow> Inl e | Inr m \<Rightarrow> parseDigits base m ys)"
  by (induction xs arbitrary: n) (auto split: option.splits)

lemma parseDigits_decimal: "n < 2 ^ 64 \<Longrightarrow> parseDigits 10 0 (decimal n) = Inr n"
proof (induction n rule: decimal.induct)
  case (1 n)
  show ?case
  proof (cases "n < 10")
    case True
    then show ?thesis using 1(2) by (subst decimal.simps) (simp add: digitValue_digit)
  next
    case False
    have d: "n div 10 < 2 ^ 64" using 1(2) by linarith
    show ?thesis
      using False 1(1) [OF False d] 1(2)
      by (subst decimal.simps) (simp add: parseDigits_append digitValue_digit mult.commute)
  qed
qed

lemma decimal_head: "\<exists>d ds. decimal n = digit d # ds \<and> d < 10 \<and> (d = 0 \<longrightarrow> n = 0 \<and> ds = []) \<and> CHR ''_'' \<notin> set ds"
proof (induction n rule: decimal.induct)
  case (1 n)
  show ?case
  proof (cases "n < 10")
    case True
    then show ?thesis by (subst decimal.simps) auto
  next
    case False
    then obtain d ds where "decimal (n div 10) = digit d # ds" "d < 10" "d = 0 \<longrightarrow> n div 10 = 0" "CHR ''_'' \<notin> set ds"
      using 1 by blast
    then show ?thesis using False
      by (subst decimal.simps) (auto intro!: exI [of _ d] simp: digitValue_digit(2) [symmetric] dest: digitValue_digit(2) [OF mod_less_divisor])
  qed
qed

lemma ParseUint0_decimal:
  assumes "n < 2 ^ 64"
  shows "ParseUint0 (decimal n) = Inr n"
proof -
  obtain d ds where d: "decimal n = digit d # ds" "d < 10" "d = 0 \<longrightarrow> n = 0 \<and> ds = []" "CHR ''_'' \<notin> set ds"
    using decimal_head by blast
  show ?thesis
  proof (cases "d = 0")
    case True
    then have "decimal n = ''0''" "n = 0" using d digitValue_digit(3) [of d] by auto
    then show ?thesis by (simp add: ParseUint0_def basePrefix_def)
  next
    case False
    then have "digit d \<noteq> CHR ''0''" using digitValue_digit(3) [OF d(2)] by simp
    then have "basePrefix (decimal n) = (10, decimal n)"
      unfolding d(1) by (auto simp: basePrefix_def split: list.splits)
    moreover have "CHR ''_'' \<notin> set (decimal n)" using d digitValue_digit(2) [OF d(2)] by auto
    ultimately show ?thesis using parseDigits_decimal [OF assms] d(1) by (simp add: ParseUint0_def)
  qed
qed

lemma ParseInt0_itoa:
  assumes "- (2 ^ 63) \<le> i" "i < 2 ^ 63"
  shows "ParseInt0 (itoa i) = Inr i"
proof -
  obtain d ds where d: "decimal (nat i) = digit d # ds" "d < 10" using decimal_head by blast
  have "nat \<bar>i\<bar> < 2 ^ 64" using assms by (simp add: nat_less_iff)
  then have "ParseUint0 (decimal (nat i)) = Inr (nat i)" "i < 0 \<Longrightarrow> ParseUint0 (decimal (nat (- i))) = Inr (nat (- i))"
    using assms by (auto intro!: ParseUint0_decimal)
  then show ?thesis
    using assms d digitValue_digit(4,5) [OF d(2)] by (auto simp: ParseInt0_def itoa_def Let_def nat_le_iff)
qed

end
