(* ===== verification/Syncctl.thy ===== *)
theory Syncctl
  imports Flags ServerCreates "HOL-Library.Multiset" "HOL-Library.Char_ord" "HOL-Library.List_Lexorder"
begin

text \<open>
  \<^verbatim>\<open>cmd/syncctl/main.go\<close>: arguments, the messages it sends, what it makes of the answers, and its exit codes.

  A connection is a \<open>session\<close>: whether dialling and writing succeed, the messages that will arrive, and the
  error that reading ends with. The output is kept as lines, tables, JSON values and statistics; their layout
  (\<^verbatim>\<open>tabwriter\<close>, indentation, the printing of floating point numbers) is left out. Parsing of a
  duration and of a time stamp are arguments, as are hash and JSON codecs of tokens. Writing to the standard
  output does not fail, and the messages of library errors are those the \<open>session\<close> holds.
\<close>

subsection \<open>Arguments\<close>

record config =
  cServer :: string
  cApiKey :: string
  cJSON :: bool
  cTimeout :: int
  cInsecure :: bool

definition defaultServerURL :: string where
  "defaultServerURL = ''ws://localhost:8085/ws''"

definition defaultTimeout :: int where
  "defaultTimeout = 30000000000"

text \<open>The message of an error: text of the program, or an error of the package \<^verbatim>\<open>flag\<close>.\<close>

datatype cmdMsg = Msg string | FlagMsg flagErr

definition hasInlineValue :: "string \<Rightarrow> bool" where
  "hasInlineValue arg \<longleftrightarrow> CHR ''='' \<in> set arg"

definition flagNeedsValue :: "string \<Rightarrow> bool" where
  "flagNeedsValue arg \<longleftrightarrow> takeWhile (\<lambda>c. c \<noteq> CHR ''='') arg \<in> set [''--server'', ''--api-key'', ''--timeout'']"

definition isDashed :: "string \<Rightarrow> bool" where
  "isDashed a \<longleftrightarrow> take 1 a = ''-''"

fun splitGlobalArgs :: "string list \<Rightarrow> string list \<Rightarrow> string + string list \<times> string \<times> string list" where
  "splitGlobalArgs [] g = Inr (g, ''help'', [])"
| "splitGlobalArgs (a # as) g =
     (if a = ''--'' then (case as of [] \<Rightarrow> Inl ''missing command after --'' | c # cs \<Rightarrow> Inr (g, c, cs))
      else if \<not> isDashed a then Inr (g, a, as)
      else if hasInlineValue a \<or> \<not> flagNeedsValue a then splitGlobalArgs as (g @ [a])
      else (case as of
              [] \<Rightarrow> Inl (''flag requires value: '' @ a)
            | v # as' \<Rightarrow> splitGlobalArgs as' (g @ [a, v])))"

definition globalFlags :: "(string \<times> flagKind) list" where
  "globalFlags = [(''server'', FlagString), (''api-key'', FlagString), (''json'', FlagBool),
     (''timeout'', FlagDuration), (''insecure'', FlagBool)]"

definition parseArgs :: "(string \<Rightarrow> int option) \<Rightarrow> string list \<Rightarrow> (string \<Rightarrow> string) \<Rightarrow>
    cmdMsg + config \<times> string \<times> string list" where
  "parseArgs dur args getenv =
     (let server0 = (if getenv ''SYNCPRIM_SERVER'' = [] then defaultServerURL else getenv ''SYNCPRIM_SERVER'')
      in case splitGlobalArgs args [] of
           Inl e \<Rightarrow> Inl (Msg e)
         | Inr (globals, command, rest) \<Rightarrow>
             (case flagParse dur globalFlags globals [] of
                Inl e \<Rightarrow> Inl (FlagMsg e)
              | Inr (vs, left) \<Rightarrow>
                  (let c = \<lparr>cServer = valString (flagValue vs ''server'' (VString server0)),
                            cApiKey = valString (flagValue vs ''api-key'' (VString (getenv ''SYNCPRIM_API_KEY''))),
                            cJSON = valBool (flagValue vs ''json'' (VBool False)),
                            cTimeout = valInt (flagValue vs ''timeout'' (VDuration defaultTimeout)),
                            cInsecure = valBool (flagValue vs ''insecure'' (VBool False))\<rparr>
                   in if cTimeout c \<le> 0 then Inl (Msg ''--timeout must be positive'')
                      else Inr (c, command, rest))))"

subsection \<open>Connections\<close>

record session =
  dialErr :: "string option"
  writeErr :: "string option"
  incoming :: "wsMessage list"
  readErr :: string

definition syncctl_dial :: "config \<Rightarrow> session \<Rightarrow> string option" where
  "syncctl_dial c ses = map_option (\<lambda>e. ''syncctl: failed to connect to '' @ cServer c @ '': '' @ e) (dialErr ses)"

definition readMessage :: "session \<Rightarrow> string + wsMessage \<times> session" where
  "readMessage ses = (case incoming ses of [] \<Rightarrow> Inl (readErr ses) | m # ms \<Rightarrow> Inr (m, ses\<lparr>incoming := ms\<rparr>))"

definition sendMessage :: "session \<Rightarrow> string \<Rightarrow> string option" where
  "sendMessage ses msgType = map_option (\<lambda>e. ''syncctl: send '' @ msgType @ '' failed: '' @ e) (writeErr ses)"

record primitiveInfo =
  pID :: string
  pType :: string
  pName :: string
  pCreatedAt :: "int option"
  pBlockedCount :: int32
  pStats :: "(string \<times> json) list"

text \<open>Decoding of a primitive: a member \<^verbatim>\<open>null\<close> leaves the zero value; numbers in the statistics become
  \<^verbatim>\<open>float64\<close>.\<close>

definition decodeStats :: "json \<Rightarrow> (string \<times> json) list option" where
  "decodeStats j = (case j of JObj kvs \<Rightarrow> Some (foldl (\<lambda>m kj. AList.update (fst kj) (untyped (snd kj)) m) [] kvs) | _ \<Rightarrow> None)"

definition decodeTime :: "(string \<Rightarrow> int option) \<Rightarrow> json \<Rightarrow> int option option" where
  "decodeTime parseTime j = (case j of JStr s \<Rightarrow> map_option Some (parseTime s) | _ \<Rightarrow> None)"

definition decodeInfo :: "(string \<Rightarrow> int option) \<Rightarrow> json \<Rightarrow> primitiveInfo option" where
  "decodeInfo parseTime j = (case structMembers (Some j) of
      None \<Rightarrow> None
    | Some kvs \<Rightarrow>
        (case (fieldString ''ID'' kvs, fieldString ''Type'' kvs, fieldString ''Name'' kvs,
               getField (decodeTime parseTime) ''CreatedAt'' kvs None, fieldInt32 ''BlockedCount'' kvs,
               getField decodeStats ''Stats'' kvs []) of
           (Some i, Some t, Some n, Some c, Some b, Some st) \<Rightarrow>
             Some \<lparr>pID = i, pType = t, pName = n, pCreatedAt = c, pBlockedCount = b, pStats = st\<rparr>
         | _ \<Rightarrow> None))"

fun decodeInfos :: "(string \<Rightarrow> int option) \<Rightarrow> (string \<times> json) list \<Rightarrow> (string, primitiveInfo) gomap \<Rightarrow>
    (string, primitiveInfo) gomap option" where
  "decodeInfos parseTime [] m = Some m"
| "decodeInfos parseTime ((k, j) # kvs) m = (case decodeInfo parseTime j of
      None \<Rightarrow> None | Some p \<Rightarrow> decodeInfos parseTime kvs (AList.update k p m))"

definition decodePrimitives :: "(string \<Rightarrow> int option) \<Rightarrow> json \<Rightarrow> (string, primitiveInfo) gomap option" where
  "decodePrimitives parseTime j = (case j of JObj kvs \<Rightarrow> decodeInfos parseTime kvs [] | _ \<Rightarrow> None)"

definition decodeState :: "(string \<Rightarrow> int option) \<Rightarrow> json option \<Rightarrow> (string, primitiveInfo) gomap option" where
  "decodeState parseTime j = (case structMembers j of
      None \<Rightarrow> None | Some kvs \<Rightarrow> getField (decodePrimitives parseTime) ''primitives'' kvs [])"

definition fillID :: "string \<times> primitiveInfo \<Rightarrow> string \<times> primitiveInfo" where
  "fillID kp = (case kp of (k, p) \<Rightarrow> (k, if pID p = [] then p\<lparr>pID := k\<rparr> else p))"

text \<open>The loops that wait for a message of a certain type.\<close>

fun readState :: "(string \<Rightarrow> int option) \<Rightarrow> string \<Rightarrow> wsMessage list \<Rightarrow>
    string + (string, primitiveInfo) gomap \<times> wsMessage list" where
  "readState parseTime err [] = Inl err"
| "readState parseTime err (m # ms) =
     (if mType m \<noteq> ''initialState'' \<and> mType m \<noteq> ''state'' then readState parseTime err ms
      else case decodeState parseTime (mPayload m) of
             None \<Rightarrow> Inl ''syncctl: invalid state payload''
           | Some prims \<Rightarrow> Inr (map fillID prims, ms))"

definition readPrimitivesState :: "(string \<Rightarrow> int option) \<Rightarrow> session \<Rightarrow> string + (string, primitiveInfo) gomap \<times> session" where
  "readPrimitivesState parseTime ses = (case readState parseTime (readErr ses) (incoming ses) of
      Inl e \<Rightarrow> Inl e | Inr (prims, ms) \<Rightarrow> Inr (prims, ses\<lparr>incoming := ms\<rparr>))"

definition ackText :: "wsMessage \<Rightarrow> string option" where
  "ackText m = (case structMembers (mPayload m) of
      None \<Rightarrow> None
    | Some kvs \<Rightarrow> Some (case map_of (rev kvs) ''message'' of Some (JStr t) \<Rightarrow> if t = [] then mType m else t | _ \<Rightarrow> mType m))"

fun waitForAckIn :: "string \<Rightarrow> wsMessage list \<Rightarrow> string + string \<times> string" where
  "waitForAckIn err [] = Inl err"
| "waitForAckIn err (m # ms) =
     (if mType m \<noteq> ''success'' \<and> mType m \<noteq> ''error'' then waitForAckIn err ms
      else case ackText m of None \<Rightarrow> Inl ''syncctl: invalid response payload'' | Some t \<Rightarrow> Inr (mType m, t))"

definition waitForAck :: "session \<Rightarrow> string + string \<times> string" where
  "waitForAck ses = waitForAckIn (readErr ses) (incoming ses)"

subsection \<open>Commands\<close>

datatype outp = OLine string | OTable "string list list" | OJson json | OStat string json

text \<open>The result of a command: exit code, error message, output, and the messages it sent.\<close>

record result =
  rCode :: nat
  rErr :: "cmdMsg option"
  rOut :: "outp list"
  rSent :: "wsMessage list"

definition failed :: "nat \<Rightarrow> cmdMsg \<Rightarrow> wsMessage list \<Rightarrow> result" where
  "failed code m sent = \<lparr>rCode = code, rErr = Some m, rOut = [], rSent = sent\<rparr>"

definition succeed :: "outp list \<Rightarrow> wsMessage list \<Rightarrow> result" where
  "succeed out sent = \<lparr>rCode = 0, rErr = None, rOut = out, rSent = sent\<rparr>"

text \<open>What \<^verbatim>\<open>create\<close>, \<^verbatim>\<open>op\<close> and \<^verbatim>\<open>delete\<close> do alike: dial, read the first state, send, wait for the answer.\<close>

definition exchange :: "(string \<Rightarrow> int option) \<Rightarrow> config \<Rightarrow> session \<Rightarrow> wsMessage \<Rightarrow> (string \<Rightarrow> outp list) \<Rightarrow> result" where
  "exchange parseTime c ses msg out = (case syncctl_dial c ses of
      Some e \<Rightarrow> failed 1 (Msg e) []
    | None \<Rightarrow>
        (case readPrimitivesState parseTime ses of
           Inl e \<Rightarrow> failed 1 (Msg e) []
         | Inr (prims, ses1) \<Rightarrow>
             (case sendMessage ses1 (mType msg) of
                Some e \<Rightarrow> failed 1 (Msg e) []
              | None \<Rightarrow>
                  (case waitForAck ses1 of
                     Inl e \<Rightarrow> failed 1 (Msg e) [msg]
                   | Inr (respType, text) \<Rightarrow>
                       if respType = ''error'' then failed 1 (Msg text) [msg] else succeed (out text) [msg]))))"

definition canonicalTypeName :: "string \<Rightarrow> string" where
  "canonicalTypeName ptype = (case map_of [(''rwlock'', ''RWLock''), (''semaphore'', ''Semaphore''), (''mutex'', ''Mutex''),
       (''condvar'', ''CondVar''), (''barrier'', ''Barrier''), (''waitgroup'', ''WaitGroup''), (''once'', ''Once''),
       (''singleflight'', ''Singleflight'')] (ToLower ptype) of
     None \<Rightarrow> ptype | Some n \<Rightarrow> n)"

definition buildCreateMessage :: "string \<Rightarrow> string \<Rightarrow> string \<Rightarrow> int \<Rightarrow> int \<Rightarrow> string + string \<times> json" where
  "buildCreateMessage ptype pid name cap parts =
     (let base = [(''id'', JStr pid), (''name'', JStr name)]
      in if ptype = ''rwlock'' then Inr (''createRWLock'', JObj base)
         else if ptype = ''semaphore'' then
           (if cap \<le> 0 then Inl ''semaphore requires --capacity > 0''
            else Inr (''createSemaphore'', JObj ((''capacity'', JNum cap) # base)))
         else if ptype = ''mutex'' then Inr (''createMutex'', JObj base)
         else if ptype = ''condvar'' then Inr (''createCondVar'', JObj base)
         else if ptype = ''barrier'' then
           (if parts \<le> 0 then Inl ''barrier requires --parties > 0''
            else Inr (''createBarrier'', JObj (base @ [(''parties'', JNum parts)])))
         else if ptype = ''waitgroup'' then Inr (''createWaitGroup'', JObj base)
         else if ptype = ''once'' then Inr (''createOnce'', JObj base)
         else if ptype = ''singleflight'' then Inr (''createSingleflight'', JObj base)
         else Inl (''unsupported primitive type: '' @ ptype))"

definition createUsage :: string where
  "createUsage = ''usage: syncctl create <type> <id> [--name <name>] [--capacity N] [--parties N]''"

definition runCreate :: "(string \<Rightarrow> int option) \<Rightarrow> (string \<Rightarrow> int option) \<Rightarrow> config \<Rightarrow> session \<Rightarrow> string list \<Rightarrow> result" where
  "runCreate dur parseTime c ses args =
     (case flagParse dur [(''name'', FlagString), (''capacity'', FlagInt), (''parties'', FlagInt)] args [] of
        Inl e \<Rightarrow> failed 2 (FlagMsg e) []
      | Inr (vs, pos) \<Rightarrow>
          (case pos of
             ty # pid # rest \<Rightarrow>
               (let ptype = ToLower ty; name = valString (flagValue vs ''name'' (VString []));
                    primName = (if name = [] then pid else name)
                in case buildCreateMessage ptype pid primName (valInt (flagValue vs ''capacity'' (VInt 0)))
                          (valInt (flagValue vs ''parties'' (VInt 0))) of
                     Inl e \<Rightarrow> failed 2 (Msg e) []
                   | Inr (msgType, payload) \<Rightarrow>
                       exchange parseTime c ses \<lparr>mType = msgType, mPayload = Some payload\<rparr>
                         (\<lambda>msg. if cJSON c
                                then [OJson (JObj [(''id'', JStr pid), (''message'', JStr msg), (''result'', JStr ''ok''),
                                                   (''type'', JStr (canonicalTypeName ptype))])]
                                else [OLine msg]))
           | _ \<Rightarrow> failed 2 (Msg createUsage) []))"

definition opUsage :: string where
  "opUsage = ''usage: syncctl op <id> <operation> [--hold <ms>] [--delta N]''"

definition runOp :: "(string \<Rightarrow> int option) \<Rightarrow> (string \<Rightarrow> int option) \<Rightarrow> config \<Rightarrow> session \<Rightarrow> string list \<Rightarrow> result" where
  "runOp dur parseTime c ses args =
     (case flagParse dur [(''hold'', FlagInt), (''hold-ms'', FlagInt), (''delta'', FlagInt)] args [] of
        Inl e \<Rightarrow> failed 2 (FlagMsg e) []
      | Inr (vs, pos) \<Rightarrow>
          (case pos of
             pid # op # rest \<Rightarrow>
               (let hold = valInt (flagValue vs ''hold'' (VInt 0)); holdMS = valInt (flagValue vs ''hold-ms'' (VInt 0));
                    delta = valInt (flagValue vs ''delta'' (VInt 0));
                    hold1 = (if holdMS \<noteq> 0 then holdMS else hold);
                    finalHold = (if op = ''add'' \<and> delta \<noteq> 0 then delta else hold1)
                in exchange parseTime c ses
                     \<lparr>mType = ''primitiveOp'',
                      mPayload = Some (JObj [(''holdMs'', JNum finalHold), (''id'', JStr pid), (''op'', JStr op)])\<rparr>
                     (\<lambda>msg. if cJSON c
                            then [OJson (JObj [(''id'', JStr pid), (''message'', JStr msg), (''operation'', JStr op),
                                               (''result'', JStr ''ok'')])]
                            else [OLine msg]))
           | _ \<Rightarrow> failed 2 (Msg opUsage) []))"

definition runDelete :: "(string \<Rightarrow> int option) \<Rightarrow> config \<Rightarrow> session \<Rightarrow> string list \<Rightarrow> result" where
  "runDelete parseTime c ses args = (case args of
      [pid] \<Rightarrow>
        exchange parseTime c ses \<lparr>mType = ''deletePrimitive'', mPayload = Some (JObj [(''id'', JStr pid)])\<rparr>
          (\<lambda>msg. if cJSON c
                 then [OJson (JObj [(''id'', JStr pid), (''message'', JStr msg), (''result'', JStr ''ok'')])]
                 else [OLine msg])
    | _ \<Rightarrow> failed 2 (Msg ''usage: syncctl delete <id>'') [])"

subsection \<open>States of primitives\<close>

text \<open>\<^verbatim>\<open>int64\<close> of a \<^verbatim>\<open>float64\<close> truncates; a number literal with a fraction does not occur in the statistics the
  server sends, and counts as 0 here.\<close>

definition asInt64 :: "json option \<Rightarrow> int64" where
  "asInt64 v = (case v of Some (JNum i) \<Rightarrow> word_of_int i | _ \<Rightarrow> 0)"

definition asBool :: "json option \<Rightarrow> bool" where
  "asBool v = (case v of Some (JBool b) \<Rightarrow> b | _ \<Rightarrow> False)"

definition summarizeState :: "primitiveInfo \<Rightarrow> string" where
  "summarizeState p =
     (let s = map_of (pStats p); num = (\<lambda>k. sint (asInt64 (s k)))
      in if pType p = ''Mutex'' then (if asBool (s ''IsLocked'') then ''locked'' else ''unlocked'')
         else if pType p = ''RWLock'' then
           (if asBool (s ''WriterHeld'') then ''writer-held''
            else if 0 < num ''CurrentReaders'' then itoa (num ''CurrentReaders'') @ '' readers''
            else ''idle'')
         else if pType p = ''Semaphore'' then
           (if 0 < num ''Capacity'' then itoa (num ''CurrentCount'') @ ''/'' @ itoa (num ''Capacity'') @ '' available''
            else ''active'')
         else if pType p = ''Barrier'' then
           (if 0 < num ''Parties'' then itoa (num ''Arrived'') @ ''/'' @ itoa (num ''Parties'') @ '' arrived''
            else ''active'')
         else if pType p = ''WaitGroup'' then ''count='' @ itoa (num ''Count'')
         else if pType p = ''Once'' then (if asBool (s ''Done'') then ''done'' else ''pending'')
         else ''active'')"

text \<open>\<^verbatim>\<open>sort.Slice\<close> by identifier; strings are compared byte by byte.\<close>

definition sortPrimitives :: "(string, primitiveInfo) gomap \<Rightarrow> primitiveInfo list" where
  "sortPrimitives prims = sort_key pID (map (snd \<circ> fillID) prims)"

definition runList :: "(string \<Rightarrow> int option) \<Rightarrow> config \<Rightarrow> session \<Rightarrow> result" where
  "runList parseTime c ses = (case syncctl_dial c ses of
      Some e \<Rightarrow> failed 1 (Msg e) []
    | None \<Rightarrow>
        (case readPrimitivesState parseTime ses of
           Inl e \<Rightarrow> failed 1 (Msg e) []
         | Inr (prims, ses1) \<Rightarrow>
             succeed (if cJSON c
                   then [OJson (JArr (map (\<lambda>p. JObj [(''id'', JStr (pID p)), (''name'', JStr (pName p)),
                            (''state'', JStr (summarizeState p)), (''type'', JStr (pType p))]) (sortPrimitives prims)))]
                   else [OTable ([''ID'', ''TYPE'', ''NAME'', ''STATE''] #
                           map (\<lambda>p. [pID p, pType p, pName p, summarizeState p]) (sortPrimitives prims))]) []))"

text \<open>A time stamp prints as \<open>formatTime\<close> makes it; \<open>infoJson\<close> is the JSON of the whole entry.\<close>

definition runStats :: "(string \<Rightarrow> int option) \<Rightarrow> (int \<Rightarrow> string) \<Rightarrow> (primitiveInfo \<Rightarrow> json) \<Rightarrow> config \<Rightarrow> session \<Rightarrow>
    string list \<Rightarrow> result" where
  "runStats parseTime formatTime infoJson c ses args = (case args of
      [pid] \<Rightarrow>
        (case syncctl_dial c ses of
           Some e \<Rightarrow> failed 1 (Msg e) []
         | None \<Rightarrow>
             (case readPrimitivesState parseTime ses of
                Inl e \<Rightarrow> failed 1 (Msg e) []
              | Inr (prims, ses1) \<Rightarrow>
                  (case map_of prims pid of
                     None \<Rightarrow> failed 1 (Msg (''primitive not found: '' @ pid)) []
                   | Some p \<Rightarrow>
                       succeed (if cJSON c then [OJson (infoJson p)]
                             else [OLine (''Primitive: '' @ pID p), OLine (''Type:      '' @ pType p),
                                   OLine (''Name:      '' @ pName p), OLine (''State:     '' @ summarizeState p)] @
                                  (case pCreatedAt p of None \<Rightarrow> [] | Some t \<Rightarrow> [OLine (''Created:   '' @ formatTime t)]) @
                                  [OLine [], OLine ''Stats:''] @
                                  map (\<lambda>kj. OStat (fst kj) (snd kj)) (sort_key fst (pStats p))) [])))
    | _ \<Rightarrow> failed 2 (Msg ''usage: syncctl stats <id>'') [])"

subsection \<open>Tokens\<close>

definition tokenUsage :: string where
  "tokenUsage = ''usage: syncctl token generate --secret <secret> --sub <subject> [--role <role>] [--namespace <ns>] [--ttl <dur>]''"

definition tokenFlags :: "(string \<times> flagKind) list" where
  "tokenFlags = [(''secret'', FlagString), (''sub'', FlagString), (''role'', FlagString), (''namespace'', FlagString),
     (''ttl'', FlagDuration)]"

text \<open>\<open>t\<close> is the clock in nanoseconds since 1970; \<^verbatim>\<open>Unix\<close> rounds down to seconds.\<close>

definition runToken :: "(string \<Rightarrow> string \<Rightarrow> string) \<Rightarrow> (header \<Rightarrow> string option) \<Rightarrow> (Claims \<Rightarrow> string option) \<Rightarrow>
    (string \<Rightarrow> int option) \<Rightarrow> int \<Rightarrow> string list \<Rightarrow> result" where
  "runToken mac marshalHeader marshalClaims dur t args =
     (if args = [] \<or> hd args \<noteq> ''generate'' then failed 2 (Msg tokenUsage) []
      else case flagParse dur tokenFlags (tl args) [] of
             Inl e \<Rightarrow> failed 2 (FlagMsg e) []
           | Inr (vs, pos) \<Rightarrow>
               (let secret = valString (flagValue vs ''secret'' (VString []));
                    sub = valString (flagValue vs ''sub'' (VString []));
                    ttl = valInt (flagValue vs ''ttl'' (VDuration 3600000000000))
                in if secret = [] then failed 2 (Msg ''--secret is required'') []
                   else if sub = [] then failed 2 (Msg ''--sub is required'') []
                   else if ttl \<le> 0 then failed 2 (Msg ''--ttl must be positive'') []
                   else case GenerateJWT mac marshalHeader marshalClaims
                               \<lparr>Sub = sub, Role = valString (flagValue vs ''role'' (VString [])),
                                Namespace = valString (flagValue vs ''namespace'' (VString [])),
                                Iat = word_of_int (t div 1000000000), Exp = word_of_int ((t + ttl) div 1000000000)\<rparr> secret of
                          None \<Rightarrow> failed 1 (Msg ''marshal error'') []
                        | Some token \<Rightarrow> succeed [OLine token] []))"

subsection \<open>The program\<close>

definition printUsage :: "outp list" where
  "printUsage = map OLine [''syncctl [--server <url>] [--api-key <key>] [--json] [--timeout <dur>] [--insecure] <command>'', [],
     ''Commands:'',
     ''  list                          List primitives'',
     ''  create <type> <id>            Create primitive'',
     ''  op <id> <operation>           Execute primitive operation'',
     ''  delete <id>                   Delete primitive'',
     ''  stats <id>                    Show primitive statistics'',
     ''  token generate                Generate an HS256 JWT'',
     ''  version                       Print syncctl version'',
     ''  help                          Show help'', [],
     ''Environment:'',
     ''  SYNCPRIM_SERVER               Default server URL'',
     ''  SYNCPRIM_API_KEY              Bearer API key'']"

text \<open>Everything the program finds outside: the environment, the connection, the clock, and the library
  functions that are arguments.\<close>

record world =
  wGetenv :: "string \<Rightarrow> string"
  wSession :: session
  wClock :: int
  wDur :: "string \<Rightarrow> int option"
  wParseTime :: "string \<Rightarrow> int option"
  wFormatTime :: "int \<Rightarrow> string"
  wInfoJson :: "primitiveInfo \<Rightarrow> json"
  wMac :: "string \<Rightarrow> string \<Rightarrow> string"
  wMarshalHeader :: "header \<Rightarrow> string option"
  wMarshalClaims :: "Claims \<Rightarrow> string option"

definition runE :: "world \<Rightarrow> string list \<Rightarrow> result" where
  "runE w args = (case parseArgs (wDur w) args (wGetenv w) of
      Inl e \<Rightarrow> failed 2 e []
    | Inr (c, cmd, cmdArgs) \<Rightarrow>
        if cmd = ''help'' \<or> cmd = [] then succeed printUsage []
        else if cmd = ''version'' then succeed [OLine ''syncctl dev''] []
        else if cmd = ''list'' then runList (wParseTime w) c (wSession w)
        else if cmd = ''create'' then runCreate (wDur w) (wParseTime w) c (wSession w) cmdArgs
        else if cmd = ''op'' then runOp (wDur w) (wParseTime w) c (wSession w) cmdArgs
        else if cmd = ''delete'' then runDelete (wParseTime w) c (wSession w) cmdArgs
        else if cmd = ''stats'' then runStats (wParseTime w) (wFormatTime w) (wInfoJson w) c (wSession w) cmdArgs
        else if cmd = ''token'' then runToken (wMac w) (wMarshalHeader w) (wMarshalClaims w) (wDur w) (wClock w) cmdArgs
        else failed 2 (Msg (''unknown command: '' @ cmd)) [])"

text \<open>The exit code of the process.\<close>

definition syncctl_run :: "world \<Rightarrow> string list \<Rightarrow> nat" where
  "syncctl_run w args = rCode (runE w args)"

subsection \<open>Properties\<close>

text \<open>How the options of a configuration are written on the command line.\<close>

definition renderArgs :: "config \<Rightarrow> string \<Rightarrow> string \<Rightarrow> string list \<Rightarrow> string list" where
  "renderArgs c d cmd args =
     [''--server'', cServer c, ''--api-key'', cApiKey c, ''--timeout'', d] @
     (if cJSON c then [''--json''] else []) @ (if cInsecure c then [''--insecure''] else []) @ cmd # args"

lemma global_words:
  "isDashed ''--server'' \<and> \<not> hasInlineValue ''--server'' \<and> flagNeedsValue ''--server'' \<and> flagWord ''--server'' = WordFlag ''server'' None"
  "isDashed ''--api-key'' \<and> \<not> hasInlineValue ''--api-key'' \<and> flagNeedsValue ''--api-key'' \<and> flagWord ''--api-key'' = WordFlag ''api-key'' None"
  "isDashed ''--timeout'' \<and> \<not> hasInlineValue ''--timeout'' \<and> flagNeedsValue ''--timeout'' \<and> flagWord ''--timeout'' = WordFlag ''timeout'' None"
  "isDashed ''--json'' \<and> \<not> flagNeedsValue ''--json'' \<and> flagWord ''--json'' = WordFlag ''json'' None"
  "isDashed ''--insecure'' \<and> \<not> flagNeedsValue ''--insecure'' \<and> flagWord ''--insecure'' = WordFlag ''insecure'' None"
  by code_simp+

text \<open>C38. The options of \<^verbatim>\<open>syncctl\<close> are read back as \<open>renderArgs\<close> writes them: when server, key and timeout
  are all given, with two dashes and their values as separate words, the timeout is positive and the
  command word does not begin with a dash, then splitting off the command and parsing the options gives the
  same configuration, command and arguments, whatever the URL, the key, the arguments and the
  environment are. (Other ways of writing an option need not be read back, see \<open>single_dash_option\<close>.)\<close>

theorem syncctl_args_roundtrip:
  assumes "dur d = Some (cTimeout c)" "0 < cTimeout c" "cmd \<noteq> ''--''" "\<not> isDashed cmd"
  shows "parseArgs dur (renderArgs c d cmd args) getenv = Inr (c, cmd, args)"
proof -
  have split: "splitGlobalArgs (renderArgs c d cmd args) [] =
      Inr ([''--server'', cServer c, ''--api-key'', cApiKey c, ''--timeout'', d] @
        (if cJSON c then [''--json''] else []) @ (if cInsecure c then [''--insecure''] else []), cmd, args)"
    using assms(3,4) by (simp add: renderArgs_def global_words)
  have true: "ParseBool ''true'' = Some True" by code_simp
  show ?thesis
    unfolding parseArgs_def split
    by (cases "cJSON c"; cases "cInsecure c"; cases c)
      (use assms in \<open>simp_all add: global_words globalFlags_def setFlag_def true flagValue_def Let_def\<close>)
qed

theorem syncctl_args_roundtrip_witness:
  "parseArgs (\<lambda>_. Some 5) [''--server'', ''ws://h/ws'', ''--api-key'', ''k'', ''--timeout'', ''5ns'', ''--json'', ''op'', ''m'', ''lock'']
     (\<lambda>_. []) = Inr (\<lparr>cServer = ''ws://h/ws'', cApiKey = ''k'', cJSON = True, cTimeout = 5, cInsecure = False\<rparr>, ''op'', [''m'', ''lock''])"
proof -
  have "\<not> isDashed ''op''" by code_simp
  then show ?thesis
    using syncctl_args_roundtrip [of "\<lambda>_. Some 5" "''5ns''"
        "\<lparr>cServer = ''ws://h/ws'', cApiKey = ''k'', cJSON = True, cTimeout = 5, cInsecure = False\<rparr>" "''op''" "[''m'', ''lock'']" "\<lambda>_. []"]
    by (simp add: renderArgs_def)
qed

text \<open>A result that the program may end with: 0 exactly without an error, at most one message sent, none
  before the arguments were found good, and success only on a successful answer of the server.\<close>

definition result_ok :: "session \<Rightarrow> result \<Rightarrow> bool" where
  "result_ok ses r \<longleftrightarrow> rCode r \<le> 2 \<and> (rCode r = 0) = (rErr r = None) \<and> length (rSent r) \<le> 1 \<and>
     (rCode r = 2 \<longrightarrow> rSent r = []) \<and> (rCode r \<noteq> 0 \<longrightarrow> rOut r = []) \<and>
     (rCode r = 0 \<and> rSent r \<noteq> [] \<longrightarrow>
        (\<exists>m \<in> set (incoming ses). mType m = ''success'') \<and> dialErr ses = None \<and> writeErr ses = None)"

lemma failed_ok: "code = 1 \<or> code = 2 \<and> sent = [] \<Longrightarrow> length sent \<le> 1 \<Longrightarrow> result_ok ses (failed code m sent)"
  by (auto simp: result_ok_def failed_def)

lemma succeed_ok: "result_ok ses (succeed out [])"
  by (auto simp: result_ok_def succeed_def)

lemma waitForAckIn_success: "waitForAckIn e ms = Inr (t, x) \<Longrightarrow> t \<noteq> ''error'' \<Longrightarrow> \<exists>m \<in> set ms. mType m = ''success''"
  by (induction ms) (auto split: if_splits option.splits)

lemma readState_subset: "readState pt e ms = Inr (p, ms') \<Longrightarrow> set ms' \<subseteq> set ms"
  by (induction ms) (auto split: if_splits option.splits)

lemma exchange_ok: "result_ok ses (exchange pt c ses msg out)"
proof -
  have ack: "\<exists>m \<in> set (incoming ses). mType m = ''success''"
    if "readPrimitivesState pt ses = Inr (p, ses1)" "waitForAck ses1 = Inr (t, x)" "t \<noteq> ''error''" for p ses1 t x
    using that waitForAckIn_success [of "readErr ses1" "incoming ses1" t x] readState_subset [of pt "readErr ses" "incoming ses"]
    by (auto simp: readPrimitivesState_def waitForAck_def split: sum.splits) blast
  have w: "writeErr ses1 = writeErr ses" if "readPrimitivesState pt ses = Inr (p, ses1)" for p ses1
    using that by (auto simp: readPrimitivesState_def split: sum.splits)
  show ?thesis
  proof (cases "syncctl_dial c ses")
    case None
    then have d: "dialErr ses = None" by (simp add: syncctl_dial_def)
    show ?thesis
    proof (cases "readPrimitivesState pt ses")
      case (Inl e)
      then show ?thesis using None by (simp add: exchange_def failed_ok)
    next
      case (Inr ps)
      obtain p ses1 where ps: "ps = (p, ses1)" by (cases ps)
      show ?thesis
      proof (cases "sendMessage ses1 (mType msg)")
        case send: None
        then have "writeErr ses = None" using w Inr ps by (simp add: sendMessage_def)
        then show ?thesis
          using None Inr ps send ack [of p ses1] d
          by (cases "waitForAck ses1") (auto simp: exchange_def failed_def succeed_def result_ok_def split: if_splits)
      qed (simp add: exchange_def failed_ok None Inr ps)
    qed
  qed (simp add: exchange_def failed_ok)
qed

text \<open>C21. The exit code of \<^verbatim>\<open>syncctl\<close> can be trusted: it is 0, 1 or 2, and 0 exactly if there is no error; with
  a code other than 0 nothing is printed to the output; wrong usage (code 2) sends nothing to the server;
  at most one message is sent; and a command that sent one ends with 0 only if the server has
  answered with success.\<close>

theorem syncctl_exit_code:
  "result_ok (wSession w) (runE w args) \<and> syncctl_run w args = rCode (runE w args)"
proof -
  note ok = failed_ok succeed_ok exchange_ok
  have "result_ok ses (runCreate dur pt c ses xs)" "result_ok ses (runOp dur pt c ses xs)" "result_ok ses (runDelete pt c ses xs)"
    "result_ok ses (runList pt c ses)" "result_ok ses (runStats pt ft ij c ses xs)"
    "result_ok ses (runToken mac mh mc dur t xs)" for ses dur pt ft ij mac mh mc c t xs
    by (auto simp: runCreate_def runOp_def runDelete_def runList_def runStats_def runToken_def Let_def ok
        split: sum.splits list.splits option.splits)
  then show ?thesis
    by (auto simp: runE_def syncctl_run_def ok split: sum.splits)
qed

lemma token_words:
  "flagWord ''--secret'' = WordFlag ''secret'' None" "flagWord ''--sub'' = WordFlag ''sub'' None"
  "flagWord ''--role'' = WordFlag ''role'' None" "flagWord ''--namespace'' = WordFlag ''namespace'' None"
  "flagWord ''--ttl'' = WordFlag ''ttl'' None"
  by code_simp+

lemma runToken_claims:
  assumes "dur d = Some ttl" "0 < ttl" "secret \<noteq> []" "sub \<noteq> []"
  shows "runToken mac marshalHeader marshalClaims dur t
      [''generate'', ''--secret'', secret, ''--sub'', sub, ''--role'', role, ''--namespace'', ns, ''--ttl'', d] =
    (case GenerateJWT mac marshalHeader marshalClaims \<lparr>Sub = sub, Role = role, Namespace = ns,
        Iat = word_of_int (t div 1000000000), Exp = word_of_int ((t + ttl) div 1000000000)\<rparr> secret of
       None \<Rightarrow> failed 1 (Msg ''marshal error'') [] | Some token \<Rightarrow> succeed [OLine token] [])"
  using assms by (simp add: runToken_def token_words tokenFlags_def setFlag_def flagValue_def Let_def)

text \<open>C39. A token made by \<^verbatim>\<open>syncctl token generate\<close> is what the server accepts: with the same secret,
  \<^verbatim>\<open>ValidateJWT\<close> takes it until the life time has passed and gives back the subject, role and namespace of the
  command line, when these are valid UTF-8. The JSON codec is required to decode what it encoded for
  the header \<^verbatim>\<open>{HS256, JWT}\<close> and for claims of valid UTF-8 strings.\<close>

theorem syncctl_token_accepted:
  assumes "runToken mac marshalHeader marshalClaims dur t
      [''generate'', ''--secret'', secret, ''--sub'', sub, ''--role'', role, ''--namespace'', ns, ''--ttl'', d] =
      succeed [OLine token] []"
    and "dur d = Some ttl" "0 < ttl" "secret \<noteq> []" "sub \<noteq> []"
    and "valid_utf8 sub" "valid_utf8 role" "valid_utf8 ns"
    and "\<And>j. marshalHeader \<lparr>Alg = ''HS256'', Typ = ''JWT''\<rparr> = Some j \<Longrightarrow>
      unmarshalHeader j = Some \<lparr>Alg = ''HS256'', Typ = ''JWT''\<rparr>"
    and "\<And>c j. valid_claims c \<Longrightarrow> marshalClaims c = Some j \<Longrightarrow> unmarshalClaims j = Some c"
    and "1000000000 \<le> t" "t + ttl < 2 ^ 63" "nowUnix \<le> (t + ttl) div 1000000000"
  shows "\<exists>c. ValidateJWT mac unmarshalHeader unmarshalClaims nowUnix token secret = Inr c \<and>
    Sub c = sub \<and> Role c = role \<and> Namespace c = ns"
proof -
  define c where "c = \<lparr>Sub = sub, Role = role, Namespace = ns,
    Iat = word_of_int (t div 1000000000), Exp = word_of_int ((t + ttl) div 1000000000) :: int64\<rparr>"
  have g: "GenerateJWT mac marshalHeader marshalClaims c secret = Some token"
    using assms(1) runToken_claims [where dur = dur and d = d, OF assms(2-5)] by (auto simp: c_def failed_def succeed_def split: option.splits)
  have e: "sint (Exp c) = (t + ttl) div 1000000000"
    using assms(3,11,12) by (simp add: c_def sint_sbintrunc' signed_take_bit_int_eq_self)
  moreover have "1 \<le> (t + ttl) div 1000000000" using assms(3,11) by linarith
  ultimately have "Exp c \<noteq> 0" by auto
  moreover have "valid_claims c" using assms(6-8) by (simp add: valid_claims_def c_def)
  ultimately have "ValidateJWT mac unmarshalHeader unmarshalClaims nowUnix token secret = Inr c"
    using generated_valid [OF g _ assms(9,10), where nowUnix = nowUnix] assms(5,13) e by (simp add: c_def)
  then show ?thesis by (auto simp: c_def)
qed

definition tokenAnn :: Claims where
  "tokenAnn = \<lparr>Sub = ''ann'', Role = ''viewer'', Namespace = ''lab'', Iat = 100, Exp = 160\<rparr>"

theorem syncctl_token_accepted_witness:
  "\<exists>token c. runToken (\<lambda>k m. k) (\<lambda>h. if h = \<lparr>Alg = ''HS256'', Typ = ''JWT''\<rparr> then Some ''H'' else None)
      (\<lambda>c. if c = tokenAnn then Some ''C'' else None) (\<lambda>_. Some 60000000000) 100000000000
      [''generate'', ''--secret'', ''k'', ''--sub'', ''ann'', ''--role'', ''viewer'', ''--namespace'', ''lab'', ''--ttl'', ''1m''] =
      succeed [OLine token] [] \<and>
    ValidateJWT (\<lambda>k m. k) (\<lambda>j. if j = ''H'' then Some \<lparr>Alg = ''HS256'', Typ = ''JWT''\<rparr> else None)
      (\<lambda>j. if j = ''C'' then Some tokenAnn else None) 150 token ''k'' = Inr c \<and> Role c = ''viewer''"
proof -
  let ?mh = "\<lambda>h. if h = \<lparr>Alg = ''HS256'', Typ = ''JWT''\<rparr> then Some ''H'' else None"
    and ?mc = "\<lambda>c. if c = tokenAnn then Some ''C'' else None" and ?dur = "\<lambda>_. Some 60000000000 :: int option"
    and ?args = "[''generate'', ''--secret'', ''k'', ''--sub'', ''ann'', ''--role'', ''viewer'', ''--namespace'', ''lab'', ''--ttl'', ''1m'']"
  have utf8: "valid_utf8 ''ann''" "valid_utf8 ''viewer''" "valid_utf8 ''lab''" by code_simp+
  have "\<exists>token. runToken (\<lambda>k m. k) ?mh ?mc ?dur 100000000000 ?args = succeed [OLine token] []"
    by (subst runToken_claims [where ttl = 60000000000]) (auto simp: GenerateJWT_def tokenAnn_def Let_def)
  then obtain token where r: "runToken (\<lambda>k m. k) ?mh ?mc ?dur 100000000000 ?args = succeed [OLine token] []" by blast
  have "\<exists>c. ValidateJWT (\<lambda>k m. k) (\<lambda>j. if j = ''H'' then Some \<lparr>Alg = ''HS256'', Typ = ''JWT''\<rparr> else None)
      (\<lambda>j. if j = ''C'' then Some tokenAnn else None) 150 token ''k'' = Inr c \<and> Sub c = ''ann'' \<and> Role c = ''viewer'' \<and> Namespace c = ''lab''"
    by (rule syncctl_token_accepted [OF r, where ttl = 60000000000]) (auto simp: utf8 split: if_splits)
  then show ?thesis using r by blast
qed

lemma canonical_names:
  "canonicalTypeName ''rwlock'' = TypeRWLock" "canonicalTypeName ''semaphore'' = TypeSemaphore"
  "canonicalTypeName ''mutex'' = TypeMutex" "canonicalTypeName ''condvar'' = TypeCondVar"
  "canonicalTypeName ''barrier'' = TypeBarrier" "canonicalTypeName ''waitgroup'' = TypeWaitGroup"
  "canonicalTypeName ''once'' = TypeOnce" "canonicalTypeName ''singleflight'' = TypeSingleflight"
  by code_simp+

text \<open>The server understands what \<^verbatim>\<open>syncctl create\<close> sends: for every type the tool knows, a valid
  identifier and name, and sizes that fit into an \<^verbatim>\<open>int32\<close>, the message of \<^verbatim>\<open>buildCreateMessage\<close> makes the server
  create, for an administrator, a primitive of exactly that type and size under that identifier, and answer with
  success.\<close>

lemma syncctl_create_understood:
  assumes "buildCreateMessage ptype pid name cap parts = Inr (ty, payload)" "cap < 2 ^ 31" "parts < 2 ^ 31"
    and "may_create conn ns pid name s"
  shows "creates_as t conn ns pid name (canonicalTypeName ptype) (if ptype = ''semaphore'' then cap else parts) s
    \<lparr>mType = ty, mPayload = Some payload\<rparr>"
proof -
  let ?base = "JObj [(''id'', JStr pid), (''name'', JStr name)]"
  consider (plain) "(ty, canonicalTypeName ptype) \<in> set plainKinds" "payload = ?base"
    | (semaphore) "ptype = ''semaphore''" "ty = ''createSemaphore''" "payload = JObj [(''capacity'', JNum cap), (''id'', JStr pid), (''name'', JStr name)]" "0 < cap"
    | (barrier) "ptype = ''barrier''" "ty = ''createBarrier''" "payload = JObj [(''id'', JStr pid), (''name'', JStr name), (''parties'', JNum parts)]" "0 < parts"
    using assms(1) by (auto simp: buildCreateMessage_def Let_def canonical_names plainKinds_def split: if_splits)
  then show ?thesis
  proof cases
    case plain
    then show ?thesis using creates_plain [OF assms(4)] by simp
  next
    case semaphore
    then show ?thesis using creates_semaphore [OF assms(4) _ assms(2)] by (simp add: canonical_names)
  next
    case barrier
    then show ?thesis using creates_barrier [OF assms(4) _ assms(3)] by (simp add: canonical_names)
  qed
qed

lemma syncctl_create_understood_witness:
  "\<exists>payload. buildCreateMessage ''semaphore'' ''s'' ''s'' 3 0 = Inr (''createSemaphore'', payload) \<and>
    may_create 2 ''default'' ''s'' ''s'' twoClients \<and>
    creates_as 0 2 ''default'' ''s'' ''s'' ''Semaphore'' 3 twoClients \<lparr>mType = ''createSemaphore'', mPayload = Some payload\<rparr>"
proof -
  have "buildCreateMessage ''semaphore'' ''s'' ''s'' 3 0 = Inr (''createSemaphore'',
      JObj [(''capacity'', JNum 3), (''id'', JStr ''s''), (''name'', JStr ''s'')])" by (simp add: buildCreateMessage_def)
  moreover have m: "may_create 2 ''default'' ''s'' ''s'' twoClients"
    by (simp add: may_create_def validatePrimID_def validatePrimName_def maxIDLen_def maxNameLen_def)
  ultimately show ?thesis using syncctl_create_understood [OF _ _ _ m, of "''semaphore''" 3 0 "''createSemaphore''" _ 0]
    by (simp add: canonical_names TypeSemaphore_def)
qed

subsection \<open>Further facts\<close>

text \<open>The list of primitives is complete and sorted by identifier.\<close>

lemma sortPrimitives_sorted:
  "sorted (map pID (sortPrimitives prims)) \<and> mset (sortPrimitives prims) = mset (map (snd \<circ> fillID) prims)"
  by (simp add: sortPrimitives_def)

text \<open>Options with one dash, which the package \<^verbatim>\<open>flag\<close> knows, are not split from their values; and a lone dash
  makes the options after it be ignored.\<close>

lemma single_dash_option:
  "parseArgs dur [''-server'', ''ws://h/ws'', ''list''] getenv = Inl (FlagMsg (NeedsArgument ''server''))"
proof -
  have "isDashed ''-server''" "\<not> flagNeedsValue ''-server''" "\<not> isDashed ''ws://h/ws''" "flagWord ''-server'' = WordFlag ''server'' None"
    by code_simp+
  then show ?thesis by (simp add: parseArgs_def globalFlags_def Let_def)
qed

lemma lone_dash_ignores_options:
  "\<exists>c. parseArgs dur [''-'', ''--json'', ''list''] getenv = Inr (c, ''list'', []) \<and> \<not> cJSON c"
proof -
  have "isDashed ''-''" "\<not> flagNeedsValue ''-''" "\<not> isDashed ''list''" "flagWord ''-'' = WordEnd" by code_simp+
  then show ?thesis by (simp add: parseArgs_def global_words flagValue_def defaultTimeout_def Let_def)
qed

text \<open>Parsing of options stops at the first argument that is none. Options behind the identifier, where the usage
  message and the examples of the README have them, are not seen: \<^verbatim>\<open>syncctl create semaphore sem-1 --capacity 5\<close> is
  refused, and \<^verbatim>\<open>syncctl op my-lock lock --hold 500\<close> does not hold.\<close>

lemma documented_create_refused:
  "runCreate dur parseTime c ses [''semaphore'', ''sem-1'', ''--capacity'', n] = failed 2 (Msg ''semaphore requires --capacity > 0'') []"
proof -
  have "flagWord ''semaphore'' = WordEnd" "ToLower ''semaphore'' = ''semaphore''" by code_simp+
  then show ?thesis by (simp add: runCreate_def flagValue_def buildCreateMessage_def Let_def)
qed

lemma hold_after_operation_ignored:
  assumes "\<not> isDashed pid"
  shows "runOp dur parseTime c ses (pid # op # options) = runOp dur parseTime c ses [pid, op]"
proof -
  have "flagWord pid = WordEnd" using assms by (cases pid) (auto simp: flagWord_def isDashed_def)
  then show ?thesis by (simp add: runOp_def)
qed

text \<open>A capacity beyond \<^verbatim>\<open>int32\<close> passes the tool and is refused by the server as an invalid payload.\<close>

lemma large_capacity_refused:
  assumes "2 ^ 31 \<le> cap"
  shows "\<exists>payload. buildCreateMessage ''semaphore'' pid name cap 0 = Inr (''createSemaphore'', payload) \<and>
    handleCreateSemaphore t conn \<lparr>mType = ''createSemaphore'', mPayload = Some payload\<rparr> s = refuse conn ''Invalid payload'' s"
proof -
  have "fieldMatches ''capacity'' ''capacity''" by code_simp
  then show ?thesis using assms
    by (simp add: buildCreateMessage_def handleCreateSemaphore_def decodeSized_def structMembers_def fieldInt32_def asInt32_def
        asIntIn_def split: option.splits)
qed

end
