(* ===== verification/ServerMain.thy ===== *)
theory ServerMain
  imports Flags ServerHTTP
begin

text \<open>
  \<^verbatim>\<open>cmd/server/main.go\<close>: the configuration from the command line, and how the program ends. The format of
  log lines (\<^verbatim>\<open>LOG_FORMAT\<close>) is left out.
\<close>

definition mainFlags :: "(string \<times> flagKind) list" where
  "mainFlags = [(''addr'', FlagString), (''allowed-origins'', FlagString), (''tls-cert'', FlagString), (''tls-key'', FlagString),
     (''api-key'', FlagString), (''jwt-secret'', FlagString), (''default-namespace'', FlagString), (''max-conns'', FlagInt),
     (''snapshot-path'', FlagString), (''audit-log-path'', FlagString), (''audit-log-max-bytes'', FlagInt),
     (''audit-log-keep-files'', FlagInt), (''disable-compression'', FlagBool)]"

definition allowedOrigins :: "string \<Rightarrow> string list" where
  "allowedOrigins s = (if s = [] then [] else filter (\<lambda>p. p \<noteq> []) (map TrimSpace (split_on (CHR '','') s)))"

definition configOf :: "(string \<times> flagVal) list \<Rightarrow> Config" where
  "configOf vs =
     (let str = (\<lambda>name. valString (flagValue vs name (VString []))); num = (\<lambda>name. valInt (flagValue vs name (VInt 0)))
      in \<lparr>AllowedOrigins = allowedOrigins (str ''allowed-origins''), TLSCertFile = str ''tls-cert'', TLSKeyFile = str ''tls-key'',
          APIKey = str ''api-key'', JWTSecret = str ''jwt-secret'',
          DefaultNamespace = valString (flagValue vs ''default-namespace'' (VString ''default'')),
          MaxConns = num ''max-conns'', SnapshotPath = str ''snapshot-path'',
          DisableCompression = valBool (flagValue vs ''disable-compression'' (VBool False)), HistogramBuckets = [],
          AuditLogPath = str ''audit-log-path'', AuditLogMaxBytes = word_of_int (num ''audit-log-max-bytes''),
          AuditLogKeepFiles = num ''audit-log-keep-files''\<rparr>)"

text \<open>\<^verbatim>\<open>flag.Parse\<close> ends the program with 2 on an error and with 0 when help is asked for. The address and the
  configuration otherwise.\<close>

definition mainArgs :: "string list \<Rightarrow> nat + string \<times> Config" where
  "mainArgs args = (case flagParse (\<lambda>_. None) mainFlags args [] of
      Inl HelpRequested \<Rightarrow> Inl 0
    | Inl e \<Rightarrow> Inl 2
    | Inr (vs, left) \<Rightarrow> Inr (valString (flagValue vs ''addr'' (VString '':8085'')), configOf vs))"

text \<open>The program waits for \<^verbatim>\<open>Start\<close> to return or for a signal. A failed start ends it with 1; else the server
  is shut down, and the program ends with 0, or with 2 where \<^verbatim>\<open>Shutdown\<close> panics.\<close>

datatype mainEvent = StartFailed string | StartReturned | Signalled

definition mainEnd :: "mainEvent \<Rightarrow> bool \<Rightarrow> Server \<Rightarrow> fileContent \<Rightarrow> nat \<times> (Server \<times> fileContent) option" where
  "mainEnd e writeFails s file = (case e of
      StartFailed err \<Rightarrow> (1, None)
    | _ \<Rightarrow> (case Shutdown writeFails s file of Inl panic \<Rightarrow> (2, None) | Inr r \<Rightarrow> (0, Some r)))"

subsection \<open>Facts\<close>

text \<open>The list of origins: what stands between the commas, without white space, and nothing empty.\<close>

lemma allowedOrigins_exact:
  "set (allowedOrigins s) = {p. p \<noteq> [] \<and> (\<exists>q \<in> set (split_on (CHR '','') s). p = TrimSpace q)}"
  by (auto simp: allowedOrigins_def TrimSpace_def)

text \<open>Without options the server listens on port 8085, asks for no authentication, and admits browsers from the
  same machine only.\<close>

lemma default_configuration:
  "\<exists>c. mainArgs [] = Inr ('':8085'', c) \<and> APIKey c = [] \<and> JWTSecret c = [] \<and> DefaultNamespace c = ''default'' \<and>
     (\<forall>origin. checkOrigin parse loopback c origin = (origin = [] \<or> isLoopbackOrigin parse loopback origin))"
  by (simp add: mainArgs_def configOf_def flagValue_def allowedOrigins_def checkOrigin_def Let_def)

text \<open>A list of commas and blanks counts as no list at all, so that it, too, admits the same machine only.\<close>

lemma blank_origins: "(\<forall>q \<in> set (split_on (CHR '','') s). TrimSpace q = []) \<Longrightarrow> allowedOrigins s = []"
  by (simp add: allowedOrigins_def filter_empty_conv)

end
