(* ===== verification/Spec2Isabelle.thy ===== *)
theory Spec2Isabelle
  imports ServerDelta ServerHTTP ServerGuarantees MSQueue ClientAnswers Syncctl ServerMain
begin

text \<open>
  Verification of a library of synchronization primitives and of the WebSocket server that offers them
  (Go; sources under \<^verbatim>\<open>src/\<close>).

  \<^bold>\<open>The program.\<close> \<^verbatim>\<open>internal/primitives\<close> implements locks, semaphores, condition variables, wait groups,
  barriers, \<^verbatim>\<open>Once\<close> and \<^verbatim>\<open>Singleflight\<close> from atomic words, one-slot channels and lock-free queues of waiters.
  \<^verbatim>\<open>internal/scheduler\<close> keeps a table of primitives and goroutines with an event log, \<^verbatim>\<open>internal/metrics\<close>
  counters and histograms, \<^verbatim>\<open>internal/audit\<close> a rotating log, \<^verbatim>\<open>internal/auth\<close> signed tokens. \<^verbatim>\<open>web/server.go\<close>
  ties them together: it admits connections, keeps the primitives of each namespace, runs the operations
  that clients request on them in goroutines, broadcasts changes, and saves snapshots. \<^verbatim>\<open>pkg/client\<close> is a
  client of it in Go, \<^verbatim>\<open>cmd/syncctl\<close> a command line client, \<^verbatim>\<open>cmd/server\<close> the program that starts it.

  \<^bold>\<open>How it is modelled.\<close> A concurrent component is a machine: a record with the shared object, the waiter
  store and the program counter of each goroutine; \<open>exec\<close> performs one atomic action of one goroutine and
  returns \<open>None\<close> where that goroutine is blocked. A method \<^verbatim>\<open>M\<close> of the source is a function \<open>M_step\<close> with one
  program counter per atomic action, loop and branch included. Clock, \<^verbatim>\<open>select\<close> choices, cancelled contexts
  and pool contents come in with every action (record \<open>inp\<close>), and theorems are about all reachable states,
  so about all schedules. Sequential components are functions on their state; code under a mutex is one
  step. Machine integers are words of their width. Panics, errors and refusals are values. No fuel is
  used: loops are structural, have a \<^theory_text>\<open>termination\<close> proof, or are single steps of a machine.

  \<^bold>\<open>Theories\<close>, in the order they build on each other:

  \<^item> \<open>Prelude\<close>: machines, runs, reachability; the locales \<open>invariant_machine\<close>, \<open>simulation\<close> and
    \<open>abstraction\<close>; \<open>sums_to\<close> for sums over goroutines. \<open>GoLib\<close>: decimal printing, splitting, channels with
    a buffer, maps; the locale \<open>registry\<close>. \<open>JsonVal\<close>: JSON values and decoding into Go structs.
  \<^item> \<open>Waiter\<close> (\<^verbatim>\<open>waiter.go\<close>): waiters, their pool and the queue at its linearization points. \<open>MSQueue\<close>: the
    lock-free queue itself, load by load, and its refinement to the queue of \<open>Waiter\<close>. \<open>Protocol\<close> and
    \<open>Waking\<close>: the discipline by which all primitives use waiters, as an abstract machine that the
    primitives refine; from it follows that no waiter is queued twice, recycled while used, or signalled
    after it was given up.
  \<^item> \<open>Mutex\<close>, \<open>CondVar\<close> (\<^verbatim>\<open>condvar.go\<close>), \<open>Semaphore\<close>, \<open>RWState\<close> and \<open>RWLock\<close>, \<open>FairQueue\<close> and \<open>FairRWLock\<close>
    (\<^verbatim>\<open>fair_waiter.go\<close>, \<^verbatim>\<open>fair_waiter_queue.go\<close>, \<^verbatim>\<open>fair_rwlock.go\<close>), \<open>WaitGroup\<close>, \<open>Barrier\<close>, \<open>Once\<close>, \<open>Singleflight\<close>:
    exclusion, conservation of permits, wakeups that are not lost, what a return of \<^verbatim>\<open>Wait\<close> or \<^verbatim>\<open>Do\<close> means,
    and runs that show where such a property fails. \<open>RWState\<close> holds the locale \<open>rw_word\<close> for the state word of
    the two reader-writer locks.
  \<^item> \<open>Scheduler\<close>, \<open>Metrics\<close>, \<open>AuditLog\<close>, \<open>JWT\<close>: the tables and their counters, draining of channels at the
    end, rotation of log files, and that a token is accepted exactly if it is signed and not expired.
  \<^item> \<open>ServerRules\<close>, \<open>ServerState\<close>, \<open>ServerHandlers\<close>: validation, roles, namespaces, rate limits; the tables of
    the server; every message handler as its critical section and the actions that follow it, so that
    handlers of different connections overlap. \<open>ServerRegistry\<close>: typing of the heap of primitives and
    agreement of the tables. \<open>ServerDelta\<close>: broadcasts and the dashboard that receives them, and that applying
    delta updates is as good as getting the full state. \<open>ServerSnapshot\<close>: saving and loading. \<open>ServerHTTP\<close>: routes, origins, admission,
    read loop, metrics text, shutdown up to the waits at its end (for the HTTP server and the audit writer).
  \<^item> \<open>ServerOps\<close>: the goroutines of \<^verbatim>\<open>handlePrimitiveOp\<close>, which call the machines of the primitives, beside
    handlers, timers and cancellations. \<open>ServerService\<close> and \<open>ServerRuns\<close>: an invariant of these goroutines
    and the effect of every step on objects and calls. \<open>ServerLocks\<close>: the locale \<open>served\<close>, the contract
    between the server and a primitive, by which every object of the server is in a state its own machine
    can reach. \<open>ServerGuarantees\<close>: exclusion, bounds, absence of crashes and exactly one answer, for the
    whole server.
  \<^item> \<open>ServerCreates\<close>: what a message must be like for the server to create a primitive, shared by its clients.
    \<open>Flags\<close>: options of the Go package \<^verbatim>\<open>flag\<close>. \<open>Syncctl\<close> (\<^verbatim>\<open>cmd/syncctl\<close>): arguments, commands, answers and exit
    codes; options round trip, exit codes tell the truth, tokens are accepted by the server. \<open>ServerMain\<close>
    (\<^verbatim>\<open>cmd/server\<close>): options, configuration, end of the program. \<open>Client\<close> (\<^verbatim>\<open>pkg/client\<close>): messages of all methods, and a
    machine of concurrent calls, read loops and \<^verbatim>\<open>Close\<close>; waiting calls are not forgotten, and runs that show the
    races of the library. \<open>ClientAnswers\<close>: when every call gets its own answer.

  \<^bold>\<open>Not from the sources.\<close> HMAC-SHA256 and the JSON texts of tokens are parameters of \<open>JWT\<close> and \<open>Syncctl\<close> with
  what the code relies on as hypotheses (the codec decodes what it encoded, for the one header in use and for
  claims whose strings are valid UTF-8: \<^verbatim>\<open>encoding/json\<close> replaces other bytes); the JSON of the audit log is a parameter of \<open>AuditLog\<close>, parsing and
  printing of durations and times are parameters of \<open>Flags\<close> and \<open>Syncctl\<close>; the outcomes of dialling, reading and
  writing come in from outside (\<open>session\<close>, \<open>cinp\<close>); \<^verbatim>\<open>sync.Mutex\<close>,
  \<^verbatim>\<open>sync.RWMutex\<close>, channels, contexts, timers and \<^verbatim>\<open>sync.Pool\<close> are modelled after their documentation.
  Atomics are sequentially consistent, as Go's memory model says.

  \<^bold>\<open>Not modelled.\<close> The listener, TLS, WebSocket frames, pings, deadlines and compression are input and
  output of the network; log lines (\<^verbatim>\<open>slog\<close>) and the text rendering of statistics (\<^verbatim>\<open>String\<close> methods) have no
  effect on the state; the front end \<^verbatim>\<open>web/static\<close> is another language (only what \<^verbatim>\<open>handleInitialState\<close> and
  \<^verbatim>\<open>handleUpdate\<close> of \<^verbatim>\<open>app.js\<close> keep of the messages is taken from it, as the other side of delta updates); the programs under \<^verbatim>\<open>examples\<close> only call the library and print.
\<close>

end
